(* ===== verification/Prelude.thy ===== *)
theory Prelude
  imports
    Main
    "HOL-Library.Word"
    "HOL-Library.Monad_Syntax"
    "HOL-Library.Char_ord"
    "HOL-Library.List_Lexorder"
begin

text \<open>
  Shared vocabulary of the development.

  \<^item> Unsigned C++ integers that only count or address (\<open>unsigned\<close>, \<open>FileIndex\<close>,
    \<open>unsigned long long\<close>) are \<open>nat\<close> with the reduction modulo the width written out by
    \<open>u16\<close>, \<open>u32\<close>, \<open>u64\<close>, \<open>sub32\<close> and \<open>sub64\<close> wherever an operation can wrap;
    bytes and the values the code treats bitwise are machine words.
  \<^item> An execution that leaves the defined behaviour of C++ (a failed \<open>assert\<close>, a null
    dereference, an access outside an array) or that never returns is \<open>None\<close>; a
    \<open>Status\<close> reported by the code is an ordinary value.
  \<^item> \<open>overlay\<close> is what \<open>memcpy\<close> into an array and an overwriting \<open>write\<close> into a
    file do to the bytes already there.
\<close>

type_synonym byte = "8 word"

named_theorems wrap_simps "reductions modulo the integer widths that do not wrap"
named_theorems overlay_simps "length and content of an overlaid byte list"

subsection \<open>Unsigned arithmetic with its wrap-around\<close>

definition u16 :: "nat \<Rightarrow> nat" where
  "u16 n = n mod 65536"

definition u32 :: "nat \<Rightarrow> nat" where
  "u32 n = n mod 4294967296"

definition u64 :: "nat \<Rightarrow> nat" where
  "u64 n = n mod 18446744073709551616"

definition sub32 :: "nat \<Rightarrow> nat \<Rightarrow> nat" where
  "sub32 a b = u32 (a + (4294967296 - u32 b))"

definition sub64 :: "nat \<Rightarrow> nat \<Rightarrow> nat" where
  "sub64 a b = u64 (a + (18446744073709551616 - u64 b))"

lemma u16_id [wrap_simps]: "n < 65536 \<Longrightarrow> u16 n = n"
  by (simp add: u16_def)

lemma u32_id [wrap_simps]: "n < 4294967296 \<Longrightarrow> u32 n = n"
  by (simp add: u32_def)

lemma u64_id [wrap_simps]: "n < 18446744073709551616 \<Longrightarrow> u64 n = n"
  by (simp add: u64_def)

lemma u32_less [simp]: "u32 n < 4294967296"
  by (simp add: u32_def)

lemma u64_less [simp]: "u64 n < 18446744073709551616"
  by (simp add: u64_def)

lemma sub32_id [wrap_simps]:
  assumes "b \<le> a" "a < 4294967296" shows "sub32 a b = a - b"
proof -
  from assms have "a + (4294967296 - u32 b) = (a - b) + 4294967296"
    by (simp add: u32_def)
  then have "sub32 a b = u32 ((a - b) + 4294967296)"
    by (simp only: sub32_def)
  also have "\<dots> = u32 (a - b)"
    unfolding u32_def by (rule mod_add_self2)
  finally show ?thesis using assms by (simp add: u32_def)
qed

lemma sub64_id [wrap_simps]:
  assumes "b \<le> a" "a < 18446744073709551616" shows "sub64 a b = a - b"
proof -
  from assms have "a + (18446744073709551616 - u64 b) = (a - b) + 18446744073709551616"
    by (simp add: u64_def)
  then have "sub64 a b = u64 ((a - b) + 18446744073709551616)"
    by (simp only: sub64_def)
  also have "\<dots> = u64 (a - b)"
    unfolding u64_def by (rule mod_add_self2)
  finally show ?thesis using assms by (simp add: u64_def)
qed

lemma sub32_wraps: "a < b \<Longrightarrow> b < 4294967296 \<Longrightarrow> sub32 a b = a + 4294967296 - b"
  by (simp add: sub32_def u32_def)

subsection \<open>Assertions\<close>

definition assertion :: "bool \<Rightarrow> unit option" where
  "assertion b = (if b then Some () else None)"

lemma assertion_simps [simp]: "assertion True = Some ()" "assertion False = None"
  by (simp_all add: assertion_def)

lemma assertion_eq_Some [simp]: "assertion b = Some x \<longleftrightarrow> b"
  by (simp add: assertion_def)

lemma assertion_ok [simp]: "b \<Longrightarrow> assertion b = Some ()"
  by simp

subsection \<open>Overwriting part of a byte list\<close>

definition overlay :: "'a list \<Rightarrow> nat \<Rightarrow> 'a list \<Rightarrow> 'a list" where
  "overlay xs i ys = take i xs @ ys @ drop (i + length ys) xs"

lemma overlay_Nil [simp]: "overlay xs i [] = xs"
  by (simp add: overlay_def)

lemma length_overlay [overlay_simps]:
  "i \<le> length xs \<Longrightarrow> length (overlay xs i ys) = max (length xs) (i + length ys)"
  by (simp add: overlay_def)

lemma length_overlay_inside [simp]:
  "i + length ys \<le> length xs \<Longrightarrow> length (overlay xs i ys) = length xs"
  by (simp add: overlay_def)

lemma nth_overlay [overlay_simps]:
  "i \<le> length xs \<Longrightarrow> j < max (length xs) (i + length ys) \<Longrightarrow>
   overlay xs i ys ! j = (if i \<le> j \<and> j < i + length ys then ys ! (j - i) else xs ! j)"
  by (auto simp: overlay_def nth_append min_def)

lemma overlay_append_end [simp]: "overlay xs (length xs) ys = xs @ ys"
  by (simp add: overlay_def)

lemma take_overlay [overlay_simps]:
  "i \<le> length xs \<Longrightarrow> j \<le> i \<Longrightarrow> take j (overlay xs i ys) = take j xs"
  by (simp add: overlay_def min_def)

lemma drop_overlay [overlay_simps]:
  "i \<le> length xs \<Longrightarrow> i + length ys \<le> j \<Longrightarrow> drop j (overlay xs i ys) = drop j xs"
  by (simp add: overlay_def min_def)

lemma take_drop_overlay [overlay_simps]:
  "i \<le> length xs \<Longrightarrow> take (length ys) (drop i (overlay xs i ys)) = ys"
  by (simp add: overlay_def)

lemma overlay_overlay_adjacent [overlay_simps]:
  "i \<le> length xs \<Longrightarrow>
   overlay (overlay xs i ys) (i + length ys) zs = overlay xs i (ys @ zs)"
  by (simp add: overlay_def min_def ac_simps)

lemma overlay_append_left:
  "i + length ys \<le> length xs \<Longrightarrow> overlay (xs @ zs) i ys = overlay xs i ys @ zs"
  by (simp add: overlay_def)

subsection \<open>Characters and decimal text\<close>

definition byte_of_char :: "char \<Rightarrow> byte" where
  "byte_of_char c = word_of_nat (of_char c)"

definition char_of_byte :: "byte \<Rightarrow> char" where
  "char_of_byte b = char_of (unat b)"

lemma char_of_byte_of_char [simp]: "char_of_byte (byte_of_char c) = c"
proof -
  have "of_char c < (256 :: nat)"
    using nat_of_char_less_256 by blast
  then show ?thesis
    by (simp add: char_of_byte_def byte_of_char_def unat_of_nat)
qed

lemma byte_of_char_of_byte [simp]: "byte_of_char (char_of_byte b) = b"
proof -
  have "unat b < 256"
    using unsigned_less [of b] by simp
  then show ?thesis
    by (simp add: char_of_byte_def byte_of_char_def of_char_of)
qed

lemma byte_of_char_inj: "inj byte_of_char"
  by (metis char_of_byte_of_char injI)

text \<open>An unsigned value as \<open>operator<<\<close> of a stream prints it.\<close>

fun dec_string :: "nat \<Rightarrow> string" where
  "dec_string n = (if n < 10 then [char_of (48 + n)] else dec_string (n div 10) @ [char_of (48 + n mod 10)])"

declare dec_string.simps [simp del]

subsection \<open>The first element with a property\<close>

lemma find_split:
  assumes "find P xs = Some x"
  obtains l r where "xs = l @ x # r" "P x" "\<forall>y \<in> set l. \<not> P y"
proof -
  from assms have "\<exists>l r. xs = l @ x # r \<and> P x \<and> (\<forall>y \<in> set l. \<not> P y)"
  proof (induction xs)
    case (Cons a xs)
    show ?case
    proof (cases "P a")
      case False
      with Cons obtain l r where "xs = l @ x # r" "P x" "\<forall>y \<in> set l. \<not> P y" by auto
      with False show ?thesis by (intro exI [of _ "a # l"] exI [of _ r]) simp
    qed (use Cons.prems in \<open>intro exI [of _ "[]"] exI [of _ xs], simp\<close>)
  qed simp
  with that show ?thesis by blast
qed

end
