(* ===== verification/Ordered_Map.thy ===== *)
theory Ordered_Map
  imports Prelude
begin

text \<open>
  \<open>std::map\<close>: the entries in ascending key order. An iterator is the key it stands on, or
  \<open>None\<close> for \<open>end()\<close>, which is what the standard guarantees of \<open>std::map\<close> iterators: they
  stay valid while other entries are inserted or erased.
\<close>

type_synonym ('k, 'v) omap = "('k \<times> 'v) list"

subsection \<open>Operations\<close>

fun om_find :: "'k \<Rightarrow> ('k, 'v) omap \<Rightarrow> 'v option" where
  "om_find k [] = None"
| "om_find k ((a, b) # m) = (if a = k then Some b else om_find k m)"

text \<open>\<open>insert\<close> keeps an existing entry, as \<open>std::map::insert\<close> does.\<close>

fun om_insert :: "'k::linorder \<Rightarrow> 'v \<Rightarrow> ('k, 'v) omap \<Rightarrow> ('k, 'v) omap" where
  "om_insert k v [] = [(k, v)]"
| "om_insert k v ((a, b) # m) =
     (if k < a then (k, v) # (a, b) # m
      else if k = a then (a, b) # m
      else (a, b) # om_insert k v m)"

text \<open>Assignment through an iterator (\<open>pos->second = v\<close>).\<close>

fun om_assign :: "'k \<Rightarrow> 'v \<Rightarrow> ('k, 'v) omap \<Rightarrow> ('k, 'v) omap" where
  "om_assign k v [] = []"
| "om_assign k v ((a, b) # m) = (if a = k then (a, v) # m else (a, b) # om_assign k v m)"

fun om_erase :: "'k \<Rightarrow> ('k, 'v) omap \<Rightarrow> ('k, 'v) omap" where
  "om_erase k [] = []"
| "om_erase k ((a, b) # m) = (if a = k then m else (a, b) # om_erase k m)"

text \<open>The first key that is not below, and the first key above.\<close>

fun om_lower_bound :: "'k::linorder \<Rightarrow> ('k, 'v) omap \<Rightarrow> 'k option" where
  "om_lower_bound k [] = None"
| "om_lower_bound k ((a, b) # m) = (if a < k then om_lower_bound k m else Some a)"

fun om_upper_bound :: "'k::linorder \<Rightarrow> ('k, 'v) omap \<Rightarrow> 'k option" where
  "om_upper_bound k [] = None"
| "om_upper_bound k ((a, b) # m) = (if a \<le> k then om_upper_bound k m else Some a)"

definition om_begin :: "('k, 'v) omap \<Rightarrow> 'k option" where
  "om_begin m = (case m of [] \<Rightarrow> None | (a, b) # _ \<Rightarrow> Some a)"

fun om_next :: "'k \<Rightarrow> ('k, 'v) omap \<Rightarrow> 'k option" where
  "om_next k [] = None"
| "om_next k ((a, b) # m) = (if a = k then om_begin m else om_next k m)"

text \<open>
  \<open>--it\<close>: from \<open>end()\<close> to the last entry, from an entry to the one before it. On
  \<open>begin()\<close>, and on \<open>end()\<close> of an empty map, it is undefined behaviour.
\<close>

fun om_before :: "'k \<Rightarrow> ('k, 'v) omap \<Rightarrow> 'k option" where
  "om_before k [] = None"
| "om_before k [p] = None"
| "om_before k ((a, b) # (c, d) # m) = (if c = k then Some a else om_before k ((c, d) # m))"

definition om_prev :: "'k option \<Rightarrow> ('k, 'v) omap \<Rightarrow> 'k option" where
  "om_prev it m =
     (case it of
        None \<Rightarrow> (if m = [] then None else Some (fst (last m)))
      | Some k \<Rightarrow> om_before k m)"

subsection \<open>The order invariant and look-up laws\<close>

abbreviation om_sorted :: "('k::linorder, 'v) omap \<Rightarrow> bool" where
  "om_sorted m \<equiv> sorted_wrt (<) (map fst m)"

abbreviation om_keys :: "('k, 'v) omap \<Rightarrow> 'k set" where
  "om_keys m \<equiv> fst ` set m"

lemma om_find_None_iff [simp]: "om_find k m = None \<longleftrightarrow> k \<notin> om_keys m"
  by (induction k m rule: om_find.induct) auto

lemma om_find_SomeD: "om_find k m = Some v \<Longrightarrow> (k, v) \<in> set m"
  by (induction k m rule: om_find.induct) (auto split: if_splits)

lemma om_find_Some_iff:
  "om_sorted m \<Longrightarrow> om_find k m = Some v \<longleftrightarrow> (k, v) \<in> set m"
  by (induction k m rule: om_find.induct) (auto simp: rev_image_eqI)

lemma om_keys_insert [simp]: "om_keys (om_insert k v m) = insert k (om_keys m)"
  by (induction k v m rule: om_insert.induct) auto

lemma om_sorted_insert: "om_sorted m \<Longrightarrow> om_sorted (om_insert k v m)"
proof (induction k v m rule: om_insert.induct)
  case (2 k v a b m)
  have "\<forall>x \<in> om_keys (om_insert k v m). a < x" if "a < k"
    using 2(2) that by auto
  with 2 show ?case by auto
qed simp

lemma om_find_insert:
  "om_sorted m \<Longrightarrow>
   om_find k' (om_insert k v m) =
     (if k' = k \<and> k \<notin> om_keys m then Some v else om_find k' m)"
  by (induction k v m rule: om_insert.induct) (force split: if_splits)+

lemma om_set_insert:
  "om_sorted m \<Longrightarrow> k \<notin> om_keys m \<Longrightarrow> set (om_insert k v m) = insert (k, v) (set m)"
  by (induction k v m rule: om_insert.induct) auto

lemma om_insert_present: "om_sorted m \<Longrightarrow> k \<in> om_keys m \<Longrightarrow> om_insert k v m = m"
  by (induction k v m rule: om_insert.induct) auto

lemma map_fst_om_assign [simp]: "map fst (om_assign k v m) = map fst m"
  by (induction k v m rule: om_assign.induct) auto

lemma om_keys_assign [simp]: "om_keys (om_assign k v m) = om_keys m"
  by (metis list.set_map map_fst_om_assign)

lemma om_find_assign:
  "om_find k' (om_assign k v m) =
     (if k' = k \<and> k \<in> om_keys m then Some v else om_find k' m)"
  by (induction k v m rule: om_assign.induct) (force split: if_splits)+

lemma om_erase_absent: "k \<notin> om_keys m \<Longrightarrow> om_erase k m = m"
  by (induction k m rule: om_erase.induct) auto

lemma set_om_erase: "om_sorted m \<Longrightarrow> set (om_erase k m) = {p \<in> set m. fst p \<noteq> k}"
  by (induction k m rule: om_erase.induct) force+

lemma om_keys_erase: "om_sorted m \<Longrightarrow> om_keys (om_erase k m) = om_keys m - {k}"
  by (auto simp: set_om_erase)

lemma om_sorted_erase: "om_sorted m \<Longrightarrow> om_sorted (om_erase k m)"
  by (induction k m rule: om_erase.induct) (auto simp: set_om_erase)

lemma om_find_erase:
  "om_sorted m \<Longrightarrow> om_find k' (om_erase k m) = (if k' = k then None else om_find k' m)"
  by (induction k m rule: om_erase.induct) force+

lemma om_lower_bound_None: "om_lower_bound k m = None \<longleftrightarrow> (\<forall>a \<in> om_keys m. a < k)"
  by (induction k m rule: om_lower_bound.induct) auto

lemma om_lower_bound_Some:
  "om_sorted m \<Longrightarrow> om_lower_bound k m = Some a \<longleftrightarrow>
     a \<in> om_keys m \<and> k \<le> a \<and> (\<forall>c \<in> om_keys m. k \<le> c \<longrightarrow> a \<le> c)"
  by (induction k m rule: om_lower_bound.induct) force+

lemma om_upper_bound_None: "om_upper_bound k m = None \<longleftrightarrow> (\<forall>a \<in> om_keys m. a \<le> k)"
  by (induction k m rule: om_upper_bound.induct) auto

lemma om_upper_bound_Some:
  "om_sorted m \<Longrightarrow> om_upper_bound k m = Some a \<longleftrightarrow>
     a \<in> om_keys m \<and> k < a \<and> (\<forall>c \<in> om_keys m. k < c \<longrightarrow> a \<le> c)"
  by (induction k m rule: om_upper_bound.induct) force+

subsection \<open>A map as its prefix, an entry and its suffix\<close>

lemma om_split:
  assumes "k \<in> om_keys m"
  obtains l v r where "m = l @ (k, v) # r" "k \<notin> om_keys l"
proof -
  from assms obtain v l r where "m = l @ (k, v) # r" "\<forall>p \<in> set l. fst p \<noteq> k"
    using split_list_first_prop [of m "\<lambda>p. fst p = k"] by fastforce
  then show ?thesis using that by fastforce
qed

lemma om_sorted_append:
  "om_sorted (l @ r) \<longleftrightarrow>
     om_sorted l \<and> om_sorted r \<and> (\<forall>a \<in> om_keys l. \<forall>b \<in> om_keys r. a < b)"
  by (auto simp: sorted_wrt_append)

lemma om_sorted_mid:
  "om_sorted (l @ (k, v) # r) \<longleftrightarrow>
     om_sorted l \<and> om_sorted r \<and> (\<forall>a \<in> om_keys l. a < k) \<and> (\<forall>b \<in> om_keys r. k < b) \<and>
     (\<forall>a \<in> om_keys l. \<forall>b \<in> om_keys r. a < b)"
  by (auto simp: sorted_wrt_append)

lemma om_find_mid: "k \<notin> om_keys l \<Longrightarrow> om_find k (l @ (k, v) # r) = Some v"
  by (induction l) auto

lemma om_erase_mid: "k \<notin> om_keys l \<Longrightarrow> om_erase k (l @ (k, v) # r) = l @ r"
  by (induction l) auto

lemma om_assign_mid: "k \<notin> om_keys l \<Longrightarrow> om_assign k w (l @ (k, v) # r) = l @ (k, w) # r"
  by (induction l) auto

lemma om_next_mid: "k \<notin> om_keys l \<Longrightarrow> om_next k (l @ (k, v) # r) = om_begin r"
  by (induction l) auto

lemma om_insert_mid:
  "om_sorted (l @ r) \<Longrightarrow> (\<forall>a \<in> om_keys l. a < k) \<Longrightarrow> (\<forall>b \<in> om_keys r. k < b) \<Longrightarrow>
   om_insert k v (l @ r) = l @ (k, v) # r"
  by (induction l; cases r) auto

lemma om_before_absent: "k \<notin> om_keys m \<Longrightarrow> om_before k m = None"
  by (induction k m rule: om_before.induct) auto

lemma om_before_mid:
  "k \<notin> om_keys l \<Longrightarrow> k \<notin> om_keys r \<Longrightarrow>
   om_before k (l @ (k, v) # r) = (if l = [] then None else Some (fst (last l)))"
proof (induction l rule: induct_list012)
  case 1
  then show ?case by (cases r) (auto simp: om_before_absent)
qed (auto split: prod.splits)

lemma om_lower_bound_mid:
  "(\<forall>a \<in> om_keys l. a < k) \<Longrightarrow> (\<forall>b \<in> om_keys r. k \<le> b) \<Longrightarrow>
   om_lower_bound k (l @ r) = om_begin r"
  by (induction l; cases r) (auto simp: om_begin_def)

lemma om_upper_bound_mid:
  "(\<forall>a \<in> om_keys l. a \<le> k) \<Longrightarrow> (\<forall>b \<in> om_keys r. k < b) \<Longrightarrow>
   om_upper_bound k (l @ r) = om_begin r"
  by (induction l; cases r) (auto simp: om_begin_def)

lemmas om_mid_simps =
  om_find_mid om_erase_mid om_assign_mid om_next_mid om_before_mid

end
