(* ===== verification/Crc.thy ===== *)
theory Crc
  imports Prelude
begin

unbundle bit_operations_syntax

text \<open>
  The CRC of \<open>chunk_header.cpp\<close>: the 256-entry table, the byte-at-a-time loop of
  \<open>ChunkHeader::calculateCrc\<close>, the bit-serial Galois register the README specifies
  (generator \<open>x^16 + x^15 + x^2 + 1\<close>, bits shifted in MSB first), and what the check
  detects.
\<close>

type_synonym running_crc = "16 word"

subsection \<open>The table-driven routine\<close>

definition crcTable :: "running_crc list" where
  "crcTable = [
    0x0000, 0x8005, 0x800F, 0x000A, 0x801B, 0x001E, 0x0014, 0x8011,
    0x8033, 0x0036, 0x003C, 0x8039, 0x0028, 0x802D, 0x8027, 0x0022,
    0x8063, 0x0066, 0x006C, 0x8069, 0x0078, 0x807D, 0x8077, 0x0072,
    0x0050, 0x8055, 0x805F, 0x005A, 0x804B, 0x004E, 0x0044, 0x8041,
    0x80C3, 0x00C6, 0x00CC, 0x80C9, 0x00D8, 0x80DD, 0x80D7, 0x00D2,
    0x00F0, 0x80F5, 0x80FF, 0x00FA, 0x80EB, 0x00EE, 0x00E4, 0x80E1,
    0x00A0, 0x80A5, 0x80AF, 0x00AA, 0x80BB, 0x00BE, 0x00B4, 0x80B1,
    0x8093, 0x0096, 0x009C, 0x8099, 0x0088, 0x808D, 0x8087, 0x0082,
    0x8183, 0x0186, 0x018C, 0x8189, 0x0198, 0x819D, 0x8197, 0x0192,
    0x01B0, 0x81B5, 0x81BF, 0x01BA, 0x81AB, 0x01AE, 0x01A4, 0x81A1,
    0x01E0, 0x81E5, 0x81EF, 0x01EA, 0x81FB, 0x01FE, 0x01F4, 0x81F1,
    0x81D3, 0x01D6, 0x01DC, 0x81D9, 0x01C8, 0x81CD, 0x81C7, 0x01C2,
    0x0140, 0x8145, 0x814F, 0x014A, 0x815B, 0x015E, 0x0154, 0x8151,
    0x8173, 0x0176, 0x017C, 0x8179, 0x0168, 0x816D, 0x8167, 0x0162,
    0x8123, 0x0126, 0x012C, 0x8129, 0x0138, 0x813D, 0x8137, 0x0132,
    0x0110, 0x8115, 0x811F, 0x011A, 0x810B, 0x010E, 0x0104, 0x8101,
    0x8303, 0x0306, 0x030C, 0x8309, 0x0318, 0x831D, 0x8317, 0x0312,
    0x0330, 0x8335, 0x833F, 0x033A, 0x832B, 0x032E, 0x0324, 0x8321,
    0x0360, 0x8365, 0x836F, 0x036A, 0x837B, 0x037E, 0x0374, 0x8371,
    0x8353, 0x0356, 0x035C, 0x8359, 0x0348, 0x834D, 0x8347, 0x0342,
    0x03C0, 0x83C5, 0x83CF, 0x03CA, 0x83DB, 0x03DE, 0x03D4, 0x83D1,
    0x83F3, 0x03F6, 0x03FC, 0x83F9, 0x03E8, 0x83ED, 0x83E7, 0x03E2,
    0x83A3, 0x03A6, 0x03AC, 0x83A9, 0x03B8, 0x83BD, 0x83B7, 0x03B2,
    0x0390, 0x8395, 0x839F, 0x039A, 0x838B, 0x038E, 0x0384, 0x8381,
    0x0280, 0x8285, 0x828F, 0x028A, 0x829B, 0x029E, 0x0294, 0x8291,
    0x82B3, 0x02B6, 0x02BC, 0x82B9, 0x02A8, 0x82AD, 0x82A7, 0x02A2,
    0x82E3, 0x02E6, 0x02EC, 0x82E9, 0x02F8, 0x82FD, 0x82F7, 0x02F2,
    0x02D0, 0x82D5, 0x82DF, 0x02DA, 0x82CB, 0x02CE, 0x02C4, 0x82C1,
    0x8243, 0x0246, 0x024C, 0x8249, 0x0258, 0x825D, 0x8257, 0x0252,
    0x0270, 0x8275, 0x827F, 0x027A, 0x826B, 0x026E, 0x0264, 0x8261,
    0x0220, 0x8225, 0x822F, 0x022A, 0x823B, 0x023E, 0x0234, 0x8231,
    0x8213, 0x0216, 0x021C, 0x8219, 0x0208, 0x820D, 0x8207, 0x0202]"

definition crc_step :: "running_crc \<Rightarrow> byte \<Rightarrow> running_crc" where
  "crc_step currentCrc data =
     (push_bit 8 currentCrc OR ucast data) XOR (crcTable ! unat (drop_bit 8 currentCrc))"

fun calculateCrc :: "running_crc \<Rightarrow> byte list \<Rightarrow> running_crc" where
  "calculateCrc currentCrc [] = currentCrc"
| "calculateCrc currentCrc (b # bs) = calculateCrc (crc_step currentCrc b) bs"

subsection \<open>The bit-serial register of the specification\<close>

definition crc_shift :: "running_crc \<Rightarrow> bool \<Rightarrow> running_crc" where
  "crc_shift c d =
     (push_bit 1 c OR of_bool d) XOR (if bit c 15 then 0x8005 else 0)"

definition byte_bits :: "byte \<Rightarrow> bool list" where
  "byte_bits b = map (bit b) [7, 6, 5, 4, 3, 2, 1, 0]"

fun crc_serial :: "running_crc \<Rightarrow> bool list \<Rightarrow> running_crc" where
  "crc_serial c [] = c"
| "crc_serial c (d # ds) = crc_serial (crc_shift c d) ds"

subsection \<open>The register is linear over GF(2)\<close>

lemma bit_times_two_word: "bit (c * 2 :: 'a::len word) n \<longleftrightarrow> n < LENGTH('a) \<and> n \<noteq> 0 \<and> bit c (n - 1)"
  by (metis bit_double_iff mult.commute possible_bit_word)

lemma bit_crc_shift:
  "bit (crc_shift c d) n \<longleftrightarrow>
     n < 16 \<and> ((if n = 0 then d else bit c (n - 1)) \<noteq> (bit c 15 \<and> n \<in> {0, 2, 15}))"
proof -
  have "(0x8005 :: running_crc) = push_bit 0 1 OR push_bit 2 1 OR push_bit 15 1"
    by simp
  then have "bit (0x8005 :: running_crc) n \<longleftrightarrow> n \<in> {0, 2, 15}"
    by (simp only: bit_or_iff bit_push_bit_iff bit_1_iff) auto
  then show ?thesis
    by (auto simp: crc_shift_def bit_times_two_word bit_simps)
qed

lemma crc_shift_xor:
  "crc_shift (c XOR c') (d \<noteq> d') = crc_shift c d XOR crc_shift c' d'"
  by (rule bit_word_eqI) (auto simp: bit_crc_shift bit_xor_iff)

definition bits_xor :: "bool list \<Rightarrow> bool list \<Rightarrow> bool list" where
  "bits_xor = map2 (\<lambda>d e. d \<noteq> e)"

lemma bits_xor_simps [simp]:
  "bits_xor [] ys = []" "bits_xor (x # xs) (y # ys) = (x \<noteq> y) # bits_xor xs ys"
  by (simp_all add: bits_xor_def)

lemma length_bits_xor [simp]: "length xs = length ys \<Longrightarrow> length (bits_xor xs ys) = length xs"
  by (simp add: bits_xor_def)

lemma bits_xor_same: "bits_xor xs xs = replicate (length xs) False"
  by (induction xs) auto

lemma crc_serial_xor:
  "length ds = length es \<Longrightarrow>
   crc_serial (c XOR c') (bits_xor ds es) = crc_serial c ds XOR crc_serial c' es"
proof (induction ds es arbitrary: c c' rule: list_induct2)
  case (Cons d ds e es)
  have "crc_shift (c XOR c') (d \<noteq> e) = crc_shift c d XOR crc_shift c' e"
    by (rule crc_shift_xor)
  with Cons.IH [of "crc_shift c d" "crc_shift c' e"] show ?case
    by (simp only: bits_xor_simps crc_serial.simps)
qed simp

lemma crc_serial_append: "crc_serial c (xs @ ys) = crc_serial (crc_serial c xs) ys"
  by (induction xs arbitrary: c) auto

lemma crc_shift_eq_0: "crc_shift c False = 0 \<longleftrightarrow> c = 0"
proof
  assume "crc_shift c False = 0"
  then have *: "\<not> bit (crc_shift c False) n" for n by simp
  from * [of 0] have "\<not> bit c 15" by (simp add: bit_crc_shift)
  have "\<not> bit c n" for n
  proof (cases "n < 15")
    case True
    with * [of "Suc n"] \<open>\<not> bit c 15\<close> show ?thesis by (simp add: bit_crc_shift)
  next
    case False
    with \<open>\<not> bit c 15\<close> show ?thesis
      using bit_imp_le_length [of c n] by (cases "n = 15") auto
  qed
  then show "c = 0" by (intro bit_word_eqI) simp
qed (simp add: crc_shift_def)

lemma crc_serial_eq_0: "crc_serial c (replicate n False) = 0 \<longleftrightarrow> c = 0"
  by (induction n arbitrary: c) (simp_all add: crc_shift_eq_0)

subsection \<open>Short inputs are shifted in unchanged\<close>

lemma crc_serial_short:
  assumes "\<forall>n \<ge> k. \<not> bit c n" "k + length ds \<le> 16"
  shows "bit (crc_serial c ds) n \<longleftrightarrow>
    (if n < length ds then rev ds ! n else bit c (n - length ds) \<and> n < 16)"
  using assms
proof (induction ds arbitrary: c k)
  case Nil
  then show ?case by (auto dest: bit_imp_le_length)
next
  case (Cons d ds)
  from Cons.prems have "\<not> bit c 15" by simp
  then have shift: "bit (crc_shift c d) n \<longleftrightarrow> n < 16 \<and> (if n = 0 then d else bit c (n - 1))" for n
    by (simp add: bit_crc_shift)
  with Cons.prems have "\<forall>n \<ge> Suc k. \<not> bit (crc_shift c d) n"
    by auto
  with Cons.IH [of "Suc k" "crc_shift c d"] Cons.prems(2) show ?case
    by (auto simp: shift nth_append Suc_diff_le not_less less_Suc_eq)
qed

lemma crc_serial_0_inj:
  assumes "length ds = length es" "length ds \<le> 16" "crc_serial 0 ds = crc_serial 0 es"
  shows "ds = es"
proof -
  have "rev ds ! n = rev es ! n" if "n < length ds" for n
    using crc_serial_short [of 0 0 ds n] crc_serial_short [of 0 0 es n] assms that by simp
  with assms(1) have "rev ds = rev es"
    by (intro nth_equalityI) simp_all
  then show ?thesis by simp
qed

subsection \<open>The table holds the register's response to every leading byte\<close>

definition crc_response :: "running_crc \<Rightarrow> running_crc" where
  "crc_response h = crc_serial (push_bit 8 h) (replicate 8 False)"

lemma crc_response_xor: "crc_response (g XOR h) = crc_response g XOR crc_response h"
proof -
  have "bits_xor (replicate 8 False) (replicate 8 False) = replicate 8 False"
    by (simp add: bits_xor_same)
  moreover have "push_bit 8 (g XOR h) = push_bit 8 g XOR push_bit 8 h"
    by (rule push_bit_xor)
  ultimately show ?thesis
    unfolding crc_response_def by (metis crc_serial_xor)
qed

text \<open>The table doubled bit by bit: the responses of \<open>2^k .. 2^(k+1)-1\<close> follow from those below.\<close>

fun response_table :: "nat \<Rightarrow> running_crc list" where
  "response_table 0 = [0]"
| "response_table (Suc k) =
     response_table k @ map (\<lambda>r. crc_response (2 ^ k) XOR r) (response_table k)"

lemma length_response_table [simp]: "length (response_table k) = 2 ^ k"
  by (induction k) auto

lemma word_of_nat_add_power:
  assumes "j < 2 ^ k"
  shows "(word_of_nat (2 ^ k + j) :: running_crc) = 2 ^ k XOR word_of_nat j"
proof -
  have "\<not> bit j k"
    using assms by (simp add: bit_iff_odd div_less)
  then have "(2 ^ k) AND j = 0"
    by (auto intro!: bit_eqI simp: bit_and_iff bit_exp_iff)
  then have "2 ^ k + j = 2 ^ k XOR j"
    by (rule disjunctive_add_eq_xor)
  then show ?thesis
    by (auto intro!: bit_word_eqI simp: bit_simps)
qed

lemma response_table_nth:
  "i < 2 ^ k \<Longrightarrow> response_table k ! i = crc_response (word_of_nat i)"
proof (induction k arbitrary: i)
  case 0
  have "crc_response 0 = 0"
    by (simp add: crc_response_def crc_serial_eq_0)
  with 0 show ?case by simp
next
  case (Suc k)
  show ?case
  proof (cases "i < 2 ^ k")
    case True
    with Suc.IH show ?thesis by (simp add: nth_append)
  next
    case False
    define j where "j = i - 2 ^ k"
    with False Suc.prems have j: "i = 2 ^ k + j" "j < 2 ^ k" by auto
    with Suc.IH [of j] show ?thesis
      by (simp add: nth_append word_of_nat_add_power crc_response_xor del: of_nat_add)
  qed
qed

lemma crc_response_powers:
  "crc_response 1 = 0x8005" "crc_response 2 = 0x800F" "crc_response 4 = 0x801B"
  "crc_response 8 = 0x8033" "crc_response 16 = 0x8063" "crc_response 32 = 0x80C3"
  "crc_response 64 = 0x8183" "crc_response 128 = 0x8303"
  by code_simp+

lemma response_table_8: "response_table 8 = crcTable"
  by (simp add: crcTable_def eval_nat_numeral crc_response_powers)

lemma crcTable_nth: "crcTable ! unat (h :: byte) = crc_response (ucast h)"
proof -
  have "unat h < 2 ^ 8"
    using unsigned_less [of h] by simp
  then show ?thesis
    using response_table_nth [of "unat h" 8] by (simp add: response_table_8 unsigned_ucast_eq)
qed

subsection \<open>The routine computes the register\<close>

lemma length_byte_bits [simp]: "length (byte_bits b) = 8"
  by (simp add: byte_bits_def)

lemma rev_byte_bits_nth: "n < 8 \<Longrightarrow> rev (byte_bits b) ! n = bit b n"
  by (auto simp: byte_bits_def less_Suc_eq numeral_eq_Suc)

lemma crc_serial_low:
  "crc_serial (take_bit 8 c) (byte_bits b) = push_bit 8 c OR ucast b"
proof (rule bit_word_eqI)
  fix n assume "n < LENGTH(16)"
  moreover have "bit (crc_serial (take_bit 8 c) (byte_bits b)) n \<longleftrightarrow>
    (if n < 8 then bit b n else bit (take_bit 8 c) (n - 8) \<and> n < 16)"
    by (subst crc_serial_short [where k = 8]) (simp_all add: rev_byte_bits_nth bit_take_bit_iff)
  ultimately show "bit (crc_serial (take_bit 8 c) (byte_bits b)) n \<longleftrightarrow>
    bit (push_bit 8 c OR ucast b) n"
    by (auto simp: bit_simps dest: bit_imp_le_length)
qed

lemma crc_step_serial: "crc_step c b = crc_serial c (byte_bits b)"
proof -
  have c: "c = push_bit 8 (drop_bit 8 c) XOR take_bit 8 c"
    by (rule bit_word_eqI) (auto simp: bit_simps)
  have "byte_bits b = bits_xor (replicate 8 False) (byte_bits b)"
    by (simp add: byte_bits_def eval_nat_numeral)
  then have "crc_serial c (byte_bits b) =
      crc_response (drop_bit 8 c) XOR crc_serial (take_bit 8 c) (byte_bits b)"
    unfolding crc_response_def by (metis c crc_serial_xor length_byte_bits length_replicate)
  moreover have "crcTable ! unat (drop_bit 8 c) = crc_response (drop_bit 8 c)"
  proof -
    define h :: byte where "h = ucast (drop_bit 8 c)"
    have h: "drop_bit 8 c = ucast h"
      unfolding h_def by (rule bit_word_eqI) (auto simp: bit_simps dest: bit_imp_le_length)
    have "unat h < 256"
      using unsigned_less [of h] by simp
    then have "unat (ucast h :: running_crc) = unat h"
      by (simp add: unsigned_ucast_eq take_bit_nat_eq_self_iff)
    then show ?thesis
      using crcTable_nth [of h] by (simp add: h)
  qed
  ultimately show ?thesis
    by (simp add: crc_step_def crc_serial_low xor.commute)
qed

definition data_bits :: "byte list \<Rightarrow> bool list" where
  "data_bits bs = concat (map byte_bits bs)"

lemma calculateCrc_append: "calculateCrc c (xs @ ys) = calculateCrc (calculateCrc c xs) ys"
  by (induction c xs rule: calculateCrc.induct) auto

lemma calculateCrc_serial: "calculateCrc c bs = crc_serial c (data_bits bs)"
  by (induction c bs rule: calculateCrc.induct)
     (simp_all add: data_bits_def crc_serial_append crc_step_serial)

text \<open>
  C16. The table-driven loop of \<open>ChunkHeader::calculateCrc\<close> computes exactly the bit-serial
  Galois register of the specification (generator 0x8005, bytes shifted in MSB first), for
  every starting value and every input.
\<close>
theorem calculateCrc_is_galois_register:
  "calculateCrc c bs = crc_serial c (concat (map byte_bits bs))"
  by (simp add: calculateCrc_serial data_bits_def)

subsection \<open>What the check detects\<close>

lemma crc_serial_inj: "crc_serial c ds = crc_serial c' ds \<longleftrightarrow> c = c'"
proof -
  have "crc_serial (c XOR c') (replicate (length ds) False) = crc_serial c ds XOR crc_serial c' ds"
    by (metis bits_xor_same crc_serial_xor)
  then have "crc_serial c ds XOR crc_serial c' ds = 0 \<longleftrightarrow> c XOR c' = 0"
    by (metis crc_serial_eq_0)
  then show ?thesis
    by (metis xor_self_eq xor.assoc xor.left_neutral xor.right_neutral)
qed

lemma bits_xor_eq_False:
  "length ds = length es \<Longrightarrow> bits_xor ds es = replicate (length ds) False \<longleftrightarrow> ds = es"
  by (induction ds es rule: list_induct2) auto

lemma crc_serial_window_inj:
  assumes "length ds = length es" "length ds \<le> 16" "crc_serial c ds = crc_serial c es"
  shows "ds = es"
proof -
  have "crc_serial 0 (bits_xor ds es) = 0"
    using assms crc_serial_xor [of ds es c c] by simp
  moreover have "crc_serial 0 (replicate (length ds) False) = 0"
    by (simp add: crc_serial_eq_0)
  ultimately have "bits_xor ds es = replicate (length ds) False"
    using assms by (intro crc_serial_0_inj) simp_all
  with assms(1) show ?thesis by (rule bits_xor_eq_False [THEN iffD1])
qed

lemma byte_bits_inj: "byte_bits b = byte_bits b' \<Longrightarrow> b = b'"
  by (rule bit_word_eqI) (metis len_num1 len_bit0 mult_2 numeral_Bit0 numeral_One one_add_one
    rev_byte_bits_nth add.assoc)

lemma data_bits_inj: "length xs = length ys \<Longrightarrow> data_bits xs = data_bits ys \<Longrightarrow> xs = ys"
  by (induction xs ys rule: list_induct2) (auto simp: data_bits_def dest: byte_bits_inj)

lemma burst_law:
  assumes "data_bits xs = p @ e @ s" "data_bits ys = p @ e' @ s"
    and "length e = length e'" "length e \<le> 16"
    and "length xs = length ys" "xs \<noteq> ys"
  shows "calculateCrc c xs \<noteq> calculateCrc c ys"
proof
  assume "calculateCrc c xs = calculateCrc c ys"
  with assms have "crc_serial (crc_serial c p) e = crc_serial (crc_serial c p) e'"
    by (simp add: calculateCrc_serial crc_serial_append crc_serial_inj)
  with assms have "e = e'" by (metis crc_serial_window_inj)
  with assms show False by (metis data_bits_inj)
qed

text \<open>
  C15. Any burst error of at most 16 bits is detected: two payloads of the same length whose
  bit strings differ only inside a window of 16 bits have different CRCs.
\<close>
theorem calculateCrc_detects_burst:
  assumes "data_bits xs = p @ e @ s" "data_bits ys = p @ e' @ s"
    and "length e = length e'" "length e \<le> 16"
    and "length xs = length ys" "xs \<noteq> ys"
  shows "calculateCrc c xs \<noteq> calculateCrc c ys"
  using assms by (rule burst_law)

theorem calculateCrc_detects_burst_witness:
  "calculateCrc 7 [1, 2, 3, 4] \<noteq> calculateCrc 7 [1, 9, 255, 4 :: byte]"
  by (rule calculateCrc_detects_burst [where p = "byte_bits 1" and s = "byte_bits 4"
        and e = "byte_bits 2 @ byte_bits 3" and e' = "byte_bits 9 @ byte_bits 255"])
     (simp_all add: data_bits_def)

end
