(* ===== verification/Chunk_Header.thy ===== *)
theory Chunk_Header
  imports Crc
begin

unbundle bit_operations_syntax

text \<open>
  The class \<open>ChunkHeader\<close> (\<open>chunk_header.cpp\<close>): the header array and the bit fields of
  its first four bytes (2 bits type, 3 bits power-of-two size, 11 bits count of invalid
  bytes, 16 bits CRC, little endian), the De Bruijn logarithm, the size arithmetic between
  bytes, 32-byte file indexes and powers of two, and the CRC over a header.

  The contents of freshly allocated memory are an argument \<open>uninit\<close> of the constructors:
  the code leaves parts of a new header array unset, so nothing may depend on them.
\<close>

subsection \<open>Constants and the state of a header\<close>

definition minimumChunkHeaderSizeBytes :: nat where
  [simp]: "minimumChunkHeaderSizeBytes = 4"

definition minimumChunkSize :: nat where
  [simp]: "minimumChunkSize = 32"

definition maximumChunkSize :: nat where
  [simp]: "maximumChunkSize = 4096"

definition invalidFileIndex :: nat where
  [simp]: "invalidFileIndex = 4294967295"

datatype chunk_type =
  FILE_HEADER_CHUNK | STREAM_START_CHUNK | STREAM_DATA_CHUNK | FILL_CHUNK

fun chunk_type_code :: "chunk_type \<Rightarrow> byte" where
  "chunk_type_code FILE_HEADER_CHUNK = 0"
| "chunk_type_code STREAM_START_CHUNK = 1"
| "chunk_type_code STREAM_DATA_CHUNK = 2"
| "chunk_type_code FILL_CHUNK = 3"

text \<open>The array \<open>header\<close>, \<open>headerSize\<close> bytes long.\<close>

record chunk_header =
  header :: "byte list"

definition header_byte :: "nat \<Rightarrow> ('a chunk_header_scheme) \<Rightarrow> byte" where
  "header_byte i c = header c ! i"

definition set_header_byte :: "nat \<Rightarrow> byte \<Rightarrow> 'a chunk_header_scheme \<Rightarrow> 'a chunk_header_scheme" where
  "set_header_byte i b c = c\<lparr>header := (header c)[i := b]\<rparr>"

subsection \<open>The base-2 logarithm by De Bruijn multiplication\<close>

definition mulDeBruijnBitTable :: "nat list" where
  "mulDeBruijnBitTable = [
    0,  9,  1, 10, 13, 21,  2, 29, 11, 14, 16, 18, 22, 25,  3, 30,
    8, 12, 20, 28, 15, 17, 24,  7, 19, 27, 23,  6, 26,  5,  4, 31]"

definition log2 :: "32 word \<Rightarrow> nat" where
  "log2 x =
     (let x = x OR drop_bit 1 x;
          x = x OR drop_bit 2 x;
          x = x OR drop_bit 4 x;
          x = x OR drop_bit 8 x;
          x = x OR drop_bit 16 x;
          mul = x * 0x07C4ACDD
      in mulDeBruijnBitTable ! unat (drop_bit 27 mul))"

lemma smear_step:
  assumes "\<And>n. bit y n \<longleftrightarrow> (\<exists>m<j. bit x (n + m))"
  shows "bit (y OR drop_bit j y) n \<longleftrightarrow> (\<exists>m<j + j. bit (x :: 'a::len word) (n + m))"
proof -
  have "bit (y OR drop_bit j y) n \<longleftrightarrow> (\<exists>m<j. bit x (n + m)) \<or> (\<exists>m<j. bit x (n + (j + m)))"
    by (simp add: bit_or_iff bit_drop_bit_eq assms ac_simps)
  also have "\<dots> \<longleftrightarrow> (\<exists>m<j + j. bit x (n + m))"
    by (metis add_diff_inverse_nat nat_add_left_cancel_less trans_less_add1)
  finally show ?thesis .
qed

definition smear :: "32 word \<Rightarrow> 32 word" where
  "smear x =
     (let x = x OR drop_bit 1 x;
          x = x OR drop_bit 2 x;
          x = x OR drop_bit 4 x;
          x = x OR drop_bit 8 x
      in x OR drop_bit 16 x)"

lemma bit_smear: "bit (smear x) n \<longleftrightarrow> (\<exists>m<32. bit x (n + m))"
proof -
  define x1 where "x1 = x OR drop_bit 1 x"
  define x2 where "x2 = x1 OR drop_bit 2 x1"
  define x3 where "x3 = x2 OR drop_bit 4 x2"
  define x4 where "x4 = x3 OR drop_bit 8 x3"
  have "bit x n \<longleftrightarrow> (\<exists>m<1. bit x (n + m))" for n by simp
  from smear_step [OF this] have "bit x1 n \<longleftrightarrow> (\<exists>m<2. bit x (n + m))" for n
    by (simp add: x1_def numeral_2_eq_2)
  from smear_step [OF this] have "bit x2 n \<longleftrightarrow> (\<exists>m<4. bit x (n + m))" for n
    by (simp add: x2_def)
  from smear_step [OF this] have "bit x3 n \<longleftrightarrow> (\<exists>m<8. bit x (n + m))" for n
    by (simp add: x3_def)
  from smear_step [OF this] have "bit x4 n \<longleftrightarrow> (\<exists>m<16. bit x (n + m))" for n
    by (simp add: x4_def)
  from smear_step [OF this] have "bit (x4 OR drop_bit 16 x4) n \<longleftrightarrow> (\<exists>m<32. bit x (n + m))"
    by simp
  then show ?thesis
    by (simp add: smear_def x1_def x2_def x3_def x4_def Let_def)
qed

lemma smear_mask:
  assumes "bit x k" "\<forall>n>k. \<not> bit x n"
  shows "smear x = mask (Suc k)"
proof (rule bit_word_eqI)
  fix n assume "n < LENGTH(32)"
  have "k < 32" using assms(1) bit_imp_le_length by force
  have "(\<exists>m<32. bit x (n + m)) \<longleftrightarrow> n \<le> k"
  proof
    assume "n \<le> k"
    then have "bit x (n + (k - n))" "k - n < 32" using assms(1) \<open>k < 32\<close> by auto
    then show "\<exists>m<32. bit x (n + m)" by blast
  next
    assume "\<exists>m<32. bit x (n + m)"
    with assms(2) show "n \<le> k" by (meson leI trans_less_add1)
  qed
  then show "bit (smear x) n \<longleftrightarrow> bit (mask (Suc k) :: 32 word) n"
    using \<open>n < LENGTH(32)\<close> by (auto simp: bit_smear bit_mask_iff less_Suc_eq_le)
qed

lemma log2_masks:
  "map (\<lambda>k. mulDeBruijnBitTable ! unat (drop_bit 27 ((mask (Suc k) :: 32 word) * 0x07C4ACDD))) [0..<32]
   = [0..<32]"
  by code_simp

lemma log2_mask_table:
  assumes "k < 32"
  shows "mulDeBruijnBitTable ! unat (drop_bit 27 ((mask (Suc k) :: 32 word) * 0x07C4ACDD)) = k"
  using arg_cong [OF log2_masks, of "\<lambda>l. l ! k"] assms by simp

lemma log2_highest_bit:
  assumes "bit x k" "\<forall>n>k. \<not> bit x n"
  shows "log2 x = k"
proof -
  have "k < 32" using assms(1) bit_imp_le_length by force
  have "log2 x = mulDeBruijnBitTable ! unat (drop_bit 27 (smear x * 0x07C4ACDD))"
    by (simp only: log2_def smear_def Let_def)
  with \<open>k < 32\<close> show ?thesis
    by (simp only: smear_mask [OF assms] log2_mask_table)
qed

lemma log2_nat:
  assumes "2 ^ k \<le> n" "n < 2 * 2 ^ k" "n < 4294967296"
  shows "log2 (word_of_nat n) = k"
proof (rule log2_highest_bit)
  have "(2 :: nat) ^ k < 2 ^ 32" using assms(1,3) by simp
  then have "k < 32" by (simp only: power_strict_increasing_iff)
  moreover have "n div 2 ^ k = 1"
    using assms(1,2) by (intro div_nat_eqI) simp_all
  ultimately show "bit (word_of_nat n :: 32 word) k"
    by (simp only: bit_of_nat_iff) (simp add: bit_iff_odd)
  show "\<forall>i>k. \<not> bit (word_of_nat n :: 32 word) i"
  proof (intro allI impI)
    fix i assume "k < i"
    then have "(2 :: nat) * 2 ^ k \<le> 2 ^ i"
      by (metis Suc_leI power_Suc power_increasing one_le_numeral)
    with assms(2) have "n div 2 ^ i = 0" by simp
    then show "\<not> bit (word_of_nat n :: 32 word) i"
      by (simp only: bit_of_nat_iff) (simp add: bit_iff_odd)
  qed
qed

text \<open>
  C25. \<open>ChunkHeader::log2\<close>, the bit-smearing De Bruijn multiplication, is the integer
  base-2 logarithm rounded down, for every non-zero 32-bit value.
\<close>
theorem log2_is_floor_log:
  assumes "x \<noteq> 0"
  shows "2 ^ log2 x \<le> unat x \<and> unat x < 2 ^ (log2 x + 1)"
proof -
  have "0 < unat x" using assms by (simp add: unat_gt_0)
  then obtain k where k: "2 ^ k \<le> unat x" "unat x < 2 ^ (k + 1)"
    using ex_power_ivl1 [of 2 "unat x"] by auto
  have "unat x < 4294967296" using unsigned_less [of x] by simp
  with k have "log2 x = k" using log2_nat [of k "unat x"] by simp
  with k show ?thesis by simp
qed

theorem log2_is_floor_log_witness:
  "2 ^ log2 4095 \<le> unat (4095 :: 32 word) \<and> unat (4095 :: 32 word) < 2 ^ (log2 4095 + 1) \<and> log2 4095 = 11"
proof -
  have "(4095 :: 32 word) \<noteq> 0" by simp
  from log2_is_floor_log [OF this] show ?thesis
    by (simp add: log2_def mulDeBruijnBitTable_def Let_def)
qed

subsection \<open>Reading the fields\<close>

definition chunk_type_of :: "byte \<Rightarrow> chunk_type" where
  "chunk_type_of b =
     (if b AND 3 = 0 then FILE_HEADER_CHUNK
      else if b AND 3 = 1 then STREAM_START_CHUNK
      else if b AND 3 = 2 then STREAM_DATA_CHUNK
      else FILL_CHUNK)"

definition sp2_of :: "byte \<Rightarrow> nat" where
  "sp2_of b = unat (drop_bit 2 b AND 7)"

definition numberInvalidBytes_of :: "byte \<Rightarrow> byte \<Rightarrow> nat" where
  "numberInvalidBytes_of b0 b1 =
     unat (push_bit 3 (ucast b1 :: 32 word) OR ucast (drop_bit 5 b0 AND 7))"

definition header_type :: "'a chunk_header_scheme \<Rightarrow> chunk_type" where
  "header_type c = chunk_type_of (header_byte 0 c)"

definition chunkSize :: "'a chunk_header_scheme \<Rightarrow> nat" where
  "chunkSize c = 2 ^ (sp2_of (header_byte 0 c) + 5)"

definition numberValidBytes :: "'a chunk_header_scheme \<Rightarrow> nat" where
  "numberValidBytes c =
     sub32 (sub32 (chunkSize c) (numberInvalidBytes_of (header_byte 0 c) (header_byte 1 c)))
       minimumChunkHeaderSizeBytes"

definition crc :: "'a chunk_header_scheme \<Rightarrow> running_crc" where
  "crc c = push_bit 8 (ucast (header_byte 3 c)) OR ucast (header_byte 2 c)"

definition setCrc :: "running_crc \<Rightarrow> 'a chunk_header_scheme \<Rightarrow> 'a chunk_header_scheme" where
  "setCrc newCrcValue c =
     set_header_byte 3 (ucast (drop_bit 8 newCrcValue)) (set_header_byte 2 (ucast newCrcValue) c)"

definition fullHeaderSizeBytes :: "'a chunk_header_scheme \<Rightarrow> nat" where
  "fullHeaderSizeBytes c = length (header c)"

definition additionalHeader :: "'a chunk_header_scheme \<Rightarrow> byte list" where
  "additionalHeader c = drop minimumChunkHeaderSizeBytes (header c)"

definition additionalHeaderSizeBytes :: "'a chunk_header_scheme \<Rightarrow> nat" where
  "additionalHeaderSizeBytes c = sub32 (length (header c)) minimumChunkHeaderSizeBytes"

definition additionalAvailableSpace :: "'a chunk_header_scheme \<Rightarrow> nat" where
  "additionalAvailableSpace c = sub32 (chunkSize c) (length (header c))"

subsection \<open>File indexes, positions and powers of two\<close>

text \<open>\<open>32*index\<close> is evaluated in the 32-bit type of \<open>index\<close> and widened afterwards.\<close>

definition toPosition :: "nat \<Rightarrow> nat" where
  "toPosition index = u64 (u32 (32 * index))"

definition toFileIndex :: "nat \<Rightarrow> nat" where
  "toFileIndex position = u32 (position div 32)"

definition toChunkSize :: "nat \<Rightarrow> nat option" where
  "toChunkSize chunkP2 = do { assertion (chunkP2 \<le> 7); Some (2 ^ (chunkP2 + 5)) }"

definition toClosestSmallerChunkP2 :: "nat \<Rightarrow> nat" where
  "toClosestSmallerChunkP2 spaceMaximum =
     (let chunkP2 = log2 (word_of_nat spaceMaximum)
      in if chunkP2 \<le> 5 then 0 else chunkP2 - 5)"

definition toClosestLargerChunkP2 :: "nat \<Rightarrow> nat" where
  "toClosestLargerChunkP2 spaceMinimum =
     (let chunkP2 = log2 (word_of_nat (sub64 spaceMinimum 1)) + 1
      in if chunkP2 \<le> 5 then 0 else chunkP2 - 5)"

subsection \<open>Setting the fields\<close>

definition setType :: "chunk_type \<Rightarrow> 'a chunk_header_scheme \<Rightarrow> 'a chunk_header_scheme" where
  "setType newType c =
     set_header_byte 0 ((header_byte 0 c AND 0xFC) OR (chunk_type_code newType AND 3)) c"

definition header_word :: "byte \<Rightarrow> nat \<Rightarrow> nat \<Rightarrow> 16 word" where
  "header_word typeCode p2 numberInvalidBytes =
     ucast typeCode OR push_bit 2 (word_of_nat p2) OR push_bit 5 (word_of_nat numberInvalidBytes)"

definition setNumberValidBytes ::
  "nat \<Rightarrow> bool \<Rightarrow> 'a chunk_header_scheme \<Rightarrow> (nat \<times> bool \<times> 'a chunk_header_scheme) option" where
  "setNumberValidBytes newValidByteCount canGrowChunkSize c = (
     let currentChunkSize = chunkSize c;
         maximumPayloadSize =
           (if canGrowChunkSize then maximumChunkSize - minimumChunkHeaderSizeBytes
            else sub32 currentChunkSize minimumChunkHeaderSizeBytes);
         newValidByteCount =
           (if newValidByteCount > maximumPayloadSize then maximumPayloadSize else newValidByteCount);
         requiredBits =
           log2 (word_of_nat (sub32 (u32 (newValidByteCount + minimumChunkHeaderSizeBytes)) 1)) + 1;
         requiredBits = (if requiredBits < 5 then 5 else requiredBits)
     in do {
       assertion (requiredBits \<le> 5 + 7);
       let newChunkSize = 2 ^ requiredBits;
       assertion (newChunkSize \<ge> u32 (newValidByteCount + minimumChunkHeaderSizeBytes));
       let numberInvalidBytes =
         sub32 (sub32 newChunkSize newValidByteCount) minimumChunkHeaderSizeBytes;
       let hdr = header_word (header_byte 0 c AND 3) (requiredBits - 5) numberInvalidBytes;
       Some (newValidByteCount, newChunkSize \<noteq> currentChunkSize,
         set_header_byte 1 (ucast (drop_bit 8 hdr)) (set_header_byte 0 (ucast hdr) c))
     })"

definition setBestFitSize :: "nat \<Rightarrow> 'a chunk_header_scheme \<Rightarrow> nat \<times> 'a chunk_header_scheme" where
  "setBestFitSize availableSpace c =
     (let (bestFitSize, chunkP2) =
        (if availableSpace < minimumChunkSize then (0, 0)
         else let requiredBits = log2 (word_of_nat availableSpace);
                  requiredBits = (if requiredBits > 7 + 5 then 7 + 5 else requiredBits)
              in (2 ^ requiredBits, requiredBits - 5))
      in (bestFitSize,
          set_header_byte 0 ((header_byte 0 c AND 0xE3) OR push_bit 2 (word_of_nat chunkP2)) c))"

definition setAllBytesValid :: "'a chunk_header_scheme \<Rightarrow> 'a chunk_header_scheme" where
  "setAllBytesValid c = set_header_byte 1 0 (set_header_byte 0 (header_byte 0 c AND 0x1F) c)"

subsection \<open>The CRC over the header\<close>

definition initializeCrc :: "'a chunk_header_scheme \<Rightarrow> running_crc" where
  "initializeCrc c =
     (let currentCrc = push_bit 8 (ucast (header_byte 1 c)) OR ucast (header_byte 0 c)
      in calculateCrc currentCrc (additionalHeader c))"

subsection \<open>Constructors\<close>

definition new_array :: "(nat \<Rightarrow> byte) \<Rightarrow> nat \<Rightarrow> byte list" where
  "new_array uninit n = map uninit [0..<n]"

text \<open>\<open>memcpy\<close> and the four stores of a constructor overrun an array of fewer than four bytes.\<close>

definition ChunkHeader :: "(nat \<Rightarrow> byte) \<Rightarrow> nat \<Rightarrow> chunk_header option" where
  "ChunkHeader uninit additionalChunkHeaderSizeBytes = do {
     let headerSize = u16 (minimumChunkHeaderSizeBytes + additionalChunkHeaderSizeBytes);
     assertion (minimumChunkHeaderSizeBytes \<le> headerSize);
     let c = \<lparr>header = overlay (new_array uninit headerSize) 0 [0x80, 0x03, 0x00, 0x00]\<rparr>;
     (_, _, c) \<leftarrow> setNumberValidBytes additionalChunkHeaderSizeBytes True c;
     Some c
   }"

definition ChunkHeader_common ::
  "(nat \<Rightarrow> byte) \<Rightarrow> byte list \<Rightarrow> nat \<Rightarrow> chunk_header option" where
  "ChunkHeader_common uninit commonHeader additionalHeaderBytes = do {
     let headerSize = u16 (additionalHeaderBytes + minimumChunkHeaderSizeBytes);
     assertion (minimumChunkHeaderSizeBytes \<le> headerSize);
     Some \<lparr>header = overlay (new_array uninit headerSize) 0 (take minimumChunkHeaderSizeBytes commonHeader)\<rparr>
   }"

definition ChunkHeader_sized :: "(nat \<Rightarrow> byte) \<Rightarrow> byte list \<Rightarrow> chunk_header option" where
  "ChunkHeader_sized uninit commonHeader = do {
     let sp2 = sp2_of (commonHeader ! 0);
     let numberInvalidBytes = numberInvalidBytes_of (commonHeader ! 0) (commonHeader ! 1);
     let chunkSize = 2 ^ (sp2 + 5);
     let headerSize = u16 (sub32 chunkSize numberInvalidBytes);
     assertion (minimumChunkHeaderSizeBytes \<le> headerSize);
     Some \<lparr>header = overlay (new_array uninit headerSize) 0 (take minimumChunkHeaderSizeBytes commonHeader)\<rparr>
   }"

subsection \<open>The fields as numbers\<close>

named_theorems chunk_fields "fields of a header after the operations"

lemma byte_exhaust:
  assumes "list_all (\<lambda>n. P (word_of_nat n)) [0..<256]"
  shows "P (b :: byte)"
proof -
  have "unat b \<in> set [0..<256]"
    using unsigned_less [of b] by simp
  with assms have "P (word_of_nat (unat b))"
    unfolding list_all_iff by blast
  then show ?thesis by simp
qed

lemma unat_byte_less [simp]: "unat (b :: byte) < 256"
  using unsigned_less [of b] by simp

lemma sp2_of_eq: "sp2_of b = unat b div 4 mod 8"
proof -
  have "drop_bit 2 b AND 7 = take_bit 3 (drop_bit 2 b)"
    by (simp add: take_bit_eq_mask mask_eq_exp_minus_1)
  then show ?thesis
    unfolding sp2_of_def by (simp only: unsigned_take_bit_eq unsigned_drop_bit_eq)
      (simp add: take_bit_eq_mod drop_bit_eq_div)
qed

lemma numberInvalidBytes_of_eq: "numberInvalidBytes_of b0 b1 = 8 * unat b1 + unat b0 div 32"
proof -
  let ?h = "push_bit 3 (ucast b1 :: 32 word)" and ?l = "ucast (drop_bit 5 b0 AND 7) :: 32 word"
  have l: "drop_bit 5 b0 AND 7 = drop_bit 5 b0"
    by (rule byte_exhaust [where b = b0]) code_simp
  have "?h AND ?l = 0"
  proof (rule bit_word_eqI)
    fix n
    show "bit (?h AND ?l) n \<longleftrightarrow> bit (0 :: 32 word) n"
      unfolding l by (auto simp: bit_and_iff bit_push_bit_iff bit_unsigned_iff bit_drop_bit_eq
          dest!: bit_imp_le_length)
  qed
  then have "?h OR ?l = ?h + ?l"
    by (simp add: disjunctive_add_eq_or)
  moreover have "unat ?l = unat b0 div 32"
  proof -
    have "unat b0 div 32 < 4294967296"
      using unat_byte_less [of b0] by linarith
    then show ?thesis
      unfolding l by (simp only: unsigned_ucast_eq unsigned_drop_bit_eq) (simp add: drop_bit_eq_div take_bit_eq_mod)
  qed
  moreover have "unat ?h = 8 * unat b1"
  proof -
    have eq: "?h = word_of_nat (8 * unat b1)"
      by (simp add: push_bit_eq_mult mult.commute)
    have lt: "8 * unat b1 < 4294967296"
      using unat_byte_less [of b1] by linarith
    show ?thesis
      by (simp only: eq unat_of_nat) (simp add: lt)
  qed
  moreover have "unat b0 div 32 < 8"
    using unat_byte_less [of b0] by linarith
  moreover have "8 * unat b1 + unat b0 div 32 < 4294967296"
    using unat_byte_less [of b0] unat_byte_less [of b1] by linarith
  ultimately show ?thesis
    by (simp add: numberInvalidBytes_of_def unat_word_ariths)
qed

lemma unat_header_word:
  assumes "unat t < 4" "p < 8" "i < 2048"
  shows "unat (header_word t p i) = unat t + 4 * p + 32 * i"
proof -
  let ?t = "ucast t :: 16 word" and ?p = "push_bit 2 (word_of_nat p) :: 16 word"
    and ?i = "push_bit 5 (word_of_nat i) :: 16 word"
  have low: "\<not> bit m n" if "m < 2 ^ k" "k \<le> n" for m n k :: nat
    using that by (metis bit_take_bit_iff leD take_bit_nat_eq_self_iff)
  have t: "n < 2" if "bit ?t n" for n
  proof -
    have "bit (unat t) n" using that by (simp add: bit_unsigned_iff)
    with low [of "unat t" 2 n] assms(1) show ?thesis by force
  qed
  have p: "2 \<le> n \<and> n < 5" if "bit ?p n" for n
    using that low [of p 3 "n - 2"] assms(2)
    by (cases "n < 5") (auto simp: bit_push_bit_iff bit_of_nat_iff)
  have i: "5 \<le> n" if "bit ?i n" for n
    using that by (auto simp: bit_push_bit_iff)
  have "?t AND ?p = 0"
    by (rule bit_word_eqI) (auto simp: bit_and_iff dest!: t p)
  moreover have "(?t OR ?p) AND ?i = 0"
    by (rule bit_word_eqI) (auto simp: bit_and_iff bit_or_iff dest!: t p i)
  ultimately have "header_word t p i = ?t + ?p + ?i"
    by (simp add: header_word_def disjunctive_add_eq_or or.assoc)
  also have "\<dots> = word_of_nat (unat t + 4 * p + 32 * i)"
    by (simp add: push_bit_eq_mult mult.commute)
  finally have eq: "header_word t p i = word_of_nat (unat t + 4 * p + 32 * i)" .
  show ?thesis
    using assms by (simp only: eq unat_of_nat) simp
qed

lemma header_word_low: "unat (ucast (header_word t p i) :: byte) = unat (header_word t p i) mod 256"
  by (simp add: unsigned_ucast_eq take_bit_eq_mod)

lemma header_word_high:
  "unat (ucast (drop_bit 8 (header_word t p i)) :: byte) = unat (header_word t p i) div 256"
proof -
  have "unat (header_word t p i) < 65536"
    using unsigned_less [of "header_word t p i"] by simp
  then show ?thesis
    by (simp only: unsigned_ucast_eq unsigned_drop_bit_eq) (simp add: take_bit_eq_mod drop_bit_eq_div)
qed

lemma mod_256_fields:
  fixes x :: nat
  shows "x mod 256 div 4 mod 8 = x div 4 mod 8"
    and "8 * (x div 256) + x mod 256 div 32 = x div 32"
    and "x mod 256 mod 4 = x mod 4"
proof -
  define q r where "q = x div 256" and "r = x mod 256"
  have x: "x = r + 4 * (8 * (8 * q))" "x = r + 32 * (8 * q)"
    by (simp_all add: q_def r_def)
  have "x div 4 = r div 4 + 8 * (8 * q)" "x div 32 = r div 32 + 8 * q"
    by (subst x(1), simp, subst x(2), simp)
  then show "x mod 256 div 4 mod 8 = x div 4 mod 8"
    and "8 * (x div 256) + x mod 256 div 32 = x div 32"
    by (metis mod_mult_self2 r_def, simp flip: q_def r_def)
  show "x mod 256 mod 4 = x mod 4"
    by (simp add: mod_mod_cancel)
qed

lemma header_word_fields:
  assumes "unat t < 4" "p < 8" "i < 2048"
  defines "b0 \<equiv> ucast (header_word t p i) :: byte"
    and "b1 \<equiv> ucast (drop_bit 8 (header_word t p i)) :: byte"
  shows "sp2_of b0 = p" "numberInvalidBytes_of b0 b1 = i" "b0 AND 3 = t"
proof -
  define x where "x = unat t + 4 * p + 32 * i"
  have b0: "unat b0 = x mod 256" and b1: "unat b1 = x div 256"
    using assms(1-3)
    by (simp_all add: b0_def b1_def x_def header_word_low header_word_high unat_header_word)
  have x4: "x = unat t + 4 * (p + 8 * i)" and x32: "x = (unat t + 4 * p) + 32 * i"
    by (simp_all add: x_def)
  have "x div 4 = p + 8 * i"
    using assms(1) by (subst x4) simp
  have "x mod 4 = unat t"
    using assms(1) by (metis mod_mult_self2 mod_less x4)
  with assms(2) \<open>x div 4 = p + 8 * i\<close> show "sp2_of b0 = p"
    unfolding sp2_of_eq b0 mod_256_fields by simp
  have "x div 32 = i"
    using assms(1,2) by (subst x32) simp
  then show "numberInvalidBytes_of b0 b1 = i"
    unfolding numberInvalidBytes_of_eq b0 b1 mod_256_fields by simp
  have "b0 AND 3 = take_bit 2 b0"
    by (simp add: take_bit_eq_mask mask_eq_exp_minus_1)
  moreover have "unat (take_bit 2 b0) = unat b0 mod 4"
    by (simp only: unsigned_take_bit_eq) (simp add: take_bit_eq_mod)
  moreover have "unat b0 mod 4 = unat t"
    unfolding b0 mod_256_fields by (fact \<open>x mod 4 = unat t\<close>)
  ultimately show "b0 AND 3 = t"
    by (simp add: word_unat_eq_iff)
qed

subsection \<open>The size arithmetic\<close>

text \<open>The smallest chunk size that holds \<open>n\<close> bytes (header included).\<close>

definition fit_size :: "nat \<Rightarrow> nat" where
  "fit_size n = (case find (\<lambda>s. n \<le> s) [32, 64, 128, 256, 512, 1024, 2048] of None \<Rightarrow> 4096 | Some s \<Rightarrow> s)"

lemma fit_size_bounds:
  shows "32 \<le> fit_size n" "fit_size n \<le> 4096" "n \<le> 4096 \<Longrightarrow> n \<le> fit_size n"
    "fit_size n - n < 2048"
  by (simp_all add: fit_size_def) auto

lemma fit_size_least: "s \<in> {32, 64, 128, 256, 512, 1024, 2048, 4096} \<Longrightarrow> n \<le> s \<Longrightarrow> fit_size n \<le> s"
  by (auto simp: fit_size_def)

definition fit_p2 :: "nat \<Rightarrow> nat" where
  "fit_p2 n = (let b = log2 (word_of_nat (n - 1)) + 1 in (if b < 5 then 5 else b) - 5)"

lemma log2_bounds:
  assumes "1 \<le> n" "n < 4294967296"
  shows "2 ^ log2 (word_of_nat n) \<le> n" "n < 2 * 2 ^ log2 (word_of_nat n)"
proof -
  obtain k where "2 ^ k \<le> n" "n < 2 ^ (k + 1)"
    using ex_power_ivl1 [of 2 n] assms(1) by auto
  with log2_nat [of k n] assms(2)
  show "2 ^ log2 (word_of_nat n) \<le> n" "n < 2 * 2 ^ log2 (word_of_nat n)" by simp_all
qed

lemma fit_p2:
  assumes "4 \<le> n" "n \<le> 4096"
  shows "fit_p2 n \<le> 7" "fit_size n = 2 ^ (fit_p2 n + 5)"
    "(let b = log2 (word_of_nat (n - 1)) + 1 in (if b < 5 then 5 else b)) = fit_p2 n + 5"
proof -
  define k where "k = log2 (word_of_nat (n - 1))"
  have "1 \<le> n - 1" "n - 1 < 4294967296" using assms by simp_all
  note log2_bounds [OF this, folded k_def]
  then have k: "2 ^ k \<le> n - 1" "n - 1 < 2 * 2 ^ k" by simp_all
  have p2: "fit_p2 n = (if k + 1 < 5 then 5 else k + 1) - 5"
    unfolding fit_p2_def k_def Let_def ..
  have "(2 :: nat) ^ k < 2 ^ 12" using k(1) assms by simp
  then have "k < 12" by (simp only: power_strict_increasing_iff)
  then consider "k < 5" | "k = 5" | "k = 6" | "k = 7" | "k = 8" | "k = 9" | "k = 10" | "k = 11"
    by linarith
  then have "fit_p2 n \<le> 7 \<and> fit_size n = 2 ^ (fit_p2 n + 5)"
  proof cases
    case 1
    then have "(2 :: nat) * 2 ^ k \<le> 2 ^ 5"
      using power_increasing [of "Suc k" 5 "2 :: nat"] by simp
    with k assms have "n \<le> 32" by simp
    with 1 show ?thesis by (simp add: p2 fit_size_def)
  qed (use k assms in \<open>auto simp: p2 fit_size_def\<close>)
  then show "fit_p2 n \<le> 7" "fit_size n = 2 ^ (fit_p2 n + 5)" by simp_all
  show "(let b = log2 (word_of_nat (n - 1)) + 1 in (if b < 5 then 5 else b)) = fit_p2 n + 5"
    unfolding fit_p2_def Let_def by simp
qed

lemma sp2_of_le: "sp2_of b \<le> 7"
proof -
  have "sp2_of b < 8" by (simp add: sp2_of_eq)
  then show ?thesis by simp
qed

lemma chunkSize_cases:
  "chunkSize c \<in> {32, 64, 128, 256, 512, 1024, 2048, 4096}"
proof -
  have "\<And>n :: nat. n \<le> 7 \<Longrightarrow> n = 0 \<or> n = 1 \<or> n = 2 \<or> n = 3 \<or> n = 4 \<or> n = 5 \<or> n = 6 \<or> n = 7"
    by arith
  from this [OF sp2_of_le [of "header_byte 0 c"]] show ?thesis
    unfolding chunkSize_def by (elim disjE) simp_all
qed

lemma chunkSize_bounds: "32 \<le> chunkSize c" "chunkSize c \<le> 4096"
  using chunkSize_cases [of c] by auto

text \<open>
  A header is well formed when its size field covers the header itself, which every
  constructor and setter of the library establishes.
\<close>

definition header_ok :: "'a chunk_header_scheme \<Rightarrow> bool" where
  "header_ok c \<longleftrightarrow> 4 \<le> length (header c) \<and> length (header c) < 65536"

lemma header_byte_set [simp]:
  "i < length (header c) \<Longrightarrow> header_byte j (set_header_byte i b c) = (if i = j then b else header_byte j c)"
  by (simp add: header_byte_def set_header_byte_def)

lemma length_set_header_byte [simp]: "length (header (set_header_byte i b c)) = length (header c)"
  by (simp add: set_header_byte_def)

lemma drop_set_header_byte [simp]: "i < n \<Longrightarrow> drop n (header (set_header_byte i b c)) = drop n (header c)"
  by (simp add: set_header_byte_def)

text \<open>The header after \<open>setNumberValidBytes\<close> has settled on \<open>n\<close> valid bytes.\<close>

definition with_valid_bytes :: "nat \<Rightarrow> 'a chunk_header_scheme \<Rightarrow> 'a chunk_header_scheme" where
  "with_valid_bytes n c =
     (let hdr = header_word (header_byte 0 c AND 3) (fit_p2 (n + 4)) (fit_size (n + 4) - n - 4)
      in set_header_byte 1 (ucast (drop_bit 8 hdr)) (set_header_byte 0 (ucast hdr) c))"

lemma unat_low_bits: "unat (b AND 3 :: byte) < 4"
  by (rule byte_exhaust [where b = b]) code_simp

lemma with_valid_bytes_fields [chunk_fields]:
  assumes "2 \<le> length (header c)" "n \<le> 4092"
  shows "chunkSize (with_valid_bytes n c) = fit_size (n + 4)"
    "numberValidBytes (with_valid_bytes n c) = n"
    "header_type (with_valid_bytes n c) = header_type c"
    "length (header (with_valid_bytes n c)) = length (header c)"
    "drop 2 (header (with_valid_bytes n c)) = drop 2 (header c)"
proof -
  have p: "fit_p2 (n + 4) \<le> 7" "fit_size (n + 4) = 2 ^ (fit_p2 (n + 4) + 5)"
    using fit_p2 [of "n + 4"] assms by simp_all
  note b = fit_size_bounds [of "n + 4"]
  have i: "fit_size (n + 4) - n - 4 < 2048" using b by simp
  have "fit_p2 (n + 4) < 8" using p by simp
  note f = header_word_fields [OF unat_low_bits [of "header_byte 0 c"] this i]
  have len: "0 < length (header c)" "1 < length (header c)"
    using assms(1) by linarith+
  show sz: "chunkSize (with_valid_bytes n c) = fit_size (n + 4)"
    using len p f by (simp add: chunkSize_def with_valid_bytes_def Let_def)
  have "numberInvalidBytes_of (header_byte 0 (with_valid_bytes n c)) (header_byte 1 (with_valid_bytes n c))
      = fit_size (n + 4) - n - 4"
    using len p f by (simp add: with_valid_bytes_def Let_def)
  with sz show "numberValidBytes (with_valid_bytes n c) = n"
    using b assms by (simp add: numberValidBytes_def wrap_simps)
  have "chunk_type_of b = chunk_type_of (b AND 3)" for b
    by (simp add: chunk_type_of_def and.assoc)
  then show "header_type (with_valid_bytes n c) = header_type c"
    using len p f by (simp add: header_type_def with_valid_bytes_def Let_def) (metis chunk_type_of_def)
qed (simp_all add: with_valid_bytes_def Let_def)

lemma setNumberValidBytes_eq:
  fixes n :: nat and grow :: bool
  assumes "2 \<le> length (header c)"
  defines "m \<equiv> min n (if grow then 4092 else chunkSize c - 4)"
  shows "setNumberValidBytes n grow c =
    Some (m, fit_size (m + 4) \<noteq> chunkSize c, with_valid_bytes m c)"
proof -
  let ?max = "if grow then 4096 - 4 else sub32 (chunkSize c) 4"
  note b = chunkSize_bounds [of c]
  have m: "(if n > ?max then ?max else n) = m"
    using b by (auto simp: m_def wrap_simps)
  have le: "m \<le> 4092" using b by (auto simp: m_def)
  have w: "sub32 (m + 4) 1 = m + 4 - 1" "u32 (m + 4) = m + 4"
    using le by (simp_all add: wrap_simps)
  have "4 \<le> m + 4" "m + 4 \<le> 4096" using le by simp_all
  note p = fit_p2 [OF this]
  note p3 = p(3) [unfolded Let_def]
  note f = fit_size_bounds [of "m + 4"]
  have v: "sub32 (sub32 (fit_size (m + 4)) m) 4 = fit_size (m + 4) - m - 4"
    using f le by (simp add: wrap_simps)
  have "setNumberValidBytes n grow c = (
     let requiredBits = fit_p2 (m + 4) + 5 in do {
       assertion (requiredBits \<le> 5 + 7);
       let newChunkSize = 2 ^ requiredBits;
       assertion (newChunkSize \<ge> m + 4);
       let numberInvalidBytes = sub32 (sub32 newChunkSize m) 4;
       let hdr = header_word (header_byte 0 c AND 3) (requiredBits - 5) numberInvalidBytes;
       Some (m, newChunkSize \<noteq> chunkSize c,
         set_header_byte 1 (ucast (drop_bit 8 hdr)) (set_header_byte 0 (ucast hdr) c))
     })"
    unfolding setNumberValidBytes_def Let_def minimumChunkHeaderSizeBytes_def
      maximumChunkSize_def m w p3 ..
  also have "\<dots> = Some (m, fit_size (m + 4) \<noteq> chunkSize c, with_valid_bytes m c)"
    using p(1,2) f le v by (simp add: Let_def with_valid_bytes_def)
  finally show ?thesis .
qed

text \<open>
  C21. \<open>ChunkHeader::setNumberValidBytes\<close> never trips its assertions: it clamps the
  requested payload to what the chunk (or, when growing is allowed, the largest chunk) can
  hold, reports the clamped value and whether the chunk size changed, and leaves a header
  whose \<open>numberValidBytes\<close> is that value, whose \<open>chunkSize\<close> is the smallest of the eight
  chunk sizes that holds header and payload, and whose type and remaining bytes are untouched.
\<close>
theorem setNumberValidBytes_functional:
  fixes n :: nat and grow :: bool
  assumes "2 \<le> length (header c)"
  defines "m \<equiv> min n (if grow then 4092 else chunkSize c - 4)"
  shows "\<exists>c'. setNumberValidBytes n grow c = Some (m, chunkSize c' \<noteq> chunkSize c, c') \<and>
    numberValidBytes c' = m \<and> m + 4 \<le> chunkSize c' \<and>
    chunkSize c' \<in> {32, 64, 128, 256, 512, 1024, 2048, 4096} \<and>
    (\<forall>s \<in> {32, 64, 128, 256, 512, 1024, 2048, 4096}. m + 4 \<le> s \<longrightarrow> chunkSize c' \<le> s) \<and>
    header_type c' = header_type c \<and> drop 2 (header c') = drop 2 (header c)"
proof (intro exI conjI)
  have le: "m \<le> 4092"
    using chunkSize_bounds [of c] by (auto simp: m_def)
  note f = with_valid_bytes_fields [OF assms(1) le]
  show "setNumberValidBytes n grow c =
      Some (m, chunkSize (with_valid_bytes m c) \<noteq> chunkSize c, with_valid_bytes m c)"
    using setNumberValidBytes_eq [OF assms(1), of n grow] f by (simp add: m_def)
  show "m + 4 \<le> chunkSize (with_valid_bytes m c)"
    using f fit_size_bounds [of "m + 4"] le by simp
  show "\<forall>s \<in> {32, 64, 128, 256, 512, 1024, 2048, 4096}. m + 4 \<le> s \<longrightarrow>
      chunkSize (with_valid_bytes m c) \<le> s"
    using f fit_size_least [of _ "m + 4"] by simp
qed (use with_valid_bytes_fields [OF assms(1), of m] chunkSize_bounds [of c] chunkSize_cases in
      \<open>auto simp: m_def min_def\<close>)

theorem setNumberValidBytes_functional_witness:
  "\<exists>c'. setNumberValidBytes 100 True \<lparr>header = [0x02, 0x00, 7, 7, 9]\<rparr> =
      Some (100, chunkSize c' \<noteq> chunkSize \<lparr>header = [0x02, 0x00, 7, 7, 9]\<rparr>, c') \<and>
    numberValidBytes c' = 100 \<and> chunkSize c' = 128"
proof -
  let ?c = "\<lparr>header = [0x02, 0x00, 7, 7, 9]\<rparr> :: chunk_header"
  have "2 \<le> length (header ?c)" by simp
  from setNumberValidBytes_functional [OF this, of 100 True] obtain c' where
    c: "setNumberValidBytes 100 True ?c = Some (100, chunkSize c' \<noteq> chunkSize ?c, c')"
      "numberValidBytes c' = 100" "104 \<le> chunkSize c'" "chunkSize c' \<le> 128"
      "chunkSize c' \<in> {32, 64, 128, 256, 512, 1024, 2048, 4096}"
    by auto
  from c(3-5) have "chunkSize c' = 128" by auto
  with c show ?thesis by blast
qed

subsection \<open>What the other setters change\<close>

lemma drop_bit_5_mask: "drop_bit 5 b AND 7 = drop_bit 5 (b :: byte)"
  by (rule byte_exhaust [where b = b]) code_simp

lemma unat_div_32: "unat (b :: byte) div 32 = unat (drop_bit 5 b)"
  by (simp only: unsigned_drop_bit_eq) (simp add: drop_bit_eq_div take_bit_eq_mod)

lemma chunk_type_of_cong: "a AND 3 = b AND 3 \<Longrightarrow> chunk_type_of a = chunk_type_of b"
  by (simp only: chunk_type_of_def)

lemma sp2_of_cong: "drop_bit 2 a AND 7 = drop_bit 2 b AND 7 \<Longrightarrow> sp2_of a = sp2_of b"
  by (simp only: sp2_of_def)

lemmas byte_algebra =
  bit.conj_disj_distrib bit.conj_disj_distrib2 and.assoc drop_bit_and drop_bit_or drop_bit_push_bit

lemma low_bits_bytes:
  "chunk_type_of ((b AND 0xFC) OR (chunk_type_code t AND 3)) = t"
  "sp2_of ((b AND 0xFC) OR (chunk_type_code t AND 3)) = sp2_of b"
  "unat ((b AND 0xFC) OR (chunk_type_code t AND 3)) div 32 = unat b div 32"
proof -
  have "((b AND 0xFC) OR (chunk_type_code t AND 3)) AND 3 = chunk_type_code t AND 3"
    by (simp add: byte_algebra)
  then have "chunk_type_of ((b AND 0xFC) OR (chunk_type_code t AND 3)) = chunk_type_of (chunk_type_code t)"
    by (rule chunk_type_of_cong)
  then show "chunk_type_of ((b AND 0xFC) OR (chunk_type_code t AND 3)) = t"
    by (cases t) (simp_all add: chunk_type_of_def)
  show "sp2_of ((b AND 0xFC) OR (chunk_type_code t AND 3)) = sp2_of b"
    by (rule sp2_of_cong) (simp add: byte_algebra)
  have "drop_bit 5 ((b AND 0xFC) OR (chunk_type_code t AND 3)) = drop_bit 5 b AND 7"
    by (simp add: byte_algebra)
  then show "unat ((b AND 0xFC) OR (chunk_type_code t AND 3)) div 32 = unat b div 32"
    by (simp only: unat_div_32 drop_bit_5_mask)
qed

lemma all_valid_bytes:
  "chunk_type_of (b AND 0x1F) = chunk_type_of b"
  "sp2_of (b AND 0x1F) = sp2_of b"
  "unat (b AND 0x1F) div 32 = 0"
proof -
  show "chunk_type_of (b AND 0x1F) = chunk_type_of b"
    by (rule chunk_type_of_cong) (simp add: byte_algebra)
  show "sp2_of (b AND 0x1F) = sp2_of b"
    by (rule sp2_of_cong) (simp add: byte_algebra)
  have "drop_bit 5 (b AND 0x1F) = 0"
    by (simp add: byte_algebra)
  then show "unat (b AND 0x1F) div 32 = 0"
    by (simp only: unat_div_32 unsigned_0)
qed

lemma best_fit_bytes:
  assumes "p \<le> 7"
  shows "chunk_type_of ((b AND 0xE3) OR push_bit 2 (word_of_nat p)) = chunk_type_of b"
    "sp2_of ((b AND 0xE3) OR push_bit 2 (word_of_nat p)) = p"
    "unat ((b AND 0xE3) OR push_bit 2 (word_of_nat p)) div 32 = unat b div 32"
proof -
  have "p = 0 \<or> p = 1 \<or> p = 2 \<or> p = 3 \<or> p = 4 \<or> p = 5 \<or> p = 6 \<or> p = 7"
    using assms by linarith
  then have p: "push_bit 2 (word_of_nat p :: byte) AND 3 = 0"
    "unat (drop_bit 2 (push_bit 2 (word_of_nat p :: byte)) AND 7) = p"
    "drop_bit 5 (push_bit 2 (word_of_nat p :: byte)) = 0"
    by (elim disjE; simp)+
  show "chunk_type_of ((b AND 0xE3) OR push_bit 2 (word_of_nat p)) = chunk_type_of b"
    by (rule chunk_type_of_cong) (simp add: byte_algebra p(1))
  have "drop_bit 2 ((b AND 0xE3) OR push_bit 2 (word_of_nat p)) AND 7 =
      drop_bit 2 (push_bit 2 (word_of_nat p :: byte)) AND 7"
    by (simp add: bit.conj_disj_distrib2 and.assoc drop_bit_and drop_bit_or)
  then show "sp2_of ((b AND 0xE3) OR push_bit 2 (word_of_nat p)) = p"
    by (simp only: sp2_of_def p(2))
  have "drop_bit 5 ((b AND 0xE3) OR push_bit 2 (word_of_nat p)) = drop_bit 5 b AND 7"
    by (simp only: drop_bit_or drop_bit_and p(3)) simp
  then show "unat ((b AND 0xE3) OR push_bit 2 (word_of_nat p)) div 32 = unat b div 32"
    by (simp only: unat_div_32 drop_bit_5_mask)
qed

lemma header_fields_via_bytes:
  "header_type c = chunk_type_of (header_byte 0 c)"
  "chunkSize c = 2 ^ (sp2_of (header_byte 0 c) + 5)"
  "numberValidBytes c =
     sub32 (sub32 (chunkSize c) (8 * unat (header_byte 1 c) + unat (header_byte 0 c) div 32)) 4"
  by (simp_all add: header_type_def chunkSize_def numberValidBytes_def numberInvalidBytes_of_eq)

lemma setType_fields [chunk_fields]:
  assumes "0 < length (header c)"
  shows "header_type (setType t c) = t" "chunkSize (setType t c) = chunkSize c"
    "numberValidBytes (setType t c) = numberValidBytes c"
    "length (header (setType t c)) = length (header c)"
    "drop 1 (header (setType t c)) = drop 1 (header c)"
  using assms
  by (simp_all only: header_fields_via_bytes low_bits_bytes setType_def header_byte_set refl if_True
      if_False zero_neq_one length_set_header_byte drop_set_header_byte zero_less_one)

lemma setAllBytesValid_fields [chunk_fields]:
  assumes "4 \<le> length (header c)"
  shows "header_type (setAllBytesValid c) = header_type c" "chunkSize (setAllBytesValid c) = chunkSize c"
    "numberValidBytes (setAllBytesValid c) = chunkSize c - 4"
    "length (header (setAllBytesValid c)) = length (header c)"
    "drop 2 (header (setAllBytesValid c)) = drop 2 (header c)"
proof -
  have "header c \<noteq> []" "Suc 0 < length (header c)" using assms by auto
  then show "header_type (setAllBytesValid c) = header_type c" and s: "chunkSize (setAllBytesValid c) = chunkSize c"
    and "length (header (setAllBytesValid c)) = length (header c)"
    and "drop 2 (header (setAllBytesValid c)) = drop 2 (header c)"
    by (simp_all add: header_fields_via_bytes setAllBytesValid_def all_valid_bytes)
  have "8 * unat (header_byte 1 (setAllBytesValid c)) + unat (header_byte 0 (setAllBytesValid c)) div 32 = 0"
    using \<open>header c \<noteq> []\<close> \<open>Suc 0 < length (header c)\<close>
    by (simp add: setAllBytesValid_def all_valid_bytes)
  then show "numberValidBytes (setAllBytesValid c) = chunkSize c - 4"
    using chunkSize_bounds [of c] unfolding header_fields_via_bytes(3) s by (simp add: wrap_simps)
qed

text \<open>The largest chunk size that fits into \<open>n\<close> bytes.\<close>

definition best_size :: "nat \<Rightarrow> nat" where
  "best_size n = (case find (\<lambda>s. s \<le> n) [4096, 2048, 1024, 512, 256, 128, 64] of None \<Rightarrow> 32 | Some s \<Rightarrow> s)"

lemma best_size_bounds:
  shows "32 \<le> best_size n" "best_size n \<le> 4096" "32 \<le> n \<Longrightarrow> best_size n \<le> n"
  by (simp_all add: best_size_def)

lemma best_size_greatest:
  "s \<in> {32, 64, 128, 256, 512, 1024, 2048, 4096} \<Longrightarrow> s \<le> n \<Longrightarrow> s \<le> best_size n"
  by (auto simp: best_size_def)

lemma best_size_log2:
  assumes "32 \<le> n" "n < 4294967296"
  defines "k \<equiv> min 12 (log2 (word_of_nat n))"
  shows "best_size n = 2 ^ k" "5 \<le> k" "k \<le> 12"
proof -
  have n1: "1 \<le> n" using assms(1) by simp
  note l = log2_bounds [OF n1 assms(2)]
  define j where "j = log2 (word_of_nat n)"
  note l = l [folded j_def]
  have "(2 :: nat) ^ 5 < 2 ^ (j + 1)" using l assms(1) by simp
  then have "5 \<le> j" by (simp only: power_strict_increasing_iff)
  then show "5 \<le> k" by (simp add: k_def j_def)
  show "k \<le> 12" by (simp add: k_def)
  consider "j = 5" | "j = 6" | "j = 7" | "j = 8" | "j = 9" | "j = 10" | "j = 11" | "12 \<le> j"
    using \<open>5 \<le> j\<close> by linarith
  then show "best_size n = 2 ^ k"
  proof cases
    case 8
    then have "(4096 :: nat) \<le> 2 ^ j" using power_increasing [of 12 j "2 :: nat"] by simp
    with l 8 show ?thesis by (simp add: k_def flip: j_def) (simp add: best_size_def)
  qed (use l in \<open>simp_all add: k_def flip: j_def\<close>, simp_all add: best_size_def)
qed

lemma setBestFitSize_eq:
  assumes "n < 4294967296"
  shows "setBestFitSize n c =
    (if n < 32 then 0 else best_size n,
     set_header_byte 0 ((header_byte 0 c AND 0xE3) OR
       push_bit 2 (word_of_nat (if n < 32 then 0 else min 12 (log2 (word_of_nat n)) - 5))) c)"
  using best_size_log2(1) [of n] assms by (simp add: setBestFitSize_def Let_def min_def)

lemma setBestFitSize_fields:
  assumes "0 < length (header c)" "n < 4294967296" "setBestFitSize n c = (best, c')"
  shows "best = (if n < 32 then 0 else chunkSize c')" "chunkSize c' = (if n < 32 then 32 else best_size n)"
    "header_type c' = header_type c" "length (header c') = length (header c)" "drop 1 (header c') = drop 1 (header c)"
proof -
  let ?p = "if n < 32 then 0 else min 12 (log2 (word_of_nat n)) - 5"
  have p: "?p \<le> 7" "32 \<le> n \<Longrightarrow> best_size n = 2 ^ (?p + 5)"
    using best_size_log2 [of n] assms(2) by auto
  have eq: "c' = set_header_byte 0 ((header_byte 0 c AND 0xE3) OR push_bit 2 (word_of_nat ?p)) c"
    "best = (if n < 32 then 0 else best_size n)"
    using setBestFitSize_eq [OF assms(2), of c] assms(3) by (auto simp only: prod.inject)
  have b0: "header_byte 0 c' = (header_byte 0 c AND 0xE3) OR push_bit 2 (word_of_nat ?p)"
    unfolding eq using assms(1) by (simp only: header_byte_set if_True refl)
  have "chunkSize c' = 2 ^ (?p + 5)"
    unfolding header_fields_via_bytes(2) b0 best_fit_bytes(2) [OF p(1)] ..
  then show size: "chunkSize c' = (if n < 32 then 32 else best_size n)"
    using p(2) by simp
  show "header_type c' = header_type c"
    unfolding header_fields_via_bytes(1) b0 best_fit_bytes(1) [OF p(1)] ..
  show "best = (if n < 32 then 0 else chunkSize c')"
    using eq(2) size by simp
qed (use setBestFitSize_eq [OF assms(2), of c] assms(3) in auto)



subsection \<open>The CRC field\<close>

lemma crc_setCrc [chunk_fields]:
  assumes "4 \<le> length (header c)"
  shows "crc (setCrc v c) = v"
proof -
  have "header c \<noteq> []" "2 < length (header c)" "3 < length (header c)" using assms by auto
  then have "crc (setCrc v c) = push_bit 8 (ucast (ucast (drop_bit 8 v) :: byte)) OR ucast (ucast v :: byte)"
    by (simp add: crc_def setCrc_def)
  also have "\<dots> = v"
    by (rule bit_word_eqI) (auto simp: bit_or_iff bit_push_bit_iff bit_unsigned_iff bit_drop_bit_eq)
  finally show ?thesis .
qed

lemma setCrc_fields [chunk_fields]:
  assumes "4 \<le> length (header c)"
  shows "header_type (setCrc v c) = header_type c" "chunkSize (setCrc v c) = chunkSize c"
    "numberValidBytes (setCrc v c) = numberValidBytes c"
    "length (header (setCrc v c)) = length (header c)"
    "initializeCrc (setCrc v c) = initializeCrc c"
    "additionalHeader (setCrc v c) = additionalHeader c"
    "take 2 (header (setCrc v c)) = take 2 (header c)"
proof -
  have "header c \<noteq> []" "1 < length (header c)" "2 < length (header c)" "3 < length (header c)"
    using assms by auto
  then show "header_type (setCrc v c) = header_type c" "chunkSize (setCrc v c) = chunkSize c"
    "numberValidBytes (setCrc v c) = numberValidBytes c"
    "length (header (setCrc v c)) = length (header c)"
    "initializeCrc (setCrc v c) = initializeCrc c"
    "additionalHeader (setCrc v c) = additionalHeader c"
    by (simp_all add: header_fields_via_bytes setCrc_def initializeCrc_def additionalHeader_def)
  show "take 2 (header (setCrc v c)) = take 2 (header c)"
    by (simp add: setCrc_def set_header_byte_def)
qed

subsection \<open>Positions\<close>

lemma toPosition_id [wrap_simps]: "i < 134217728 \<Longrightarrow> toPosition i = 32 * i"
  by (simp add: toPosition_def u32_def u64_def)

lemma toFileIndex_id [wrap_simps]: "p < 137438953472 \<Longrightarrow> toFileIndex p = p div 32"
  by (simp add: toFileIndex_def u32_def)

text \<open>
  C27. \<open>ChunkHeader::toPosition\<close> and \<open>toFileIndex\<close> are inverse to each other exactly on the
  file indexes below 2^27 (4 GiB of container): there \<open>toPosition\<close> is injective and
  \<open>toFileIndex\<close> returns the index for every byte of its 32-byte cell, and for every index
  from 2^27 on the 32-bit multiplication drops the high bits, so a different chunk of the
  first 4 GiB is addressed.
\<close>
theorem position_index_roundtrip:
  "(toFileIndex (toPosition i) = i \<longleftrightarrow> i < 134217728) \<and>
   (i < 134217728 \<and> b < 32 \<longrightarrow> toFileIndex (toPosition i + b) = i) \<and>
   (\<exists>j < 134217728. toPosition j = toPosition i)"
proof (intro conjI impI)
  have mod: "32 * i mod 4294967296 = 32 * (i mod 134217728)"
    using mult_mod_right [of 32 i 134217728] by simp
  have "i mod 134217728 < 134217728" by simp
  then have "toPosition i = 32 * (i mod 134217728)"
    by (simp add: toPosition_def u32_def u64_def mod)
  moreover from this have "toFileIndex (toPosition i) = i mod 134217728"
    using \<open>i mod 134217728 < 134217728\<close> by (simp add: toFileIndex_def u32_def)
  ultimately show "toFileIndex (toPosition i) = i \<longleftrightarrow> i < 134217728"
    and "\<exists>j < 134217728. toPosition j = toPosition i"
    using \<open>i mod 134217728 < 134217728\<close> by (auto simp: toPosition_id intro!: exI [of _ "i mod 134217728"])
  show "toFileIndex (toPosition i + b) = i" if "i < 134217728 \<and> b < 32"
    using that by (simp add: toPosition_id toFileIndex_def u32_def)
qed

theorem position_index_roundtrip_witness:
  "toFileIndex (toPosition 3 + 7) = 3 \<and> toFileIndex (toPosition 134217729) \<noteq> 134217729"
  using position_index_roundtrip [of 3 7] position_index_roundtrip [of 134217729 0] by simp

lemma fit_size_toChunkSize:
  assumes "4 \<le> n" "n \<le> 4096"
  shows "toChunkSize (toClosestLargerChunkP2 n) = Some (fit_size n)"
proof -
  have "sub64 n 1 = n - 1" using assms by (simp add: sub64_id)
  then have "toClosestLargerChunkP2 n = fit_p2 n"
    by (simp only: toClosestLargerChunkP2_def fit_p2_def Let_def) auto
  with fit_p2 [OF assms] show ?thesis by (simp add: toChunkSize_def)
qed

lemma best_size_toChunkSize:
  assumes "32 \<le> n" "n < 8192"
  shows "toChunkSize (toClosestSmallerChunkP2 n) = Some (best_size n)"
proof -
  have n: "n < 4294967296" "1 \<le> n" using assms by simp_all
  note b = best_size_log2 [OF assms(1) n(1)] and l = log2_bounds [OF n(2,1)]
  have "(2 :: nat) ^ log2 (word_of_nat n) < 2 ^ 13" using l assms(2) by simp
  then have "log2 (word_of_nat n) < 13" by (simp only: power_strict_increasing_iff)
  then have "min 12 (log2 (word_of_nat n)) = log2 (word_of_nat n)" by simp
  then have "toClosestSmallerChunkP2 n = min 12 (log2 (word_of_nat n)) - 5"
    by (simp only: toClosestSmallerChunkP2_def Let_def) auto
  moreover have "min 12 (log2 (word_of_nat n)) - 5 \<le> 7"
    "min 12 (log2 (word_of_nat n)) - 5 + 5 = min 12 (log2 (word_of_nat n))"
    using b(2,3) by linarith+
  ultimately show ?thesis
    unfolding toChunkSize_def b(1) by (simp only: assertion_simps bind.simps)
qed

subsection \<open>What the constructors establish\<close>

lemma length_new_array [simp]: "length (new_array uninit n) = n"
  by (simp add: new_array_def)

lemma ChunkHeader_establishes:
  assumes "n \<le> 4092"
  obtains c where "ChunkHeader uninit n = Some c" "length (header c) = n + 4" "numberValidBytes c = n"
    "chunkSize c = fit_size (n + 4)" "header_type c = FILE_HEADER_CHUNK"
proof -
  let ?h = "\<lparr>header = overlay (new_array uninit (n + 4)) 0 [0x80, 0x03, 0x00, 0x00]\<rparr> :: chunk_header"
  have "u16 (4 + n) = n + 4" using assms by (simp add: u16_id)
  then have eq: "ChunkHeader uninit n = Some (with_valid_bytes n ?h)"
    using assms setNumberValidBytes_eq [of ?h n True] by (simp add: ChunkHeader_def min_def)
  have "header_type ?h = FILE_HEADER_CHUNK"
    by (simp add: header_type_def header_byte_def chunk_type_of_def overlay_def)
  with that [OF eq] show ?thesis
    using with_valid_bytes_fields [of ?h n] assms by simp
qed

lemma ChunkHeader_common_eq:
  assumes "n \<le> 4092" "length common = 4"
  shows "ChunkHeader_common uninit common n =
    Some \<lparr>header = common @ drop 4 (new_array uninit (n + 4))\<rparr>"
  using assms by (simp add: ChunkHeader_common_def u16_id overlay_def)

end
