(* ===== verification/Container_Area.thy ===== *)
theory Container_Area
  imports Chunk_Header
begin

text \<open>
  The small value classes of the space management: \<open>ContainerArea\<close>
  (\<open>container_area.cpp\<close>), the entry \<open>FreeSpaceData\<close> of the free map
  (\<open>free_space_data.cpp\<close>), a reservation \<open>FreeSpace\<close> (\<open>free_space.cpp\<close>) and the entry
  \<open>ChunkMapData\<close> of a virtual file's chunk map (\<open>chunk_map_data.cpp\<close>). File indexes are
  32-bit. Copy constructors and assignment operators copy every field, which is what passing
  a record does.
\<close>

subsection \<open>\<open>ContainerArea\<close>\<close>

datatype side = FROM_FRONT | FROM_BACK

record container_area =
  currentStartingIndex :: nat
  currentAreaSize :: nat

definition ContainerArea :: "nat \<Rightarrow> nat \<Rightarrow> container_area" where
  "ContainerArea startingIndex areaSize =
     \<lparr>currentStartingIndex = startingIndex, currentAreaSize = areaSize\<rparr>"

definition setStartingIndex :: "nat \<Rightarrow> 'a container_area_scheme \<Rightarrow> 'a container_area_scheme" where
  "setStartingIndex newStartingIndex a = a\<lparr>currentStartingIndex := newStartingIndex\<rparr>"

definition setEndingIndex ::
  "nat \<Rightarrow> 'a container_area_scheme \<Rightarrow> bool \<times> 'a container_area_scheme" where
  "setEndingIndex newEndingIndex a =
     (if newEndingIndex \<ge> currentStartingIndex a
      then (True, a\<lparr>currentAreaSize := newEndingIndex - currentStartingIndex a\<rparr>)
      else (False, a))"

definition endingIndex :: "'a container_area_scheme \<Rightarrow> nat" where
  "endingIndex a = u32 (currentStartingIndex a + currentAreaSize a)"

definition setAreaSize :: "nat \<Rightarrow> 'a container_area_scheme \<Rightarrow> 'a container_area_scheme" where
  "setAreaSize newAreaSize a = a\<lparr>currentAreaSize := newAreaSize\<rparr>"

definition reduceBy :: "nat \<Rightarrow> side \<Rightarrow> 'a container_area_scheme \<Rightarrow> bool \<times> 'a container_area_scheme" where
  "reduceBy amount s a =
     (let success = currentAreaSize a \<ge> amount
      in if success then
           let a = a\<lparr>currentAreaSize := currentAreaSize a - amount\<rparr>
           in (success,
               if s = FROM_FRONT
               then a\<lparr>currentStartingIndex := u32 (currentStartingIndex a + amount)\<rparr> else a)
         else (success, a))"

definition expandBy :: "nat \<Rightarrow> side \<Rightarrow> 'a container_area_scheme \<Rightarrow> bool \<times> 'a container_area_scheme" where
  "expandBy amount s a =
     (let success = s = FROM_BACK \<or> currentStartingIndex a \<ge> amount
      in if success then
           let a = (if s = FROM_FRONT
                    then a\<lparr>currentStartingIndex := currentStartingIndex a - amount\<rparr> else a)
           in (success, a\<lparr>currentAreaSize := u32 (currentAreaSize a + amount)\<rparr>)
         else (success, a))"

definition area_equal :: "'a container_area_scheme \<Rightarrow> 'a container_area_scheme \<Rightarrow> bool" where
  "area_equal a b \<longleftrightarrow>
     currentStartingIndex b = currentStartingIndex a \<and> currentAreaSize b = currentAreaSize a"

definition area_not_equal :: "'a container_area_scheme \<Rightarrow> 'a container_area_scheme \<Rightarrow> bool" where
  "area_not_equal a b \<longleftrightarrow>
     currentStartingIndex b \<noteq> currentStartingIndex a \<or> currentAreaSize b \<noteq> currentAreaSize a"

text \<open>The file indexes an area covers.\<close>

definition area_cells :: "'a container_area_scheme \<Rightarrow> nat set" where
  "area_cells a = {currentStartingIndex a ..< currentStartingIndex a + currentAreaSize a}"

definition area_ok :: "'a container_area_scheme \<Rightarrow> bool" where
  "area_ok a \<longleftrightarrow> currentStartingIndex a + currentAreaSize a < 4294967296"

lemma endingIndex_id [wrap_simps]:
  "area_ok a \<Longrightarrow> endingIndex a = currentStartingIndex a + currentAreaSize a"
  by (simp add: area_ok_def endingIndex_def u32_id)

lemma area_not_equal_iff [simp]: "area_not_equal a b \<longleftrightarrow> \<not> area_equal a b"
  by (auto simp: area_equal_def area_not_equal_def)

text \<open>
  C30. \<open>reduceBy\<close> succeeds exactly when the area holds the amount and then drops just the
  cells at the chosen side; \<open>expandBy\<close> from the same side is its inverse. A failing call
  leaves the area as it was.
\<close>
theorem reduceBy_expandBy:
  assumes "area_ok a"
  shows "(amount \<le> currentAreaSize a \<longrightarrow>
      (\<exists>b. reduceBy amount s a = (True, b) \<and> area_ok b \<and>
        area_cells b =
          (if s = FROM_FRONT then area_cells a - {..< currentStartingIndex a + amount}
           else area_cells a - {endingIndex a - amount ..}) \<and>
        expandBy amount s b = (True, a))) \<and>
    (currentAreaSize a < amount \<longrightarrow> reduceBy amount s a = (False, a))"
  using assms
  by (cases s) (auto simp: reduceBy_def expandBy_def area_cells_def area_ok_def endingIndex_def u32_def)

theorem reduceBy_expandBy_witness:
  "\<exists>b. reduceBy 2 FROM_FRONT (ContainerArea 5 7) = (True, b) \<and> expandBy 2 FROM_FRONT b = (True, ContainerArea 5 7)"
  using reduceBy_expandBy [of "ContainerArea 5 7" 2 FROM_FRONT] by (auto simp: area_ok_def ContainerArea_def)

subsection \<open>\<open>FreeSpaceData\<close>\<close>

record free_space_data =
  currentEndingIndex :: nat
  currentlyReserved :: bool
  currentFileNeedsUpdate :: bool

definition FreeSpaceData :: "nat \<Rightarrow> bool \<Rightarrow> bool \<Rightarrow> free_space_data" where
  "FreeSpaceData ending reserved fileNeedsUpdate =
     \<lparr>currentEndingIndex = ending, currentlyReserved = reserved,
      currentFileNeedsUpdate = fileNeedsUpdate\<rparr>"

definition setRegionEndingIndex :: "nat \<Rightarrow> free_space_data \<Rightarrow> free_space_data" where
  "setRegionEndingIndex newEndingIndex d = d\<lparr>currentEndingIndex := newEndingIndex\<rparr>"

definition setReserved :: "bool \<Rightarrow> free_space_data \<Rightarrow> free_space_data" where
  "setReserved nowReserved d = d\<lparr>currentlyReserved := nowReserved\<rparr>"

definition setAvailable :: "bool \<Rightarrow> free_space_data \<Rightarrow> free_space_data" where
  "setAvailable nowAvailable d = setReserved (\<not> nowAvailable) d"

definition isReserved :: "free_space_data \<Rightarrow> bool" where
  "isReserved d = currentlyReserved d"

definition isAvailable :: "free_space_data \<Rightarrow> bool" where
  "isAvailable d \<longleftrightarrow> \<not> isReserved d"

definition setFileUpdateNeeded :: "bool \<Rightarrow> free_space_data \<Rightarrow> free_space_data" where
  "setFileUpdateNeeded nowNeeded d = d\<lparr>currentFileNeedsUpdate := nowNeeded\<rparr>"

definition fileUpdateNeeded :: "free_space_data \<Rightarrow> bool" where
  "fileUpdateNeeded d = currentFileNeedsUpdate d"

lemmas free_space_data_defs =
  FreeSpaceData_def setRegionEndingIndex_def setReserved_def setAvailable_def isReserved_def
  isAvailable_def setFileUpdateNeeded_def fileUpdateNeeded_def

lemma free_space_data_simps [simp]:
  "currentEndingIndex (FreeSpaceData e r u) = e"
  "currentEndingIndex (setRegionEndingIndex e d) = e"
  "currentEndingIndex (setReserved b d) = currentEndingIndex d"
  "currentEndingIndex (setAvailable b d) = currentEndingIndex d"
  "currentEndingIndex (setFileUpdateNeeded b d) = currentEndingIndex d"
  "isReserved (FreeSpaceData e r u) = r"
  "isReserved (setRegionEndingIndex e d) = isReserved d"
  "isReserved (setReserved b d) = b"
  "isReserved (setAvailable b d) \<longleftrightarrow> \<not> b"
  "isReserved (setFileUpdateNeeded b d) = isReserved d"
  "fileUpdateNeeded (FreeSpaceData e r u) = u"
  "fileUpdateNeeded (setRegionEndingIndex e d) = fileUpdateNeeded d"
  "fileUpdateNeeded (setReserved b d) = fileUpdateNeeded d"
  "fileUpdateNeeded (setAvailable b d) = fileUpdateNeeded d"
  "fileUpdateNeeded (setFileUpdateNeeded b d) = b"
  "isAvailable d \<longleftrightarrow> \<not> isReserved d"
  by (simp_all add: free_space_data_defs)

subsection \<open>\<open>FreeSpace\<close>\<close>

text \<open>
  A reservation: the area still unused and the iterator (the key) of the free map entry that
  holds it. The default constructor leaves the iterator unset.
\<close>

record free_space = container_area +
  iterator :: "nat option"
  currentlyValid :: bool

definition FreeSpace :: "nat \<Rightarrow> nat \<Rightarrow> nat \<Rightarrow> free_space" where
  "FreeSpace freeSpacePosition startingIndex areaSize =
     \<lparr>currentStartingIndex = startingIndex, currentAreaSize = areaSize,
      iterator = Some freeSpacePosition, currentlyValid = True\<rparr>"

definition FreeSpace_invalid :: free_space where
  "FreeSpace_invalid =
     \<lparr>currentStartingIndex = 0, currentAreaSize = 0, iterator = None, currentlyValid = False\<rparr>"

definition isValid :: "free_space \<Rightarrow> bool" where
  "isValid fs = currentlyValid fs"

definition isInvalid :: "free_space \<Rightarrow> bool" where
  "isInvalid fs \<longleftrightarrow> \<not> isValid fs"

lemma FreeSpace_simps [simp]:
  "currentStartingIndex (FreeSpace p s n) = s" "currentAreaSize (FreeSpace p s n) = n"
  "iterator (FreeSpace p s n) = Some p" "isValid (FreeSpace p s n)"
  "\<not> isValid FreeSpace_invalid" "isInvalid FreeSpace_invalid" "\<not> isInvalid (FreeSpace p s n)"
  by (simp_all add: FreeSpace_def isValid_def isInvalid_def FreeSpace_invalid_def)

subsection \<open>\<open>ChunkMapData\<close>\<close>

record chunk_map_data =
  chunkStartingIndex :: nat
  chunkPayloadSize :: nat

definition ChunkMapData :: "nat \<Rightarrow> nat \<Rightarrow> chunk_map_data" where
  "ChunkMapData startingIndex payloadSize =
     \<lparr>chunkStartingIndex = startingIndex, chunkPayloadSize = payloadSize\<rparr>"

definition setChunkStartingIndex :: "nat \<Rightarrow> chunk_map_data \<Rightarrow> chunk_map_data" where
  "setChunkStartingIndex newStartingIndex d = d\<lparr>chunkStartingIndex := newStartingIndex\<rparr>"

definition setPayloadSize :: "nat \<Rightarrow> chunk_map_data \<Rightarrow> chunk_map_data" where
  "setPayloadSize newPayloadSize d = d\<lparr>chunkPayloadSize := newPayloadSize\<rparr>"

end
