(* ===== verification/Free_Space_Tracker.thy ===== *)
theory Free_Space_Tracker
  imports Ordered_Map Container_Area
begin

text \<open>
  \<open>FreeSpaceTracker\<close> (\<open>free_space_tracker.cpp\<close>): the map from the starting index of a
  region of unused file space to its ending index, its reservation mark and its update mark.
  The pure virtual \<open>size\<close> and \<open>flushArea\<close>, which \<open>ContainerImpl\<close> implements, are
  arguments of the operations that call them.
\<close>

type_synonym free_map = "(nat, free_space_data) omap"

record free_space_tracker =
  freeMap :: free_map

definition FreeSpaceTracker :: free_space_tracker where
  "FreeSpaceTracker = \<lparr>freeMap = []\<rparr>"

subsection \<open>Adding an area\<close>

text \<open>
  The \<open>while\<close> loop of \<open>newFreeSpaceArea\<close>: \<open>it\<close> is the iterator, \<open>next\<close> is taken before
  the map changes. The result is the map, the starting and ending index and the update mark
  of what is left to insert.
\<close>

partial_function (option) newFreeSpaceArea_loop ::
  "nat option \<Rightarrow> nat \<Rightarrow> nat \<Rightarrow> bool \<Rightarrow> bool \<Rightarrow> free_map \<Rightarrow> (free_map \<times> nat \<times> nat \<times> bool) option"
where
  "newFreeSpaceArea_loop it startingIndex ending regionFileUpdateNeeded updateNeeded m =
     (case it of
        None \<Rightarrow> Some (m, startingIndex, ending, regionFileUpdateNeeded)
      | Some k \<Rightarrow>
          if k \<le> ending then do {
            assertion (k > startingIndex);
            d \<leftarrow> om_find k m;
            let next = om_next k m;
            if isReserved d then
              newFreeSpaceArea_loop next (currentEndingIndex d) ending updateNeeded updateNeeded
                (om_insert startingIndex (FreeSpaceData k False regionFileUpdateNeeded) m)
            else
              newFreeSpaceArea_loop next startingIndex
                (if currentEndingIndex d > ending then currentEndingIndex d else ending)
                (if fileUpdateNeeded d then True else regionFileUpdateNeeded) updateNeeded
                (om_erase k m)
          }
          else Some (m, startingIndex, ending, regionFileUpdateNeeded))"

declare newFreeSpaceArea_loop.simps [code]

definition newFreeSpaceArea ::
  "nat \<Rightarrow> nat \<Rightarrow> bool \<Rightarrow> free_space_tracker \<Rightarrow> free_space_tracker option" where
  "newFreeSpaceArea startingIndex areaSize updateNeeded t = do {
     let m = freeMap t;
     let ending = u32 (startingIndex + areaSize);
     let next = om_lower_bound startingIndex m;
     (m, startingIndex, regionFileUpdateNeeded, finished) \<leftarrow>
       (if next \<noteq> om_begin m then do {
          previousStartingIndex \<leftarrow> om_prev next m;
          previous \<leftarrow> om_find previousStartingIndex m;
          let previousEndingIndex = currentEndingIndex previous;
          assertion (previousStartingIndex \<le> startingIndex);
          if previousEndingIndex \<ge> ending then
            Some (m, startingIndex, updateNeeded, True)
          else if previousEndingIndex \<ge> startingIndex then
            if isReserved previous then
              Some (m, previousEndingIndex, updateNeeded, False)
            else
              Some (om_erase previousStartingIndex m, previousStartingIndex,
                fileUpdateNeeded previous \<or> updateNeeded, False)
          else Some (m, startingIndex, updateNeeded, False)
        }
        else Some (m, startingIndex, updateNeeded, False));
     if finished then Some (t\<lparr>freeMap := m\<rparr>)
     else do {
       (m, startingIndex, ending, regionFileUpdateNeeded) \<leftarrow>
         newFreeSpaceArea_loop next startingIndex ending regionFileUpdateNeeded updateNeeded m;
       if startingIndex < ending then
         Some (t\<lparr>freeMap := om_insert startingIndex (FreeSpaceData ending False regionFileUpdateNeeded) m\<rparr>)
       else Some (t\<lparr>freeMap := m\<rparr>)
     }
   }"

definition newFreeSpaceArea_area ::
  "container_area \<Rightarrow> bool \<Rightarrow> free_space_tracker \<Rightarrow> free_space_tracker option" where
  "newFreeSpaceArea_area a updateNeeded t =
     newFreeSpaceArea (currentStartingIndex a) (currentAreaSize a) updateNeeded t"

subsection \<open>Reserving an area\<close>

text \<open>
  The search loop of \<open>reserveFreeSpaceArea\<close>; \<open>None\<close> as result stands for a dangling
  iterator, \<open>Some None\<close> for \<open>end()\<close>.
\<close>

partial_function (option) reserve_search ::
  "nat option \<Rightarrow> nat \<Rightarrow> nat \<Rightarrow> free_map \<Rightarrow> nat option option"
where
  "reserve_search it minimumSize lowestEndingIndex m =
     (case it of
        None \<Rightarrow> Some None
      | Some k \<Rightarrow> do {
          d \<leftarrow> om_find k m;
          if isReserved d \<or> sub32 (currentEndingIndex d) k < minimumSize \<or>
             currentEndingIndex d < lowestEndingIndex
          then reserve_search (om_next k m) minimumSize lowestEndingIndex m
          else Some (Some k)
        })"

declare reserve_search.simps [code]

text \<open>Splitting the region the search found, and the entry appended at the end of the file.\<close>

definition allocate_from ::
  "nat \<Rightarrow> nat \<Rightarrow> nat \<Rightarrow> free_space_tracker \<Rightarrow> (free_space \<times> free_space_tracker) option" where
  "allocate_from regionStartingIndex startingIndex desiredSize t = do {
     let m = freeMap t;
     region \<leftarrow> om_find regionStartingIndex m;
     let regionEndingIndex = currentEndingIndex region;
     let splitLeft = regionStartingIndex < startingIndex;
     let allocationStartingIndex = (if splitLeft then startingIndex else regionStartingIndex);
     let splitRight = u32 (allocationStartingIndex + desiredSize) < regionEndingIndex;
     let allocationEndingIndex =
       (if splitRight then u32 (allocationStartingIndex + desiredSize) else regionEndingIndex);
     let allocationAreaSize = sub32 allocationEndingIndex allocationStartingIndex;
     let (m, freeSpaceIterator) =
       (if splitLeft then
          (om_insert allocationStartingIndex (FreeSpaceData allocationEndingIndex True True)
             (om_assign regionStartingIndex
                (setFileUpdateNeeded True (setRegionEndingIndex allocationStartingIndex region)) m),
           allocationStartingIndex)
        else
          (om_assign regionStartingIndex
             (setFileUpdateNeeded True (setReserved True
                (setRegionEndingIndex allocationEndingIndex region))) m,
           regionStartingIndex));
     let m =
       (if splitRight
        then om_insert allocationEndingIndex (FreeSpaceData regionEndingIndex False True) m else m);
     Some (FreeSpace freeSpaceIterator allocationStartingIndex allocationAreaSize, t\<lparr>freeMap := m\<rparr>)
   }"

definition allocate_at_end ::
  "int \<Rightarrow> nat \<Rightarrow> free_space_tracker \<Rightarrow> free_space \<times> free_space_tracker" where
  "allocate_at_end fileSize desiredSize t =
     (let allocationStartingIndex = toFileIndex (nat (fileSize mod 18446744073709551616));
          allocationAreaSize = desiredSize;
          allocationEndingIndex = u32 (allocationStartingIndex + allocationAreaSize)
      in (FreeSpace allocationStartingIndex allocationStartingIndex allocationAreaSize,
          t\<lparr>freeMap := om_insert allocationStartingIndex
             (FreeSpaceData allocationEndingIndex True True) (freeMap t)\<rparr>))"

definition reserveFreeSpaceArea ::
  "int \<Rightarrow> nat \<Rightarrow> nat \<Rightarrow> nat \<Rightarrow> free_space_tracker \<Rightarrow> (free_space \<times> free_space_tracker) option" where
  "reserveFreeSpaceArea fileSize startingIndex minimumSize desiredSize t = do {
     let m = freeMap t;
     let desiredSize = (if desiredSize = 0 then minimumSize else desiredSize);
     let it = om_lower_bound startingIndex m;
     it \<leftarrow>
       (if it \<noteq> om_begin m \<and> (case it of None \<Rightarrow> True | Some k \<Rightarrow> k > startingIndex)
        then map_option Some (om_prev it m) else Some it);
     let lowestEndingIndex = u32 (startingIndex + minimumSize);
     it \<leftarrow> reserve_search it minimumSize lowestEndingIndex m;
     (case it of
        Some regionStartingIndex \<Rightarrow> allocate_from regionStartingIndex startingIndex desiredSize t
      | None \<Rightarrow> Some (allocate_at_end fileSize desiredSize t))
   }"

subsection \<open>Releasing a reservation\<close>

text \<open>
  The part of \<open>releaseReservation\<close> that merges the entry made available with its
  neighbours: first the previous one, then the next one.
\<close>

definition merge_next :: "free_space_tracker \<Rightarrow> free_map \<Rightarrow> nat \<Rightarrow> free_space_tracker option" where
  "merge_next t m released = do {
     data \<leftarrow> om_find released m;
     m \<leftarrow>
       (case om_next released m of
          None \<Rightarrow> Some m
        | Some next \<Rightarrow> do {
            nextData \<leftarrow> om_find next m;
            if isAvailable nextData \<and> currentEndingIndex data \<ge> next then do {
              assertion (currentEndingIndex data = next);
              Some (om_erase next
                (om_assign released (setRegionEndingIndex (currentEndingIndex nextData) data) m))
            }
            else Some m
          });
     data \<leftarrow> om_find released m;
     Some (t\<lparr>freeMap := om_assign released (setFileUpdateNeeded True data) m\<rparr>)
   }"

definition merge_released :: "free_space_tracker \<Rightarrow> free_map \<Rightarrow> nat \<Rightarrow> free_space_tracker option" where
  "merge_released t m released = do {
     data \<leftarrow> om_find released m;
     (m, released) \<leftarrow>
       (if om_begin m \<noteq> Some released then do {
          previous \<leftarrow> om_prev (Some released) m;
          previousData \<leftarrow> om_find previous m;
          if isAvailable previousData \<and> currentEndingIndex previousData \<ge> released then do {
            assertion (currentEndingIndex previousData = released);
            Some (om_erase released
                (om_assign previous (setRegionEndingIndex (currentEndingIndex data) previousData) m),
              previous)
          }
          else Some (m, released)
        }
        else Some (m, released));
     merge_next t m released
   }"

definition releaseReservation ::
  "int \<Rightarrow> free_space \<Rightarrow> free_space_tracker \<Rightarrow> free_space_tracker option" where
  "releaseReservation fileSize freeSpaceRegion t = do {
     assertion (isValid freeSpaceRegion);
     released \<leftarrow> iterator freeSpaceRegion;
     let m = freeMap t;
     data \<leftarrow> om_find released m;
     if currentAreaSize freeSpaceRegion = 0 \<or>
        currentStartingIndex freeSpaceRegion \<ge> toFileIndex (nat (fileSize mod 18446744073709551616))
     then Some (t\<lparr>freeMap := om_erase released m\<rparr>)
     else do {
       (m, released) \<leftarrow>
         (if released \<noteq> currentStartingIndex freeSpaceRegion then do {
            assertion (om_find (currentStartingIndex freeSpaceRegion) m = None);
            let m = om_insert (currentStartingIndex freeSpaceRegion)
                      (FreeSpaceData (currentEndingIndex data) False True) m;
            Some (om_erase released m, currentStartingIndex freeSpaceRegion)
          }
          else Some (om_assign released (setAvailable True data) m, released));
       merge_released t m released
     }
   }"

subsection \<open>Counting, flushing and clearing\<close>

definition numberFreeSpaceRegions :: "free_space_tracker \<Rightarrow> nat" where
  "numberFreeSpaceRegions t = length (freeMap t)"

fun count_reserved :: "free_map \<Rightarrow> nat \<Rightarrow> nat" where
  "count_reserved [] count = count"
| "count_reserved ((k, d) # m) count =
     count_reserved m (if isReserved d then count + 1 else count)"

definition numberReservations :: "free_space_tracker \<Rightarrow> nat" where
  "numberReservations t = count_reserved (freeMap t) 0"

text \<open>
  The loop of \<open>flushFreeSpace\<close>, over the entries from \<open>begin()\<close> on; the state \<open>w\<close> is
  whatever \<open>flushArea\<close> works on. It changes marks only, so the iterator's order is the
  list's.
\<close>

fun flush_regions ::
  "(container_area \<Rightarrow> 'w \<Rightarrow> (bool \<times> 'w) option) \<Rightarrow> bool \<Rightarrow> bool \<Rightarrow> free_map \<Rightarrow> 'w \<Rightarrow>
   (bool \<times> free_map \<times> 'w) option"
where
  "flush_regions flushArea flushAll success [] w = Some (success, [], w)"
| "flush_regions flushArea flushAll success ((k, d) # m) w =
     (if \<not> success then Some (success, (k, d) # m, w)
      else do {
        (success, d, w) \<leftarrow>
          (if flushAll \<or> fileUpdateNeeded d then do {
             let d = setFileUpdateNeeded False d;
             (success, w) \<leftarrow> flushArea (ContainerArea k (sub32 (currentEndingIndex d) k)) w;
             Some (success, d, w)
           }
           else Some (success, d, w));
        (success, m, w) \<leftarrow> flush_regions flushArea flushAll success m w;
        Some (success, (k, d) # m, w)
      })"

definition flushFreeSpace ::
  "(container_area \<Rightarrow> 'w \<Rightarrow> (bool \<times> 'w) option) \<Rightarrow> bool \<Rightarrow> free_space_tracker \<Rightarrow> 'w \<Rightarrow>
   (bool \<times> free_space_tracker \<times> 'w) option" where
  "flushFreeSpace flushArea flushAll t w = do {
     (success, m, w) \<leftarrow> flush_regions flushArea flushAll True (freeMap t) w;
     Some (success, t\<lparr>freeMap := m\<rparr>, w)
   }"

definition clearFreeSpace :: "free_space_tracker \<Rightarrow> free_space_tracker" where
  "clearFreeSpace t = t\<lparr>freeMap := []\<rparr>"

subsection \<open>The invariant and the abstraction\<close>

text \<open>
  A free map is well formed when its regions are non-empty, below the end of the 32-bit
  index space, in order, disjoint, and no two available regions touch (they would have been
  merged). It stands for the set of available file indexes and the set of reserved regions.
\<close>

definition region_sep :: "nat \<times> free_space_data \<Rightarrow> nat \<times> free_space_data \<Rightarrow> bool" where
  "region_sep p q \<longleftrightarrow> currentEndingIndex (snd p) \<le> fst q \<and>
     (currentEndingIndex (snd p) = fst q \<longrightarrow> isReserved (snd p) \<or> isReserved (snd q))"

definition region_ok :: "nat \<times> free_space_data \<Rightarrow> bool" where
  "region_ok p \<longleftrightarrow> fst p < currentEndingIndex (snd p) \<and> currentEndingIndex (snd p) < 4294967296"

definition fm_ok :: "free_map \<Rightarrow> bool" where
  "fm_ok m \<longleftrightarrow> list_all region_ok m \<and> sorted_wrt region_sep m"

definition region_cells :: "nat \<times> free_space_data \<Rightarrow> nat set" where
  "region_cells p = {fst p ..< currentEndingIndex (snd p)}"

definition available_cells :: "free_map \<Rightarrow> nat set" where
  "available_cells m = (\<Union>p \<in> {p \<in> set m. \<not> isReserved (snd p)}. region_cells p)"

definition reserved_regions :: "free_map \<Rightarrow> (nat \<times> free_space_data) set" where
  "reserved_regions m = {p \<in> set m. isReserved (snd p)}"

definition mapped_cells :: "free_map \<Rightarrow> nat set" where
  "mapped_cells m = (\<Union>p \<in> set m. region_cells p)"

named_theorems cells_simps "cells and reservations of composed free maps"

lemma available_cells_simps [cells_simps]:
  "available_cells [] = {}"
  "available_cells (p # m) = (if isReserved (snd p) then {} else region_cells p) \<union> available_cells m"
  "available_cells (l @ m) = available_cells l \<union> available_cells m"
  by (auto simp: available_cells_def)

lemma reserved_regions_simps [cells_simps]:
  "reserved_regions [] = {}"
  "reserved_regions (p # m) = (if isReserved (snd p) then {p} else {}) \<union> reserved_regions m"
  "reserved_regions (l @ m) = reserved_regions l \<union> reserved_regions m"
  by (auto simp: reserved_regions_def)

lemma mapped_cells_simps [cells_simps]:
  "mapped_cells [] = {}"
  "mapped_cells (p # m) = region_cells p \<union> mapped_cells m"
  "mapped_cells (l @ m) = mapped_cells l \<union> mapped_cells m"
  by (auto simp: mapped_cells_def)

lemma mapped_cells_alt:
  "mapped_cells m = available_cells m \<union> (\<Union>p \<in> reserved_regions m. region_cells p)"
  by (auto simp: mapped_cells_def available_cells_def reserved_regions_def)

lemma fm_ok_Nil [simp]: "fm_ok []"
  by (simp add: fm_ok_def)

lemma fm_ok_append:
  "fm_ok (l @ r) \<longleftrightarrow> fm_ok l \<and> fm_ok r \<and> (\<forall>p \<in> set l. \<forall>q \<in> set r. region_sep p q)"
  by (auto simp: fm_ok_def sorted_wrt_append)

lemma fm_ok_Cons:
  "fm_ok (p # r) \<longleftrightarrow> region_ok p \<and> fm_ok r \<and> (\<forall>q \<in> set r. region_sep p q)"
  by (auto simp: fm_ok_def)

lemma fm_ok_om_sorted: "fm_ok m \<Longrightarrow> om_sorted m"
proof (induction m)
  case (Cons p m)
  then have "om_sorted m" by (simp add: fm_ok_Cons)
  moreover have "fst p < fst q" if "q \<in> set m" for q
    using Cons.prems that by (auto simp: fm_ok_Cons region_ok_def region_sep_def)
  ultimately show ?case by auto
qed simp

lemma fm_ok_entry: "fm_ok m \<Longrightarrow> (k, d) \<in> set m \<Longrightarrow> k < currentEndingIndex d \<and> currentEndingIndex d < 4294967296"
  by (force simp: fm_ok_def list_all_iff region_ok_def)

subsection \<open>Placing an available region between its neighbours\<close>

definition merge_left :: "free_map \<Rightarrow> nat \<Rightarrow> free_map \<times> nat" where
  "merge_left l s =
     (if l \<noteq> [] \<and> \<not> isReserved (snd (last l)) \<and> currentEndingIndex (snd (last l)) = s
      then (butlast l, fst (last l)) else (l, s))"

definition merge_right :: "free_map \<Rightarrow> nat \<Rightarrow> free_map \<times> nat" where
  "merge_right r e =
     (case r of [] \<Rightarrow> (r, e)
      | (k, d) # r' \<Rightarrow> if \<not> isReserved d \<and> k = e then (r', currentEndingIndex d) else (r, e))"

definition merged :: "free_map \<Rightarrow> nat \<Rightarrow> nat \<Rightarrow> bool \<Rightarrow> free_map \<Rightarrow> free_map" where
  "merged l s e u r =
     (let (l', s') = merge_left l s; (r', e') = merge_right r e
      in l' @ (s', FreeSpaceData e' False u) # r')"

lemma merged_ok:
  assumes ok: "fm_ok (l @ r)" and lo: "\<forall>p \<in> set l. currentEndingIndex (snd p) \<le> s" and "s < e"
    and "e < 4294967296" and hi: "\<forall>q \<in> set r. e \<le> fst q"
  shows "fm_ok (merged l s e u r)"
    "available_cells (merged l s e u r) = available_cells (l @ r) \<union> {s ..< e}"
    "reserved_regions (merged l s e u r) = reserved_regions (l @ r)"
proof -
  obtain l' s' where ml: "merge_left l s = (l', s')" by fastforce
  obtain r' e' where mr: "merge_right r e = (r', e')" by fastforce
  have l': "fm_ok l'" "\<forall>p \<in> set l'. region_sep p (s', FreeSpaceData e' False u)" "s' \<le> s"
    "available_cells l' \<union> {s' ..< s} = available_cells l" "reserved_regions l' = reserved_regions l"
    "set l' \<subseteq> set l"
  proof -
    consider "l' = l" "s' = s" "l \<noteq> [] \<longrightarrow> isReserved (snd (last l)) \<or> currentEndingIndex (snd (last l)) \<noteq> s"
      | p where "l = l' @ [p]" "\<not> isReserved (snd p)" "currentEndingIndex (snd p) = s" "s' = fst p"
      using ml by (cases l rule: rev_cases) (auto simp: merge_left_def split: if_splits)
    then have "fm_ok l' \<and> (\<forall>p \<in> set l'. region_sep p (s', FreeSpaceData e' False u)) \<and> s' \<le> s \<and>
      available_cells l' \<union> {s' ..< s} = available_cells l \<and> reserved_regions l' = reserved_regions l \<and>
      set l' \<subseteq> set l"
    proof cases
      case 1
      have "isReserved (snd p)" if "p \<in> set l" "currentEndingIndex (snd p) = s" for p
      proof (rule ccontr)
        assume n: "\<not> isReserved (snd p)"
        obtain a z where l: "l = a @ [z]" using \<open>p \<in> set l\<close> by (cases l rule: rev_cases) auto
        with 1 n that have "p \<in> set a" by auto
        then have "region_sep p z" "region_ok z" using ok l by (auto simp: fm_ok_append fm_ok_Cons)
        with that(2) lo l show False by (auto simp: region_sep_def region_ok_def)
      qed
      with 1 ok lo show ?thesis by (auto simp: fm_ok_append region_sep_def)
    next
      case 2
      with ok show ?thesis
        by (force simp: fm_ok_append fm_ok_Cons cells_simps region_sep_def region_ok_def region_cells_def)
    qed
    then show "fm_ok l'" "\<forall>p \<in> set l'. region_sep p (s', FreeSpaceData e' False u)" "s' \<le> s"
      "available_cells l' \<union> {s' ..< s} = available_cells l" "reserved_regions l' = reserved_regions l"
      "set l' \<subseteq> set l"
      by blast+
  qed
  have r': "fm_ok r'" "\<forall>q \<in> set r'. region_sep (s', FreeSpaceData e' False u) q" "e \<le> e'" "e' < 4294967296"
    "available_cells r' \<union> {e ..< e'} = available_cells r" "reserved_regions r' = reserved_regions r"
    "set r' \<subseteq> set r"
  proof -
    consider "r' = r" "e' = e" "\<forall>k d r0. r = (k, d) # r0 \<longrightarrow> isReserved d \<or> k \<noteq> e"
      | d where "r = (e, d) # r'" "\<not> isReserved d" "e' = currentEndingIndex d"
      using mr by (cases r) (auto simp: merge_right_def split: if_splits)
    then have "fm_ok r' \<and> (\<forall>q \<in> set r'. region_sep (s', FreeSpaceData e' False u) q) \<and> e \<le> e' \<and>
      e' < 4294967296 \<and> available_cells r' \<union> {e ..< e'} = available_cells r \<and>
      reserved_regions r' = reserved_regions r \<and> set r' \<subseteq> set r"
    proof cases
      case 1
      have "isReserved (snd q)" if "q \<in> set r" "fst q = e" for q
      proof -
        obtain k d r0 where r: "r = (k, d) # r0" using \<open>q \<in> set r\<close> by (cases r) auto
        show ?thesis
        proof (cases "q = (k, d)")
          case False
          then have "region_sep (k, d) q" "region_ok (k, d)" "e \<le> k"
            using that r ok hi by (auto simp: fm_ok_append fm_ok_Cons)
          with that(2) show ?thesis by (auto simp: region_sep_def region_ok_def)
        qed (use that 1 r in auto)
      qed
      with 1 ok hi \<open>e < 4294967296\<close> show ?thesis by (auto simp: fm_ok_append region_sep_def)
    next
      case 2
      with ok show ?thesis
        by (force simp: fm_ok_append fm_ok_Cons cells_simps region_sep_def region_ok_def region_cells_def)
    qed
    then show "fm_ok r'" "\<forall>q \<in> set r'. region_sep (s', FreeSpaceData e' False u) q" "e \<le> e'" "e' < 4294967296"
      "available_cells r' \<union> {e ..< e'} = available_cells r" "reserved_regions r' = reserved_regions r"
      "set r' \<subseteq> set r"
      by blast+
  qed
  have m: "merged l s e u r = l' @ (s', FreeSpaceData e' False u) # r'"
    by (simp add: merged_def ml mr)
  have "region_ok (s', FreeSpaceData e' False u)"
    using l'(3) r'(3,4) \<open>s < e\<close> by (simp add: region_ok_def)
  moreover have "region_sep p q" if "p \<in> set l'" "q \<in> set r'" for p q
    using that l'(6) r'(7) ok by (auto simp: fm_ok_append)
  ultimately show "fm_ok (merged l s e u r)"
    unfolding m using l'(1,2) r'(1,2) by (auto simp: fm_ok_append fm_ok_Cons)
  have "{s' ..< e'} = {s' ..< s} \<union> {s ..< e} \<union> {e ..< e'}"
    using l'(3) r'(3) \<open>s < e\<close> by auto
  then show "available_cells (merged l s e u r) = available_cells (l @ r) \<union> {s ..< e}"
    unfolding m using l'(4) r'(5) by (auto simp: cells_simps region_cells_def)
  show "reserved_regions (merged l s e u r) = reserved_regions (l @ r)"
    unfolding m using l'(5) r'(6) by (simp add: cells_simps)
qed

subsection \<open>Adding an area: correctness\<close>

lemma om_begin_simps [simp]: "om_begin [] = None" "om_begin ((k, d) # m) = Some k"
  by (simp_all add: om_begin_def)

lemma loop_exit:
  assumes "\<forall>q \<in> set r. e < fst q"
  shows "newFreeSpaceArea_loop (om_begin r) s e ru u m = Some (m, s, e, ru)"
  using assms by (cases r) (auto simp: newFreeSpaceArea_loop.simps)

lemma loop_at_reserved:
  assumes ok: "fm_ok r" and l: "\<forall>p \<in> set l. fst p < s" "om_sorted l" and "s < e"
    and r: "r = (e, d) # r'" "isReserved d"
  shows "newFreeSpaceArea_loop (om_begin r) s e ru u (l @ r) =
    Some (l @ (s, FreeSpaceData e False ru) # r, currentEndingIndex d, e, u)"
proof -
  have hi: "currentEndingIndex d \<le> fst q" "e < currentEndingIndex d" if "q \<in> set r'" for q
    using ok that by (auto simp: r fm_ok_Cons region_ok_def region_sep_def)
  then have hi': "e < fst q" if "q \<in> set r'" for q using that by fastforce
  have srt: "om_sorted (l @ r)"
    using l ok [THEN fm_ok_om_sorted] \<open>s < e\<close> hi' unfolding r by (auto simp: sorted_wrt_append) fastforce+
  have nl: "e \<notin> om_keys l" using l \<open>s < e\<close> by fastforce
  have "newFreeSpaceArea_loop (om_begin r') (currentEndingIndex d) e u u
      (om_insert s (FreeSpaceData e False ru) (l @ r)) =
    Some (om_insert s (FreeSpaceData e False ru) (l @ r), currentEndingIndex d, e, u)"
    by (rule loop_exit) (use hi' in blast)
  moreover have "om_insert s (FreeSpaceData e False ru) (l @ r) = l @ (s, FreeSpaceData e False ru) # r"
    using srt l less_trans [OF \<open>s < e\<close> hi'] \<open>s < e\<close> by (intro om_insert_mid) (auto simp: r)
  ultimately show ?thesis
    using r nl \<open>s < e\<close> by (subst newFreeSpaceArea_loop.simps) (simp add: om_mid_simps)
qed

definition finish_area ::
  "free_space_tracker \<Rightarrow> nat option \<Rightarrow> nat \<Rightarrow> nat \<Rightarrow> bool \<Rightarrow> bool \<Rightarrow> free_map \<Rightarrow> free_space_tracker option" where
  "finish_area t it s e ru u m = do {
     (m, s, e, ru) \<leftarrow> newFreeSpaceArea_loop it s e ru u m;
     if s < e then Some (t\<lparr>freeMap := om_insert s (FreeSpaceData e False ru) m\<rparr>)
     else Some (t\<lparr>freeMap := m\<rparr>)
   }"

lemma finish_no_merge:
  assumes ok: "fm_ok r" and l: "\<forall>p \<in> set l. fst p < s" "om_sorted l" and "s < e"
    and hi: "\<forall>q \<in> set r. e \<le> fst q" and stop: "\<forall>d r'. r = (e, d) # r' \<longrightarrow> isReserved d"
  shows "finish_area t (om_begin r) s e ru u (l @ r) =
    Some (t\<lparr>freeMap := l @ (s, FreeSpaceData e False ru) # r\<rparr>)"
proof (cases "\<exists>d r'. r = (e, d) # r'")
  case True
  then obtain d r' where r: "r = (e, d) # r'" "isReserved d" using stop by blast
  have "e < currentEndingIndex d" using ok by (auto simp: r fm_ok_Cons region_ok_def)
  then show ?thesis
    using loop_at_reserved [OF ok l \<open>s < e\<close> r, of ru u] by (simp add: finish_area_def)
next
  case False
  have "e < fst q" if "q \<in> set r" for q
  proof (cases r)
    case (Cons p r')
    then have "e < fst p" using False hi by (cases p) fastforce
    moreover have "fst p \<le> fst q"
      using fm_ok_om_sorted [OF ok] that Cons by auto
    ultimately show ?thesis by simp
  qed (use that in simp)
  moreover from this have above: "s < k" if "k \<in> om_keys r" for k
    using that \<open>s < e\<close> less_trans by fastforce
  moreover from this have "om_sorted (l @ r)"
    using l fm_ok_om_sorted [OF ok] by (auto simp: sorted_wrt_append) fastforce
  ultimately have "om_insert s (FreeSpaceData e False ru) (l @ r) = l @ (s, FreeSpaceData e False ru) # r"
    using l by (intro om_insert_mid) auto
  then show ?thesis
    using loop_exit [of r e s ru u "l @ r"] \<open>\<And>q. q \<in> set r \<Longrightarrow> e < fst q\<close> \<open>s < e\<close>
    by (simp add: finish_area_def)
qed

lemma finish_merged:
  assumes ok: "fm_ok r" and l: "\<forall>p \<in> set l. fst p < s" "om_sorted l" and "s < e"
    and hi: "\<forall>q \<in> set r. e \<le> fst q"
  shows "\<exists>ru'. finish_area t (om_begin r) s e ru u (l @ r) =
    Some (t\<lparr>freeMap :=
      (let (r', e') = merge_right r e in l @ (s, FreeSpaceData e' False ru') # r')\<rparr>)"
proof (cases "\<exists>d r'. r = (e, d) # r' \<and> \<not> isReserved d")
  case False
  then have "merge_right r e = (r, e)"
    by (auto simp: merge_right_def split: list.splits)
  moreover have "\<forall>d r'. r = (e, d) # r' \<longrightarrow> isReserved d" using False by blast
  ultimately show ?thesis
    using finish_no_merge [OF ok l \<open>s < e\<close> hi, of t ru u] by auto
next
  case True
  then obtain d r' where r: "r = (e, d) # r'" "\<not> isReserved d" by blast
  let ?e = "currentEndingIndex d" and ?ru = "if fileUpdateNeeded d then True else ru"
  have ok': "fm_ok r'" "e < ?e" "\<forall>q \<in> set r'. ?e \<le> fst q" "\<forall>d2 r2. r' = (?e, d2) # r2 \<longrightarrow> isReserved d2"
    using ok r by (auto simp: fm_ok_Cons region_ok_def region_sep_def)
  have nl: "e \<notin> om_keys l" using l \<open>s < e\<close> by fastforce
  have "newFreeSpaceArea_loop (om_begin r) s e ru u (l @ r) =
      newFreeSpaceArea_loop (om_begin r') s ?e ?ru u (l @ r')"
    using r nl \<open>s < e\<close> ok'(2) by (subst newFreeSpaceArea_loop.simps) (simp add: om_mid_simps)
  then have "finish_area t (om_begin r) s e ru u (l @ r) = finish_area t (om_begin r') s ?e ?ru u (l @ r')"
    by (simp add: finish_area_def)
  also have "\<dots> = Some (t\<lparr>freeMap := l @ (s, FreeSpaceData ?e False ?ru) # r'\<rparr>)"
    using ok' l \<open>s < e\<close> by (intro finish_no_merge) auto
  finally show ?thesis using r by (auto simp: merge_right_def)
qed

lemma free_map_split:
  assumes ok: "fm_ok m" and dis: "{s ..< e} \<inter> mapped_cells m = {}" and "s < e"
  obtains l r where "m = l @ r" "\<forall>p \<in> set l. fst p < s" "\<forall>p \<in> set l. currentEndingIndex (snd p) \<le> s"
    "\<forall>q \<in> set r. e \<le> fst q" "om_lower_bound s m = om_begin r" "fm_ok l" "fm_ok r" "om_sorted l"
proof -
  let ?l = "takeWhile (\<lambda>p. fst p < s) m" and ?r = "dropWhile (\<lambda>p. fst p < s) m"
  have m: "m = ?l @ ?r" by simp
  have okl: "fm_ok ?l" "fm_ok ?r"
    using ok by (subst (asm) m, simp only: fm_ok_append)+
  have l: "fst p < s" if "p \<in> set ?l" for p using that set_takeWhileD by fastforce
  have lm: "p \<in> set m" if "p \<in> set ?l" for p using that set_takeWhileD by fastforce
  have rm: "p \<in> set m" if "p \<in> set ?r" for p using that set_dropWhileD by fastforce
  have r: "s \<le> fst q" if q: "q \<in> set ?r" for q
  proof -
    obtain p r' where Cons: "?r = p # r'"
      using q by (metis empty_iff empty_set list.exhaust)
    then have "s \<le> fst p" by (metis hd_dropWhile list.distinct(1) list.sel(1) not_le)
    moreover have "fst p \<le> fst q" using q fm_ok_om_sorted [OF okl(2)] Cons by auto
    ultimately show ?thesis by simp
  qed
  have out: "\<not> (fst p \<le> i \<and> i < currentEndingIndex (snd p))" if "p \<in> set m" "s \<le> i" "i < e" for p i
    using dis that by (force simp: mapped_cells_def region_cells_def)
  have "currentEndingIndex (snd p) \<le> s" if "p \<in> set ?l" for p
    using out [of p s] lm [OF that] l [OF that] \<open>s < e\<close> by auto
  moreover have "e \<le> fst q" if "q \<in> set ?r" for q
    using out [of q "fst q"] rm [OF that] r [OF that] fm_ok_entry [OF okl(2), of "fst q" "snd q"] that
    by (cases "e \<le> fst q") auto
  moreover have "om_lower_bound s m = om_begin ?r"
    using om_lower_bound_mid [of ?l s ?r] l r by auto
  ultimately show ?thesis
    using that [of ?l ?r] m l okl fm_ok_om_sorted [OF okl(1)] by blast
qed

lemma newFreeSpaceArea_merged:
  assumes ok: "fm_ok (freeMap t)" and "0 < n" "s + n < 4294967296"
    and dis: "{s ..< s + n} \<inter> mapped_cells (freeMap t) = {}"
  obtains l r u' where "freeMap t = l @ r" "\<forall>p \<in> set l. currentEndingIndex (snd p) \<le> s"
    "\<forall>q \<in> set r. s + n \<le> fst q"
    "newFreeSpaceArea s n u t = Some (t\<lparr>freeMap := merged l s (s + n) u' r\<rparr>)"
proof -
  have "s < s + n" using \<open>0 < n\<close> by simp
  from free_map_split [OF ok dis this] obtain l r where
    lr: "freeMap t = l @ r" "\<forall>p \<in> set l. fst p < s" "\<forall>p \<in> set l. currentEndingIndex (snd p) \<le> s"
    "\<forall>q \<in> set r. s + n \<le> fst q" "om_lower_bound s (freeMap t) = om_begin r" "fm_ok l" "fm_ok r" "om_sorted l"
    by blast
  have e: "u32 (s + n) = s + n" using assms(3) by (simp add: u32_id)
  have "\<exists>u'. newFreeSpaceArea s n u t = Some (t\<lparr>freeMap := merged l s (s + n) u' r\<rparr>)"
  proof (cases l rule: rev_cases)
    case Nil
    then have "newFreeSpaceArea s n u t = finish_area t (om_begin r) s (s + n) u u (l @ r)"
      using lr by (simp add: newFreeSpaceArea_def finish_area_def e)
    then show ?thesis
      using finish_merged [OF lr(7,2,8) \<open>s < s + n\<close> lr(4), of t u u] Nil
      by (auto simp: merged_def merge_left_def split: prod.splits)
  next
    case (snoc l0 p)
    obtain k d where p: "p = (k, d)" by fastforce
    have kd: "k < s" "currentEndingIndex d \<le> s" "k < currentEndingIndex d"
      using lr(2,3,6) by (auto simp: snoc p fm_ok_append fm_ok_Cons region_ok_def)
    have srt: "om_sorted (l @ r)" using fm_ok_om_sorted [OF ok] lr(1) by simp
    have nk: "k \<notin> om_keys l0" "k \<notin> om_keys r"
      using srt by (fastforce simp: snoc p sorted_wrt_append)+
    have nb: "om_begin r \<noteq> om_begin (l @ r)"
    proof -
      have "om_begin (l @ r) \<in> Some ` om_keys l"
        by (cases l) (auto simp: snoc om_begin_def split: list.splits)
      moreover have "om_begin r \<notin> Some ` om_keys l"
        using srt by (cases r) (auto simp: sorted_wrt_append)
      ultimately show ?thesis by metis
    qed
    have prev: "om_prev (om_begin r) (l @ r) = Some k"
    proof (cases r)
      case (Cons q r')
      have "fst q \<notin> om_keys l" "fst q \<notin> om_keys r'"
        using srt by (auto simp: Cons sorted_wrt_append)
      then show ?thesis
        using om_before_mid [of "fst q" l r' "snd q"] by (cases q) (simp add: Cons om_prev_def om_begin_def snoc p)
    qed (simp add: om_prev_def snoc p)
    have fnd: "om_find k (l @ r) = Some d" using nk om_find_mid [of k l0 d r] by (simp add: snoc p)
    have ers: "om_erase k (l @ r) = l0 @ r" using nk om_erase_mid [of k l0 d r] by (simp add: snoc p)
    note step = newFreeSpaceArea_def finish_area_def e lr(1) lr(5) [unfolded lr(1)] nb prev fnd ers
    show ?thesis
    proof (cases "currentEndingIndex d = s \<and> \<not> isReserved d")
      case True
      then have "newFreeSpaceArea s n u t =
          finish_area t (om_begin r) k (s + n) (fileUpdateNeeded d \<or> u) u (l0 @ r)"
        using kd \<open>0 < n\<close> by (simp add: step)
      moreover have "\<forall>p \<in> set l0. fst p < k" "om_sorted l0" "k < s + n"
        using srt kd by (auto simp: snoc p sorted_wrt_append)
      ultimately show ?thesis
        using finish_merged [OF lr(7) _ _ _ lr(4), of l0 k t "fileUpdateNeeded d \<or> u" u] True
        by (auto simp: merged_def merge_left_def snoc p split: prod.splits)
    next
      case False
      then have "newFreeSpaceArea s n u t = finish_area t (om_begin r) s (s + n) u u (l @ r)"
        using kd \<open>0 < n\<close> by (cases "currentEndingIndex d = s") (simp_all add: step Let_def)
      then show ?thesis
        using finish_merged [OF lr(7,2,8) \<open>s < s + n\<close> lr(4), of t u u] False
        by (auto simp: merged_def merge_left_def snoc p split: prod.splits)
    qed
  qed
  with that lr(1,3,4) show ?thesis by blast
qed

lemma newFreeSpaceArea_law:
  assumes "fm_ok (freeMap t)" "0 < n" "s + n < 4294967296"
    and "{s ..< s + n} \<inter> mapped_cells (freeMap t) = {}"
  shows "\<exists>t'. newFreeSpaceArea s n u t = Some t' \<and> fm_ok (freeMap t') \<and>
    available_cells (freeMap t') = available_cells (freeMap t) \<union> {s ..< s + n} \<and>
    reserved_regions (freeMap t') = reserved_regions (freeMap t)"
proof -
  from newFreeSpaceArea_merged [OF assms, of u] obtain l r u' where
    lr: "freeMap t = l @ r" "\<forall>p \<in> set l. currentEndingIndex (snd p) \<le> s" "\<forall>q \<in> set r. s + n \<le> fst q"
    "newFreeSpaceArea s n u t = Some (t\<lparr>freeMap := merged l s (s + n) u' r\<rparr>)" .
  with assms show ?thesis
    using merged_ok [of l r s "s + n" u'] by simp
qed

text \<open>
  C19. Reporting an area that is not tracked yet never trips an assertion of
  \<open>FreeSpaceTracker::newFreeSpaceArea\<close>: the area becomes available and is merged with the
  regions it touches, the map stays well formed (ordered, disjoint, fully merged), and every
  reservation stays where it was, so the iterators held in \<open>FreeSpace\<close> objects stay valid.
\<close>
theorem newFreeSpaceArea_correct:
  assumes "fm_ok (freeMap t)" "0 < n" "s + n < 4294967296"
    and "{s ..< s + n} \<inter> mapped_cells (freeMap t) = {}"
  shows "\<exists>t'. newFreeSpaceArea s n u t = Some t' \<and> fm_ok (freeMap t') \<and>
    available_cells (freeMap t') = available_cells (freeMap t) \<union> {s ..< s + n} \<and>
    reserved_regions (freeMap t') = reserved_regions (freeMap t)"
  using assms by (rule newFreeSpaceArea_law)

theorem newFreeSpaceArea_correct_witness:
  "\<exists>t'. newFreeSpaceArea 4 2 False \<lparr>freeMap = [(1, FreeSpaceData 3 True True), (6, FreeSpaceData 8 False False)]\<rparr>
      = Some t' \<and> fm_ok (freeMap t') \<and> available_cells (freeMap t') = {4 ..< 8}"
proof -
  let ?t = "\<lparr>freeMap = [(1, FreeSpaceData 3 True True), (6, FreeSpaceData 8 False False)]\<rparr>"
  have ok: "fm_ok (freeMap ?t)"
    by (simp add: fm_ok_Cons region_ok_def region_sep_def)
  have dis: "{4 ..< 4 + 2} \<inter> mapped_cells (freeMap ?t) = {}"
    by (auto simp: mapped_cells_simps region_cells_def)
  have cells: "available_cells (freeMap ?t) \<union> {4 ..< 4 + 2} = {4 ..< 8}"
    by (auto simp: cells_simps region_cells_def)
  have "(0 :: nat) < 2" "4 + 2 < (4294967296 :: nat)" by simp_all
  from newFreeSpaceArea_correct [OF ok this dis, of False] show ?thesis
    unfolding cells by blast
qed

text \<open>Reporting an area whose start is already tracked trips the assertion in the loop.\<close>

lemma newFreeSpaceArea_retracked:
  "newFreeSpaceArea 4 3 False \<lparr>freeMap = [(4, FreeSpaceData 6 False False)]\<rparr> = None"
  by (simp add: newFreeSpaceArea_def newFreeSpaceArea_loop.simps u32_def)

subsection \<open>Reserving: correctness\<close>

definition fits :: "nat \<Rightarrow> nat \<Rightarrow> nat \<times> free_space_data \<Rightarrow> bool" where
  "fits minimumSize lowest p \<longleftrightarrow>
     \<not> (isReserved (snd p) \<or> sub32 (currentEndingIndex (snd p)) (fst p) < minimumSize \<or>
        currentEndingIndex (snd p) < lowest)"

lemma reserve_search_find:
  assumes "om_sorted (l @ r)"
  shows "reserve_search (om_begin r) n low (l @ r) = Some (map_option fst (find (fits n low) r))"
  using assms
proof (induction r arbitrary: l)
  case Nil
  show ?case by (simp add: reserve_search.simps)
next
  case (Cons p r)
  obtain k d where p: "p = (k, d)" by fastforce
  have nl: "k \<notin> om_keys l" using Cons.prems by (auto simp: p sorted_wrt_append)
  have "reserve_search (om_begin r) n low ((l @ [p]) @ r) = Some (map_option fst (find (fits n low) r))"
    by (rule Cons.IH) (use Cons.prems in simp)
  then show ?case
    using nl by (subst reserve_search.simps) (simp add: p om_mid_simps fits_def)
qed

text \<open>The entry the search starts from is the last one at or below the requested index.\<close>

lemma reserve_start:
  assumes "fm_ok m"
  obtains l r where "m = l @ r"
    "(let it = om_lower_bound s m in
      if it \<noteq> om_begin m \<and> (case it of None \<Rightarrow> True | Some k \<Rightarrow> k > s)
      then map_option Some (om_prev it m) else Some it) = Some (om_begin r)"
    "\<forall>p \<in> set l. currentEndingIndex (snd p) \<le> s"
proof -
  let ?l = "takeWhile (\<lambda>p. fst p < s) m" and ?r = "dropWhile (\<lambda>p. fst p < s) m"
  have m: "m = ?l @ ?r" by simp
  obtain l r where lr: "?l = l" "?r = r" by blast
  have srt: "om_sorted (l @ r)" using fm_ok_om_sorted [OF assms] lr m by simp
  have l: "fst p < s" if "p \<in> set l" for p using that lr set_takeWhileD by fastforce
  have rs: "s \<le> fst q" if q: "q \<in> set r" for q
  proof -
    obtain p r' where r': "r = p # r'" using q by (cases r) auto
    then have "s \<le> fst p" using lr by (metis hd_dropWhile list.distinct(1) list.sel(1) not_le)
    then show ?thesis using srt q r' by (auto simp: sorted_wrt_append)
  qed
  have lb: "om_lower_bound s (l @ r) = om_begin r"
    using l rs by (intro om_lower_bound_mid) auto
  show ?thesis
  proof (cases "l = [] \<or> (\<exists>d r'. r = (s, d) # r')")
    case True
    have "currentEndingIndex (snd p) \<le> s" if q: "p \<in> set l" for p
    proof -
      obtain d r' where r: "r = (s, d) # r'" using True q by (cases l) auto
      have "region_sep p (s, d)" using assms q lr m r by (metis fm_ok_append list.set_intros(1))
      then show ?thesis by (simp add: region_sep_def)
    qed
    then show ?thesis
      using True lb lr m by (intro that [of l r]) (auto split: option.splits)
  next
    case False
    then obtain l0 p where l0: "l = l0 @ [p]" by (cases l rule: rev_cases) auto
    have nb: "om_begin r \<noteq> om_begin (l @ r)"
    proof -
      have "om_begin (l @ r) \<in> Some ` om_keys l"
        by (cases l) (auto simp: l0 om_begin_def split: list.splits)
      moreover have "om_begin r \<notin> Some ` om_keys l"
        using srt by (cases r) (auto simp: sorted_wrt_append)
      ultimately show ?thesis by metis
    qed
    have prev: "om_prev (om_begin r) (l @ r) = Some (fst p)"
    proof (cases r)
      case (Cons q r')
      have "fst q \<notin> om_keys l" "fst q \<notin> om_keys r'"
        using srt by (auto simp: Cons sorted_wrt_append)
      then show ?thesis
        using om_before_mid [of "fst q" l r' "snd q"] by (cases q) (simp add: Cons om_prev_def om_begin_def l0)
    qed (simp add: om_prev_def l0)
    have above: "case om_begin r of None \<Rightarrow> True | Some k \<Rightarrow> k > s"
    proof (cases r)
      case (Cons q r')
      then have "s \<le> fst q" "fst q \<noteq> s" using rs False by (auto simp: Cons l0) (metis prod.collapse)
      then show ?thesis by (cases q) (simp add: Cons)
    qed simp
    have "currentEndingIndex (snd q) \<le> s" if "q \<in> set l0" for q
    proof -
      have "region_sep q p" using assms that lr m l0
        by (metis Un_iff append.assoc append_Cons append_Nil fm_ok_append list.set_intros(1) set_append)
      then show ?thesis using l [of p] l0 by (auto simp: region_sep_def)
    qed
    moreover have "m = l0 @ (p # r)" using m lr l0 by simp
    moreover have "om_begin (p # r) = Some (fst p)" by (cases p) simp
    moreover have "m = l @ r" using m lr by simp
    moreover from this have "(let it = om_lower_bound s m in
      if it \<noteq> om_begin m \<and> (case it of None \<Rightarrow> True | Some k \<Rightarrow> k > s)
      then map_option Some (om_prev it m) else Some it) = Some (Some (fst p))"
      using lb nb prev above by (simp add: Let_def)
    ultimately show ?thesis
      by (intro that [of l0 "p # r"]) simp_all
  qed
qed

definition suitable :: "nat \<Rightarrow> nat \<Rightarrow> nat \<times> free_space_data \<Rightarrow> bool" where
  "suitable s n p \<longleftrightarrow> \<not> isReserved (snd p) \<and> max s (fst p) + n \<le> currentEndingIndex (snd p)"

lemma fits_suitable:
  assumes "region_ok p" "s + n < 4294967296"
  shows "fits n (u32 (s + n)) p \<longleftrightarrow> suitable s n p"
  using assms by (auto simp: fits_def suitable_def region_ok_def wrap_simps max_def)

lemma reserved_entry:
  "setFileUpdateNeeded True (setReserved True (setRegionEndingIndex e d)) = FreeSpaceData e True True"
  by (simp add: free_space_data_defs)

lemma reserve_pieces:
  assumes ok: "fm_ok (l @ (k, d) # r)" and "\<not> isReserved d" and a: "k \<le> a" "a < b" "b \<le> currentEndingIndex d"
  defines "m' \<equiv> l @ (if k < a then [(k, setFileUpdateNeeded True (setRegionEndingIndex a d))] else []) @
      (a, FreeSpaceData b True True) #
      (if b < currentEndingIndex d then [(b, FreeSpaceData (currentEndingIndex d) False True)] else []) @ r"
  shows "fm_ok m'" "available_cells m' = available_cells (l @ (k, d) # r) - {a ..< b}"
    "reserved_regions m' = insert (a, FreeSpaceData b True True) (reserved_regions (l @ (k, d) # r))"
    "{a ..< b} \<subseteq> available_cells (l @ (k, d) # r)"
proof -
  have sep: "region_sep p (k, d)" if "p \<in> set l" for p using ok that by (auto simp: fm_ok_append)
  have sep': "region_sep (k, d) q" if "q \<in> set r" for q using ok that by (auto simp: fm_ok_append fm_ok_Cons)
  have sep2: "region_sep p q" if "p \<in> set l" "q \<in> set r" for p q using ok that by (auto simp: fm_ok_append)
  have "region_ok (k, d)" "fm_ok l" "fm_ok r" using ok by (simp_all add: fm_ok_append fm_ok_Cons)
  note facts = this a \<open>\<not> isReserved d\<close>
  have left: "region_sep p (i, d')" if "p \<in> set l" "k \<le> i" "i = k \<longrightarrow> isReserved d'  \<or> \<not> isReserved d" for p i d'
    using sep [OF that(1)] that(2,3) by (auto simp: region_sep_def)
  have right: "region_sep (i, d') q" if "q \<in> set r" "currentEndingIndex d' \<le> currentEndingIndex d" for q i d'
    using sep' [OF that(1)] that(2) \<open>\<not> isReserved d\<close> by (auto simp: region_sep_def)
  show "fm_ok m'"
    unfolding m'_def using facts left right sep2
    by (auto simp: fm_ok_append fm_ok_Cons region_ok_def region_sep_def [of "(_, _)" "(_, _)"])
  have in_l: "i < k" if "i \<in> available_cells l" for i
    using that sep by (fastforce simp: available_cells_def region_cells_def region_sep_def)
  have in_r: "currentEndingIndex d \<le> i" if "i \<in> available_cells r" for i
    using that sep' by (fastforce simp: available_cells_def region_cells_def region_sep_def)
  show "available_cells m' = available_cells (l @ (k, d) # r) - {a ..< b}"
    unfolding m'_def using facts by (auto simp: cells_simps region_cells_def dest: in_l in_r)
  show "reserved_regions m' = insert (a, FreeSpaceData b True True) (reserved_regions (l @ (k, d) # r))"
    unfolding m'_def using facts by (auto simp: cells_simps)
  show "{a ..< b} \<subseteq> available_cells (l @ (k, d) # r)"
    using facts by (auto simp: cells_simps region_cells_def)
qed

lemma allocate_split_left:
  assumes m: "freeMap t = l @ (k, d) # r" and ok: "fm_ok (l @ (k, d) # r)"
    and s: "k < s" "s < currentEndingIndex d" and w: "0 < w" "s + w < 4294967296"
  defines "b \<equiv> min (s + w) (currentEndingIndex d)"
  shows "allocate_from k s w t = Some (FreeSpace s s (b - s), t\<lparr>freeMap :=
     l @ (k, setFileUpdateNeeded True (setRegionEndingIndex s d)) # (s, FreeSpaceData b True True) #
     (if b < currentEndingIndex d then [(b, FreeSpaceData (currentEndingIndex d) False True)] else []) @ r\<rparr>)"
proof -
  have srt: "om_sorted (l @ (k, d) # r)" by (rule fm_ok_om_sorted [OF ok])
  have above: "currentEndingIndex d \<le> x" if "x \<in> om_keys r" for x
    using ok that by (auto simp: fm_ok_append fm_ok_Cons region_sep_def)
  have nl: "k \<notin> om_keys l" using srt by (auto simp: sorted_wrt_append)
  have e: "currentEndingIndex d < 4294967296" using ok by (auto simp: fm_ok_append fm_ok_Cons region_ok_def)
  define u where "u = setFileUpdateNeeded True (setRegionEndingIndex s d)"
  have "om_sorted ((l @ [(k, u)]) @ r)" using srt by (auto simp: sorted_wrt_append)
  moreover have "\<forall>x \<in> om_keys (l @ [(k, u)]). x < s"
    using srt s(1) by (auto simp: sorted_wrt_append dest: less_trans)
  ultimately have 1: "om_insert s v (l @ (k, u) # r) = l @ (k, u) # (s, v) # r" for v
    using om_insert_mid [of "l @ [(k, u)]" r s v] above s(2) by fastforce
  have 2: "om_insert b v (l @ (k, u) # (s, v') # r) = l @ (k, u) # (s, v') # (b, v) # r"
    if "b < currentEndingIndex d" for v v'
  proof -
    have "om_sorted ((l @ [(k, u), (s, v')]) @ r)"
      using srt s above by (fastforce simp: sorted_wrt_append)
    moreover have "\<forall>x \<in> om_keys (l @ [(k, u), (s, v')]). x < b"
      using srt s w by (auto simp: sorted_wrt_append b_def)
    ultimately show ?thesis
      using om_insert_mid [of "l @ [(k, u), (s, v')]" r b v] above that by fastforce
  qed
  have f: "om_find k (l @ (k, d) # r) = Some d" by (rule om_find_mid [OF nl])
  show ?thesis
  proof (cases "s + w < currentEndingIndex d")
    case True
    then have "b = s + w" by (simp add: b_def)
    with True 1 2 s w show ?thesis
      by (simp add: allocate_from_def Let_def m f om_assign_mid [OF nl] wrap_simps flip: u_def)
  next
    case False
    then have "b = currentEndingIndex d" by (simp add: b_def)
    with False 1 s w e show ?thesis
      by (simp add: allocate_from_def Let_def m f om_assign_mid [OF nl] wrap_simps flip: u_def)
  qed
qed

lemma allocate_whole_left:
  assumes m: "freeMap t = l @ (k, d) # r" and ok: "fm_ok (l @ (k, d) # r)"
    and s: "s \<le> k" and w: "0 < w" "k + w < 4294967296"
  defines "b \<equiv> min (k + w) (currentEndingIndex d)"
  shows "allocate_from k s w t = Some (FreeSpace k k (b - k), t\<lparr>freeMap :=
     l @ (k, FreeSpaceData b True True) #
     (if b < currentEndingIndex d then [(b, FreeSpaceData (currentEndingIndex d) False True)] else []) @ r\<rparr>)"
proof -
  have srt: "om_sorted (l @ (k, d) # r)" by (rule fm_ok_om_sorted [OF ok])
  have above: "currentEndingIndex d \<le> x" if "x \<in> om_keys r" for x
    using ok that by (auto simp: fm_ok_append fm_ok_Cons region_sep_def)
  have nl: "k \<notin> om_keys l" using srt by (auto simp: sorted_wrt_append)
  have e: "k < currentEndingIndex d" "currentEndingIndex d < 4294967296"
    using ok by (auto simp: fm_ok_append fm_ok_Cons region_ok_def)
  have 2: "om_insert b v (l @ (k, v') # r) = l @ (k, v') # (b, v) # r"
    if "b < currentEndingIndex d" for v v'
  proof -
    have "om_sorted ((l @ [(k, v')]) @ r)" using srt by (auto simp: sorted_wrt_append)
    moreover have "\<forall>x \<in> om_keys (l @ [(k, v')]). x < b"
      using srt w e by (auto simp: sorted_wrt_append b_def dest: less_trans)
    ultimately show ?thesis
      using om_insert_mid [of "l @ [(k, v')]" r b v] above that by fastforce
  qed
  have f: "om_find k (l @ (k, d) # r) = Some d" by (rule om_find_mid [OF nl])
  show ?thesis
  proof (cases "k + w < currentEndingIndex d")
    case True
    then have "b = k + w" by (simp add: b_def)
    with True 2 s w show ?thesis
      by (simp add: allocate_from_def Let_def m f om_assign_mid [OF nl] reserved_entry wrap_simps)
  next
    case False
    then have "b = currentEndingIndex d" by (simp add: b_def)
    with False s w e show ?thesis
      by (simp add: allocate_from_def Let_def m f om_assign_mid [OF nl] reserved_entry wrap_simps)
  qed
qed

lemma reserve_cases:
  assumes ok: "fm_ok (freeMap t)" and "0 < n" "n \<le> w" "s + w < 4294967296"
    and eof: "toFileIndex (nat (fileSize mod 18446744073709551616)) = eof"
    and "eof + w < 4294967296" and ends: "\<forall>p \<in> set (freeMap t). currentEndingIndex (snd p) \<le> eof"
  obtains
    (found) l k d r a b where "freeMap t = l @ (k, d) # r" "suitable s n (k, d)" "\<forall>p \<in> set l. \<not> suitable s n p"
      "a = max k s" "b = min (a + w) (currentEndingIndex d)"
      "reserveFreeSpaceArea fileSize s n w t = Some (FreeSpace a a (b - a), t\<lparr>freeMap :=
         l @ (if k < a then [(k, setFileUpdateNeeded True (setRegionEndingIndex a d))] else []) @
         (a, FreeSpaceData b True True) #
         (if b < currentEndingIndex d then [(b, FreeSpaceData (currentEndingIndex d) False True)] else []) @ r\<rparr>)"
  | (at_end) "\<forall>p \<in> set (freeMap t). \<not> suitable s n p"
      "reserveFreeSpaceArea fileSize s n w t = Some (FreeSpace eof eof w,
         t\<lparr>freeMap := freeMap t @ [(eof, FreeSpaceData (eof + w) True True)]\<rparr>)"
proof -
  from reserve_start [OF ok, of s] obtain l0 r0 where
    start: "freeMap t = l0 @ r0"
      "(let it = om_lower_bound s (freeMap t) in
        if it \<noteq> om_begin (freeMap t) \<and> (case it of None \<Rightarrow> True | Some k \<Rightarrow> k > s)
        then map_option Some (om_prev it (freeMap t)) else Some it) = Some (om_begin r0)"
      "\<forall>p \<in> set l0. currentEndingIndex (snd p) \<le> s" .
  have w: "(if w = 0 then n else w) = w" using assms(2,3) by simp
  have sn: "s + n < 4294967296" using assms(3,4) by simp
  have rok: "region_ok p" if "p \<in> set (freeMap t)" for p
    using ok that by (auto simp: fm_ok_def list_all_iff)
  have suit: "fits n (u32 (s + n)) p \<longleftrightarrow> suitable s n p" if "p \<in> set (freeMap t)" for p
    by (rule fits_suitable [OF rok [OF that] sn])
  have l0: "\<not> suitable s n p" if "p \<in> set l0" for p
    using start(3) that \<open>0 < n\<close> by (auto simp: suitable_def max_def)
  have srt: "om_sorted (freeMap t)" by (rule fm_ok_om_sorted [OF ok])
  have "find (fits n (u32 (s + n))) r0 = find (suitable s n) r0"
    using suit start(1) by (intro find_cong) auto
  then have search: "reserve_search (om_begin r0) n (u32 (s + n)) (freeMap t) =
      Some (map_option fst (find (suitable s n) r0))"
    using reserve_search_find [of l0 r0 n "u32 (s + n)"] srt start(1) by simp
  note unfold = reserveFreeSpaceArea_def Let_def [of "freeMap t"] w start(2) [unfolded Let_def] search
  show ?thesis
  proof (cases "find (suitable s n) r0")
    case None
    then have "\<not> suitable s n p" if "p \<in> set (freeMap t)" for p
    proof -
      have "\<forall>q \<in> set r0. \<not> suitable s n q"
        using None by (simp only: find_None_iff) blast
      then show ?thesis using that l0 start(1) by (metis Un_iff set_append)
    qed
    moreover have "k < eof" if "k \<in> om_keys (freeMap t)" for k
      using that ends ok by (fastforce dest: fm_ok_entry)
    then have "om_insert eof (FreeSpaceData (eof + w) True True) (freeMap t) =
        freeMap t @ [(eof, FreeSpaceData (eof + w) True True)]"
      using om_insert_mid [of "freeMap t" "[]" eof] srt by simp
    ultimately show ?thesis
      using None assms(6) eof
      by (intro at_end) (simp_all add: reserveFreeSpaceArea_def start(2) [unfolded Let_def] w search
          allocate_at_end_def u32_id Let_def)
  next
    case (Some p)
    obtain k d where p: "p = (k, d)" by fastforce
    from Some obtain r1 r where r: "r0 = r1 @ p # r" "suitable s n p" "\<forall>q \<in> set r1. \<not> suitable s n q"
      by (rule find_split)
    define l where "l = l0 @ r1"
    have m: "freeMap t = l @ (k, d) # r" using start(1) r(1) by (simp add: l_def p)
    have nl: "k \<notin> om_keys l" "k \<notin> om_keys r" using srt by (auto simp: m sorted_wrt_append)
    have kd: "k < currentEndingIndex d" "currentEndingIndex d \<le> eof" "max s k + n \<le> currentEndingIndex d"
      using rok [of "(k, d)"] ends r(2) by (auto simp: m p region_ok_def suitable_def)
    define a where "a = max k s"
    define b where "b = min (a + w) (currentEndingIndex d)"
    have ab: "a < currentEndingIndex d" "a < b" "b < 4294967296" "k \<le> a"
      using kd assms(2,3,6) by (auto simp: a_def b_def)
    have u: "u32 (a + w) = a + w" using ab kd assms(6) by (simp add: u32_id)
    show ?thesis
    proof (rule found [of l k d r a b])
      show "\<forall>p \<in> set l. \<not> suitable s n p" using l0 r(3) by (auto simp: l_def)
      show "reserveFreeSpaceArea fileSize s n w t = Some (FreeSpace a a (b - a), t\<lparr>freeMap :=
         l @ (if k < a then [(k, setFileUpdateNeeded True (setRegionEndingIndex a d))] else []) @
         (a, FreeSpaceData b True True) #
         (if b < currentEndingIndex d then [(b, FreeSpaceData (currentEndingIndex d) False True)] else []) @ r\<rparr>)"
      proof -
        have "reserveFreeSpaceArea fileSize s n w t = allocate_from k s w t"
          by (simp add: reserveFreeSpaceArea_def start(2) [unfolded Let_def] w search Some p Let_def)
        moreover have "0 < w" using assms(2,3) by simp
        moreover note ok [unfolded m]
        ultimately show ?thesis
          using allocate_split_left [OF m, of s w] allocate_whole_left [OF m, of s w] ab kd assms(4,6)
          by (cases "k < s") (simp_all add: a_def b_def)
      qed
    qed (use r(2) m a_def b_def p in auto)
  qed
qed

lemma reserveFreeSpaceArea_law:
  assumes "fm_ok (freeMap t)" "0 < n" "n \<le> w" "s + w < 4294967296"
    and "toFileIndex (nat (fileSize mod 18446744073709551616)) = eof"
    and "eof + w < 4294967296" "\<forall>p \<in> set (freeMap t). currentEndingIndex (snd p) \<le> eof"
  shows "\<exists>fs t'. reserveFreeSpaceArea fileSize s n w t = Some (fs, t') \<and>
    fm_ok (freeMap t') \<and> isValid fs \<and> iterator fs = Some (currentStartingIndex fs) \<and>
    n \<le> currentAreaSize fs \<and> currentAreaSize fs \<le> w \<and>
    reserved_regions (freeMap t') =
      insert (currentStartingIndex fs, FreeSpaceData (endingIndex fs) True True) (reserved_regions (freeMap t)) \<and>
    (if \<exists>p \<in> set (freeMap t). suitable s n p
     then s \<le> currentStartingIndex fs \<and> area_cells fs \<subseteq> available_cells (freeMap t) \<and>
       (\<forall>p \<in> set (freeMap t). suitable s n p \<longrightarrow> currentStartingIndex fs \<le> max s (fst p)) \<and>
       available_cells (freeMap t') = available_cells (freeMap t) - area_cells fs
     else currentStartingIndex fs = eof \<and> currentAreaSize fs = w \<and>
       available_cells (freeMap t') = available_cells (freeMap t))"
proof (rule reserve_cases [OF assms])
  fix l k d r a b
  assume m: "freeMap t = l @ (k, d) # r" and suit: "suitable s n (k, d)" and before: "\<forall>p \<in> set l. \<not> suitable s n p"
    and a: "a = max k s" and b: "b = min (a + w) (currentEndingIndex d)"
    and res: "reserveFreeSpaceArea fileSize s n w t = Some (FreeSpace a a (b - a), t\<lparr>freeMap :=
         l @ (if k < a then [(k, setFileUpdateNeeded True (setRegionEndingIndex a d))] else []) @
         (a, FreeSpaceData b True True) #
         (if b < currentEndingIndex d then [(b, FreeSpaceData (currentEndingIndex d) False True)] else []) @ r\<rparr>)"
      (is "_ = Some (_, t\<lparr>freeMap := ?m'\<rparr>)")
  have kd: "\<not> isReserved d" "a + n \<le> currentEndingIndex d"
    using suit by (auto simp: suitable_def a max.commute)
  have ab: "k \<le> a" "a < b" "b \<le> currentEndingIndex d" "a + n \<le> b" "b \<le> a + w"
    using kd assms(2,3) by (auto simp: a b)
  note pieces = reserve_pieces [OF assms(1) [unfolded m] kd(1) ab(1-3)]
  have "b < 4294967296" using fm_ok_entry [OF assms(1), of k d] ab by (simp add: m)
  then have area: "area_cells (FreeSpace a a (b - a)) = {a ..< b}" "endingIndex (FreeSpace a a (b - a)) = b"
    using ab by (simp_all add: area_cells_def endingIndex_def u32_id)
  have "a \<le> max s (fst p)" if "p \<in> set (freeMap t)" "suitable s n p" for p
  proof -
    have "p = (k, d) \<or> p \<in> set r" using that before by (auto simp: m)
    moreover have "k < fst p" if "p \<in> set r"
      using fm_ok_om_sorted [OF assms(1)] that by (auto simp: m sorted_wrt_append)
    ultimately show ?thesis by (auto simp: a)
  qed
  moreover have "\<exists>p \<in> set (freeMap t). suitable s n p" using suit m by auto
  moreover have "n \<le> b - a" "b - a \<le> w" "s \<le> a" using ab by (auto simp: a)
  ultimately show ?thesis
    using res pieces ab area by (intro exI [of _ "FreeSpace a a (b - a)"] exI [of _ "t\<lparr>freeMap := ?m'\<rparr>"])
      (simp add: m)
next
  assume none: "\<forall>p \<in> set (freeMap t). \<not> suitable s n p"
    and res: "reserveFreeSpaceArea fileSize s n w t = Some (FreeSpace eof eof w,
         t\<lparr>freeMap := freeMap t @ [(eof, FreeSpaceData (eof + w) True True)]\<rparr>)"
  have "endingIndex (FreeSpace eof eof w) = eof + w"
    using assms(6) by (simp add: endingIndex_def u32_id)
  moreover have "fm_ok (freeMap t @ [(eof, FreeSpaceData (eof + w) True True)])"
    using assms by (auto simp: fm_ok_append fm_ok_Cons region_ok_def region_sep_def)
  ultimately show ?thesis
    using res none assms(3) by (intro exI [of _ "FreeSpace eof eof w"] exI
        [of _ "t\<lparr>freeMap := freeMap t @ [(eof, FreeSpaceData (eof + w) True True)]\<rparr>"])
      (auto simp: cells_simps)
qed

text \<open>
  C17. \<open>FreeSpaceTracker::reserveFreeSpaceArea\<close> hands out at least the minimum and at most the
  desired number of cells. When some available region can hold the minimum at or after the
  requested index, the first such region is used: the reserved cells were available, start
  no lower than requested, and exactly they leave the available set; otherwise the area is
  appended at the end of the file. Either way the map stays well formed, the new reservation
  is the entry the returned iterator names, and every other reservation is kept.
\<close>
theorem reserveFreeSpaceArea_correct:
  assumes "fm_ok (freeMap t)" "0 < n" "n \<le> w" "s + w < 4294967296"
    and "toFileIndex (nat (fileSize mod 18446744073709551616)) = eof"
    and "eof + w < 4294967296" "\<forall>p \<in> set (freeMap t). currentEndingIndex (snd p) \<le> eof"
  shows "\<exists>fs t'. reserveFreeSpaceArea fileSize s n w t = Some (fs, t') \<and>
    fm_ok (freeMap t') \<and> isValid fs \<and> iterator fs = Some (currentStartingIndex fs) \<and>
    n \<le> currentAreaSize fs \<and> currentAreaSize fs \<le> w \<and>
    reserved_regions (freeMap t') =
      insert (currentStartingIndex fs, FreeSpaceData (endingIndex fs) True True) (reserved_regions (freeMap t)) \<and>
    (if \<exists>p \<in> set (freeMap t). suitable s n p
     then s \<le> currentStartingIndex fs \<and> area_cells fs \<subseteq> available_cells (freeMap t) \<and>
       (\<forall>p \<in> set (freeMap t). suitable s n p \<longrightarrow> currentStartingIndex fs \<le> max s (fst p)) \<and>
       available_cells (freeMap t') = available_cells (freeMap t) - area_cells fs
     else currentStartingIndex fs = eof \<and> currentAreaSize fs = w \<and>
       available_cells (freeMap t') = available_cells (freeMap t))"
  using assms by (rule reserveFreeSpaceArea_law)

theorem reserveFreeSpaceArea_correct_witness:
  "\<exists>fs t'. reserveFreeSpaceArea 640 5 2 3 \<lparr>freeMap = [(1, FreeSpaceData 3 True True), (4, FreeSpaceData 9 False False)]\<rparr>
      = Some (fs, t') \<and> 5 \<le> currentStartingIndex fs \<and> area_cells fs \<subseteq> {4 ..< 9} \<and>
    available_cells (freeMap t') = {4 ..< 9} - area_cells fs"
proof -
  let ?t = "\<lparr>freeMap = [(1, FreeSpaceData 3 True True), (4, FreeSpaceData 9 False False)]\<rparr>"
  have ok: "fm_ok (freeMap ?t)"
    by (simp add: fm_ok_Cons region_ok_def region_sep_def)
  have eof: "toFileIndex (nat (640 mod 18446744073709551616)) = 20"
    by (simp add: toFileIndex_def u32_def)
  have cells: "available_cells (freeMap ?t) = {4 ..< 9}"
    by (auto simp: cells_simps region_cells_def)
  have "\<exists>p \<in> set (freeMap ?t). suitable 5 2 p"
    by (simp add: suitable_def)
  with reserveFreeSpaceArea_correct [OF ok, of 2 3 5 640 20] eof cells show ?thesis
    by (simp only: if_True) fastforce
qed

subsection \<open>Releasing: correctness\<close>

lemma available_data: "\<not> isReserved d \<Longrightarrow> setFileUpdateNeeded True d = FreeSpaceData (currentEndingIndex d) False True"
  by (simp add: free_space_data_defs)

lemma merge_next_eq:
  assumes srt: "om_sorted (l @ (s, x) # r)" and x: "\<not> isReserved x" and hi: "\<forall>q \<in> set r. currentEndingIndex x \<le> fst q"
  shows "merge_next t (l @ (s, x) # r) s =
    Some (t\<lparr>freeMap := (let (r', e') = merge_right r (currentEndingIndex x) in l @ (s, FreeSpaceData e' False True) # r')\<rparr>)"
proof -
  have nl: "s \<notin> om_keys l" using srt by (auto simp: sorted_wrt_append)
  have f: "om_find s (l @ (s, y) # z) = Some y" "om_next s (l @ (s, y) # z) = om_begin z"
    "om_assign s w (l @ (s, y) # z) = l @ (s, w) # z" for y z w
    using nl by (simp_all add: om_mid_simps)
  show ?thesis
  proof (cases r)
    case Nil
    then show ?thesis using x by (simp add: merge_next_def f merge_right_def available_data)
  next
    case (Cons q r')
    obtain k d where q: "q = (k, d)" by fastforce
    have "k \<notin> om_keys (l @ [(s, y)])" for y using srt by (auto simp: Cons q sorted_wrt_append)
    then have g: "om_find k (l @ (s, y) # (k, d) # r') = Some d"
      "om_erase k (l @ (s, y) # (k, d) # r') = l @ (s, y) # r'" for y
      using om_find_mid [of k "l @ [(s, y)]" d r'] om_erase_mid [of k "l @ [(s, y)]" d r'] by auto
    have le: "currentEndingIndex x \<le> k" using hi by (simp add: Cons q)
    consider "\<not> isReserved d" "k = currentEndingIndex x" | "isReserved d \<or> k \<noteq> currentEndingIndex x" by blast
    then show ?thesis
    proof cases
      case 1
      from 1(2) have e: "currentEndingIndex x = k" by simp
      show ?thesis
        using x 1(1) by (simp add: merge_next_def Cons q f g merge_right_def available_data e)
    next
      case 2
      then have "\<not> (isAvailable d \<and> currentEndingIndex x \<ge> k)" using le by auto
      with 2 show ?thesis
        using x by (auto simp: merge_next_def Cons q f g merge_right_def available_data)
    qed
  qed
qed

lemma merge_released_eq:
  assumes ok: "fm_ok (l @ r)" and lo: "\<forall>p \<in> set l. currentEndingIndex (snd p) \<le> s"
    and "s < currentEndingIndex x" "\<not> isReserved x" and hi: "\<forall>q \<in> set r. currentEndingIndex x \<le> fst q"
  shows "merge_released t (l @ (s, x) # r) s =
    Some (t\<lparr>freeMap := merged l s (currentEndingIndex x) True r\<rparr>)"
proof -
  have below: "k < s" if "k \<in> om_keys l" for k
    using ok lo that by (fastforce simp: fm_ok_append dest: fm_ok_entry)
  have srt: "om_sorted (l @ (s, x) # r)"
    using fm_ok_om_sorted [OF ok] below hi assms(3) by (fastforce simp: sorted_wrt_append)
  have nl: "s \<notin> om_keys l" "s \<notin> om_keys r" using srt by (auto simp: sorted_wrt_append)
  have f: "om_find s (l @ (s, x) # r) = Some x" by (rule om_find_mid [OF nl(1)])
  show ?thesis
  proof (cases l rule: rev_cases)
    case Nil
    have "merge_released t (l @ (s, x) # r) s = merge_next t (l @ (s, x) # r) s"
      by (simp add: merge_released_def Nil)
    then show ?thesis
      using merge_next_eq [OF srt assms(4) hi, of t] Nil
      by (simp add: merged_def merge_left_def)
  next
    case (snoc l0 p)
    obtain k d where p: "p = (k, d)" by fastforce
    have kd: "currentEndingIndex d \<le> s" "k < s" using lo below by (auto simp: snoc p)
    have b: "om_begin (l @ (s, x) # r) \<noteq> Some s"
    proof -
      have "om_begin (l @ (s, x) # r) \<in> Some ` om_keys l"
        by (cases l) (auto simp: snoc om_begin_def split: list.splits)
      with nl(1) show ?thesis by (metis imageE option.inject)
    qed
    have prev: "om_prev (Some s) (l @ (s, x) # r) = Some k"
      using om_before_mid [OF nl, of x] by (simp add: om_prev_def snoc p)
    have k0: "k \<notin> om_keys l0" using srt by (auto simp: snoc p sorted_wrt_append)
    have fk: "om_find k (l @ (s, x) # r) = Some d"
      using om_find_mid [OF k0, of d "(s, x) # r"] by (simp add: snoc p)
    show ?thesis
    proof (cases "\<not> isReserved d \<and> currentEndingIndex d = s")
      case True
      let ?y = "setRegionEndingIndex (currentEndingIndex x) d"
      have "om_assign k ?y (l @ (s, x) # r) = l0 @ (k, ?y) # (s, x) # r"
        using om_assign_mid [OF k0, of ?y d "(s, x) # r"] by (simp add: snoc p)
      moreover have "s \<notin> om_keys (l0 @ [(k, ?y)])" using nl by (simp add: snoc p)
      then have "om_erase s (l0 @ (k, ?y) # (s, x) # r) = l0 @ (k, ?y) # r"
        using om_erase_mid [of s "l0 @ [(k, ?y)]" x r] by simp
      ultimately have "merge_released t (l @ (s, x) # r) s = merge_next t (l0 @ (k, ?y) # r) k"
        using True by (simp add: merge_released_def f b prev fk)
      moreover have "om_sorted (l0 @ (k, ?y) # r)"
        using srt by (auto simp: snoc p sorted_wrt_append)
      ultimately show ?thesis
        using merge_next_eq [of l0 k ?y r t] hi True by (simp add: merged_def merge_left_def snoc p)
    next
      case False
      then have "merge_released t (l @ (s, x) # r) s = merge_next t (l @ (s, x) # r) s"
        using kd by (auto simp: merge_released_def f b prev fk)
      then show ?thesis
        using merge_next_eq [OF srt assms(4) hi, of t] False
        by (auto simp: merged_def merge_left_def snoc p)
    qed
  qed
qed

lemma releaseReservation_law:
  assumes "fm_ok (freeMap t)" "(k, d) \<in> reserved_regions (freeMap t)"
    and "isValid fs" "iterator fs = Some k" "k \<le> currentStartingIndex fs"
    and "currentStartingIndex fs + currentAreaSize fs = currentEndingIndex d"
  shows "\<exists>t'. releaseReservation fileSize fs t = Some t' \<and> fm_ok (freeMap t') \<and>
    reserved_regions (freeMap t') = reserved_regions (freeMap t) - {(k, d)} \<and>
    available_cells (freeMap t') = available_cells (freeMap t) \<union>
      (if currentStartingIndex fs < toFileIndex (nat (fileSize mod 18446744073709551616))
       then area_cells fs else {})"
proof -
  let ?s = "currentStartingIndex fs" and ?e = "currentEndingIndex d"
  have "(k, d) \<in> set (freeMap t)" and res: "isReserved d"
    using assms(2) by (simp_all add: reserved_regions_def)
  then obtain l r where m: "freeMap t = l @ (k, d) # r" by (meson split_list)
  have ok: "fm_ok (l @ (k, d) # r)" using assms(1) by (simp add: m)
  have srt: "om_sorted (l @ (k, d) # r)" by (rule fm_ok_om_sorted [OF ok])
  have nl: "k \<notin> om_keys l" "k \<notin> om_keys r" using srt by (auto simp: sorted_wrt_append)
  have ok': "fm_ok (l @ r)" using ok by (auto simp: fm_ok_append fm_ok_Cons)
  have lo: "currentEndingIndex (snd p) \<le> k" if "p \<in> set l" for p
    using ok that by (auto simp: fm_ok_append region_sep_def)
  have hi: "?e \<le> fst q" if "q \<in> set r" for q
    using ok that by (auto simp: fm_ok_append fm_ok_Cons region_sep_def)
  have ke: "k < ?e" "?e < 4294967296" using ok by (auto simp: fm_ok_append fm_ok_Cons region_ok_def)
  have rr: "reserved_regions (l @ r) = reserved_regions (freeMap t) - {(k, d)}"
    using nl res by (auto simp: m reserved_regions_def rev_image_eqI)
  have av: "available_cells (l @ r) = available_cells (freeMap t)"
    using res by (simp add: m cells_simps)
  have f: "om_find k (freeMap t) = Some d" unfolding m by (rule om_find_mid [OF nl(1)])
  show ?thesis
  proof (cases "currentAreaSize fs = 0 \<or> toFileIndex (nat (fileSize mod 18446744073709551616)) \<le> ?s")
    case True
    then have "releaseReservation fileSize fs t = Some (t\<lparr>freeMap := l @ r\<rparr>)"
      using assms(3,4) f by (simp add: releaseReservation_def Let_def) (simp add: m om_erase_mid [OF nl(1)])
    then show ?thesis using ok' rr av True by (auto simp: area_cells_def)
  next
    case False
    then have se: "?s < ?e" using assms(6) by simp
    have lo': "\<forall>p \<in> set l. currentEndingIndex (snd p) \<le> ?s" using lo assms(5) by fastforce
    have hi': "\<forall>q \<in> set r. ?e \<le> fst q" using hi by blast
    obtain x where x: "releaseReservation fileSize fs t = merge_released t (l @ (?s, x) # r) ?s"
      "currentEndingIndex x = ?e" "\<not> isReserved x"
    proof (cases "?s = k")
      case True
      with False show thesis
        using assms(3,4) f
        by (intro that [of "setAvailable True d"])
          (simp_all add: releaseReservation_def Let_def m om_assign_mid [OF nl(1)])
    next
      case ne: False
      let ?x = "FreeSpaceData ?e False True"
      have "k < ?s" using ne assms(5) by simp
      then have "\<forall>a \<in> om_keys (l @ [(k, d)]). a < ?s" using srt by (auto simp: sorted_wrt_append dest: less_trans)
      moreover have r: "\<forall>b \<in> om_keys r. ?s < b" using hi se by fastforce
      ultimately have ins: "om_insert ?s ?x (l @ (k, d) # r) = l @ (k, d) # (?s, ?x) # r"
        using om_insert_mid [of "l @ [(k, d)]" r ?s ?x] srt by simp
      have "?s \<notin> om_keys (l @ (k, d) # r)"
        using r \<open>\<forall>a \<in> om_keys (l @ [(k, d)]). a < ?s\<close> by fastforce
      then have "om_find ?s (l @ (k, d) # r) = None" by simp
      with False ne show thesis
        using assms(3,4) f ins om_erase_mid [OF nl(1), of d "(?s, ?x) # r"]
        by (intro that [of ?x]) (simp_all add: releaseReservation_def Let_def m)
    qed
    then have "releaseReservation fileSize fs t = Some (t\<lparr>freeMap := merged l ?s ?e True r\<rparr>)"
      using merge_released_eq [OF ok' lo', of x t] hi' se by simp
    moreover have "area_cells fs = {?s ..< ?e}" using assms(6) by (simp add: area_cells_def)
    ultimately show ?thesis
      using merged_ok [OF ok' lo' se ke(2) hi', of True] rr av False by simp
  qed
qed

text \<open>
  C18. \<open>FreeSpaceTracker::releaseReservation\<close> never trips an assertion on a reservation it
  handed out, whatever front part of it has been used up meanwhile: the entry disappears, the
  unused remainder becomes available again (or is dropped, when nothing remains or it lies
  past the end of the file), merged with its available neighbours, and all other
  reservations are untouched.
\<close>
theorem releaseReservation_correct:
  assumes "fm_ok (freeMap t)" "(k, d) \<in> reserved_regions (freeMap t)"
    and "isValid fs" "iterator fs = Some k" "k \<le> currentStartingIndex fs"
    and "currentStartingIndex fs + currentAreaSize fs = currentEndingIndex d"
  shows "\<exists>t'. releaseReservation fileSize fs t = Some t' \<and> fm_ok (freeMap t') \<and>
    reserved_regions (freeMap t') = reserved_regions (freeMap t) - {(k, d)} \<and>
    available_cells (freeMap t') = available_cells (freeMap t) \<union>
      (if currentStartingIndex fs < toFileIndex (nat (fileSize mod 18446744073709551616))
       then area_cells fs else {})"
  using assms by (rule releaseReservation_law)

theorem releaseReservation_correct_witness:
  "\<exists>t'. releaseReservation 640 \<lparr>currentStartingIndex = 5, currentAreaSize = 1, iterator = Some 3, currentlyValid = True\<rparr>
      \<lparr>freeMap = [(3, FreeSpaceData 6 True True), (6, FreeSpaceData 9 False False)]\<rparr> = Some t' \<and>
    available_cells (freeMap t') = {5 ..< 9} \<and> reserved_regions (freeMap t') = {}"
proof -
  let ?t = "\<lparr>freeMap = [(3, FreeSpaceData 6 True True), (6, FreeSpaceData 9 False False)]\<rparr>"
  let ?fs = "\<lparr>currentStartingIndex = 5, currentAreaSize = 1, iterator = Some 3, currentlyValid = True\<rparr>"
  have "fm_ok (freeMap ?t)" "(3, FreeSpaceData 6 True True) \<in> reserved_regions (freeMap ?t)"
    by (simp_all add: fm_ok_Cons region_ok_def region_sep_def reserved_regions_def)
  from releaseReservation_correct [OF this, of ?fs 640] obtain t' where
    t': "releaseReservation 640 ?fs ?t = Some t'"
    "reserved_regions (freeMap t') = reserved_regions (freeMap ?t) - {(3, FreeSpaceData 6 True True)}"
    "available_cells (freeMap t') = available_cells (freeMap ?t) \<union> area_cells ?fs"
    by (auto simp: isValid_def toFileIndex_def u32_def)
  moreover have "available_cells (freeMap ?t) \<union> area_cells ?fs = {5 ..< 9}"
    by (auto simp: cells_simps region_cells_def area_cells_def)
  moreover have "reserved_regions (freeMap ?t) - {(3, FreeSpaceData 6 True True)} = {}"
    by (simp add: cells_simps)
  ultimately show ?thesis by blast
qed

subsection \<open>What a client of the tracker may rely on\<close>

text \<open>
  The contract of the space manager as the virtual files use it: they reserve an area, use
  cells from its front, let the container grow over what they wrote, and give the
  reservation back; chunks that are dropped are reported as new free space. \<open>eof\<close> is the
  first file index past the container.
\<close>

locale space_allocator =
  fixes ok :: "'t \<Rightarrow> bool"
    and avail :: "'t \<Rightarrow> nat set"
    and held :: "'t \<Rightarrow> (nat \<times> free_space_data) set"
    and add :: "nat \<Rightarrow> nat \<Rightarrow> bool \<Rightarrow> 't \<Rightarrow> 't option"
    and reserve :: "nat \<Rightarrow> nat \<Rightarrow> nat \<Rightarrow> nat \<Rightarrow> 't \<Rightarrow> (free_space \<times> 't) option"
    and release :: "nat \<Rightarrow> free_space \<Rightarrow> 't \<Rightarrow> 't option"
  assumes add_law:
    "ok t \<Longrightarrow> held t = {} \<Longrightarrow> 0 < n \<Longrightarrow> s + n < 4294967296 \<Longrightarrow> {s ..< s + n} \<inter> avail t = {} \<Longrightarrow>
     \<exists>t'. add s n u t = Some t' \<and> ok t' \<and> avail t' = avail t \<union> {s ..< s + n} \<and> held t' = {}"
    and reserve_law:
    "ok t \<Longrightarrow> held t = {} \<Longrightarrow> 0 < n \<Longrightarrow> n \<le> w \<Longrightarrow> s + w < 4294967296 \<Longrightarrow> eof + w < 134217728 \<Longrightarrow>
     avail t \<subseteq> {..< eof} \<Longrightarrow>
     \<exists>fs t'. reserve eof s n w t = Some (fs, t') \<and> ok t' \<and> isValid fs \<and>
       iterator fs = Some (currentStartingIndex fs) \<and> n \<le> currentAreaSize fs \<and>
       held t' = {(currentStartingIndex fs, FreeSpaceData (endingIndex fs) True True)} \<and>
       ((area_cells fs \<subseteq> avail t \<and> avail t' = avail t - area_cells fs) \<or>
        (currentStartingIndex fs = eof \<and> currentAreaSize fs = w \<and> avail t' = avail t))"
    and release_law:
    "ok t \<Longrightarrow> held t = {(k, d)} \<Longrightarrow> isValid fs \<Longrightarrow> iterator fs = Some k \<Longrightarrow> k \<le> currentStartingIndex fs \<Longrightarrow>
     currentStartingIndex fs + currentAreaSize fs = currentEndingIndex d \<Longrightarrow> eof < 134217728 \<Longrightarrow>
     \<exists>t'. release eof fs t = Some t' \<and> ok t' \<and> held t' = {} \<and>
       avail t' = avail t \<union> (if currentStartingIndex fs < eof then area_cells fs else {})"
begin

text \<open>The cells of the container: the available ones and the used ones, nothing twice, nothing lost.\<close>

definition ledger :: "'t \<Rightarrow> nat set \<Rightarrow> nat \<Rightarrow> bool" where
  "ledger t used eof \<longleftrightarrow> ok t \<and> held t = {} \<and> avail t \<inter> used = {} \<and> avail t \<union> used = {..< eof}"

lemma ledger_add:
  assumes "ledger t used eof" "0 < n" "s + n < 4294967296" "{s ..< s + n} \<subseteq> used"
  shows "\<exists>t'. add s n u t = Some t' \<and> ledger t' (used - {s ..< s + n}) eof"
proof -
  have "{s ..< s + n} \<inter> avail t = {}" "ok t" "held t = {}" using assms by (auto simp: ledger_def)
  with add_law [of t n s u] assms obtain t' where
    "add s n u t = Some t'" "ok t'" "avail t' = avail t \<union> {s ..< s + n}" "held t' = {}" by blast
  with assms show ?thesis by (intro exI [of _ t']) (auto simp: ledger_def)
qed

lemma ledger_allocate:
  assumes led: "ledger t used eof" and sz: "0 < n" "n \<le> w" "s + w < 4294967296" "eof + w < 134217728"
  shows "\<exists>fs t1. reserve eof s n w t = Some (fs, t1) \<and> n \<le> currentAreaSize fs \<and>
    area_cells fs \<inter> used = {} \<and>
    currentStartingIndex fs \<le> eof \<and> currentStartingIndex fs + currentAreaSize fs < 134217728 \<and>
    (\<forall>c. 0 < c \<and> c \<le> currentAreaSize fs \<longrightarrow>
      (\<exists>fs' t'. reduceBy c FROM_FRONT fs = (True, fs') \<and>
        release (max eof (currentStartingIndex fs + c)) fs' t1 = Some t' \<and>
        ledger t' (used \<union> {currentStartingIndex fs ..< currentStartingIndex fs + c})
          (max eof (currentStartingIndex fs + c))))"
proof -
  have a: "avail t \<inter> used = {}" "avail t \<union> used = {..< eof}" "ok t" "held t = {}"
    using led by (simp_all add: ledger_def)
  then have "avail t \<subseteq> {..< eof}" by auto
  from reserve_law [OF a(3,4) sz this] obtain fs t1 where
    fs: "reserve eof s n w t = Some (fs, t1)" "ok t1" "isValid fs" "iterator fs = Some (currentStartingIndex fs)"
      "n \<le> currentAreaSize fs"
      "held t1 = {(currentStartingIndex fs, FreeSpaceData (endingIndex fs) True True)}"
    and alt: "(area_cells fs \<subseteq> avail t \<and> avail t1 = avail t - area_cells fs) \<or>
        (currentStartingIndex fs = eof \<and> currentAreaSize fs = w \<and> avail t1 = avail t)"
    by blast
  let ?a = "currentStartingIndex fs"
  have last: "?a + currentAreaSize fs - 1 \<in> area_cells fs" using fs(5) sz(1) by (simp add: area_cells_def)
  have bnd: "?a + currentAreaSize fs < 134217728"
    using alt
  proof
    assume "area_cells fs \<subseteq> avail t \<and> avail t1 = avail t - area_cells fs"
    then have "?a + currentAreaSize fs - 1 < eof" using last \<open>avail t \<subseteq> {..< eof}\<close> by blast
    then show ?thesis using sz by linarith
  qed (use sz in simp)
  then have e: "endingIndex fs = ?a + currentAreaSize fs" by (simp add: endingIndex_def u32_id)
  have start: "?a \<le> eof"
    using alt
  proof
    assume "area_cells fs \<subseteq> avail t \<and> avail t1 = avail t - area_cells fs"
    then have "?a + currentAreaSize fs - 1 < eof" using last \<open>avail t \<subseteq> {..< eof}\<close> by blast
    then show ?thesis using sz(1) fs(5) by simp
  qed simp
  have dis: "area_cells fs \<inter> used = {}" using alt a by (auto simp: area_cells_def)
  have "\<exists>fs' t'. reduceBy c FROM_FRONT fs = (True, fs') \<and> release (max eof (?a + c)) fs' t1 = Some t' \<and>
      ledger t' (used \<union> {?a ..< ?a + c}) (max eof (?a + c))"
    if c: "0 < c" "c \<le> currentAreaSize fs" for c
  proof -
    define fs' where "fs' = fs\<lparr>currentStartingIndex := ?a + c, currentAreaSize := currentAreaSize fs - c\<rparr>"
    have red: "reduceBy c FROM_FRONT fs = (True, fs')"
      using c bnd by (simp add: reduceBy_def fs'_def u32_id)
    have "max eof (?a + c) < 134217728" using sz bnd c by simp
    from release_law [OF fs(2,6) _ _ _ _ this, of fs'] obtain t' where
      t': "release (max eof (?a + c)) fs' t1 = Some t'" "ok t'" "held t' = {}"
        "avail t' = avail t1 \<union> (if ?a + c < max eof (?a + c) then area_cells fs' else {})"
      using fs(3,4) e c by (auto simp: fs'_def isValid_def)
    have cells: "area_cells fs' = area_cells fs - {?a ..< ?a + c}" "{?a ..< ?a + c} \<subseteq> area_cells fs"
      using c by (auto simp: fs'_def area_cells_def)
    have "ledger t' (used \<union> {?a ..< ?a + c}) (max eof (?a + c))"
      using alt
    proof
      assume in_file: "area_cells fs \<subseteq> avail t \<and> avail t1 = avail t - area_cells fs"
      then have "?a + currentAreaSize fs - 1 < eof" using last \<open>avail t \<subseteq> {..< eof}\<close> by blast
      then have m: "max eof (?a + c) = eof" using c sz(1) by simp
      have "avail t' = avail t - {?a ..< ?a + c}"
      proof (cases "?a + c < eof")
        case True
        with t'(4) m cells in_file show ?thesis by auto
      next
        case False
        with \<open>?a + currentAreaSize fs - 1 < eof\<close> c have "c = currentAreaSize fs" by simp
        with t'(4) m in_file False show ?thesis by (simp add: area_cells_def)
      qed
      with t'(2,3) m a in_file cells(2) show ?thesis unfolding ledger_def by auto
    next
      assume at_end: "?a = eof \<and> currentAreaSize fs = w \<and> avail t1 = avail t"
      then have m: "max eof (?a + c) = ?a + c" by simp
      with t'(4) at_end have "avail t' = avail t" by simp
      moreover have "avail t \<inter> {?a ..< ?a + c} = {}"
        using \<open>avail t \<subseteq> {..< eof}\<close> at_end by fastforce
      moreover have "avail t \<union> (used \<union> {?a ..< ?a + c}) = {..< ?a + c}"
        unfolding Un_assoc [symmetric] a(2) using at_end by auto
      ultimately show ?thesis
        using t'(2,3) m a(1) unfolding ledger_def by (simp add: Int_Un_distrib)
    qed
    with red t'(1) show ?thesis by blast
  qed
  with fs(1,5) dis start bnd show ?thesis by blast
qed

end

text \<open>\<open>FreeSpaceTracker\<close> is such an allocator; the container's size is 32 bytes per file index.\<close>

definition reserve_cells :: "nat \<Rightarrow> nat \<Rightarrow> nat \<Rightarrow> nat \<Rightarrow> free_space_tracker \<Rightarrow> (free_space \<times> free_space_tracker) option" where
  "reserve_cells eof = reserveFreeSpaceArea (int (32 * eof))"

definition release_cells :: "nat \<Rightarrow> free_space \<Rightarrow> free_space_tracker \<Rightarrow> free_space_tracker option" where
  "release_cells eof = releaseReservation (int (32 * eof))"

lemma toFileIndex_eof:
  "eof < 134217728 \<Longrightarrow> toFileIndex (nat (int (32 * eof) mod 18446744073709551616)) = eof"
  by (simp add: toFileIndex_def u32_id)

interpretation tracker: space_allocator "\<lambda>t :: free_space_tracker. fm_ok (freeMap t)"
  "\<lambda>t. available_cells (freeMap t)" "\<lambda>t. reserved_regions (freeMap t)" newFreeSpaceArea reserve_cells release_cells
proof unfold_locales
  fix t :: free_space_tracker and s n u
  assume "fm_ok (freeMap t)" "reserved_regions (freeMap t) = {}" "0 < n" "s + n < 4294967296"
    "{s ..< s + n} \<inter> available_cells (freeMap t) = {}"
  then show "\<exists>t'. newFreeSpaceArea s n u t = Some t' \<and> fm_ok (freeMap t') \<and>
      available_cells (freeMap t') = available_cells (freeMap t) \<union> {s ..< s + n} \<and>
      reserved_regions (freeMap t') = {}"
    using newFreeSpaceArea_law [of t n s u] by (simp add: mapped_cells_alt)
next
  fix t :: free_space_tracker and n w s eof :: nat
  assume h: "fm_ok (freeMap t)" "reserved_regions (freeMap t) = {}" "0 < n" "n \<le> w" "s + w < 4294967296"
    "eof + w < 134217728" "available_cells (freeMap t) \<subseteq> {..< eof}"
  have "currentEndingIndex (snd p) \<le> eof" if "p \<in> set (freeMap t)" for p
  proof -
    have "\<not> isReserved (snd p)" using h(2) that unfolding reserved_regions_def by blast
    moreover have "fst p < currentEndingIndex (snd p)"
      using fm_ok_entry [OF h(1), of "fst p" "snd p"] that by simp
    ultimately have "currentEndingIndex (snd p) - 1 \<in> available_cells (freeMap t)"
      using that unfolding available_cells_def region_cells_def by (intro UN_I [of p]) auto
    then show ?thesis using h(7) by auto
  qed
  then obtain fs t' where "reserveFreeSpaceArea (int (32 * eof)) s n w t = Some (fs, t')"
    "fm_ok (freeMap t')" "isValid fs" "iterator fs = Some (currentStartingIndex fs)" "n \<le> currentAreaSize fs"
    "reserved_regions (freeMap t') = insert (currentStartingIndex fs, FreeSpaceData (endingIndex fs) True True) {}"
    "if \<exists>p \<in> set (freeMap t). suitable s n p
     then s \<le> currentStartingIndex fs \<and> area_cells fs \<subseteq> available_cells (freeMap t) \<and>
       (\<forall>p \<in> set (freeMap t). suitable s n p \<longrightarrow> currentStartingIndex fs \<le> max s (fst p)) \<and>
       available_cells (freeMap t') = available_cells (freeMap t) - area_cells fs
     else currentStartingIndex fs = eof \<and> currentAreaSize fs = w \<and>
       available_cells (freeMap t') = available_cells (freeMap t)"
    using reserveFreeSpaceArea_law [OF h(1,3,4,5) toFileIndex_eof, of eof] h(2,6) by auto
  then show "\<exists>fs t'. reserve_cells eof s n w t = Some (fs, t') \<and> fm_ok (freeMap t') \<and> isValid fs \<and>
       iterator fs = Some (currentStartingIndex fs) \<and> n \<le> currentAreaSize fs \<and>
       reserved_regions (freeMap t') = {(currentStartingIndex fs, FreeSpaceData (endingIndex fs) True True)} \<and>
       ((area_cells fs \<subseteq> available_cells (freeMap t) \<and>
         available_cells (freeMap t') = available_cells (freeMap t) - area_cells fs) \<or>
        (currentStartingIndex fs = eof \<and> currentAreaSize fs = w \<and>
         available_cells (freeMap t') = available_cells (freeMap t)))"
    unfolding reserve_cells_def by (intro exI [of _ fs] exI [of _ t']) (auto split: if_splits)
next
  fix t :: free_space_tracker and k d fs and eof :: nat
  assume "fm_ok (freeMap t)" "reserved_regions (freeMap t) = {(k, d)}" "isValid fs" "iterator fs = Some k"
    "k \<le> currentStartingIndex fs" "currentStartingIndex fs + currentAreaSize fs = currentEndingIndex d"
    "eof < 134217728"
  then show "\<exists>t'. release_cells eof fs t = Some t' \<and> fm_ok (freeMap t') \<and> reserved_regions (freeMap t') = {} \<and>
       available_cells (freeMap t') =
         available_cells (freeMap t) \<union> (if currentStartingIndex fs < eof then area_cells fs else {})"
    using releaseReservation_law [of t k d fs "int (32 * eof)"] toFileIndex_eof [of eof]
    by (simp add: release_cells_def)
qed

subsection \<open>Every sequence of operations keeps the ledger\<close>

text \<open>
  What \<open>ContainerImpl::flushArea\<close> does to the size of a container whose storage works, in file
  indexes: an area that reaches the end is cut off when the storage can truncate, any other one
  is overwritten in place with fill chunks. \<open>Free_Space_Flush\<close> proves this of the code's
  \<open>flushArea\<close> and \<open>flushFreeSpace\<close>.
\<close>

definition flushArea_cells :: "bool \<Rightarrow> container_area \<Rightarrow> nat \<Rightarrow> (bool \<times> nat) option" where
  "flushArea_cells supportsTruncation area containerSize =
     (if supportsTruncation \<and> endingIndex area \<ge> containerSize
      then Some (True, currentStartingIndex area)
      else Some (True, containerSize))"

text \<open>
  A state is the tracker, the set of file indexes in use by chunks, and the size of the
  container in file indexes. \<open>Allocate\<close> is the sequence each writer performs (reserve,
  write \<open>c\<close> cells at the front of the area so that the file grows over them, reduce the
  reservation, release it); \<open>Report\<close> reports a dropped chunk; \<open>Flush\<close> is \<open>flushFreeSpace\<close>, which
  erasing, truncating and closing call, and which may cut the container.
\<close>

type_synonym space_state = "free_space_tracker \<times> nat set \<times> nat"

datatype space_call = Allocate nat nat nat nat | Report nat nat bool | Flush bool

inductive space_step :: "bool \<Rightarrow> space_call \<Rightarrow> space_state \<Rightarrow> space_state \<Rightarrow> bool" for truncates where
  allocate: "0 < n \<Longrightarrow> n \<le> w \<Longrightarrow> s + w < 4294967296 \<Longrightarrow> eof + w < 134217728 \<Longrightarrow>
    reserveFreeSpaceArea (int (32 * eof)) s n w t = Some (fs, t1) \<Longrightarrow>
    0 < c \<Longrightarrow> c \<le> currentAreaSize fs \<Longrightarrow> reduceBy c FROM_FRONT fs = (True, fs') \<Longrightarrow>
    eof' = max eof (currentStartingIndex fs + c) \<Longrightarrow>
    releaseReservation (int (32 * eof')) fs' t1 = Some t' \<Longrightarrow>
    space_step truncates (Allocate s n w c) (t, used, eof)
      (t', used \<union> {currentStartingIndex fs ..< currentStartingIndex fs + c}, eof')"
| report: "0 < n \<Longrightarrow> s + n < 4294967296 \<Longrightarrow> {s ..< s + n} \<subseteq> used \<Longrightarrow>
    newFreeSpaceArea s n u t = Some t' \<Longrightarrow>
    space_step truncates (Report s n u) (t, used, eof) (t', used - {s ..< s + n}, eof)"
| flush: "flushFreeSpace (flushArea_cells truncates) flushAll t eof = Some (True, t', eof') \<Longrightarrow>
    space_step truncates (Flush flushAll) (t, used, eof) (t', used, eof')"

inductive_cases space_stepE: "space_step truncates call st st'"

text \<open>
  A flush that cuts the container leaves the region it cut off in the tracker. What follows from
  that for later allocations is shown below; the claims admit an allocation only
  while the tracker's regions lie inside the container, which is always when no flush has cut it.
\<close>

fun admitted :: "space_call \<Rightarrow> space_state \<Rightarrow> bool" where
  "admitted (Allocate s n w c) (t, used, eof) \<longleftrightarrow> available_cells (freeMap t) \<subseteq> {..< eof}"
| "admitted (Report s n u) st \<longleftrightarrow> True"
| "admitted (Flush flushAll) st \<longleftrightarrow> True"

inductive reachable_space :: "bool \<Rightarrow> nat \<Rightarrow> space_state \<Rightarrow> bool" for truncates h where
  start: "reachable_space truncates h (FreeSpaceTracker, {..< h}, h)"
| step: "reachable_space truncates h st \<Longrightarrow> admitted call st \<Longrightarrow> space_step truncates call st st' \<Longrightarrow>
    reachable_space truncates h st'"

abbreviation region_extent :: "nat \<times> free_space_data \<Rightarrow> nat \<times> nat \<times> bool" where
  "region_extent p \<equiv> (fst p, currentEndingIndex (snd p), isReserved (snd p))"

text \<open>The invariant and the cells depend on the extents of the regions only, not on their marks.\<close>

lemma extents_determine:
  assumes "map region_extent m' = map region_extent m"
  shows "fm_ok m' = fm_ok m" "available_cells m' = available_cells m"
    "reserved_regions m' = {} \<longleftrightarrow> reserved_regions m = {}"
proof -
  have ok: "fm_ok x \<longleftrightarrow>
      list_all (\<lambda>(k, e, r). k < e \<and> e < 4294967296) (map region_extent x) \<and>
      sorted_wrt (\<lambda>(k, e, r) (k', e', r'). e \<le> k' \<and> (e = k' \<longrightarrow> r \<or> r')) (map region_extent x)" for x
    by (simp add: fm_ok_def region_ok_def [abs_def] region_sep_def [abs_def] sorted_wrt_map list.pred_map comp_def
        case_prod_beta)
  have av: "available_cells x = (\<Union>(k, e, r) \<in> set (map region_extent x). if r then {} else {k ..< e})" for x
    by (auto simp: available_cells_def region_cells_def split: if_splits)
  have res: "reserved_regions x = {} \<longleftrightarrow> (\<forall>(k, e, r) \<in> set (map region_extent x). \<not> r)" for x
    by (auto simp: reserved_regions_def)
  show "fm_ok m' = fm_ok m" unfolding ok assms ..
  show "available_cells m' = available_cells m" unfolding av assms ..
  show "reserved_regions m' = {} \<longleftrightarrow> reserved_regions m = {}" unfolding res assms ..
qed

lemma fm_ok_pair: "fm_ok m \<Longrightarrow> p \<in> set m \<Longrightarrow> q \<in> set m \<Longrightarrow> p = q \<or> region_sep p q \<or> region_sep q p"
  by (induction m) (auto simp: fm_ok_Cons)

text \<open>No tracked region starts behind the container when every cell up to the last one is accounted for.\<close>

lemma region_starts_inside:
  assumes "fm_ok m" "reserved_regions m = {}" "available_cells m \<union> used = {..< bound}" "used \<subseteq> {..< eof}"
    and p: "p \<in> set m"
  shows "fst p \<le> eof"
proof (rule ccontr)
  assume "\<not> fst p \<le> eof"
  have free: "\<not> isReserved (snd q)" if "q \<in> set m" for q using assms(2) that unfolding reserved_regions_def by blast
  have ok: "fst p < currentEndingIndex (snd p)" using fm_ok_entry [OF assms(1), of "fst p" "snd p"] p by simp
  then have "fst p \<in> available_cells m"
    using p free [OF p] by (cases p) (auto simp: available_cells_def region_cells_def)
  then have "fst p < bound" using assms(3) by blast
  then have "fst p - 1 \<in> available_cells m \<union> used" unfolding assms(3) by simp
  moreover have "fst p - 1 \<notin> used" using assms(4) \<open>\<not> fst p \<le> eof\<close> by fastforce
  ultimately obtain q where q: "q \<in> set m" "fst q \<le> fst p - 1" "fst p - 1 < currentEndingIndex (snd q)"
    by (auto simp: available_cells_def region_cells_def)
  from fm_ok_pair [OF assms(1) p q(1)] show False
    using q ok \<open>\<not> fst p \<le> eof\<close> free [OF p] free [OF q(1)] by (auto simp: region_sep_def)
qed

text \<open>A flush succeeds, keeps every region, and cuts off available cells only.\<close>

lemma flush_regions_cells:
  assumes "fm_ok m" "reserved_regions m = {}" "\<forall>p \<in> set m. fst p \<le> eof" "available_cells m \<inter> used = {}"
    "used \<subseteq> {..< eof}"
  shows "\<exists>m' eof'. flush_regions (flushArea_cells truncates) flushAll True m eof = Some (True, m', eof') \<and>
    map region_extent m' = map region_extent m \<and> used \<subseteq> {..< eof'} \<and> eof' \<le> eof \<and> (\<not> truncates \<longrightarrow> eof' = eof)"
  using assms
proof (induction m)
  case (Cons p m)
  obtain k d where p: "p = (k, d)" by fastforce
  have ok: "k < currentEndingIndex d" "currentEndingIndex d < 4294967296" "fm_ok m" "\<not> isReserved d"
    "reserved_regions m = {}" "available_cells m \<inter> used = {}" "{k ..< currentEndingIndex d} \<inter> used = {}"
    using Cons.prems by (auto simp: p fm_ok_Cons region_ok_def cells_simps region_cells_def split: if_splits)
  let ?a = "ContainerArea k (sub32 (currentEndingIndex d) k)"
  have cut: "flushArea_cells truncates ?a eof =
      Some (True, if truncates \<and> eof \<le> currentEndingIndex d then k else eof)"
    using ok(1,2) by (simp add: flushArea_cells_def ContainerArea_def endingIndex_def sub32_id u32_id)
  have IH: "\<exists>m' eof'. flush_regions (flushArea_cells truncates) flushAll True m eof = Some (True, m', eof') \<and>
      map region_extent m' = map region_extent m \<and> used \<subseteq> {..< eof'} \<and> eof' \<le> eof \<and> (\<not> truncates \<longrightarrow> eof' = eof)"
    using Cons ok by simp
  show ?case
  proof (cases "(flushAll \<or> fileUpdateNeeded d) \<and> truncates \<and> eof \<le> currentEndingIndex d")
    case True
    have "q \<notin> set m" for q
    proof
      assume q: "q \<in> set m"
      then have "region_sep (k, d) q" "fst q \<le> eof"
        using Cons.prems(1,3) by (simp_all add: p fm_ok_Cons)
      moreover have "\<not> isReserved (snd q)" using ok(5) q unfolding reserved_regions_def by blast
      ultimately show False using ok(4) True by (auto simp: region_sep_def)
    qed
    then have "m = []" by (cases m) auto
    moreover have "used \<subseteq> {..< k}"
    proof
      fix x assume "x \<in> used"
      moreover from this have "x < eof" using Cons.prems(5) by blast
      moreover have "x \<notin> {k ..< currentEndingIndex d}" using \<open>x \<in> used\<close> ok(7) by blast
      ultimately show "x \<in> {..< k}" using True by simp
    qed
    moreover have "k \<le> eof" using Cons.prems(3) by (simp add: p)
    moreover have "flushArea_cells truncates ?a eof = Some (True, k)" using cut True by simp
    ultimately show ?thesis using True by (auto simp: p)
  next
    case False
    with IH show ?thesis by (auto simp: p cut)
  qed
qed simp

lemma flushFreeSpace_cells:
  assumes "tracker.ledger t used bound" "used \<subseteq> {..< eof}" "eof \<le> bound"
  shows "\<exists>t' eof'. flushFreeSpace (flushArea_cells truncates) flushAll t eof = Some (True, t', eof') \<and>
    tracker.ledger t' used bound \<and> used \<subseteq> {..< eof'} \<and> eof' \<le> eof \<and> (\<not> truncates \<longrightarrow> eof' = eof)"
proof -
  have led: "fm_ok (freeMap t)" "reserved_regions (freeMap t) = {}" "available_cells (freeMap t) \<inter> used = {}"
    "available_cells (freeMap t) \<union> used = {..< bound}"
    using assms(1) by (simp_all add: tracker.ledger_def)
  have "\<forall>p \<in> set (freeMap t). fst p \<le> eof"
    using region_starts_inside [OF led(1,2,4) assms(2)] by blast
  from flush_regions_cells [OF led(1,2) this led(3) assms(2), of truncates flushAll] obtain m' eof' where
    m': "flush_regions (flushArea_cells truncates) flushAll True (freeMap t) eof = Some (True, m', eof')"
      "map region_extent m' = map region_extent (freeMap t)"
      "used \<subseteq> {..< eof'} \<and> eof' \<le> eof \<and> (\<not> truncates \<longrightarrow> eof' = eof)"
    by blast
  with led extents_determine [OF m'(2)] show ?thesis
    by (simp add: flushFreeSpace_def tracker.ledger_def)
qed

text \<open>
  The invariant: the available and the used cells partition the container, extended by
  the region that a flush may have cut off, up to \<open>bound\<close>.
\<close>

definition space_ledger :: "bool \<Rightarrow> space_state \<Rightarrow> bool" where
  "space_ledger truncates = (\<lambda>(t, used, eof). \<exists>bound \<ge> eof. tracker.ledger t used bound \<and> used \<subseteq> {..< eof} \<and>
     (\<not> truncates \<longrightarrow> bound = eof))"

lemma space_ledger_inside:
  assumes "space_ledger truncates (t, used, eof)" "available_cells (freeMap t) \<subseteq> {..< eof}"
  shows "tracker.ledger t used eof"
proof -
  from assms(1) obtain bound where bound: "eof \<le> bound" "tracker.ledger t used bound" "used \<subseteq> {..< eof}"
    by (auto simp: space_ledger_def)
  then have "available_cells (freeMap t) \<union> used = {..< bound}" by (simp add: tracker.ledger_def)
  moreover have "available_cells (freeMap t) \<union> used \<subseteq> {..< eof}" using assms(2) bound(3) by (rule Un_least)
  ultimately have "bound = eof" using bound(1) by simp
  with bound(2) show ?thesis by simp
qed

lemma space_ledgerI:
  assumes "tracker.ledger t used eof"
  shows "space_ledger truncates (t, used, eof)"
proof -
  have "used \<subseteq> {..< eof}" using assms unfolding tracker.ledger_def by blast
  with assms show ?thesis by (auto simp: space_ledger_def)
qed

lemma space_step_ledger:
  assumes "space_step truncates call st st'" "admitted call st" "space_ledger truncates st"
  shows "space_ledger truncates st'"
  using assms(1)
proof (cases rule: space_step.cases)
  case (allocate n w s eof t fs t1 c fs' eof' t' used)
  have led: "tracker.ledger t used eof"
    using space_ledger_inside assms(2,3) by (simp add: allocate(1,2))
  from tracker.ledger_allocate [OF led allocate(4-7)] allocate(8-13)
  have "tracker.ledger t' (used \<union> {currentStartingIndex fs ..< currentStartingIndex fs + c}) eof'"
    by (auto simp: reserve_cells_def release_cells_def)
  then show ?thesis unfolding allocate(3) by (rule space_ledgerI)
next
  case (report n s used u t t' eof)
  from assms(3) obtain bound where bound: "eof \<le> bound" "tracker.ledger t used bound" "used \<subseteq> {..< eof}"
    "\<not> truncates \<longrightarrow> bound = eof"
    by (auto simp: space_ledger_def report(2))
  from tracker.ledger_add [OF bound(2) report(4-6), of u] report(7) bound show ?thesis
    unfolding space_ledger_def report(3) by (intro case_prodI exI [of _ bound]) auto
next
  case (flush flushAll t eof t' eof' used)
  from assms(3) obtain bound where bound: "eof \<le> bound" "tracker.ledger t used bound" "used \<subseteq> {..< eof}"
    "\<not> truncates \<longrightarrow> bound = eof"
    by (auto simp: space_ledger_def flush(2))
  from flushFreeSpace_cells [OF bound(2,3,1), of truncates flushAll] flush(4) bound show ?thesis
    unfolding space_ledger_def flush(3) by (intro case_prodI exI [of _ bound]) auto
qed

lemma space_ledger_reachable:
  "reachable_space truncates h st \<Longrightarrow> space_ledger truncates st"
proof (induction rule: reachable_space.induct)
  case start
  show ?case by (rule space_ledgerI) (simp add: tracker.ledger_def FreeSpaceTracker_def cells_simps)
next
  case (step st call st')
  then show ?case by (blast intro: space_step_ledger)
qed

text \<open>
  C13. In every state reachable from a container whose \<open>h\<close> first cells are in use, by any sequence
  of the allocations of the writers, reports of dropped chunks, and flushes, the available
  cells inside the container and the cells in use partition it: no cell is handed out twice,
  none is lost, no reservation is left over, and a flush never cuts off a cell in use. On storage
  that cannot be truncated the tracker has no other cell, so the calls are unrestricted; on storage
  that can, a flush may leave the region it cut off behind the end, and the sequence has no
  allocation after that: in the code it would drop cells or hand cells out twice, as the lemmas
  \<open>cut_region_strands_cells\<close> and \<open>cut_region_handed_out_twice\<close> show.
\<close>
theorem space_ledger_invariant:
  assumes "reachable_space truncates h (t, used, eof)"
  shows "fm_ok (freeMap t) \<and> reserved_regions (freeMap t) = {} \<and> available_cells (freeMap t) \<inter> used = {} \<and>
    (available_cells (freeMap t) \<inter> {..< eof}) \<union> used = {..< eof} \<and>
    (\<not> truncates \<longrightarrow> available_cells (freeMap t) \<subseteq> {..< eof})"
proof -
  from space_ledger_reachable [OF assms] obtain bound where
    bound: "eof \<le> bound" "tracker.ledger t used bound" "used \<subseteq> {..< eof}" "\<not> truncates \<longrightarrow> bound = eof"
    by (auto simp: space_ledger_def)
  then have un: "available_cells (freeMap t) \<union> used = {..< bound}" by (simp add: tracker.ledger_def)
  have "(available_cells (freeMap t) \<inter> {..< eof}) \<union> used = (available_cells (freeMap t) \<union> used) \<inter> {..< eof}"
    using bound(3) by blast
  also have "\<dots> = {..< eof}" unfolding un using bound(1) by auto
  finally show ?thesis using bound un by (auto simp: tracker.ledger_def)
qed

theorem space_ledger_invariant_witness:
  "reachable_space True 1 (FreeSpaceTracker, {..< 4}, 4) \<and>
   (\<exists>t. reachable_space True 1 (t, {..< 1}, 1) \<and> freeMap t = [(1, FreeSpaceData 4 False False)] \<and>
     (available_cells (freeMap t) \<inter> {..< 1}) \<union> {..< 1} = {..< 1})"
proof -
  let ?e = "\<lparr>freeMap = [(1, FreeSpaceData 4 True True)]\<rparr>"
  let ?t = "\<lparr>freeMap = [(1, FreeSpaceData 4 False True)]\<rparr>"
  let ?t' = "\<lparr>freeMap = [(1, FreeSpaceData 4 False False)]\<rparr>"
  have res: "reserveFreeSpaceArea (int (32 * 1)) 0 1 3 FreeSpaceTracker = Some (FreeSpace 1 1 3, ?e)"
    by (simp add: reserveFreeSpaceArea_def reserve_search.simps allocate_at_end_def FreeSpaceTracker_def
        toFileIndex_def u32_def)
  have rel: "releaseReservation (int (32 * 4)) (FreeSpace 1 1 3\<lparr>currentStartingIndex := 4, currentAreaSize := 0\<rparr>) ?e
      = Some FreeSpaceTracker"
    by (simp add: releaseReservation_def FreeSpace_def isValid_def FreeSpaceTracker_def)
  have red: "reduceBy 3 FROM_FRONT (FreeSpace 1 1 3)
      = (True, FreeSpace 1 1 3\<lparr>currentStartingIndex := 4, currentAreaSize := 0\<rparr>)"
    by (simp add: reduceBy_def u32_def)
  have "space_step True (Allocate 0 1 3 3) (FreeSpaceTracker, {..< 1}, 1)
      (FreeSpaceTracker, {..< 1} \<union> {currentStartingIndex (FreeSpace 1 1 3) ..< currentStartingIndex (FreeSpace 1 1 3) + 3}, 4)"
    by (rule space_step.allocate [OF _ _ _ _ res _ _ red _ rel]) simp_all
  moreover have "{..< 1} \<union> {currentStartingIndex (FreeSpace 1 1 3) ..< currentStartingIndex (FreeSpace 1 1 3) + 3} = {..< 4 :: nat}"
    by auto
  ultimately have "space_step True (Allocate 0 1 3 3) (FreeSpaceTracker, {..< 1}, 1) (FreeSpaceTracker, {..< 4}, 4)"
    by metis
  then have r1: "reachable_space True 1 (FreeSpaceTracker, {..< 4}, 4)"
    by (rule reachable_space.step [OF reachable_space.start, rotated])
      (simp add: FreeSpaceTracker_def cells_simps)
  have "newFreeSpaceArea 1 3 True FreeSpaceTracker = Some ?t"
    by (simp add: newFreeSpaceArea_def newFreeSpaceArea_loop.simps FreeSpaceTracker_def u32_def)
  then have "space_step True (Report 1 3 True) (FreeSpaceTracker, {..< 4}, 4) (?t, {..< 4} - {1 ..< 1 + 3}, 4)"
    by (rule space_step.report [rotated -1]) auto
  moreover have "{..< 4} - {1 ..< 1 + 3} = {..< 1 :: nat}" by auto
  ultimately have "space_step True (Report 1 3 True) (FreeSpaceTracker, {..< 4}, 4) (?t, {..< 1}, 4)" by metis
  then have r2: "reachable_space True 1 (?t, {..< 1}, 4)" by (rule reachable_space.step [OF r1, rotated]) simp
  have "flushFreeSpace (flushArea_cells True) False ?t 4 = Some (True, ?t', 1)"
    by (simp add: flushFreeSpace_def flushArea_cells_def sub32_id endingIndex_def ContainerArea_def u32_def
        free_space_data_defs)
  then have "reachable_space True 1 (?t', {..< 1}, 1)"
    by (rule reachable_space.step [OF r2 _ space_step.flush, rotated]) simp
  from this space_ledger_invariant [OF this] r1 show ?thesis by force
qed

text \<open>
  What the cut leaves behind: the region stays in the tracker when the container no longer
  has its cells. A later report can extend it to the front, so that it spans the end of the
  container; a request that does not fit into it is appended at the end, over the tracked
  region, and its first cell is then in use and available at once.
\<close>

lemma cut_region_handed_out_twice:
  "\<exists>t t'. reachable_space True 11 (t, {..< 9}, 10) \<and>
    space_step True (Allocate 0 4 4 4) (t, {..< 9}, 10) (t', {..< 9} \<union> {10 ..< 14}, 14) \<and>
    10 \<in> available_cells (freeMap t')"
proof -
  let ?t1 = "\<lparr>freeMap = [(10, FreeSpaceData 11 False True)]\<rparr>"
  let ?t2 = "\<lparr>freeMap = [(10, FreeSpaceData 11 False False)]\<rparr>"
  let ?t3 = "\<lparr>freeMap = [(9, FreeSpaceData 11 False True)]\<rparr>"
  let ?t4 = "\<lparr>freeMap = [(9, FreeSpaceData 11 False True), (10, FreeSpaceData 14 True True)]\<rparr>"
  let ?fs = "FreeSpace 10 10 4\<lparr>currentStartingIndex := 14, currentAreaSize := 0\<rparr>"
  have sets: "{..< 11} - {10 ..< 10 + 1} = {..< 10 :: nat}" "{..< 10} - {9 ..< 9 + 1} = {..< 9 :: nat}" by auto
  have "newFreeSpaceArea 10 1 True FreeSpaceTracker = Some ?t1"
    by (simp add: newFreeSpaceArea_def newFreeSpaceArea_loop.simps FreeSpaceTracker_def u32_def)
  then have "space_step True (Report 10 1 True) (FreeSpaceTracker, {..< 11}, 11) (?t1, {..< 11} - {10 ..< 10 + 1}, 11)"
    by (rule space_step.report [rotated -1]) auto
  then have r1: "reachable_space True 11 (?t1, {..< 10}, 11)"
    unfolding sets by (rule reachable_space.step [OF reachable_space.start, rotated]) simp
  have "flushFreeSpace (flushArea_cells True) False ?t1 11 = Some (True, ?t2, 10)"
    by (simp add: flushFreeSpace_def flushArea_cells_def sub32_id endingIndex_def ContainerArea_def u32_def
        free_space_data_defs)
  then have r2: "reachable_space True 11 (?t2, {..< 10}, 10)"
    by (rule reachable_space.step [OF r1 _ space_step.flush, rotated]) simp
  have "newFreeSpaceArea 9 1 True ?t2 = Some ?t3"
    by (simp add: newFreeSpaceArea_def newFreeSpaceArea_loop.simps u32_def free_space_data_defs)
  then have "space_step True (Report 9 1 True) (?t2, {..< 10}, 10) (?t3, {..< 10} - {9 ..< 9 + 1}, 10)"
    by (rule space_step.report [rotated -1]) auto
  then have r3: "reachable_space True 11 (?t3, {..< 9}, 10)"
    unfolding sets by (rule reachable_space.step [OF r2, rotated]) simp
  have res: "reserveFreeSpaceArea (int (32 * 10)) 0 4 4 ?t3 = Some (FreeSpace 10 10 4, ?t4)"
    by (simp add: reserveFreeSpaceArea_def reserve_search.simps allocate_at_end_def toFileIndex_def u32_def sub32_id)
  have red: "reduceBy 4 FROM_FRONT (FreeSpace 10 10 4) = (True, ?fs)"
    by (simp add: reduceBy_def u32_def)
  have rel: "releaseReservation (int (32 * 14)) ?fs ?t4 = Some ?t3"
    by (simp add: releaseReservation_def FreeSpace_def isValid_def)
  have "space_step True (Allocate 0 4 4 4) (?t3, {..< 9}, 10)
      (?t3, {..< 9} \<union> {currentStartingIndex (FreeSpace 10 10 4) ..< currentStartingIndex (FreeSpace 10 10 4) + 4}, 14)"
    by (rule space_step.allocate [OF _ _ _ _ res _ _ red _ rel]) simp_all
  moreover have "currentStartingIndex (FreeSpace 10 10 4) = 10" by (simp add: FreeSpace_def)
  moreover have "10 \<in> available_cells (freeMap ?t3)" by (simp add: cells_simps region_cells_def)
  ultimately show ?thesis using r3 by (intro exI [of _ ?t3]) simp
qed

text \<open>
  Or a request takes only the front of the region that was cut off: what it leaves unused
  is dropped, but the rest of the region stays in the tracker, so that the next area starts behind
  the end of the container, where no medium can be written.
\<close>

lemma cut_region_strands_cells:
  "\<exists>t t' fs t''. reachable_space True 197 (t, {..< 1}, 1) \<and>
    space_step True (Allocate 0 1 128 1) (t, {..< 1}, 1) (t', {..< 1} \<union> {1 ..< 2}, 2) \<and>
    reserveFreeSpaceArea (int (32 * 2)) 0 4 4 t' = Some (fs, t'') \<and> currentStartingIndex fs = 129"
proof -
  let ?t1 = "\<lparr>freeMap = [(1, FreeSpaceData 197 False True)]\<rparr>"
  let ?t2 = "\<lparr>freeMap = [(1, FreeSpaceData 197 False False)]\<rparr>"
  let ?t3 = "\<lparr>freeMap = [(1, FreeSpaceData 129 True True), (129, FreeSpaceData 197 False True)]\<rparr>"
  let ?t4 = "\<lparr>freeMap = [(129, FreeSpaceData 197 False True)]\<rparr>"
  let ?t5 = "\<lparr>freeMap = [(129, FreeSpaceData 133 True True), (133, FreeSpaceData 197 False True)]\<rparr>"
  let ?fs = "FreeSpace 1 1 128\<lparr>currentStartingIndex := 2, currentAreaSize := 127\<rparr>"
  have sets: "{..< 197} - {1 ..< 1 + 196} = {..< 1 :: nat}" by auto
  have "newFreeSpaceArea 1 196 True FreeSpaceTracker = Some ?t1"
    by (simp add: newFreeSpaceArea_def newFreeSpaceArea_loop.simps FreeSpaceTracker_def u32_def)
  then have "space_step True (Report 1 196 True) (FreeSpaceTracker, {..< 197}, 197) (?t1, {..< 197} - {1 ..< 1 + 196}, 197)"
    by (rule space_step.report [rotated -1]) auto
  then have r1: "reachable_space True 197 (?t1, {..< 1}, 197)"
    unfolding sets by (rule reachable_space.step [OF reachable_space.start, rotated]) simp
  have "flushFreeSpace (flushArea_cells True) False ?t1 197 = Some (True, ?t2, 1)"
    by (simp add: flushFreeSpace_def flushArea_cells_def sub32_id endingIndex_def ContainerArea_def u32_def
        free_space_data_defs)
  then have r2: "reachable_space True 197 (?t2, {..< 1}, 1)"
    by (rule reachable_space.step [OF r1 _ space_step.flush, rotated]) simp
  have res: "reserveFreeSpaceArea (int (32 * 1)) 0 1 128 ?t2 = Some (FreeSpace 1 1 128, ?t3)"
    by (simp add: reserveFreeSpaceArea_def reserve_search.simps allocate_from_def u32_def sub32_id free_space_data_defs)
  have red: "reduceBy 1 FROM_FRONT (FreeSpace 1 1 128) = (True, ?fs)"
    by (simp add: reduceBy_def u32_def)
  have rel: "releaseReservation (int (32 * 2)) ?fs ?t3 = Some ?t4"
    by (simp add: releaseReservation_def FreeSpace_def isValid_def toFileIndex_def u32_def)
  have "space_step True (Allocate 0 1 128 1) (?t2, {..< 1}, 1)
      (?t4, {..< 1} \<union> {currentStartingIndex (FreeSpace 1 1 128) ..< currentStartingIndex (FreeSpace 1 1 128) + 1}, 2)"
    by (rule space_step.allocate [OF _ _ _ _ res _ _ red _ rel]) simp_all
  moreover have "{currentStartingIndex (FreeSpace 1 1 128) ..< currentStartingIndex (FreeSpace 1 1 128) + 1} = {1 ..< 2}"
    by (auto simp: FreeSpace_def)
  ultimately have s: "space_step True (Allocate 0 1 128 1) (?t2, {..< 1}, 1) (?t4, {..< 1} \<union> {1 ..< 2}, 2)"
    by metis
  have "reserveFreeSpaceArea (int (32 * 2)) 0 4 4 ?t4 = Some (FreeSpace 129 129 4, ?t5)"
    by (simp add: reserveFreeSpaceArea_def reserve_search.simps allocate_from_def u32_def sub32_id free_space_data_defs)
  moreover have "currentStartingIndex (FreeSpace 129 129 4) = 129" by (simp add: FreeSpace_def)
  ultimately show ?thesis using r2 s by blast
qed

text \<open>
  C14. From every reachable state an allocation within the 4 GiB of the container format can be
  carried out to the end: no assertion fails in
  \<open>reserveFreeSpaceArea\<close>, \<open>reduceBy\<close> or \<open>releaseReservation\<close>, the area has at least the minimum
  size, and the cells it hands out are not in use. On storage that can be truncated this is for the
  states in which no flush has left a region behind the end of the container. A flush succeeds
  in every reachable state.
\<close>
theorem space_allocation_progress:
  assumes "reachable_space truncates h (t, used, eof)"
    and "truncates \<longrightarrow> available_cells (freeMap t) \<subseteq> {..< eof}"
    and "0 < n" "n \<le> w" "s + w < 4294967296" "eof + w < 134217728"
  shows "\<exists>fs t1. reserveFreeSpaceArea (int (32 * eof)) s n w t = Some (fs, t1) \<and>
    area_cells fs \<inter> used = {} \<and> n \<le> currentAreaSize fs \<and>
    (\<forall>c. 0 < c \<and> c \<le> currentAreaSize fs \<longrightarrow> (\<exists>t'. space_step truncates (Allocate s n w c) (t, used, eof)
      (t', used \<union> {currentStartingIndex fs ..< currentStartingIndex fs + c},
       max eof (currentStartingIndex fs + c)))) \<and>
    (\<exists>t' eof'. space_step truncates (Flush flushAll) (t, used, eof) (t', used, eof'))"
proof -
  obtain bound where bound: "eof \<le> bound" "tracker.ledger t used bound" "used \<subseteq> {..< eof}"
    "\<not> truncates \<longrightarrow> bound = eof"
    using space_ledger_reachable [OF assms(1)] by (auto simp: space_ledger_def)
  from flushFreeSpace_cells [OF bound(2,3,1), of truncates flushAll]
  have flush: "\<exists>t' eof'. space_step truncates (Flush flushAll) (t, used, eof) (t', used, eof')"
    by (blast intro: space_step.flush)
  have led: "tracker.ledger t used eof"
  proof (cases truncates)
    case True
    with assms(2) show ?thesis by (intro space_ledger_inside [OF space_ledger_reachable [OF assms(1)]]) simp
  next
    case False
    with bound show ?thesis by simp
  qed
  from tracker.ledger_allocate [OF led assms(3-6), unfolded reserve_cells_def release_cells_def]
  obtain fs t1 where
    r: "reserveFreeSpaceArea (int (32 * eof)) s n w t = Some (fs, t1)" "n \<le> currentAreaSize fs"
      "area_cells fs \<inter> used = {}"
    and rest: "\<And>c. 0 < c \<Longrightarrow> c \<le> currentAreaSize fs \<Longrightarrow>
      \<exists>fs' t'. reduceBy c FROM_FRONT fs = (True, fs') \<and>
        releaseReservation (int (32 * max eof (currentStartingIndex fs + c))) fs' t1 = Some t'"
    by (elim exE conjE) (rule that, assumption+, fast)
  have "\<exists>t'. space_step truncates (Allocate s n w c) (t, used, eof)
      (t', used \<union> {currentStartingIndex fs ..< currentStartingIndex fs + c}, max eof (currentStartingIndex fs + c))"
    if c: "0 < c" "c \<le> currentAreaSize fs" for c
  proof -
    from rest [OF c] obtain fs' t' where "reduceBy c FROM_FRONT fs = (True, fs')"
      "releaseReservation (int (32 * max eof (currentStartingIndex fs + c))) fs' t1 = Some t'" by blast
    from space_step.allocate [OF assms(3-6) r(1) c this(1) refl this(2)] show ?thesis by (rule exI)
  qed
  with r flush show ?thesis by (intro exI [of _ fs] exI [of _ t1]) simp
qed

theorem space_allocation_progress_witness:
  "\<exists>fs t1. reserveFreeSpaceArea 32 0 1 128 FreeSpaceTracker = Some (fs, t1) \<and> area_cells fs \<inter> {..< 1} = {}"
proof -
  have avail: "True \<longrightarrow> available_cells (freeMap FreeSpaceTracker) \<subseteq> {..< 1}"
    by (simp add: FreeSpaceTracker_def cells_simps)
  have "(0 :: nat) < 1" "(1 :: nat) \<le> 128" "(0 :: nat) + 128 < 4294967296" "(1 :: nat) + 128 < 134217728"
    by simp_all
  from space_allocation_progress [OF reachable_space.start avail this] obtain fs t1 where
    "reserveFreeSpaceArea (int (32 * 1)) 0 1 128 FreeSpaceTracker = Some (fs, t1)" "area_cells fs \<inter> {..< 1} = {}"
    by blast
  then show ?thesis by auto
qed

subsection \<open>Flushing and counting\<close>

definition flush_todo :: "bool \<Rightarrow> free_map \<Rightarrow> container_area list" where
  "flush_todo flushAll m =
     map (\<lambda>(k, d). ContainerArea k (currentEndingIndex d - k))
       (filter (\<lambda>(k, d). flushAll \<or> fileUpdateNeeded d) m)"

lemma flush_regions_log:
  assumes "list_all region_ok m"
  shows "\<exists>m'. flush_regions (\<lambda>a w. Some (ok a, w @ [a])) flushAll True m w =
      Some (list_all ok (flush_todo flushAll m),
        m', w @ takeWhile ok (flush_todo flushAll m) @ take 1 (dropWhile ok (flush_todo flushAll m))) \<and>
    map region_extent m' = map region_extent m \<and>
    (list_all ok (flush_todo flushAll m) \<longrightarrow> (\<forall>p \<in> set m'. \<not> fileUpdateNeeded (snd p)))"
  using assms
proof (induction m arbitrary: w)
  case Nil
  show ?case by (simp add: flush_todo_def)
next
  case (Cons p m)
  obtain k d where p: "p = (k, d)" by fastforce
  have sub: "sub32 (currentEndingIndex d) k = currentEndingIndex d - k"
    using Cons.prems by (simp add: p region_ok_def sub32_id)
  have todo: "flush_todo b ((k, d) # m) = (if b \<or> fileUpdateNeeded d
      then [ContainerArea k (currentEndingIndex d - k)] else []) @ flush_todo b m" for b
    by (simp add: flush_todo_def)
  have IH: "\<exists>m'. flush_regions (\<lambda>a w. Some (ok a, w @ [a])) flushAll True m w =
      Some (list_all ok (flush_todo flushAll m),
        m', w @ takeWhile ok (flush_todo flushAll m) @ take 1 (dropWhile ok (flush_todo flushAll m))) \<and>
    map region_extent m' = map region_extent m \<and>
    (list_all ok (flush_todo flushAll m) \<longrightarrow> (\<forall>p \<in> set m'. \<not> fileUpdateNeeded (snd p)))" for w
    using Cons by simp
  let ?a = "ContainerArea k (currentEndingIndex d - k)"
  consider "\<not> (flushAll \<or> fileUpdateNeeded d)" | "flushAll \<or> fileUpdateNeeded d" "ok ?a"
    | "flushAll \<or> fileUpdateNeeded d" "\<not> ok ?a" by blast
  then show ?case
  proof cases
    case 1
    with IH [of w] show ?thesis by (auto simp: p todo)
  next
    case 2
    with IH [of "w @ [?a]"] show ?thesis by (auto simp: p todo sub)
  next
    case 3
    moreover have "flush_regions (\<lambda>a w. Some (ok a, w @ [a])) flushAll False m w = Some (False, m, w)" for w
      by (cases m) auto
    ultimately show ?thesis by (auto simp: p todo sub)
  qed
qed

text \<open>
  C20. \<open>FreeSpaceTracker::flushFreeSpace\<close> hands the areas that need an update (or all of them)
  to \<open>flushArea\<close> in file order, each once, up to and including the first one that fails, and
  reports whether all succeeded. The regions and reservations are unchanged, and after a
  success no region is marked for update any more.
\<close>
theorem flushFreeSpace_correct:
  assumes "fm_ok (freeMap t)"
  shows "\<exists>t'. flushFreeSpace (\<lambda>a w. Some (ok a, w @ [a])) flushAll t [] =
      Some (list_all ok (flush_todo flushAll (freeMap t)), t',
        takeWhile ok (flush_todo flushAll (freeMap t)) @
        take 1 (dropWhile ok (flush_todo flushAll (freeMap t)))) \<and>
    map region_extent (freeMap t') = map region_extent (freeMap t) \<and>
    (list_all ok (flush_todo flushAll (freeMap t)) \<longrightarrow> (\<forall>p \<in> set (freeMap t'). \<not> fileUpdateNeeded (snd p)))"
proof -
  have "list_all region_ok (freeMap t)" using assms by (simp add: fm_ok_def)
  from flush_regions_log [OF this, of ok flushAll "[]"] show ?thesis
    by (auto simp: flushFreeSpace_def)
qed

theorem flushFreeSpace_correct_witness:
  "\<exists>t'. flushFreeSpace (\<lambda>a w. Some (currentStartingIndex a \<noteq> 6, w @ [a])) False
      \<lparr>freeMap = [(1, FreeSpaceData 3 True True), (6, FreeSpaceData 8 False True)]\<rparr> [] =
    Some (False, t', [ContainerArea 1 2, ContainerArea 6 2])"
proof -
  let ?t = "\<lparr>freeMap = [(1, FreeSpaceData 3 True True), (6, FreeSpaceData 8 False True)]\<rparr>"
  have "fm_ok (freeMap ?t)" by (simp add: fm_ok_Cons region_ok_def region_sep_def)
  from flushFreeSpace_correct [OF this, of "\<lambda>a. currentStartingIndex a \<noteq> 6" False] show ?thesis
    by (auto simp: flush_todo_def ContainerArea_def)
qed

lemma numberReservations_eq: "numberReservations t = length (filter (\<lambda>p. isReserved (snd p)) (freeMap t))"
proof -
  have "count_reserved m c = c + length (filter (\<lambda>p. isReserved (snd p)) m)" for m c
    by (induction m c rule: count_reserved.induct) auto
  then show ?thesis by (simp add: numberReservations_def)
qed

end
