(* ===== verification/Ring_Buffer.thy ===== *)
theory Ring_Buffer
  imports Prelude
begin

text \<open>
  \<open>RingBuffer<T, L>\<close> (\<open>ring_buffer.h\<close>), the tail buffer of a virtual file. The array is a
  list of length \<open>L\<close>, a pointer into it an offset, \<open>None\<close> for \<open>nullptr\<close>. The copy
  constructor and the assignment operator copy every field.
\<close>

record 'a ring_buffer =
  buffer :: "'a list"
  currentInsertionIndex :: nat
  currentExtractionIndex :: nat
  currentEntryCount :: nat

abbreviation bufferLength :: "'a ring_buffer \<Rightarrow> nat" where
  "bufferLength rb \<equiv> length (buffer rb)"

subsection \<open>Operations\<close>

definition RingBuffer :: "'a list \<Rightarrow> 'a ring_buffer" where
  "RingBuffer uninit =
     \<lparr>buffer = uninit, currentInsertionIndex = 0, currentExtractionIndex = 0, currentEntryCount = 0\<rparr>"

definition rb_empty :: "'a ring_buffer \<Rightarrow> bool" where
  "rb_empty rb \<longleftrightarrow> currentEntryCount rb = 0"

definition rb_notEmpty :: "'a ring_buffer \<Rightarrow> bool" where
  "rb_notEmpty rb \<longleftrightarrow> \<not> rb_empty rb"

definition rb_full :: "'a ring_buffer \<Rightarrow> bool" where
  "rb_full rb \<longleftrightarrow> currentEntryCount rb = bufferLength rb"

definition rb_notFull :: "'a ring_buffer \<Rightarrow> bool" where
  "rb_notFull rb \<longleftrightarrow> \<not> rb_full rb"

definition rb_count :: "'a ring_buffer \<Rightarrow> nat" where
  "rb_count rb = currentEntryCount rb"

definition rb_available :: "'a ring_buffer \<Rightarrow> nat" where
  "rb_available rb = sub32 (bufferLength rb) (currentEntryCount rb)"

definition rb_clear :: "'a ring_buffer \<Rightarrow> 'a ring_buffer" where
  "rb_clear rb = rb\<lparr>currentInsertionIndex := 0, currentExtractionIndex := 0, currentEntryCount := 0\<rparr>"

definition rb_insert :: "'a \<Rightarrow> 'a ring_buffer \<Rightarrow> bool \<times> 'a ring_buffer" where
  "rb_insert entry rb =
     (if currentEntryCount rb < bufferLength rb then
        let rb = rb\<lparr>buffer := (buffer rb)[currentInsertionIndex rb := entry]\<rparr>;
            nextInsertionIndex = u32 (currentInsertionIndex rb + 1);
            nextInsertionIndex = (if nextInsertionIndex \<ge> bufferLength rb then 0 else nextInsertionIndex)
        in (True, rb\<lparr>currentInsertionIndex := nextInsertionIndex,
                     currentEntryCount := u32 (currentEntryCount rb + 1)\<rparr>)
      else (False, rb))"

definition rb_extract :: "'a \<Rightarrow> 'a ring_buffer \<Rightarrow> 'a \<times> 'a ring_buffer" where
  "rb_extract defaultValue rb =
     (if currentEntryCount rb > 0 then
        let extracted = buffer rb ! currentExtractionIndex rb;
            nextExtractionIndex = u32 (currentExtractionIndex rb + 1);
            nextExtractionIndex = (if nextExtractionIndex \<ge> bufferLength rb then 0 else nextExtractionIndex)
        in (extracted, rb\<lparr>currentExtractionIndex := nextExtractionIndex,
                          currentEntryCount := currentEntryCount rb - 1\<rparr>)
      else (defaultValue, rb))"

text \<open>\<open>rb_snoop\<close> returns a reference: \<open>rb_snoop\<close> reads it, \<open>rb_snoop_assign\<close> assigns to it.\<close>

definition snoopOffset :: "nat \<Rightarrow> 'a ring_buffer \<Rightarrow> nat" where
  "snoopOffset offset rb = u32 (currentExtractionIndex rb + offset) mod bufferLength rb"

definition rb_snoop :: "nat \<Rightarrow> 'a ring_buffer \<Rightarrow> 'a" where
  "rb_snoop offset rb = buffer rb ! snoopOffset offset rb"

definition rb_snoop_assign :: "nat \<Rightarrow> 'a \<Rightarrow> 'a ring_buffer \<Rightarrow> 'a ring_buffer" where
  "rb_snoop_assign offset v rb = rb\<lparr>buffer := (buffer rb)[snoopOffset offset rb := v]\<rparr>"

type_synonym segments = "nat \<times> nat option \<times> nat \<times> nat option \<times> nat"

definition bulkInsertionStart :: "'a ring_buffer \<Rightarrow> segments" where
  "bulkInsertionStart rb =
     (let availableSpace = sub32 (bufferLength rb) (currentEntryCount rb)
      in if availableSpace > 0 then
           if currentInsertionIndex rb \<ge> currentExtractionIndex rb then
             if currentExtractionIndex rb = 0
             then (availableSpace, Some (currentInsertionIndex rb),
                   sub32 (bufferLength rb) (currentInsertionIndex rb), None, 0)
             else (availableSpace, Some (currentInsertionIndex rb),
                   sub32 (bufferLength rb) (currentInsertionIndex rb), Some 0, currentExtractionIndex rb)
           else (availableSpace, Some (currentInsertionIndex rb), availableSpace, None, 0)
         else (availableSpace, None, 0, None, 0))"

definition bulkInsertionFinish :: "nat \<Rightarrow> 'a ring_buffer \<Rightarrow> bool \<times> 'a ring_buffer" where
  "bulkInsertionFinish entriesInserted rb =
     (if entriesInserted \<le> sub32 (bufferLength rb) (currentEntryCount rb) then
        let nextInsertionIndex = u32 (currentInsertionIndex rb + entriesInserted);
            nextInsertionIndex =
              (if nextInsertionIndex \<ge> bufferLength rb then nextInsertionIndex - bufferLength rb
               else nextInsertionIndex)
        in (True, rb\<lparr>currentInsertionIndex := nextInsertionIndex,
                     currentEntryCount := u32 (currentEntryCount rb + entriesInserted)\<rparr>)
      else (False, rb))"

definition bulkExtractionStart :: "'a ring_buffer \<Rightarrow> segments" where
  "bulkExtractionStart rb =
     (if currentEntryCount rb > 0 then
        if currentInsertionIndex rb > currentExtractionIndex rb
        then (currentEntryCount rb, Some (currentExtractionIndex rb), currentEntryCount rb, None, 0)
        else if currentInsertionIndex rb = 0
        then (currentEntryCount rb, Some (currentExtractionIndex rb),
              sub32 (bufferLength rb) (currentExtractionIndex rb), None, 0)
        else (currentEntryCount rb, Some (currentExtractionIndex rb),
              sub32 (bufferLength rb) (currentExtractionIndex rb), Some 0, currentInsertionIndex rb)
      else (currentEntryCount rb, None, 0, None, 0))"

definition bulkExtractionFinish :: "nat \<Rightarrow> 'a ring_buffer \<Rightarrow> bool \<times> 'a ring_buffer" where
  "bulkExtractionFinish entriesExtracted rb =
     (if entriesExtracted \<le> currentEntryCount rb then
        let nextExtractionIndex = u32 (currentExtractionIndex rb + entriesExtracted);
            nextExtractionIndex =
              (if nextExtractionIndex \<ge> bufferLength rb then nextExtractionIndex - bufferLength rb
               else nextExtractionIndex)
        in (True, rb\<lparr>currentExtractionIndex := nextExtractionIndex,
                     currentEntryCount := currentEntryCount rb - entriesExtracted\<rparr>)
      else (False, rb))"

subsection \<open>Invariant and abstraction\<close>

text \<open>
  The indexes are inside the array and the insertion index is the extraction index plus the
  count, around the end. The buffer stands for the list of its entries, oldest first.
\<close>

definition wrap :: "'a ring_buffer \<Rightarrow> nat \<Rightarrow> nat" where
  "wrap rb i = (if currentExtractionIndex rb + i < bufferLength rb then currentExtractionIndex rb + i
                else currentExtractionIndex rb + i - bufferLength rb)"

lemma wrap_update_simps [simp]:
  "wrap (rb\<lparr>currentInsertionIndex := j\<rparr>) i = wrap rb i"
  "wrap (rb\<lparr>currentEntryCount := c\<rparr>) i = wrap rb i"
  "length xs = bufferLength rb \<Longrightarrow> wrap (rb\<lparr>buffer := xs\<rparr>) i = wrap rb i"
  by (simp_all add: wrap_def)

definition rb_ok :: "'a ring_buffer \<Rightarrow> bool" where
  "rb_ok rb \<longleftrightarrow> bufferLength rb < 2147483648 \<and> currentExtractionIndex rb < bufferLength rb \<and>
     currentEntryCount rb \<le> bufferLength rb \<and> currentInsertionIndex rb = wrap rb (currentEntryCount rb)"

definition contents :: "'a ring_buffer \<Rightarrow> 'a list" where
  "contents rb = map (\<lambda>i. buffer rb ! wrap rb i) [0 ..< currentEntryCount rb]"

definition segment :: "'a ring_buffer \<Rightarrow> nat option \<Rightarrow> nat \<Rightarrow> 'a list" where
  "segment rb p l = (case p of None \<Rightarrow> [] | Some i \<Rightarrow> take l (drop i (buffer rb)))"

definition fill_segment :: "nat option \<Rightarrow> 'a list \<Rightarrow> 'a ring_buffer \<Rightarrow> 'a ring_buffer" where
  "fill_segment p xs rb = (case p of None \<Rightarrow> rb | Some i \<Rightarrow> rb\<lparr>buffer := overlay (buffer rb) i xs\<rparr>)"

lemma length_contents [simp]: "length (contents rb) = rb_count rb"
  by (simp add: contents_def rb_count_def)

lemma rb_ok_bounds:
  assumes "rb_ok rb"
  shows "currentInsertionIndex rb < bufferLength rb" "0 < bufferLength rb"
    "\<And>i. i \<le> currentEntryCount rb \<Longrightarrow> wrap rb i < bufferLength rb"
    "rb_available rb = bufferLength rb - rb_count rb"
  using assms by (auto simp: rb_ok_def wrap_def rb_available_def rb_count_def sub32_id)

lemma RingBuffer_ok: "0 < length u \<Longrightarrow> length u < 2147483648 \<Longrightarrow> rb_ok (RingBuffer u) \<and> contents (RingBuffer u) = []"
  by (simp add: rb_ok_def RingBuffer_def wrap_def contents_def)

lemma rb_clear_ok: "rb_ok rb \<Longrightarrow> rb_ok (rb_clear rb) \<and> contents (rb_clear rb) = []"
  by (auto simp: rb_ok_def rb_clear_def wrap_def contents_def)

lemma rb_insert_ok:
  assumes ok: "rb_ok rb"
  shows "rb_insert x rb = (True, rb') \<Longrightarrow> rb_ok rb' \<and> contents rb' = contents rb @ [x] \<and> bufferLength rb' = bufferLength rb"
    and "rb_insert x rb = (False, rb') \<Longrightarrow> rb' = rb"
    and "fst (rb_insert x rb) \<longleftrightarrow> rb_count rb < bufferLength rb"
proof -
  note b = ok [unfolded rb_ok_def] rb_ok_bounds [OF ok]
  show "fst (rb_insert x rb) \<longleftrightarrow> rb_count rb < bufferLength rb"
    by (simp add: rb_insert_def rb_count_def Let_def)
  show "rb' = rb" if "rb_insert x rb = (False, rb')"
    using that by (auto simp: rb_insert_def Let_def split: if_splits)
  assume r: "rb_insert x rb = (True, rb')"
  then have lt: "currentEntryCount rb < bufferLength rb" by (auto simp: rb_insert_def split: if_splits)
  have rb': "rb' = rb\<lparr>buffer := (buffer rb)[currentInsertionIndex rb := x],
      currentInsertionIndex := wrap rb (Suc (currentEntryCount rb)),
      currentEntryCount := Suc (currentEntryCount rb)\<rparr>"
    using r lt b by (auto simp: rb_insert_def Let_def u32_id wrap_def split: if_splits)
  have "wrap rb (currentEntryCount rb) \<noteq> wrap rb i" if "i < currentEntryCount rb" for i
    using that b lt by (auto simp: wrap_def split: if_splits)
  then have "contents rb' = contents rb @ [x]"
    using b by (simp add: contents_def rb' nth_list_update)
  moreover have "rb_ok rb'"
    using b lt unfolding rb_ok_def by (simp add: rb')
  ultimately show "rb_ok rb' \<and> contents rb' = contents rb @ [x] \<and> bufferLength rb' = bufferLength rb"
    by (simp add: rb')
qed

lemma wrap_shift:
  assumes "rb_ok rb" "n + i \<le> bufferLength rb"
    and "rb' = rb\<lparr>currentExtractionIndex := wrap rb n, currentEntryCount := c\<rparr>"
  shows "wrap rb' i = wrap rb (n + i)"
  using assms by (auto simp: rb_ok_def wrap_def)

lemma drop_contents:
  assumes ok: "rb_ok rb" and "n \<le> currentEntryCount rb" "n < bufferLength rb \<or> currentEntryCount rb = n"
  defines "rb' \<equiv> rb\<lparr>currentExtractionIndex := wrap rb n, currentEntryCount := currentEntryCount rb - n\<rparr>"
  shows "rb_ok rb' \<and> contents rb' = drop n (contents rb)"
proof
  note b = ok [unfolded rb_ok_def] rb_ok_bounds [OF ok]
  have w: "wrap rb' i = wrap rb (n + i)" if "n + i \<le> bufferLength rb" for i
    by (rule wrap_shift [OF ok that rb'_def [THEN meta_eq_to_obj_eq]])
  show "rb_ok rb'"
    using b assms(2) w [of "currentEntryCount rb - n"] by (simp add: rb_ok_def) (auto simp: rb'_def)
  show "contents rb' = drop n (contents rb)"
    using b assms(2) w by (intro nth_equalityI) (auto simp: contents_def rb'_def)
qed

lemma rb_extract_ok:
  assumes ok: "rb_ok rb"
  shows "rb_extract d rb = (x, rb') \<Longrightarrow> rb_ok rb' \<and> bufferLength rb' = bufferLength rb \<and>
    (if rb_count rb = 0 then x = d \<and> rb' = rb else contents rb = x # contents rb')"
proof -
  note b = ok [unfolded rb_ok_def] rb_ok_bounds [OF ok]
  assume r: "rb_extract d rb = (x, rb')"
  show ?thesis
  proof (cases "currentEntryCount rb = 0")
    case True
    with r ok show ?thesis by (auto simp: rb_extract_def rb_count_def)
  next
    case False
    then have rb': "rb' = rb\<lparr>currentExtractionIndex := wrap rb 1, currentEntryCount := currentEntryCount rb - 1\<rparr>"
      and x: "x = buffer rb ! wrap rb 0"
      using r b by (auto simp: rb_extract_def Let_def u32_id wrap_def)
    have "rb_ok rb' \<and> contents rb' = drop 1 (contents rb)"
      unfolding rb' using False b by (intro drop_contents ok) auto
    moreover have "contents rb \<noteq> []" "hd (contents rb) = x"
      using False x by (simp_all add: contents_def hd_map)
    ultimately show ?thesis
      using False rb' by (cases "contents rb") (simp_all add: rb_count_def)
  qed
qed

lemma rb_snoop_ok:
  assumes "rb_ok rb" "i < rb_count rb"
  shows "rb_snoop i rb = contents rb ! i"
    and "rb_ok (rb_snoop_assign i v rb)" "contents (rb_snoop_assign i v rb) = (contents rb)[i := v]"
    and "bufferLength (rb_snoop_assign i v rb) = bufferLength rb"
proof -
  note b = assms(1) [unfolded rb_ok_def] rb_ok_bounds [OF assms(1)]
  have w: "snoopOffset i rb = wrap rb i"
    using b assms(2) by (auto simp: snoopOffset_def wrap_def rb_count_def u32_id mod_if)
  show "rb_snoop i rb = contents rb ! i"
    using assms(2) by (simp add: rb_snoop_def w contents_def rb_count_def)
  show "rb_ok (rb_snoop_assign i v rb)" "bufferLength (rb_snoop_assign i v rb) = bufferLength rb"
    using b by (auto simp: rb_snoop_assign_def rb_ok_def)
  have "wrap rb i = wrap rb j \<longleftrightarrow> i = j" if "j < currentEntryCount rb" for j
    using that assms(2) b by (auto simp: wrap_def rb_count_def split: if_splits)
  then show "contents (rb_snoop_assign i v rb) = (contents rb)[i := v]"
    using b assms(2)
    by (intro nth_equalityI) (auto simp: rb_snoop_assign_def w contents_def rb_count_def nth_list_update)
qed

lemma contents_segments:
  assumes ok: "rb_ok rb"
  shows "contents rb =
    (if currentExtractionIndex rb + currentEntryCount rb \<le> bufferLength rb
     then take (currentEntryCount rb) (drop (currentExtractionIndex rb) (buffer rb))
     else drop (currentExtractionIndex rb) (buffer rb) @
       take (currentExtractionIndex rb + currentEntryCount rb - bufferLength rb) (buffer rb))"
  using ok
  by (intro nth_equalityI) (auto simp: rb_ok_def contents_def wrap_def nth_append ac_simps)

lemma bulkExtractionStart_ok:
  assumes ok: "rb_ok rb" and r: "bulkExtractionStart rb = (n, p1, l1, p2, l2)"
  shows "n = rb_count rb" "l1 + l2 = n" "segment rb p1 l1 @ segment rb p2 l2 = contents rb"
    "length (segment rb p1 l1) = l1" "length (segment rb p2 l2) = l2" "0 < n \<Longrightarrow> 0 < l1"
    "p1 = None \<longleftrightarrow> l1 = 0" "p2 = None \<longleftrightarrow> l2 = 0"
    "\<And>i. p1 = Some i \<Longrightarrow> i + l1 \<le> bufferLength rb" "\<And>i. p2 = Some i \<Longrightarrow> i + l2 \<le> bufferLength rb"
proof -
  note b = ok [unfolded rb_ok_def] rb_ok_bounds(1,2) [OF ok]
  have s: "sub32 (bufferLength rb) (currentExtractionIndex rb) = bufferLength rb - currentExtractionIndex rb"
    using b by (simp add: sub32_id)
  show "n = rb_count rb" "l1 + l2 = n" "segment rb p1 l1 @ segment rb p2 l2 = contents rb"
    "length (segment rb p1 l1) = l1" "length (segment rb p2 l2) = l2" "0 < n \<Longrightarrow> 0 < l1"
    "p1 = None \<longleftrightarrow> l1 = 0" "p2 = None \<longleftrightarrow> l2 = 0"
    "\<And>i. p1 = Some i \<Longrightarrow> i + l1 \<le> bufferLength rb" "\<And>i. p2 = Some i \<Longrightarrow> i + l2 \<le> bufferLength rb"
    using b r contents_segments [OF ok]
    by (auto simp: bulkExtractionStart_def s rb_count_def segment_def wrap_def contents_def split: if_splits)
qed

lemma bulkExtractionFinish_ok:
  assumes ok: "rb_ok rb" and r: "bulkExtractionFinish n rb = (success, rb')"
  shows "success \<longleftrightarrow> n \<le> rb_count rb"
    "success \<Longrightarrow> rb_ok rb' \<and> contents rb' = drop n (contents rb) \<and> bufferLength rb' = bufferLength rb"
    "\<not> success \<Longrightarrow> rb' = rb"
proof -
  note b = ok [unfolded rb_ok_def] rb_ok_bounds(1,2) [OF ok]
  show "success \<longleftrightarrow> n \<le> rb_count rb" and "\<not> success \<Longrightarrow> rb' = rb"
    using r by (auto simp: bulkExtractionFinish_def rb_count_def Let_def split: if_splits)
  assume success
  then have n: "n \<le> currentEntryCount rb"
    and rb': "rb' = rb\<lparr>currentExtractionIndex := wrap rb n, currentEntryCount := currentEntryCount rb - n\<rparr>"
    using r b by (auto simp: bulkExtractionFinish_def Let_def u32_id wrap_def split: if_splits)
  then show "rb_ok rb' \<and> contents rb' = drop n (contents rb) \<and> bufferLength rb' = bufferLength rb"
    using drop_contents [OF ok n] b by force
qed

text \<open>Writing \<open>xs\<close> through the two pointers of \<open>bulkInsertionStart\<close>, as a caller does.\<close>

definition fill_segments :: "'a list \<Rightarrow> segments \<Rightarrow> 'a ring_buffer \<Rightarrow> 'a ring_buffer" where
  "fill_segments xs sg rb = (case sg of (n, p1, l1, p2, l2) \<Rightarrow>
     fill_segment p2 (drop l1 xs) (fill_segment p1 (take l1 xs) rb))"

lemma bulkInsertionStart_ok:
  assumes ok: "rb_ok rb" and r: "bulkInsertionStart rb = (n, p1, l1, p2, l2)"
  shows "n = rb_available rb" "l1 + l2 = n" "0 < n \<Longrightarrow> p1 = Some (currentInsertionIndex rb)"
    "l2 = 0 \<longleftrightarrow> p2 = None" "p2 = None \<or> p2 = Some 0"
    "currentInsertionIndex rb + l1 \<le> bufferLength rb" "l2 \<le> bufferLength rb"
    "0 < l2 \<Longrightarrow> currentInsertionIndex rb + l1 = bufferLength rb"
proof -
  note b = ok [unfolded rb_ok_def] rb_ok_bounds(1,2) [OF ok]
  have s: "sub32 (bufferLength rb) (currentInsertionIndex rb) = bufferLength rb - currentInsertionIndex rb"
    "sub32 (bufferLength rb) (currentEntryCount rb) = bufferLength rb - currentEntryCount rb"
    using b by (simp_all add: sub32_id)
  show "n = rb_available rb" "l1 + l2 = n" "0 < n \<Longrightarrow> p1 = Some (currentInsertionIndex rb)"
    "l2 = 0 \<longleftrightarrow> p2 = None" "p2 = None \<or> p2 = Some 0"
    "currentInsertionIndex rb + l1 \<le> bufferLength rb" "l2 \<le> bufferLength rb"
    "0 < l2 \<Longrightarrow> currentInsertionIndex rb + l1 = bufferLength rb"
    using b r by (auto simp: bulkInsertionStart_def s rb_available_def Let_def wrap_def sub32_id split: if_splits)
qed

lemma bulkInsertion_ok:
  assumes ok: "rb_ok rb" and sg: "bulkInsertionStart rb = sg" and len: "length xs \<le> rb_available rb"
    and r: "bulkInsertionFinish (length xs) (fill_segments xs sg rb) = (success, rb')"
  shows "success" "rb_ok rb'" "contents rb' = contents rb @ xs" "bufferLength rb' = bufferLength rb"
proof -
  obtain n p1 l1 p2 l2 where sg': "sg = (n, p1, l1, p2, l2)" by (cases sg) auto
  note st = bulkInsertionStart_ok [OF ok sg [unfolded sg']]
  note b = ok [unfolded rb_ok_def] rb_ok_bounds(1,2,4) [OF ok]
  define ys where "ys = buffer (fill_segments xs sg rb)"
  have fill: "fill_segments xs sg rb = rb\<lparr>buffer := ys\<rparr>"
    by (simp add: ys_def fill_segments_def sg' fill_segment_def split: option.splits)
  have av: "length xs \<le> l1 + l2" using st len by simp
  have succ: "success \<and> rb' = rb\<lparr>buffer := ys,
      currentInsertionIndex := wrap rb (currentEntryCount rb + length xs),
      currentEntryCount := currentEntryCount rb + length xs\<rparr> \<and> length ys = bufferLength rb \<and>
    (\<forall>j < bufferLength rb. ys ! j =
      (if currentInsertionIndex rb \<le> j \<and> j < currentInsertionIndex rb + min l1 (length xs)
       then xs ! (j - currentInsertionIndex rb)
       else if j < length xs - l1 then xs ! (l1 + j) else buffer rb ! j))"
  proof (cases "n = 0")
    case True
    with st av have "xs = []" "l1 = 0" by auto
    with r b st True fill show ?thesis
      by (auto simp: bulkInsertionFinish_def Let_def u32_id fill_segments_def sg' fill_segment_def ys_def
          split: option.splits)
  next
    case False
    then have p1: "p1 = Some (currentInsertionIndex rb)" using st by simp
    let ?a = "overlay (buffer rb) (currentInsertionIndex rb) (take l1 xs)"
    have ys: "ys = overlay ?a 0 (drop l1 xs)"
    proof (cases p2)
      case None
      then have "l2 = 0" using st(4) by blast
      then have "drop l1 xs = []" using av by simp
      then show ?thesis by (simp add: ys_def fill_segments_def sg' fill_segment_def p1 None)
    next
      case (Some i)
      then have "i = 0" using st(5) by blast
      then show ?thesis by (simp add: ys_def fill_segments_def sg' fill_segment_def p1 Some)
    qed
    have la: "length ?a = bufferLength rb" using st by simp
    have ly: "length ys = bufferLength rb" unfolding ys using la st av by simp
    have "success \<and> rb' = rb\<lparr>buffer := ys,
      currentInsertionIndex := wrap rb (currentEntryCount rb + length xs),
      currentEntryCount := currentEntryCount rb + length xs\<rparr>"
      using r b len ly unfolding fill
      by (auto simp: bulkInsertionFinish_def Let_def u32_id sub32_id wrap_def rb_count_def split: if_splits)
    moreover have "ys ! j = (if currentInsertionIndex rb \<le> j \<and> j < currentInsertionIndex rb + min l1 (length xs)
       then xs ! (j - currentInsertionIndex rb)
       else if j < length xs - l1 then xs ! (l1 + j) else buffer rb ! j)" if "j < bufferLength rb" for j
    proof -
      have "0 < length xs - l1 \<Longrightarrow> 0 < l2" using av by simp
      then have l2: "length xs - l1 \<le> l2" "0 < length xs - l1 \<longrightarrow> l2 \<le> currentInsertionIndex rb"
        using av st(2) sg b that by (auto simp: bulkInsertionStart_def Let_def sg' split: if_splits)
      have "ys ! j = (if j < length xs - l1 then xs ! (l1 + j) else ?a ! j)"
        unfolding ys using that la by (subst nth_overlay) (auto simp: add.commute)
      moreover have "?a ! j = (if currentInsertionIndex rb \<le> j \<and> j < currentInsertionIndex rb + min l1 (length xs)
          then xs ! (j - currentInsertionIndex rb) else buffer rb ! j)"
        using that b st by (subst nth_overlay) (auto simp: min.commute)
      ultimately show ?thesis using l2 by auto
    qed
    ultimately show ?thesis using ly by blast
  qed
  show "success" "bufferLength rb' = bufferLength rb" using succ by simp_all
  show "rb_ok rb'"
    using succ b len by (auto simp: rb_ok_def rb_count_def)
  show "contents rb' = contents rb @ xs"
  proof (rule nth_equalityI)
    show "length (contents rb') = length (contents rb @ xs)"
      using succ by (simp add: rb_count_def)
    fix i assume "i < length (contents rb')"
    then have i: "i < currentEntryCount rb + length xs" using succ by (simp add: rb_count_def)
    then have "contents rb' ! i = ys ! wrap rb i" using succ by (simp add: contents_def)
    moreover have w: "wrap rb i < bufferLength rb" using i b len by (auto simp: wrap_def rb_count_def)
    ultimately have *: "contents rb' ! i =
      (if currentInsertionIndex rb \<le> wrap rb i \<and> wrap rb i < currentInsertionIndex rb + min l1 (length xs)
       then xs ! (wrap rb i - currentInsertionIndex rb)
       else if wrap rb i < length xs - l1 then xs ! (l1 + wrap rb i) else buffer rb ! wrap rb i)"
      using succ by simp
    have lens: "length xs \<le> bufferLength rb - currentEntryCount rb" using len b by (simp add: rb_count_def)
    have l1: "0 < length xs \<Longrightarrow> l1 = (if currentExtractionIndex rb \<le> currentInsertionIndex rb
        then bufferLength rb - currentInsertionIndex rb else bufferLength rb - currentEntryCount rb)"
      using sg b lens by (auto simp: bulkInsertionStart_def Let_def sg' sub32_id split: if_splits)
    show "contents rb' ! i = (contents rb @ xs) ! i"
    proof (cases "i < currentEntryCount rb")
      case True
      then have "(contents rb @ xs) ! i = buffer rb ! wrap rb i"
        by (simp add: nth_append rb_count_def) (simp add: contents_def)
      moreover have "\<not> (currentInsertionIndex rb \<le> wrap rb i \<and> wrap rb i < currentInsertionIndex rb + min l1 (length xs))"
        "\<not> wrap rb i < length xs - l1"
        using True b lens l1 by (cases "xs = []"; force simp: wrap_def split: if_splits)+
      ultimately show ?thesis using * by (simp only: if_False)
    next
      case False
      then have "(contents rb @ xs) ! i = xs ! (i - currentEntryCount rb)"
        by (simp add: nth_append rb_count_def)
      moreover have "0 < length xs" using False i by (cases xs) auto
      with False i b lens l1 have
        "(if currentInsertionIndex rb \<le> wrap rb i \<and> wrap rb i < currentInsertionIndex rb + min l1 (length xs)
          then wrap rb i - currentInsertionIndex rb else l1 + wrap rb i) = i - currentEntryCount rb \<and>
         (\<not> (currentInsertionIndex rb \<le> wrap rb i \<and> wrap rb i < currentInsertionIndex rb + min l1 (length xs)) \<longrightarrow>
          wrap rb i < length xs - l1)"
        by (auto simp: wrap_def split: if_splits)
      ultimately show ?thesis using * by (auto split: if_splits)
    qed
  qed
qed

text \<open>
  C23. \<open>RingBuffer\<close> implements a bounded list of entries, oldest first: \<open>insert\<close> appends and
  fails only when the buffer is full, \<open>extract\<close> removes the oldest entry or returns the
  default, \<open>snoop\<close> reads and writes the entry at an offset from the oldest one, \<open>clear\<close>
  empties; each keeps the index invariant whatever way the contents wrap around the array.
\<close>
theorem ring_buffer_refines_list:
  assumes "rb_ok rb"
  shows "(\<exists>rb'. rb_insert x rb = (length (contents rb) < bufferLength rb, rb') \<and> rb_ok rb' \<and>
      contents rb' = (if length (contents rb) < bufferLength rb then contents rb @ [x] else contents rb)) \<and>
    (\<exists>rb'. rb_extract d rb = (case contents rb of [] \<Rightarrow> d | y # _ \<Rightarrow> y, rb') \<and> rb_ok rb' \<and>
      contents rb' = tl (contents rb)) \<and>
    (\<forall>i < length (contents rb). rb_snoop i rb = contents rb ! i \<and>
      rb_ok (rb_snoop_assign i v rb) \<and> contents (rb_snoop_assign i v rb) = (contents rb)[i := v]) \<and>
    rb_ok (rb_clear rb) \<and> contents (rb_clear rb) = []"
proof (intro conjI)
  obtain s rb1 where 1: "rb_insert x rb = (s, rb1)" by fastforce
  with rb_insert_ok(1,2) [OF assms, of x rb1] rb_insert_ok(3) [OF assms, of x] assms
  show "\<exists>rb'. rb_insert x rb = (length (contents rb) < bufferLength rb, rb') \<and> rb_ok rb' \<and>
      contents rb' = (if length (contents rb) < bufferLength rb then contents rb @ [x] else contents rb)"
    by (cases s) auto
  obtain y rb2 where 2: "rb_extract d rb = (y, rb2)" by fastforce
  with rb_extract_ok [OF assms, of d y rb2] assms
  show "\<exists>rb'. rb_extract d rb = (case contents rb of [] \<Rightarrow> d | y # _ \<Rightarrow> y, rb') \<and> rb_ok rb' \<and>
      contents rb' = tl (contents rb)"
    by (cases "contents rb") (auto simp flip: length_contents split: if_splits)
  show "\<forall>i < length (contents rb). rb_snoop i rb = contents rb ! i \<and>
      rb_ok (rb_snoop_assign i v rb) \<and> contents (rb_snoop_assign i v rb) = (contents rb)[i := v]"
    using rb_snoop_ok [OF assms] by simp
qed (use rb_clear_ok [OF assms] in simp_all)

theorem ring_buffer_refines_list_witness:
  "contents (snd (rb_insert (9 :: nat) \<lparr>buffer = [7, 0, 6], currentInsertionIndex = 1,
      currentExtractionIndex = 2, currentEntryCount = 2\<rparr>)) = [6, 7, 9]"
proof -
  let ?rb = "\<lparr>buffer = [7, 0, 6], currentInsertionIndex = 1, currentExtractionIndex = 2, currentEntryCount = 2\<rparr> :: nat ring_buffer"
  have ok: "rb_ok ?rb" by (simp add: rb_ok_def wrap_def)
  have c: "contents ?rb = [6, 7]" by (simp add: contents_def wrap_def upt_rec)
  from ring_buffer_refines_list [OF ok, of 9 0 0] show ?thesis
    unfolding c by auto
qed

text \<open>
  C22. The two-segment bulk interface of \<open>RingBuffer\<close> is equivalent to list operations: the
  segments handed out by \<open>bulkExtractionStart\<close> lie inside the array and concatenate to the
  contents, \<open>bulkExtractionFinish\<close> drops the extracted prefix, and writing \<open>xs\<close> through the
  segments of \<open>bulkInsertionStart\<close> followed by \<open>bulkInsertionFinish\<close> appends \<open>xs\<close>.
\<close>
theorem ring_buffer_bulk_operations:
  assumes "rb_ok rb"
  shows "(case bulkExtractionStart rb of (n, p1, l1, p2, l2) \<Rightarrow>
      n = length (contents rb) \<and> l1 + l2 = n \<and> segment rb p1 l1 @ segment rb p2 l2 = contents rb) \<and>
    (\<exists>rb'. bulkExtractionFinish n rb = (n \<le> length (contents rb), rb') \<and> rb_ok rb' \<and>
      contents rb' = (if n \<le> length (contents rb) then drop n (contents rb) else contents rb)) \<and>
    (length xs \<le> rb_available rb \<longrightarrow>
      (\<exists>rb'. bulkInsertionFinish (length xs) (fill_segments xs (bulkInsertionStart rb) rb) = (True, rb') \<and>
        rb_ok rb' \<and> contents rb' = contents rb @ xs))"
proof (intro conjI impI)
  show "case bulkExtractionStart rb of (n, p1, l1, p2, l2) \<Rightarrow>
      n = length (contents rb) \<and> l1 + l2 = n \<and> segment rb p1 l1 @ segment rb p2 l2 = contents rb"
    using bulkExtractionStart_ok [OF assms] by (simp split: prod.splits)
  obtain s rb1 where "bulkExtractionFinish n rb = (s, rb1)" by fastforce
  with bulkExtractionFinish_ok [OF assms this] assms
  show "\<exists>rb'. bulkExtractionFinish n rb = (n \<le> length (contents rb), rb') \<and> rb_ok rb' \<and>
      contents rb' = (if n \<le> length (contents rb) then drop n (contents rb) else contents rb)"
    by (cases s) auto
  assume len: "length xs \<le> rb_available rb"
  obtain s rb2 where "bulkInsertionFinish (length xs) (fill_segments xs (bulkInsertionStart rb) rb) = (s, rb2)"
    by fastforce
  with bulkInsertion_ok [OF assms refl len this]
  show "\<exists>rb'. bulkInsertionFinish (length xs) (fill_segments xs (bulkInsertionStart rb) rb) = (True, rb') \<and>
        rb_ok rb' \<and> contents rb' = contents rb @ xs" by auto
qed

theorem ring_buffer_bulk_operations_witness:
  "\<exists>rb'. bulkInsertionFinish 2 (fill_segments [8, 9 :: nat] (bulkInsertionStart
      \<lparr>buffer = [0, 5, 6, 0 :: nat], currentInsertionIndex = 3, currentExtractionIndex = 1, currentEntryCount = 2\<rparr>)
      \<lparr>buffer = [0, 5, 6, 0], currentInsertionIndex = 3, currentExtractionIndex = 1, currentEntryCount = 2\<rparr>)
    = (True, rb') \<and> contents rb' = [5, 6, 8, 9]"
proof -
  let ?rb = "\<lparr>buffer = [0, 5, 6, 0], currentInsertionIndex = 3, currentExtractionIndex = 1,
    currentEntryCount = 2\<rparr> :: nat ring_buffer"
  have ok: "rb_ok ?rb" by (simp add: rb_ok_def wrap_def)
  have c: "contents ?rb = [5, 6]" by (simp add: contents_def wrap_def upt_rec)
  have a: "length [8, 9 :: nat] \<le> rb_available ?rb" by (simp add: rb_available_def sub32_id)
  from ring_buffer_bulk_operations [OF ok, of 0 "[8, 9]"] a have
    "\<exists>rb'. bulkInsertionFinish (length [8, 9 :: nat]) (fill_segments [8, 9] (bulkInsertionStart ?rb) ?rb) = (True, rb') \<and>
      rb_ok rb' \<and> contents rb' = contents ?rb @ [8, 9]" by blast
  then show ?thesis unfolding c by (simp add: numeral_2_eq_2) blast
qed

subsection \<open>First in, first out\<close>

text \<open>The contract a user of the buffer relies on, entry by entry.\<close>

locale bounded_fifo =
  fixes ok :: "'q \<Rightarrow> bool" and entries :: "'q \<Rightarrow> 'a list" and capacity :: "'q \<Rightarrow> nat"
    and put :: "'a \<Rightarrow> 'q \<Rightarrow> bool \<times> 'q" and get :: "'a \<Rightarrow> 'q \<Rightarrow> 'a \<times> 'q"
  assumes put_law: "ok q \<Longrightarrow> length (entries q) < capacity q \<Longrightarrow>
      \<exists>q'. put x q = (True, q') \<and> ok q' \<and> entries q' = entries q @ [x] \<and> capacity q' = capacity q"
    and get_law: "ok q \<Longrightarrow> entries q \<noteq> [] \<Longrightarrow>
      \<exists>q'. get d q = (hd (entries q), q') \<and> ok q' \<and> entries q' = tl (entries q) \<and> capacity q' = capacity q"
begin

fun put_all :: "'a list \<Rightarrow> 'q \<Rightarrow> bool \<times> 'q" where
  "put_all [] q = (True, q)"
| "put_all (x # xs) q = (case put x q of (s, q) \<Rightarrow> if s then put_all xs q else (False, q))"

fun get_n :: "'a \<Rightarrow> nat \<Rightarrow> 'q \<Rightarrow> 'a list \<times> 'q" where
  "get_n d 0 q = ([], q)"
| "get_n d (Suc n) q = (case get d q of (x, q) \<Rightarrow> case get_n d n q of (xs, q) \<Rightarrow> (x # xs, q))"

lemma put_all_law:
  "ok q \<Longrightarrow> length (entries q) + length xs \<le> capacity q \<Longrightarrow>
   \<exists>q'. put_all xs q = (True, q') \<and> ok q' \<and> entries q' = entries q @ xs \<and> capacity q' = capacity q"
proof (induction xs arbitrary: q)
  case (Cons x xs)
  then obtain q1 where q1: "put x q = (True, q1)" "ok q1" "entries q1 = entries q @ [x]" "capacity q1 = capacity q"
    using put_law [of q x] by auto
  with Cons.IH [of q1] Cons.prems show ?case by auto
qed auto

lemma get_n_law:
  "ok q \<Longrightarrow> n \<le> length (entries q) \<Longrightarrow>
   \<exists>q'. get_n d n q = (take n (entries q), q') \<and> ok q' \<and> entries q' = drop n (entries q)"
proof (induction n arbitrary: q)
  case (Suc n)
  then have ne: "entries q \<noteq> []" by auto
  then obtain q1 where q1: "get d q = (hd (entries q), q1)" "ok q1" "entries q1 = tl (entries q)"
    using get_law [OF Suc.prems(1)] by blast
  then have "n \<le> length (entries q1)" using Suc.prems by simp
  from Suc.IH [OF q1(2) this] q1 ne show ?case
    by (auto simp: take_Suc drop_Suc)
qed auto

lemma fifo_law:
  assumes "ok q" "length (entries q) + length xs \<le> capacity q"
  shows "\<exists>q1 q2. put_all xs q = (True, q1) \<and>
    get_n d (length (entries q) + length xs) q1 = (entries q @ xs, q2) \<and> entries q2 = []"
proof -
  from put_all_law [OF assms] obtain q1 where q1: "put_all xs q = (True, q1)" "ok q1" "entries q1 = entries q @ xs"
    by blast
  from get_n_law [OF q1(2), of "length (entries q) + length xs" d] q1 show ?thesis by auto
qed

end

interpretation fifo: bounded_fifo rb_ok contents bufferLength rb_insert rb_extract
proof unfold_locales
  fix rb :: "'a ring_buffer" and x
  assume ok: "rb_ok rb" and lt: "length (contents rb) < bufferLength rb"
  obtain s rb' where r: "rb_insert x rb = (s, rb')" by fastforce
  with rb_insert_ok(3) [OF ok, of x] lt have s by simp
  with r rb_insert_ok(1) [OF ok, of x rb']
  show "\<exists>rb'. rb_insert x rb = (True, rb') \<and> rb_ok rb' \<and> contents rb' = contents rb @ [x] \<and> bufferLength rb' = bufferLength rb"
    by auto
next
  fix rb :: "'a ring_buffer" and d
  assume ok: "rb_ok rb" and ne: "contents rb \<noteq> []"
  obtain x rb' where r: "rb_extract d rb = (x, rb')" by fastforce
  have "rb_count rb \<noteq> 0" using ne by (simp flip: length_contents)
  with rb_extract_ok [OF ok r] r
  show "\<exists>rb'. rb_extract d rb = (hd (contents rb), rb') \<and> rb_ok rb' \<and> contents rb' = tl (contents rb) \<and> bufferLength rb' = bufferLength rb"
    by auto
qed

text \<open>
  C24. What is inserted into a ring buffer comes out in the same order: from any reachable
  position of the indexes, inserting \<open>xs\<close> succeeds as long as it fits, and extracting as many
  entries as are stored returns the old entries followed by \<open>xs\<close> and leaves the buffer empty.
\<close>
theorem ring_buffer_is_fifo:
  assumes "rb_ok rb" "length (contents rb) + length xs \<le> bufferLength rb"
  shows "\<exists>rb1 rb2. fifo.put_all xs rb = (True, rb1) \<and>
    fifo.get_n d (length (contents rb) + length xs) rb1 = (contents rb @ xs, rb2) \<and> contents rb2 = []"
  using assms by (rule fifo.fifo_law)

theorem ring_buffer_is_fifo_witness:
  "\<exists>rb1 rb2. fifo.put_all [1, 2, 3] (RingBuffer [0, 0, 0, 0 :: nat]) = (True, rb1) \<and>
    fifo.get_n 0 3 rb1 = ([1, 2, 3], rb2)"
proof -
  have ok: "rb_ok (RingBuffer [0, 0, 0, 0 :: nat])" "contents (RingBuffer [0, 0, 0, 0 :: nat]) = []"
    using RingBuffer_ok [of "[0, 0, 0, 0 :: nat]"] by simp_all
  have "length (contents (RingBuffer [0, 0, 0, 0 :: nat])) + length [1, 2, 3 :: nat] \<le> bufferLength (RingBuffer [0, 0, 0, 0 :: nat])"
    unfolding ok(2) by (simp add: RingBuffer_def)
  from ring_buffer_is_fifo [OF ok(1) this, of 0] ok(2) show ?thesis by (auto simp: numeral_3_eq_3)
qed

end
