(* ===== verification/Status.thy ===== *)
theory Status
  imports Prelude
begin

text \<open>
  \<open>Container::Status\<close> and the classes derived from it (\<open>container_status_base.cpp\<close>,
  \<open>container_status.cpp\<close>). A \<open>Status\<close> object is a shared pointer to an implementation
  object that is null for success without information; here \<open>NoStatus\<close> is the null
  pointer and every other constructor of \<open>status\<close> is an instance of one derived class with
  its data members. The hierarchy is open: applications derive classes of their own, whose
  objects are \<open>ApplicationStatus\<close> with what their five virtual functions return. The virtual functions of an implementation object are the record
  \<open>pimpl\<close>, and \<open>impl\<close> is the dispatch on the dynamic type. The accessors of a derived
  class go through \<open>dynamic_pointer_cast\<close>: on an object of another class they dereference
  a null pointer, here \<open>None\<close>. The text of \<open>std::strerror\<close> is a parameter of the
  descriptions that use it.
\<close>

datatype open_mode = CLOSED | READ_ONLY | READ_WRITE | OVERWRITE

definition openModeCode :: "open_mode \<Rightarrow> nat" where
  "openModeCode m = (case m of CLOSED \<Rightarrow> 0 | READ_ONLY \<Rightarrow> 1 | READ_WRITE \<Rightarrow> 2 | OVERWRITE \<Rightarrow> 3)"

datatype status_class =
    NO_STATUS
  | CONTAINER_INTERNAL_ERROR
  | CONTAINER_FORMAT_ERROR
  | CONTAINER_HEADER_ERROR
  | CONTAINER_VERSION_DOWNLEVEL
  | FILESYSTEM_STATUS
  | FILESYSTEM_ERROR
  | STREAMING_READ_ERROR
  | APPLICATION_ERROR

datatype status =
    NoStatus
  | StreamingReadError
  | ContainerUnavailable
  | StreamIdentifierMismatch nat nat nat
  | OffsetMismatch nat nat nat
  | PayloadSizeMismatch nat nat nat
  | FilenameMismatch string string nat
  | FileCreationError string nat
  | ContainerDataError nat
  | VersionDownlevelStatus byte byte
  | HeaderIdentifierInvalid
  | HeaderVersionInvalid byte byte
  | HeaderCrcError
  | ReadSuccessful nat
  | WriteSuccessful nat
  | SeekError nat nat
  | InvalidOpenMode open_mode
  | FileContainerNotOpen
  | FailedToOpenFile string open_mode int
  | FileCloseError string int
  | FileReadError string nat int
  | FileWriteError string nat int
  | FileTruncateError string nat int
  | FileFlushError string int
  | ApplicationStatus status_class int string bool bool

text \<open>The classes of the library itself.\<close>

fun library_status :: "status \<Rightarrow> bool" where
  "library_status (ApplicationStatus _ _ _ _ _) = False"
| "library_status _ = True"

subsection \<open>Implementation objects: the virtual functions and the base classes\<close>

record pimpl =
  vStatusClass :: status_class
  vErrorCode :: int
  vDescription :: "(int \<Rightarrow> string) \<Rightarrow> string"
  vInformationAvailable :: bool
  vRecoverable :: bool

definition PimplBase :: "status_class \<Rightarrow> int \<Rightarrow> ((int \<Rightarrow> string) \<Rightarrow> string) \<Rightarrow> bool \<Rightarrow> pimpl" where
  "PimplBase c e d r =
     \<lparr>vStatusClass = c, vErrorCode = e, vDescription = d, vInformationAvailable = True, vRecoverable = r\<rparr>"

definition StatusPimplBase :: "status_class \<Rightarrow> int \<Rightarrow> ((int \<Rightarrow> string) \<Rightarrow> string) \<Rightarrow> pimpl" where
  "StatusPimplBase c e d = PimplBase c e d True"

definition ErrorPimplBase :: "status_class \<Rightarrow> int \<Rightarrow> ((int \<Rightarrow> string) \<Rightarrow> string) \<Rightarrow> pimpl" where
  "ErrorPimplBase c e d = PimplBase c e d False"

definition InternalErrorPimpl :: "int \<Rightarrow> ((int \<Rightarrow> string) \<Rightarrow> string) \<Rightarrow> pimpl" where
  "InternalErrorPimpl e d = ErrorPimplBase CONTAINER_INTERNAL_ERROR e d"

definition MetadataMismatchPimpl :: "int \<Rightarrow> ((int \<Rightarrow> string) \<Rightarrow> string) \<Rightarrow> pimpl" where
  "MetadataMismatchPimpl e d = InternalErrorPimpl e d"

definition FormatErrorPimpl :: "int \<Rightarrow> ((int \<Rightarrow> string) \<Rightarrow> string) \<Rightarrow> pimpl" where
  "FormatErrorPimpl e d = ErrorPimplBase CONTAINER_FORMAT_ERROR e d"

definition HeaderErrorPimpl :: "int \<Rightarrow> ((int \<Rightarrow> string) \<Rightarrow> string) \<Rightarrow> pimpl" where
  "HeaderErrorPimpl e d = ErrorPimplBase CONTAINER_HEADER_ERROR e d"

definition FilesystemStatusPimpl :: "int \<Rightarrow> ((int \<Rightarrow> string) \<Rightarrow> string) \<Rightarrow> pimpl" where
  "FilesystemStatusPimpl e d = StatusPimplBase FILESYSTEM_STATUS e d"

definition FilesystemErrorPimpl :: "int \<Rightarrow> ((int \<Rightarrow> string) \<Rightarrow> string) \<Rightarrow> pimpl" where
  "FilesystemErrorPimpl e d = ErrorPimplBase FILESYSTEM_ERROR e d"

lemmas pimpl_base_defs =
  PimplBase_def StatusPimplBase_def ErrorPimplBase_def InternalErrorPimpl_def
  MetadataMismatchPimpl_def FormatErrorPimpl_def HeaderErrorPimpl_def FilesystemStatusPimpl_def
  FilesystemErrorPimpl_def

subsection \<open>The derived classes\<close>

definition StreamingReadError_Pimpl :: "pimpl" where
  "StreamingReadError_Pimpl = ErrorPimplBase STREAMING_READ_ERROR 1
     (\<lambda>strerror. ''streaming read error'')"

definition ContainerUnavailable_Pimpl :: "pimpl" where
  "ContainerUnavailable_Pimpl = InternalErrorPimpl 1
     (\<lambda>strerror. ''Container object unavailable'')"

definition StreamIdentifierMismatch_Pimpl :: "nat \<Rightarrow> nat \<Rightarrow> nat \<Rightarrow> pimpl" where
  "StreamIdentifierMismatch_Pimpl detectedStreamIdentifier expectedStreamIdentifier filePosition = MetadataMismatchPimpl 2
     (\<lambda>strerror. ''Stream identifier mismatch near '' @ dec_string filePosition @ '': expected '' @ dec_string expectedStreamIdentifier @ '' detected '' @ dec_string detectedStreamIdentifier)"

definition OffsetMismatch_Pimpl :: "nat \<Rightarrow> nat \<Rightarrow> nat \<Rightarrow> pimpl" where
  "OffsetMismatch_Pimpl detectedBaseOffset expectedBaseOffset filePosition = MetadataMismatchPimpl 3
     (\<lambda>strerror. ''Base offset mismatch near '' @ dec_string filePosition @ '': expected '' @ dec_string expectedBaseOffset @ '' detected '' @ dec_string detectedBaseOffset)"

definition PayloadSizeMismatch_Pimpl :: "nat \<Rightarrow> nat \<Rightarrow> nat \<Rightarrow> pimpl" where
  "PayloadSizeMismatch_Pimpl detectedPayloadSize expectedPayloadSize filePosition = MetadataMismatchPimpl 4
     (\<lambda>strerror. ''Payload size mismatch near '' @ dec_string filePosition @ '': expected '' @ dec_string expectedPayloadSize @ '' detected '' @ dec_string detectedPayloadSize)"

definition FilenameMismatch_Pimpl :: "string \<Rightarrow> string \<Rightarrow> nat \<Rightarrow> pimpl" where
  "FilenameMismatch_Pimpl detectedFilename expectedFilename filePosition = MetadataMismatchPimpl 5
     (\<lambda>strerror. ''Filename mismatch near '' @ dec_string filePosition @ '': expected '' @ expectedFilename @ '' detected '' @ detectedFilename)"

definition FileCreationError_Pimpl :: "string \<Rightarrow> nat \<Rightarrow> pimpl" where
  "FileCreationError_Pimpl detectedFilename filePosition = MetadataMismatchPimpl 6
     (\<lambda>strerror. ''File creation error, near '' @ dec_string filePosition @ '', filename '' @ detectedFilename)"

definition ContainerDataError_Pimpl :: "nat \<Rightarrow> pimpl" where
  "ContainerDataError_Pimpl filePosition = MetadataMismatchPimpl 7
     (\<lambda>strerror. ''Container data error near '' @ dec_string filePosition)"

definition VersionDownlevelStatus_Pimpl :: "byte \<Rightarrow> byte \<Rightarrow> pimpl" where
  "VersionDownlevelStatus_Pimpl discoveredMajorVersion supportedMajorVersion = ErrorPimplBase CONTAINER_VERSION_DOWNLEVEL 8
     (\<lambda>strerror. ''Container version downlevel: found version '' @ [char_of_byte discoveredMajorVersion] @ '' but supports version '' @ [char_of_byte supportedMajorVersion])"

definition HeaderIdentifierInvalid_Pimpl :: "pimpl" where
  "HeaderIdentifierInvalid_Pimpl = HeaderErrorPimpl 9
     (\<lambda>strerror. ''invalid header identifier'')"

definition HeaderVersionInvalid_Pimpl :: "byte \<Rightarrow> byte \<Rightarrow> pimpl" where
  "HeaderVersionInvalid_Pimpl discoveredMajorVersion supportedMajorVersion = HeaderErrorPimpl 10
     (\<lambda>strerror. ''Container version invalid: found version '' @ [char_of_byte discoveredMajorVersion] @ '' but supports version '' @ [char_of_byte supportedMajorVersion])"

definition HeaderCrcError_Pimpl :: "pimpl" where
  "HeaderCrcError_Pimpl = HeaderErrorPimpl 11
     (\<lambda>strerror. ''invalid header CRC'')"

definition ReadSuccessful_Pimpl :: "nat \<Rightarrow> pimpl" where
  "ReadSuccessful_Pimpl bytesRead = FilesystemStatusPimpl 12
     (\<lambda>strerror. ''Read successful, '' @ dec_string bytesRead @ '' transferred'')"

definition WriteSuccessful_Pimpl :: "nat \<Rightarrow> pimpl" where
  "WriteSuccessful_Pimpl bytesWritten = FilesystemStatusPimpl 13
     (\<lambda>strerror. ''Write successful, '' @ dec_string bytesWritten @ '' transferred'')"

definition SeekError_Pimpl :: "nat \<Rightarrow> nat \<Rightarrow> pimpl" where
  "SeekError_Pimpl position containerSize = FilesystemErrorPimpl 14
     (\<lambda>strerror. ''Seek error, '' @ dec_string position @ '' > '' @ dec_string containerSize)"

definition InvalidOpenMode_Pimpl :: "open_mode \<Rightarrow> pimpl" where
  "InvalidOpenMode_Pimpl openMode = FilesystemErrorPimpl 15
     (\<lambda>strerror. ''Invalid open mode '' @ dec_string (openModeCode openMode))"

definition FileContainerNotOpen_Pimpl :: "pimpl" where
  "FileContainerNotOpen_Pimpl = FilesystemErrorPimpl 16
     (\<lambda>strerror. ''Container not open'')"

definition FailedToOpenFile_Pimpl :: "string \<Rightarrow> open_mode \<Rightarrow> int \<Rightarrow> pimpl" where
  "FailedToOpenFile_Pimpl filename openMode errorNumber = FilesystemErrorPimpl 17
     (\<lambda>strerror. ''Failed to open '' @ filename @ '', mode '' @ dec_string (openModeCode openMode) @ '', ('' @ strerror errorNumber @ '')'')"

definition FileCloseError_Pimpl :: "string \<Rightarrow> int \<Rightarrow> pimpl" where
  "FileCloseError_Pimpl filename errorNumber = FilesystemErrorPimpl 18
     (\<lambda>strerror. ''Failed to close '' @ filename @ '', ('' @ strerror errorNumber @ '')'')"

definition FileReadError_Pimpl :: "string \<Rightarrow> nat \<Rightarrow> int \<Rightarrow> pimpl" where
  "FileReadError_Pimpl filename position errorNumber = FilesystemErrorPimpl 19
     (\<lambda>strerror. ''Read error in file \"'' @ filename @ ''\"'' @ '' at or near '' @ dec_string position @ '', ('' @ strerror errorNumber @ '')'')"

definition FileWriteError_Pimpl :: "string \<Rightarrow> nat \<Rightarrow> int \<Rightarrow> pimpl" where
  "FileWriteError_Pimpl filename position errorNumber = FilesystemErrorPimpl 20
     (\<lambda>strerror. ''Write error in file \"'' @ filename @ ''\"'' @ '' at or near '' @ dec_string position @ '', ('' @ strerror errorNumber @ '')'')"

definition FileTruncateError_Pimpl :: "string \<Rightarrow> nat \<Rightarrow> int \<Rightarrow> pimpl" where
  "FileTruncateError_Pimpl filename position errorNumber = FilesystemErrorPimpl 21
     (\<lambda>strerror. ''Write error in file \"'' @ filename @ ''\"'' @ '' at or near '' @ dec_string position @ '', ('' @ strerror errorNumber @ '')'')"

definition FileFlushError_Pimpl :: "string \<Rightarrow> int \<Rightarrow> pimpl" where
  "FileFlushError_Pimpl filename errorNumber = FilesystemErrorPimpl 22
     (\<lambda>strerror. ''Flush error in file \"'' @ filename @ ''\"'' @ '' ('' @ strerror errorNumber @ '')'')"

lemmas pimpl_defs =
  StreamingReadError_Pimpl_def ContainerUnavailable_Pimpl_def StreamIdentifierMismatch_Pimpl_def OffsetMismatch_Pimpl_def PayloadSizeMismatch_Pimpl_def FilenameMismatch_Pimpl_def FileCreationError_Pimpl_def ContainerDataError_Pimpl_def VersionDownlevelStatus_Pimpl_def HeaderIdentifierInvalid_Pimpl_def HeaderVersionInvalid_Pimpl_def HeaderCrcError_Pimpl_def ReadSuccessful_Pimpl_def WriteSuccessful_Pimpl_def SeekError_Pimpl_def InvalidOpenMode_Pimpl_def FileContainerNotOpen_Pimpl_def FailedToOpenFile_Pimpl_def FileCloseError_Pimpl_def FileReadError_Pimpl_def FileWriteError_Pimpl_def FileTruncateError_Pimpl_def FileFlushError_Pimpl_def

subsection \<open>Dispatch on the dynamic type\<close>

fun impl :: "status \<Rightarrow> pimpl option" where
  "impl NoStatus = None"
| "impl StreamingReadError = Some StreamingReadError_Pimpl"
| "impl ContainerUnavailable = Some ContainerUnavailable_Pimpl"
| "impl (StreamIdentifierMismatch a b c) = Some (StreamIdentifierMismatch_Pimpl a b c)"
| "impl (OffsetMismatch a b c) = Some (OffsetMismatch_Pimpl a b c)"
| "impl (PayloadSizeMismatch a b c) = Some (PayloadSizeMismatch_Pimpl a b c)"
| "impl (FilenameMismatch a b c) = Some (FilenameMismatch_Pimpl a b c)"
| "impl (FileCreationError a b) = Some (FileCreationError_Pimpl a b)"
| "impl (ContainerDataError a) = Some (ContainerDataError_Pimpl a)"
| "impl (VersionDownlevelStatus a b) = Some (VersionDownlevelStatus_Pimpl a b)"
| "impl HeaderIdentifierInvalid = Some HeaderIdentifierInvalid_Pimpl"
| "impl (HeaderVersionInvalid a b) = Some (HeaderVersionInvalid_Pimpl a b)"
| "impl HeaderCrcError = Some HeaderCrcError_Pimpl"
| "impl (ReadSuccessful a) = Some (ReadSuccessful_Pimpl a)"
| "impl (WriteSuccessful a) = Some (WriteSuccessful_Pimpl a)"
| "impl (SeekError a b) = Some (SeekError_Pimpl a b)"
| "impl (InvalidOpenMode a) = Some (InvalidOpenMode_Pimpl a)"
| "impl FileContainerNotOpen = Some FileContainerNotOpen_Pimpl"
| "impl (FailedToOpenFile a b c) = Some (FailedToOpenFile_Pimpl a b c)"
| "impl (FileCloseError a b) = Some (FileCloseError_Pimpl a b)"
| "impl (FileReadError a b c) = Some (FileReadError_Pimpl a b c)"
| "impl (FileWriteError a b c) = Some (FileWriteError_Pimpl a b c)"
| "impl (FileTruncateError a b c) = Some (FileTruncateError_Pimpl a b c)"
| "impl (FileFlushError a b) = Some (FileFlushError_Pimpl a b)"
| "impl (ApplicationStatus c e d i r) =
     Some \<lparr>vStatusClass = c, vErrorCode = e, vDescription = (\<lambda>strerror. d), vInformationAvailable = i, vRecoverable = r\<rparr>"

definition statusClass :: "status \<Rightarrow> status_class" where
  "statusClass s = (case impl s of Some p \<Rightarrow> vStatusClass p | None \<Rightarrow> NO_STATUS)"

definition errorCode :: "status \<Rightarrow> int" where
  "errorCode s = (case impl s of Some p \<Rightarrow> vErrorCode p | None \<Rightarrow> 0)"

definition description :: "(int \<Rightarrow> string) \<Rightarrow> status \<Rightarrow> string" where
  "description strerror s = (case impl s of Some p \<Rightarrow> vDescription p strerror | None \<Rightarrow> [])"

definition informationAvailable :: "status \<Rightarrow> bool" where
  "informationAvailable s = (case impl s of Some p \<Rightarrow> vInformationAvailable p | None \<Rightarrow> False)"

definition recoverable :: "status \<Rightarrow> bool" where
  "recoverable s = (case impl s of Some p \<Rightarrow> vRecoverable p | None \<Rightarrow> True)"

definition success :: "status \<Rightarrow> bool" where
  "success s = (case impl s of
     Some p \<Rightarrow> informationAvailable s = False \<or> recoverable s = True
   | None \<Rightarrow> True)"

definition failure :: "status \<Rightarrow> bool" where
  "failure s = (case impl s of Some p \<Rightarrow> \<not> recoverable s | None \<Rightarrow> False)"

text \<open>The conversion \<open>operator bool\<close>.\<close>

definition has_info :: "status \<Rightarrow> bool" where
  "has_info s = informationAvailable s"

subsection \<open>Accessors of the derived classes\<close>

definition StreamIdentifierMismatch_detectedStreamIdentifier :: "status \<Rightarrow> nat option" where
  "StreamIdentifierMismatch_detectedStreamIdentifier s = (case s of StreamIdentifierMismatch x _ _ \<Rightarrow> Some x | _ \<Rightarrow> None)"

definition StreamIdentifierMismatch_expectedStreamIdentifier :: "status \<Rightarrow> nat option" where
  "StreamIdentifierMismatch_expectedStreamIdentifier s = (case s of StreamIdentifierMismatch _ x _ \<Rightarrow> Some x | _ \<Rightarrow> None)"

definition OffsetMismatch_detectedBaseOffset :: "status \<Rightarrow> nat option" where
  "OffsetMismatch_detectedBaseOffset s = (case s of OffsetMismatch x _ _ \<Rightarrow> Some x | _ \<Rightarrow> None)"

definition OffsetMismatch_expectedBaseOffset :: "status \<Rightarrow> nat option" where
  "OffsetMismatch_expectedBaseOffset s = (case s of OffsetMismatch _ x _ \<Rightarrow> Some x | _ \<Rightarrow> None)"

definition PayloadSizeMismatch_detectedPayloadSize :: "status \<Rightarrow> nat option" where
  "PayloadSizeMismatch_detectedPayloadSize s = (case s of PayloadSizeMismatch x _ _ \<Rightarrow> Some x | _ \<Rightarrow> None)"

definition PayloadSizeMismatch_expectedPayloadSize :: "status \<Rightarrow> nat option" where
  "PayloadSizeMismatch_expectedPayloadSize s = (case s of PayloadSizeMismatch _ x _ \<Rightarrow> Some x | _ \<Rightarrow> None)"

definition FilenameMismatch_detectedFilename :: "status \<Rightarrow> string option" where
  "FilenameMismatch_detectedFilename s = (case s of FilenameMismatch x _ _ \<Rightarrow> Some x | _ \<Rightarrow> None)"

definition FilenameMismatch_expectedFilename :: "status \<Rightarrow> string option" where
  "FilenameMismatch_expectedFilename s = (case s of FilenameMismatch _ x _ \<Rightarrow> Some x | _ \<Rightarrow> None)"

definition FileCreationError_detectedFilename :: "status \<Rightarrow> string option" where
  "FileCreationError_detectedFilename s = (case s of FileCreationError x _ \<Rightarrow> Some x | _ \<Rightarrow> None)"

definition VersionDownlevelStatus_discoveredMajorVersion :: "status \<Rightarrow> byte option" where
  "VersionDownlevelStatus_discoveredMajorVersion s = (case s of VersionDownlevelStatus x _ \<Rightarrow> Some x | _ \<Rightarrow> None)"

definition VersionDownlevelStatus_supportedMajorVersion :: "status \<Rightarrow> byte option" where
  "VersionDownlevelStatus_supportedMajorVersion s = (case s of VersionDownlevelStatus _ x \<Rightarrow> Some x | _ \<Rightarrow> None)"

definition HeaderVersionInvalid_discoveredMajorVersion :: "status \<Rightarrow> byte option" where
  "HeaderVersionInvalid_discoveredMajorVersion s = (case s of HeaderVersionInvalid x _ \<Rightarrow> Some x | _ \<Rightarrow> None)"

definition HeaderVersionInvalid_supportedMajorVersion :: "status \<Rightarrow> byte option" where
  "HeaderVersionInvalid_supportedMajorVersion s = (case s of HeaderVersionInvalid _ x \<Rightarrow> Some x | _ \<Rightarrow> None)"

definition ReadSuccessful_bytesRead :: "status \<Rightarrow> nat option" where
  "ReadSuccessful_bytesRead s = (case s of ReadSuccessful x \<Rightarrow> Some x | _ \<Rightarrow> None)"

definition WriteSuccessful_bytesWritten :: "status \<Rightarrow> nat option" where
  "WriteSuccessful_bytesWritten s = (case s of WriteSuccessful x \<Rightarrow> Some x | _ \<Rightarrow> None)"

definition SeekError_position :: "status \<Rightarrow> nat option" where
  "SeekError_position s = (case s of SeekError x _ \<Rightarrow> Some x | _ \<Rightarrow> None)"

definition SeekError_containerSize :: "status \<Rightarrow> nat option" where
  "SeekError_containerSize s = (case s of SeekError _ x \<Rightarrow> Some x | _ \<Rightarrow> None)"

definition InvalidOpenMode_openMode :: "status \<Rightarrow> open_mode option" where
  "InvalidOpenMode_openMode s = (case s of InvalidOpenMode x \<Rightarrow> Some x | _ \<Rightarrow> None)"

definition FailedToOpenFile_filename :: "status \<Rightarrow> string option" where
  "FailedToOpenFile_filename s = (case s of FailedToOpenFile x _ _ \<Rightarrow> Some x | _ \<Rightarrow> None)"

definition FailedToOpenFile_openMode :: "status \<Rightarrow> open_mode option" where
  "FailedToOpenFile_openMode s = (case s of FailedToOpenFile _ x _ \<Rightarrow> Some x | _ \<Rightarrow> None)"

definition FailedToOpenFile_errorNumber :: "status \<Rightarrow> int option" where
  "FailedToOpenFile_errorNumber s = (case s of FailedToOpenFile _ _ x \<Rightarrow> Some x | _ \<Rightarrow> None)"

definition FileCloseError_filename :: "status \<Rightarrow> string option" where
  "FileCloseError_filename s = (case s of FileCloseError x _ \<Rightarrow> Some x | _ \<Rightarrow> None)"

definition FileCloseError_errorNumber :: "status \<Rightarrow> int option" where
  "FileCloseError_errorNumber s = (case s of FileCloseError _ x \<Rightarrow> Some x | _ \<Rightarrow> None)"

definition FileReadError_filename :: "status \<Rightarrow> string option" where
  "FileReadError_filename s = (case s of FileReadError x _ _ \<Rightarrow> Some x | _ \<Rightarrow> None)"

definition FileReadError_position :: "status \<Rightarrow> nat option" where
  "FileReadError_position s = (case s of FileReadError _ x _ \<Rightarrow> Some x | _ \<Rightarrow> None)"

definition FileReadError_errorNumber :: "status \<Rightarrow> int option" where
  "FileReadError_errorNumber s = (case s of FileReadError _ _ x \<Rightarrow> Some x | _ \<Rightarrow> None)"

definition FileWriteError_filename :: "status \<Rightarrow> string option" where
  "FileWriteError_filename s = (case s of FileWriteError x _ _ \<Rightarrow> Some x | _ \<Rightarrow> None)"

definition FileWriteError_position :: "status \<Rightarrow> nat option" where
  "FileWriteError_position s = (case s of FileWriteError _ x _ \<Rightarrow> Some x | _ \<Rightarrow> None)"

definition FileWriteError_errorNumber :: "status \<Rightarrow> int option" where
  "FileWriteError_errorNumber s = (case s of FileWriteError _ _ x \<Rightarrow> Some x | _ \<Rightarrow> None)"

definition FileTruncateError_filename :: "status \<Rightarrow> string option" where
  "FileTruncateError_filename s = (case s of FileTruncateError x _ _ \<Rightarrow> Some x | _ \<Rightarrow> None)"

definition FileTruncateError_position :: "status \<Rightarrow> nat option" where
  "FileTruncateError_position s = (case s of FileTruncateError _ x _ \<Rightarrow> Some x | _ \<Rightarrow> None)"

definition FileTruncateError_errorNumber :: "status \<Rightarrow> int option" where
  "FileTruncateError_errorNumber s = (case s of FileTruncateError _ _ x \<Rightarrow> Some x | _ \<Rightarrow> None)"

definition FileFlushError_filename :: "status \<Rightarrow> string option" where
  "FileFlushError_filename s = (case s of FileFlushError x _ \<Rightarrow> Some x | _ \<Rightarrow> None)"

definition FileFlushError_errorNumber :: "status \<Rightarrow> int option" where
  "FileFlushError_errorNumber s = (case s of FileFlushError _ x \<Rightarrow> Some x | _ \<Rightarrow> None)"

fun MetadataMismatchError_filePosition :: "status \<Rightarrow> nat option" where
  "MetadataMismatchError_filePosition (StreamIdentifierMismatch _ _ p) = Some p"
| "MetadataMismatchError_filePosition (OffsetMismatch _ _ p) = Some p"
| "MetadataMismatchError_filePosition (PayloadSizeMismatch _ _ p) = Some p"
| "MetadataMismatchError_filePosition (FilenameMismatch _ _ p) = Some p"
| "MetadataMismatchError_filePosition (FileCreationError _ p) = Some p"
| "MetadataMismatchError_filePosition (ContainerDataError p) = Some p"
| "MetadataMismatchError_filePosition _ = None"

lemmas status_accessor_defs =
  ReadSuccessful_bytesRead_def WriteSuccessful_bytesWritten_def

subsection \<open>Classification\<close>

lemmas status_defs =
  has_info_def success_def failure_def recoverable_def informationAvailable_def statusClass_def errorCode_def

lemma has_info_simps [simp]:
  "\<not> has_info NoStatus"
  "has_info StreamingReadError" "has_info ContainerUnavailable" "has_info (StreamIdentifierMismatch a b c)"
  "has_info (OffsetMismatch a b c)" "has_info (PayloadSizeMismatch a b c)" "has_info (FilenameMismatch f g c)"
  "has_info (FileCreationError f a)" "has_info (ContainerDataError a)" "has_info (VersionDownlevelStatus v w)"
  "has_info HeaderIdentifierInvalid" "has_info (HeaderVersionInvalid v w)" "has_info HeaderCrcError"
  "has_info (ReadSuccessful a)" "has_info (WriteSuccessful a)" "has_info (SeekError a b)"
  "has_info (InvalidOpenMode m)" "has_info FileContainerNotOpen" "has_info (FailedToOpenFile f m e)"
  "has_info (FileCloseError f e)" "has_info (FileReadError f a e)" "has_info (FileWriteError f a e)"
  "has_info (FileTruncateError f a e)" "has_info (FileFlushError f e)"
  "has_info (ApplicationStatus k e f i r) = i"
  by (simp_all add: status_defs pimpl_defs pimpl_base_defs)

lemma has_info_NoStatus: "has_info s \<Longrightarrow> s \<noteq> NoStatus"
  by auto

lemma has_info_library: "library_status s \<Longrightarrow> has_info s \<longleftrightarrow> s \<noteq> NoStatus"
  by (cases s) simp_all

lemma success_simps [simp]:
  "success NoStatus" "success (ReadSuccessful n)" "success (WriteSuccessful n)"
  by (simp_all add: status_defs pimpl_defs pimpl_base_defs)

lemma success_cases:
  "library_status s \<Longrightarrow> success s \<longleftrightarrow> s = NoStatus \<or> (\<exists>n. s = ReadSuccessful n) \<or> (\<exists>n. s = WriteSuccessful n)"
  by (cases s) (simp_all add: status_defs pimpl_defs pimpl_base_defs)

lemma bytes_accessors [simp]:
  "ReadSuccessful_bytesRead (ReadSuccessful n) = Some n"
  "WriteSuccessful_bytesWritten (WriteSuccessful n) = Some n"
  "ReadSuccessful_bytesRead NoStatus = None"
  "WriteSuccessful_bytesWritten NoStatus = None"
  by (simp_all add: status_accessor_defs)

text \<open>
  C28. What a caller learns from a \<open>Status\<close>, whatever class the object has, one of the library or
  one an application derives: \<open>failure\<close> is the opposite of \<open>recoverable\<close>, \<open>success\<close> holds when there
  is no information or the condition is recoverable, so a status with information is either a
  success or a failure, and the conversion to \<open>bool\<close> (the idiom \<open>if (!status)\<close>) tells whether there is
  information. For the classes of the library more is true: exactly the successes are
  recoverable, they are no status at all or a report of transferred bytes, the status class
  tells which, and only \<open>NoStatus\<close> has no information, so a byte count still counts as a status.
\<close>
theorem status_classification:
  "failure s = (\<not> recoverable s) \<and> success s = (\<not> has_info s \<or> recoverable s) \<and>
   (has_info s \<longrightarrow> success s = (\<not> failure s)) \<and>
   (library_status s \<longrightarrow>
     recoverable s = success s \<and> failure s = (\<not> success s) \<and>
     (success s \<longleftrightarrow> statusClass s \<in> {NO_STATUS, FILESYSTEM_STATUS}) \<and>
     (statusClass s = FILESYSTEM_STATUS \<longleftrightarrow>
        ReadSuccessful_bytesRead s \<noteq> None \<or> WriteSuccessful_bytesWritten s \<noteq> None) \<and>
     (has_info s \<longleftrightarrow> s \<noteq> NoStatus) \<and> (has_info s \<longleftrightarrow> statusClass s \<noteq> NO_STATUS) \<and>
     (statusClass s = NO_STATUS \<longleftrightarrow> errorCode s = 0))"
  by (cases s) (simp_all add: status_defs status_accessor_defs pimpl_defs pimpl_base_defs)

theorem status_classification_witness:
  "failure (SeekError 9 3) \<and> \<not> success (SeekError 9 3) \<and> recoverable (ReadSuccessful 4) \<and> has_info (ReadSuccessful 4) \<and>
   (let s = ApplicationStatus FILESYSTEM_ERROR 1 ''Error description'' True True in
      has_info s \<and> recoverable s \<and> success s \<and> \<not> failure s)"
  using status_classification [of "SeekError 9 3"] status_classification [of "ReadSuccessful 4"]
    status_classification [of "ApplicationStatus FILESYSTEM_ERROR 1 ''Error description'' True True"]
  by (simp add: statusClass_def recoverable_def Let_def pimpl_defs pimpl_base_defs)

text \<open>The dynamic type of a status, as one number per derived class.\<close>

fun status_tag :: "status \<Rightarrow> nat" where
  "status_tag NoStatus = 0"
| "status_tag StreamingReadError = 1"
| "status_tag ContainerUnavailable = 2"
| "status_tag (StreamIdentifierMismatch _ _ _) = 3"
| "status_tag (OffsetMismatch _ _ _) = 4"
| "status_tag (PayloadSizeMismatch _ _ _) = 5"
| "status_tag (FilenameMismatch _ _ _) = 6"
| "status_tag (FileCreationError _ _) = 7"
| "status_tag (ContainerDataError _) = 8"
| "status_tag (VersionDownlevelStatus _ _) = 9"
| "status_tag HeaderIdentifierInvalid = 10"
| "status_tag (HeaderVersionInvalid _ _) = 11"
| "status_tag HeaderCrcError = 12"
| "status_tag (ReadSuccessful _) = 13"
| "status_tag (WriteSuccessful _) = 14"
| "status_tag (SeekError _ _) = 15"
| "status_tag (InvalidOpenMode _) = 16"
| "status_tag FileContainerNotOpen = 17"
| "status_tag (FailedToOpenFile _ _ _) = 18"
| "status_tag (FileCloseError _ _) = 19"
| "status_tag (FileReadError _ _ _) = 20"
| "status_tag (FileWriteError _ _ _) = 21"
| "status_tag (FileTruncateError _ _ _) = 22"
| "status_tag (FileFlushError _ _) = 23"
| "status_tag (ApplicationStatus _ _ _ _ _) = 24"

text \<open>
  C29. Status class and error code together identify the concrete status class: two statuses of
  classes of the library that report the same class and the same code are instances of the same C++ class. (The code
  alone does not: \<open>StreamingReadError\<close> and \<open>ContainerUnavailable\<close> both report 1.)
\<close>
theorem class_and_code_identify:
  assumes "library_status s" "library_status t" "statusClass s = statusClass t" "errorCode s = errorCode t"
  shows "status_tag s = status_tag t"
proof -
  have "status_tag s = (if statusClass s = STREAMING_READ_ERROR then 1
      else if statusClass s = NO_STATUS then 0 else nat (errorCode s) + 1)" if "library_status s" for s
    using that by (cases s) (simp_all add: statusClass_def errorCode_def pimpl_defs pimpl_base_defs)
  with assms show ?thesis by metis
qed

theorem class_and_code_identify_witness:
  "status_tag (SeekError 10 4) = status_tag (SeekError 7 2) \<and>
   errorCode StreamingReadError = errorCode ContainerUnavailable \<and>
   status_tag StreamingReadError \<noteq> status_tag ContainerUnavailable"
proof -
  have "library_status (SeekError 10 4)" "library_status (SeekError 7 2)"
    "statusClass (SeekError 10 4) = statusClass (SeekError 7 2)"
    "errorCode (SeekError 10 4) = errorCode (SeekError 7 2)"
    by (simp_all add: statusClass_def errorCode_def pimpl_defs pimpl_base_defs)
  from class_and_code_identify [OF this] show ?thesis
    by (simp add: errorCode_def pimpl_defs pimpl_base_defs)
qed

end
