(* ===== verification/Storage.thy ===== *)
theory Storage
  imports Status
begin

text \<open>
  The interface between the container logic and the medium that holds its bytes: the virtual
  functions \<open>size\<close>, \<open>setPosition\<close>, \<open>setPositionLast\<close>, \<open>position\<close>, \<open>read\<close>, \<open>write\<close>,
  \<open>supportsTruncation\<close>, \<open>truncate\<close> and \<open>flush\<close> of \<open>Container::Container\<close>
  (\<open>container_container.h\<close>), which \<open>ContainerImpl\<close> reaches through the forwarding class
  \<open>Container::Private\<close> (\<open>container_container_private.cpp\<close>). An object of a derived class
  is a table of functions over its state \<open>'d\<close>. \<open>read\<close> returns the bytes it stored into the
  caller's buffer, which may be fewer than were asked for.

  The locale \<open>storage\<close> is the contract of a medium without I/O faults: a byte sequence with
  a cursor. The in-memory container satisfies it, and so does the file container while no
  call into the operating system fails. \<open>truncating_storage\<close> adds truncation at the cursor,
  with the size following, which only the in-memory container fulfils.
\<close>

record 'd container_ops =
  op_size :: "'d \<Rightarrow> int option"
  op_setPosition :: "nat \<Rightarrow> 'd \<Rightarrow> (status \<times> 'd) option"
  op_setPositionLast :: "'d \<Rightarrow> (status \<times> 'd) option"
  op_position :: "'d \<Rightarrow> nat"
  op_read :: "nat \<Rightarrow> 'd \<Rightarrow> (status \<times> byte list \<times> 'd) option"
  op_write :: "byte list \<Rightarrow> 'd \<Rightarrow> (status \<times> 'd) option"
  op_supportsTruncation :: bool
  op_truncate :: "'d \<Rightarrow> (status \<times> 'd) option"
  op_flush :: "'d \<Rightarrow> (status \<times> 'd) option"

text \<open>The size up to which the positions and sizes of the code are exact.\<close>

definition storage_limit :: nat where
  "storage_limit = 4294967296"

locale storage =
  fixes K :: "'d container_ops"
    and ok :: "'d \<Rightarrow> bool"
    and content :: "'d \<Rightarrow> byte list"
    and cursor :: "'d \<Rightarrow> nat"
  assumes cursor_law: "ok d \<Longrightarrow> cursor d \<le> length (content d)"
    and size_law: "ok d \<Longrightarrow> length (content d) \<le> storage_limit \<Longrightarrow> op_size K d = Some (int (length (content d)))"
    and position_law: "ok d \<Longrightarrow> op_position K d = cursor d"
    and setPosition_law: "ok d \<Longrightarrow> p \<le> length (content d) \<Longrightarrow> length (content d) \<le> storage_limit \<Longrightarrow>
      \<exists>d'. op_setPosition K p d = Some (NoStatus, d') \<and> ok d' \<and> content d' = content d \<and> cursor d' = p"
    and seek_law: "ok d \<Longrightarrow> length (content d) < p \<Longrightarrow> length (content d) \<le> storage_limit \<Longrightarrow>
      op_setPosition K p d = Some (SeekError p (length (content d)), d)"
    and setPositionLast_law: "ok d \<Longrightarrow>
      \<exists>d'. op_setPositionLast K d = Some (NoStatus, d') \<and> ok d' \<and> content d' = content d \<and>
        cursor d' = length (content d)"
    and read_law: "ok d \<Longrightarrow> length (content d) \<le> storage_limit \<Longrightarrow> n < 4294967296 \<Longrightarrow>
      m = min n (length (content d) - cursor d) \<Longrightarrow>
      \<exists>d'. op_read K n d = Some (ReadSuccessful m, take m (drop (cursor d) (content d)), d') \<and>
        ok d' \<and> content d' = content d \<and> cursor d' = cursor d + m"
    and write_law: "ok d \<Longrightarrow> cursor d + length bs \<le> storage_limit \<Longrightarrow> length (content d) \<le> storage_limit \<Longrightarrow>
      length bs < 4294967296 \<Longrightarrow>
      \<exists>d'. op_write K bs d = Some (WriteSuccessful (length bs), d') \<and> ok d' \<and>
        content d' = overlay (content d) (cursor d) bs \<and> cursor d' = cursor d + length bs"
    and flush_law: "ok d \<Longrightarrow>
      \<exists>d'. op_flush K d = Some (NoStatus, d') \<and> ok d' \<and> content d' = content d \<and> cursor d' = cursor d"
begin

text \<open>Seek to a position and write there, the way every chunk is stored.\<close>

lemma write_at_law:
  assumes "ok d" "p \<le> length (content d)" "p + length bs \<le> storage_limit"
    and "length (content d) \<le> storage_limit" "length bs < 4294967296"
  obtains d1 d2 where "op_setPosition K p d = Some (NoStatus, d1)"
    "op_write K bs d1 = Some (WriteSuccessful (length bs), d2)" "ok d2"
    "content d2 = overlay (content d) p bs" "cursor d2 = p + length bs"
proof -
  from setPosition_law [OF assms(1,2,4)] obtain d1 where
    d1: "op_setPosition K p d = Some (NoStatus, d1)" "ok d1" "content d1 = content d" "cursor d1 = p" by blast
  from write_law [OF d1(2), of bs] assms d1 obtain d2 where
    "op_write K bs d1 = Some (WriteSuccessful (length bs), d2)" "ok d2"
    "content d2 = overlay (content d) p bs" "cursor d2 = p + length bs" by auto
  with d1 that show ?thesis by blast
qed

text \<open>Seek to a position and read \<open>n\<close> bytes that are there.\<close>

lemma read_at_law:
  assumes "ok d" "p + n \<le> length (content d)" "length (content d) \<le> storage_limit" "n < 4294967296"
  obtains d1 d2 where "op_setPosition K p d = Some (NoStatus, d1)"
    "op_read K n d1 = Some (ReadSuccessful n, take n (drop p (content d)), d2)" "ok d2"
    "content d2 = content d" "cursor d2 = p + n"
proof -
  from setPosition_law [OF assms(1) _ assms(3), of p] assms(2) obtain d1 where
    d1: "op_setPosition K p d = Some (NoStatus, d1)" "ok d1" "content d1 = content d" "cursor d1 = p" by auto
  from read_law [OF d1(2), of n n] assms d1 obtain d2 where
    "op_read K n d1 = Some (ReadSuccessful n, take n (drop p (content d)), d2)" "ok d2"
    "content d2 = content d" "cursor d2 = p + n" by auto
  with d1 that show ?thesis by blast
qed

text \<open>What is written at a position is read back from it.\<close>

lemma write_read_law:
  assumes "ok d" "p \<le> length (content d)" "p + length bs \<le> storage_limit"
    and "length (content d) \<le> storage_limit" "length bs < 4294967296"
  shows "\<exists>d1 d2 d3 d4. op_setPosition K p d = Some (NoStatus, d1) \<and>
    op_write K bs d1 = Some (WriteSuccessful (length bs), d2) \<and>
    op_setPosition K p d2 = Some (NoStatus, d3) \<and>
    op_read K (length bs) d3 = Some (ReadSuccessful (length bs), bs, d4) \<and> content d4 = overlay (content d) p bs"
proof -
  from write_at_law [OF assms] obtain d1 d2 where
    w: "op_setPosition K p d = Some (NoStatus, d1)" "op_write K bs d1 = Some (WriteSuccessful (length bs), d2)"
      "ok d2" "content d2 = overlay (content d) p bs" .
  have len: "p + length bs \<le> length (content d2)" "length (content d2) \<le> storage_limit"
    using assms by (simp_all add: w length_overlay)
  have "take (length bs) (drop p (content d2)) = bs"
    using assms(2) by (simp add: w take_drop_overlay)
  with read_at_law [OF w(3) len assms(5)] w show ?thesis by metis
qed

end

text \<open>A medium that can also be cut at the cursor.\<close>

locale truncating_storage = storage K ok content cursor
  for K :: "'d container_ops" and ok :: "'d \<Rightarrow> bool" and content :: "'d \<Rightarrow> byte list" and cursor :: "'d \<Rightarrow> nat" +
  assumes supports_law: "op_supportsTruncation K"
    and truncate_law: "ok d \<Longrightarrow> length (content d) \<le> storage_limit \<Longrightarrow>
      \<exists>d'. op_truncate K d = Some (NoStatus, d') \<and> ok d' \<and> content d' = take (cursor d) (content d) \<and>
        cursor d' = cursor d"
begin

text \<open>Seeking and cutting leaves exactly the bytes before the position.\<close>

lemma truncate_at_law:
  assumes "ok d" "p \<le> length (content d)" "length (content d) \<le> storage_limit"
  obtains d1 d2 where "op_setPosition K p d = Some (NoStatus, d1)" "op_truncate K d1 = Some (NoStatus, d2)"
    "ok d2" "content d2 = take p (content d)" "op_size K d2 = Some (int p)"
proof -
  from setPosition_law [OF assms] obtain d1 where
    d1: "op_setPosition K p d = Some (NoStatus, d1)" "ok d1" "content d1 = content d" "cursor d1 = p" by blast
  with truncate_law [OF d1(2)] assms(3) obtain d2 where
    d2: "op_truncate K d1 = Some (NoStatus, d2)" "ok d2" "content d2 = take p (content d)" by auto
  with size_law [OF d2(2)] assms(2,3) have "op_size K d2 = Some (int p)" by simp
  with d1 d2 that show ?thesis by blast
qed

end

end
