(* ===== verification/Memory_Container.thy ===== *)
theory Memory_Container
  imports Storage
begin

text \<open>
  \<open>MemoryContainer::Private\<close> (\<open>container_memory_container_private.cpp\<close>): a container in a
  \<open>std::vector\<close> of bytes shared with the application. The shared pointer to the vector is
  null until \<open>setBuffer\<close> is called.
\<close>

record memory_container =
  memoryBuffer :: "byte list option"
  mcCurrentPosition :: nat

definition MemoryContainer :: memory_container where
  "MemoryContainer = \<lparr>memoryBuffer = None, mcCurrentPosition = 0\<rparr>"

definition mc_setBuffer :: "byte list \<Rightarrow> memory_container \<Rightarrow> memory_container" where
  "mc_setBuffer newBuffer mc = mc\<lparr>memoryBuffer := Some newBuffer, mcCurrentPosition := 0\<rparr>"

definition mc_buffer :: "memory_container \<Rightarrow> byte list option" where
  "mc_buffer mc = memoryBuffer mc"

text \<open>Without a buffer the functions below dereference the null pointer, which is \<open>None\<close>.\<close>

definition mc_size :: "memory_container \<Rightarrow> int option" where
  "mc_size mc = map_option (\<lambda>b. int (length b)) (memoryBuffer mc)"

definition mc_setPosition :: "nat \<Rightarrow> memory_container \<Rightarrow> (status \<times> memory_container) option" where
  "mc_setPosition newOffset mc = do {
     b \<leftarrow> memoryBuffer mc;
     if newOffset \<le> length b then Some (NoStatus, mc\<lparr>mcCurrentPosition := newOffset\<rparr>)
     else Some (SeekError newOffset (length b), mc)
   }"

definition mc_setPositionLast :: "memory_container \<Rightarrow> (status \<times> memory_container) option" where
  "mc_setPositionLast mc = do {
     b \<leftarrow> memoryBuffer mc;
     Some (NoStatus, mc\<lparr>mcCurrentPosition := length b\<rparr>)
   }"

definition mc_position :: "memory_container \<Rightarrow> nat" where
  "mc_position mc = mcCurrentPosition mc"

definition mc_read :: "nat \<Rightarrow> memory_container \<Rightarrow> (status \<times> byte list \<times> memory_container) option" where
  "mc_read desiredCount mc = do {
     b \<leftarrow> memoryBuffer mc;
     let maximumLength = sub64 (length b) (mcCurrentPosition mc);
     let bytesToCopy = (if desiredCount < maximumLength then desiredCount else u32 maximumLength);
     assertion (mcCurrentPosition mc + bytesToCopy \<le> length b);
     Some (ReadSuccessful bytesToCopy, take bytesToCopy (drop (mcCurrentPosition mc) b),
       mc\<lparr>mcCurrentPosition := u64 (mcCurrentPosition mc + bytesToCopy)\<rparr>)
   }"

definition mc_write :: "byte list \<Rightarrow> memory_container \<Rightarrow> (status \<times> memory_container) option" where
  "mc_write buffer mc = do {
     b \<leftarrow> memoryBuffer mc;
     let remainingInBuffer = sub64 (length b) (mcCurrentPosition mc);
     let bytesWritten = length buffer;
     let numberToOverwrite =
       (if remainingInBuffer > 0 then
          if length buffer < remainingInBuffer then length buffer else u32 remainingInBuffer
        else 0);
     assertion (mcCurrentPosition mc + numberToOverwrite \<le> length b);
     let b = overlay b (mcCurrentPosition mc) (take numberToOverwrite buffer);
     let b = b @ drop numberToOverwrite buffer;
     Some (WriteSuccessful bytesWritten,
       mc\<lparr>memoryBuffer := Some b, mcCurrentPosition := u64 (mcCurrentPosition mc + bytesWritten)\<rparr>)
   }"

text \<open>\<open>resize\<close> pads with zeros when the position is past the end.\<close>

definition mc_truncate :: "memory_container \<Rightarrow> (status \<times> memory_container) option" where
  "mc_truncate mc = do {
     b \<leftarrow> memoryBuffer mc;
     let b = take (mcCurrentPosition mc) b @ replicate (mcCurrentPosition mc - length b) 0;
     Some (NoStatus, mc\<lparr>memoryBuffer := Some b\<rparr>)
   }"

definition mc_flush :: "memory_container \<Rightarrow> (status \<times> memory_container) option" where
  "mc_flush mc = Some (NoStatus, mc)"

definition memory_ops :: "memory_container container_ops" where
  "memory_ops =
     \<lparr>op_size = mc_size, op_setPosition = mc_setPosition, op_setPositionLast = mc_setPositionLast,
      op_position = mc_position, op_read = mc_read, op_write = mc_write,
      op_supportsTruncation = True, op_truncate = mc_truncate, op_flush = mc_flush\<rparr>"

subsection \<open>The in-memory container is a storage\<close>

definition mc_ok :: "memory_container \<Rightarrow> bool" where
  "mc_ok mc \<longleftrightarrow> (case memoryBuffer mc of Some b \<Rightarrow> mcCurrentPosition mc \<le> length b | None \<Rightarrow> False)"

definition mc_content :: "memory_container \<Rightarrow> byte list" where
  "mc_content mc = (case memoryBuffer mc of Some b \<Rightarrow> b | None \<Rightarrow> [])"

lemma mc_write_overlay:
  assumes "mc_ok mc" "length (mc_content mc) \<le> storage_limit" "mcCurrentPosition mc + length bs \<le> storage_limit"
    and "length bs < 4294967296"
  shows "mc_write bs mc = Some (WriteSuccessful (length bs),
    mc\<lparr>memoryBuffer := Some (overlay (mc_content mc) (mcCurrentPosition mc) bs),
       mcCurrentPosition := mcCurrentPosition mc + length bs\<rparr>)"
proof -
  obtain b where b: "memoryBuffer mc = Some b" "mcCurrentPosition mc \<le> length b" "mc_content mc = b"
    using assms(1) by (auto simp: mc_ok_def mc_content_def split: option.splits)
  let ?p = "mcCurrentPosition mc" and ?n = "min (length bs) (length b - mcCurrentPosition mc)"
  have r: "sub64 (length b) ?p = length b - ?p" using b assms(2) by (simp add: sub64_id storage_limit_def)
  have "overlay b ?p (take ?n bs) @ drop ?n bs = overlay b ?p bs"
  proof (cases "length bs \<le> length b - ?p")
    case False
    then have "overlay b ?p (take ?n bs) = take ?p b @ take (length b - ?p) bs"
      using b(2) by (simp add: overlay_def min_def)
    with False b(2) show ?thesis by (simp add: overlay_def min_def)
  qed (simp add: min_def)
  note ov = this
  show ?thesis
  proof (cases "length bs < length b - ?p")
    case True
    then have "?p + length bs \<le> length b" "0 < length b - ?p" by simp_all
    then show ?thesis
      using b assms(3) True by (simp add: mc_write_def r Let_def storage_limit_def u64_id)
  next
    case False
    have u: "u32 (length b - ?p) = length b - ?p" using False assms(4) by (intro u32_id) linarith
    have m: "?n = length b - ?p" using False by simp
    have "(if 0 < length b - ?p then length b - ?p else 0) = length b - ?p" by simp
    then show ?thesis
      using b assms(3) False ov
      by (simp only: mc_write_def r Let_def storage_limit_def u m bind.simps if_False) (simp add: u64_id)
  qed
qed

lemma mc_read_prefix:
  assumes "mc_ok mc" "length (mc_content mc) \<le> storage_limit" "n < 4294967296"
  defines "m \<equiv> min n (length (mc_content mc) - mcCurrentPosition mc)"
  shows "mc_read n mc = Some (ReadSuccessful m, take m (drop (mcCurrentPosition mc) (mc_content mc)),
    mc\<lparr>mcCurrentPosition := mcCurrentPosition mc + m\<rparr>)"
proof -
  obtain b where b: "memoryBuffer mc = Some b" "mcCurrentPosition mc \<le> length b" "mc_content mc = b"
    using assms(1) by (auto simp: mc_ok_def mc_content_def split: option.splits)
  let ?p = "mcCurrentPosition mc"
  have r: "sub64 (length b) ?p = length b - ?p" using b assms(2) by (simp add: sub64_id storage_limit_def)
  have k: "(if n < length b - ?p then n else u32 (length b - ?p)) = m"
    using assms(3) b by (auto simp: m_def u32_id)
  have "?p + m \<le> length b" "u64 (?p + m) = ?p + m"
    using b assms(2) by (auto simp: m_def storage_limit_def intro!: u64_id)
  then show ?thesis
    using b by (simp only: mc_read_def r Let_def k bind.simps) simp
qed

interpretation memory: truncating_storage memory_ops mc_ok mc_content mcCurrentPosition
proof unfold_locales
  fix d n m
  assume "mc_ok d" "length (mc_content d) \<le> storage_limit" "n < 4294967296"
    "m = min n (length (mc_content d) - mcCurrentPosition d)"
  then show "\<exists>d'. op_read memory_ops n d = Some (ReadSuccessful m, take m (drop (mcCurrentPosition d) (mc_content d)), d') \<and>
      mc_ok d' \<and> mc_content d' = mc_content d \<and> mcCurrentPosition d' = mcCurrentPosition d + m"
    using mc_read_prefix [of d n] by (auto simp: memory_ops_def mc_ok_def mc_content_def split: option.splits)
next
  fix d :: memory_container and bs :: "byte list"
  assume h: "mc_ok d" "mcCurrentPosition d + length bs \<le> storage_limit" "length (mc_content d) \<le> storage_limit"
    "length bs < 4294967296"
  then show "\<exists>d'. op_write memory_ops bs d = Some (WriteSuccessful (length bs), d') \<and> mc_ok d' \<and>
      mc_content d' = overlay (mc_content d) (mcCurrentPosition d) bs \<and>
      mcCurrentPosition d' = mcCurrentPosition d + length bs"
    using mc_write_overlay [of d bs]
    by (auto simp: memory_ops_def mc_ok_def mc_content_def length_overlay split: option.splits)
qed (auto simp: memory_ops_def mc_ok_def mc_content_def mc_size_def mc_position_def mc_setPosition_def
    mc_setPositionLast_def mc_truncate_def mc_flush_def split: option.splits)

text \<open>
  C40. Bytes written to an in-memory container at any position inside it, or at its end, are
  read back unchanged from there, everything else is preserved, and the container grows by
  exactly what reaches past its end; seeking past the end is refused with a \<open>SeekError\<close>
  naming the size and changes nothing.
\<close>
theorem memory_container_write_read:
  assumes "memoryBuffer mc = Some b" "mcCurrentPosition mc \<le> length b" "p \<le> length b"
    and "length b \<le> storage_limit" "p + length bs \<le> storage_limit" "length bs < 4294967296"
  shows "(\<exists>m1 m2 m3 m4. mc_setPosition p mc = Some (NoStatus, m1) \<and>
      mc_write bs m1 = Some (WriteSuccessful (length bs), m2) \<and>
      mc_setPosition p m2 = Some (NoStatus, m3) \<and>
      mc_read (length bs) m3 = Some (ReadSuccessful (length bs), bs, m4) \<and>
      memoryBuffer m4 = Some (take p b @ bs @ drop (p + length bs) b)) \<and>
    (length b < q \<longrightarrow> mc_setPosition q mc = Some (SeekError q (length b), mc))"
proof -
  have ok: "mc_ok mc" "mc_content mc = b" using assms by (simp_all add: mc_ok_def mc_content_def)
  from memory.write_read_law [OF ok(1), of p bs] assms ok obtain m1 m2 m3 m4 where
    w: "op_setPosition memory_ops p mc = Some (NoStatus, m1)"
    "op_write memory_ops bs m1 = Some (WriteSuccessful (length bs), m2)"
    "op_setPosition memory_ops p m2 = Some (NoStatus, m3)"
    "op_read memory_ops (length bs) m3 = Some (ReadSuccessful (length bs), bs, m4)"
    "mc_content m4 = overlay b p bs" by auto
  have "memoryBuffer m4 = Some (overlay b p bs)"
    using w(4,5) by (cases "memoryBuffer m3")
      (auto simp: memory_ops_def mc_read_def mc_content_def Let_def split: option.splits bind_splits)
  with w assms show ?thesis by (auto simp: memory_ops_def mc_setPosition_def overlay_def)
qed

theorem memory_container_write_read_witness:
  "\<exists>m2. mc_write [7, 8, 9] \<lparr>memoryBuffer = Some [1, 2, 3], mcCurrentPosition = 2\<rparr> = Some (WriteSuccessful 3, m2) \<and>
    (\<exists>m3 m4. mc_setPosition 2 m2 = Some (NoStatus, m3) \<and> mc_read 3 m3 = Some (ReadSuccessful 3, [7, 8, 9], m4) \<and>
      memoryBuffer m4 = Some [1, 2, 7, 8, 9])"
proof -
  let ?mc = "\<lparr>memoryBuffer = Some [1, 2, 3], mcCurrentPosition = 2\<rparr> :: memory_container"
  have "memoryBuffer ?mc = Some [1, 2, 3]" "mcCurrentPosition ?mc \<le> length [1, 2, 3 :: byte]"
    "2 \<le> length [1, 2, 3 :: byte]" "length [1, 2, 3 :: byte] \<le> storage_limit"
    "2 + length [7, 8, 9 :: byte] \<le> storage_limit" "length [7, 8, 9 :: byte] < 4294967296"
    by (simp_all add: storage_limit_def)
  from memory_container_write_read [OF this, of 0] show ?thesis
    by (auto simp: mc_setPosition_def numeral_2_eq_2 numeral_3_eq_3)
qed

end
