(* ===== verification/File_Container.thy ===== *)
theory File_Container
  imports Storage
begin

text \<open>
  \<open>FileContainer::Private\<close> (\<open>container_file_container_private.cpp\<close>, the Linux branch) over
  a model of the C library calls it makes. The file system maps names to contents. A call may
  fail: \<open>faults\<close> gives for each call, by its number, whether it fails, with which \<open>errno\<close>
  and after transferring how many bytes. What the library buffers is written through.
  \<open>freopen\<close> closes its stream even when it fails; the code keeps the pointer, here a handle
  that is no longer open, whose use is undefined (\<open>None\<close>).
\<close>

subsection \<open>The C library\<close>

record stdio_handle =
  hName :: string
  hPosition :: nat
  hEof :: bool
  hWritable :: bool
  hOpen :: bool

record stdio =
  disk :: "string \<Rightarrow> byte list option"
  faults :: "nat \<Rightarrow> (int \<times> nat) option"
  calls :: nat
  errno :: int

definition libc_call :: "stdio \<Rightarrow> nat option \<times> stdio" where
  "libc_call s =
     (case faults s (calls s) of
        None \<Rightarrow> (None, s\<lparr>calls := calls s + 1\<rparr>)
      | Some (e, n) \<Rightarrow> (Some n, s\<lparr>calls := calls s + 1, errno := e\<rparr>))"

definition file_of :: "stdio_handle \<Rightarrow> stdio \<Rightarrow> byte list" where
  "file_of h s = (case disk s (hName h) of Some b \<Rightarrow> b | None \<Rightarrow> [])"

text \<open>\<open>fopen\<close> with the modes \<open>rb\<close>, \<open>r+b\<close> and \<open>w+b\<close>; error 2 is \<open>ENOENT\<close>.\<close>

definition fopen :: "string \<Rightarrow> open_mode \<Rightarrow> stdio \<Rightarrow> stdio_handle option \<times> stdio" where
  "fopen name mode s =
     (case libc_call s of
        (Some _, s) \<Rightarrow> (None, s)
      | (None, s) \<Rightarrow>
          if mode = OVERWRITE then
            (Some \<lparr>hName = name, hPosition = 0, hEof = False, hWritable = True, hOpen = True\<rparr>,
             s\<lparr>disk := (disk s)(name := Some [])\<rparr>)
          else if disk s name = None then (None, s\<lparr>errno := 2\<rparr>)
          else
            (Some \<lparr>hName = name, hPosition = 0, hEof = False, hWritable = (mode \<noteq> READ_ONLY), hOpen = True\<rparr>, s))"

definition fclose :: "stdio_handle \<Rightarrow> stdio \<Rightarrow> bool \<times> stdio" where
  "fclose h s = (case libc_call s of (f, s) \<Rightarrow> (f = None, s))"

datatype whence = SEEK_SET | SEEK_END

definition largeSeek :: "stdio_handle \<Rightarrow> nat \<Rightarrow> whence \<Rightarrow> stdio \<Rightarrow> (bool \<times> stdio_handle \<times> stdio) option" where
  "largeSeek h offset whence s = do {
     assertion (hOpen h);
     Some (case libc_call s of
       (Some _, s) \<Rightarrow> (False, h, s)
     | (None, s) \<Rightarrow>
         (True,
          h\<lparr>hPosition := (if whence = SEEK_SET then offset else length (file_of h s) + offset), hEof := False\<rparr>,
          s))
   }"

text \<open>A failing \<open>ftello\<close> returns -1, which the code converts to an unsigned value.\<close>

definition largeTell :: "stdio_handle \<Rightarrow> stdio \<Rightarrow> (nat \<times> stdio) option" where
  "largeTell h s = do {
     assertion (hOpen h);
     Some (case libc_call s of (Some _, s) \<Rightarrow> (18446744073709551615, s) | (None, s) \<Rightarrow> (hPosition h, s))
   }"

definition fread :: "nat \<Rightarrow> stdio_handle \<Rightarrow> stdio \<Rightarrow> (byte list \<times> stdio_handle \<times> stdio) option" where
  "fread n h s = do {
     assertion (hOpen h);
     Some (case libc_call s of (f, s) \<Rightarrow>
       let bytes = take (case f of Some k \<Rightarrow> min k n | None \<Rightarrow> n) (drop (hPosition h) (file_of h s))
       in (bytes,
           h\<lparr>hPosition := hPosition h + length bytes, hEof := (f = None \<and> length bytes < n)\<rparr>, s))
   }"

definition fwrite :: "byte list \<Rightarrow> stdio_handle \<Rightarrow> stdio \<Rightarrow> (nat \<times> stdio_handle \<times> stdio) option" where
  "fwrite bytes h s = do {
     assertion (hOpen h);
     Some (case libc_call s of (f, s) \<Rightarrow>
       let n = (if hWritable h then (case f of Some k \<Rightarrow> min k (length bytes) | None \<Rightarrow> length bytes) else 0);
           b = file_of h s;
           b = b @ replicate (if n = 0 then 0 else hPosition h - length b) 0;
           b = overlay b (hPosition h) (take n bytes)
       in (n, h\<lparr>hPosition := hPosition h + n\<rparr>, s\<lparr>disk := (disk s)(hName h := Some b)\<rparr>))
   }"

definition fflush :: "stdio_handle \<Rightarrow> stdio \<Rightarrow> (bool \<times> stdio) option" where
  "fflush h s = do { assertion (hOpen h); Some (case libc_call s of (f, s) \<Rightarrow> (f = None, s)) }"

definition ftruncate :: "stdio_handle \<Rightarrow> nat \<Rightarrow> stdio \<Rightarrow> (bool \<times> stdio) option" where
  "ftruncate h n s = do {
     assertion (hOpen h);
     Some (case libc_call s of
       (Some _, s) \<Rightarrow> (False, s)
     | (None, s) \<Rightarrow>
         if hWritable h then
           (True, s\<lparr>disk := (disk s)(hName h :=
             Some (take n (file_of h s) @ replicate (n - length (file_of h s)) 0))\<rparr>)
         else (False, s))
   }"

subsection \<open>The file container\<close>

record file_container =
  currentFilename :: string
  currentOpenMode :: open_mode
  fileHandle :: "stdio_handle option"
  currentFileSize :: nat
  io :: stdio

text \<open>The constructor leaves \<open>currentFileSize\<close> unset.\<close>

definition FileContainer :: "nat \<Rightarrow> stdio \<Rightarrow> file_container" where
  "FileContainer unset s =
     \<lparr>currentFilename = [], currentOpenMode = CLOSED, fileHandle = None, currentFileSize = unset, io = s\<rparr>"

definition fc_close :: "file_container \<Rightarrow> (status \<times> file_container) option" where
  "fc_close fc =
     (case fileHandle fc of
        None \<Rightarrow> Some (NoStatus, fc)
      | Some h \<Rightarrow> do {
          assertion (hOpen h);
          let (result, s) = fclose h (io fc);
          let status = (if result then NoStatus else FileCloseError (currentFilename fc) (errno s));
          Some (status, fc\<lparr>fileHandle := None, currentFilename := [], currentOpenMode := CLOSED, io := s\<rparr>)
        })"

definition fc_open :: "string \<Rightarrow> open_mode \<Rightarrow> file_container \<Rightarrow> (status \<times> file_container) option" where
  "fc_open name mode fc = do {
     (status, fc) \<leftarrow> (if fileHandle fc \<noteq> None then fc_close fc else Some (NoStatus, fc));
     if has_info status then Some (status, fc)
     else if mode = CLOSED then Some (InvalidOpenMode mode, fc)
     else
       (case fopen name mode (io fc) of
          (None, s) \<Rightarrow> Some (FailedToOpenFile name mode (errno s), fc\<lparr>fileHandle := None, io := s\<rparr>)
        | (Some h, s) \<Rightarrow> do {
            let fc = fc\<lparr>fileHandle := Some h, currentFilename := name, currentOpenMode := mode, io := s\<rparr>;
            if mode = OVERWRITE then Some (NoStatus, fc\<lparr>currentFileSize := 0\<rparr>)
            else do {
              (result, h, s) \<leftarrow> largeSeek h 0 SEEK_END s;
              (result, h, s, fileSize) \<leftarrow>
                (if result then do {
                   (fileSize, s) \<leftarrow> largeTell h s;
                   (result, h, s) \<leftarrow> largeSeek h 0 SEEK_SET s;
                   Some (result, h, s, fileSize)
                 }
                 else Some (result, h, s, currentFileSize fc));
              let fc = fc\<lparr>fileHandle := Some h, io := s, currentFileSize := fileSize\<rparr>;
              Some (if result then NoStatus else FailedToOpenFile name mode (errno s), fc)
            }
          })
   }"

definition fc_filename :: "file_container \<Rightarrow> string" where
  "fc_filename fc = currentFilename fc"

definition fc_openMode :: "file_container \<Rightarrow> open_mode" where
  "fc_openMode fc = currentOpenMode fc"

text \<open>\<open>size\<close> returns the unsigned size as a signed 64-bit value.\<close>

definition fc_size :: "file_container \<Rightarrow> int" where
  "fc_size fc =
     (if currentFileSize fc < 9223372036854775808 then int (currentFileSize fc)
      else int (currentFileSize fc) - 18446744073709551616)"

definition fc_setPosition :: "nat \<Rightarrow> file_container \<Rightarrow> (status \<times> file_container) option" where
  "fc_setPosition newOffset fc =
     (case fileHandle fc of
        None \<Rightarrow> Some (FileContainerNotOpen, fc)
      | Some h \<Rightarrow>
          if newOffset > currentFileSize fc then Some (SeekError newOffset (currentFileSize fc), fc)
          else do {
            (result, h, s) \<leftarrow> largeSeek h newOffset SEEK_SET (io fc);
            Some (if result then NoStatus else SeekError newOffset newOffset,
              fc\<lparr>fileHandle := Some h, io := s\<rparr>)
          })"

definition fc_setPositionLast :: "file_container \<Rightarrow> (status \<times> file_container) option" where
  "fc_setPositionLast fc =
     (case fileHandle fc of
        None \<Rightarrow> Some (FileContainerNotOpen, fc)
      | Some h \<Rightarrow> do {
          (result, h, s) \<leftarrow> largeSeek h 0 SEEK_END (io fc);
          Some (if result then NoStatus else SeekError (currentFileSize fc) (currentFileSize fc),
            fc\<lparr>fileHandle := Some h, io := s\<rparr>)
        })"

text \<open>\<open>position\<close> is a const method; the call it makes changes nothing observable here.\<close>

definition fc_position :: "file_container \<Rightarrow> nat" where
  "fc_position fc =
     (case fileHandle fc of
        None \<Rightarrow> 0
      | Some h \<Rightarrow> (case faults (io fc) (calls (io fc)) of
          Some _ \<Rightarrow> 18446744073709551615 | None \<Rightarrow> hPosition h))"

definition fc_read :: "nat \<Rightarrow> file_container \<Rightarrow> (status \<times> byte list \<times> file_container) option" where
  "fc_read desiredCount fc =
     (case fileHandle fc of
        None \<Rightarrow> Some (FileContainerNotOpen, [], fc)
      | Some h \<Rightarrow> do {
          (currentPosition, s) \<leftarrow> largeTell h (io fc);
          (bytes, h, s) \<leftarrow> fread desiredCount h s;
          let bytesRead = u32 (length bytes);
          let status =
            (if bytesRead \<noteq> desiredCount \<and> \<not> hEof h
             then FileReadError (currentFilename fc) currentPosition (errno s)
             else ReadSuccessful bytesRead);
          Some (status, bytes, fc\<lparr>fileHandle := Some h, io := s\<rparr>)
        })"

definition fc_write :: "byte list \<Rightarrow> file_container \<Rightarrow> (status \<times> file_container) option" where
  "fc_write bytes fc =
     (case fileHandle fc of
        None \<Rightarrow> Some (FileContainerNotOpen, fc)
      | Some h \<Rightarrow> do {
          (currentPosition, s) \<leftarrow> largeTell h (io fc);
          (bytesWritten, h, s) \<leftarrow> fwrite bytes h s;
          let bytesWritten = u32 bytesWritten;
          let fc = fc\<lparr>fileHandle := Some h, io := s\<rparr>;
          if bytesWritten \<noteq> length bytes
          then Some (FileWriteError (currentFilename fc) currentPosition (errno s), fc)
          else
            let endingPosition = u64 (currentPosition + bytesWritten)
            in Some (WriteSuccessful bytesWritten,
                 if endingPosition > currentFileSize fc then fc\<lparr>currentFileSize := endingPosition\<rparr> else fc)
        })"

definition fc_truncate :: "file_container \<Rightarrow> (status \<times> file_container) option" where
  "fc_truncate fc =
     (case fileHandle fc of
        None \<Rightarrow> Some (FileContainerNotOpen, fc)
      | Some h \<Rightarrow> do {
          (currentPosition, s) \<leftarrow> largeTell h (io fc);
          (result, s) \<leftarrow> fflush h s;
          (result, s) \<leftarrow> (if result then ftruncate h currentPosition s else Some (result, s));
          let fc = fc\<lparr>io := s\<rparr>;
          if \<not> result
          then Some (FileTruncateError (currentFilename fc) currentPosition (errno s), fc)
          else
            (case (if currentOpenMode fc = CLOSED then (None, s)
                   else fopen (currentFilename fc)
                     (if currentOpenMode fc = READ_ONLY then READ_ONLY else READ_WRITE) s) of
               (None, s) \<Rightarrow>
                 Some (FileTruncateError (currentFilename fc) currentPosition (errno s),
                   fc\<lparr>fileHandle := Some (h\<lparr>hOpen := (currentOpenMode fc = CLOSED)\<rparr>), io := s\<rparr>)
             | (Some h, s) \<Rightarrow> fc_setPosition currentPosition (fc\<lparr>fileHandle := Some h, io := s\<rparr>))
        })"

definition fc_flush :: "file_container \<Rightarrow> (status \<times> file_container) option" where
  "fc_flush fc =
     (case fileHandle fc of
        None \<Rightarrow> Some (FileContainerNotOpen, fc)
      | Some h \<Rightarrow> do {
          (result, s) \<leftarrow> fflush h (io fc);
          Some (if result then NoStatus else FileFlushError (currentFilename fc) (errno s), fc\<lparr>io := s\<rparr>)
        })"

definition file_ops :: "file_container container_ops" where
  "file_ops =
     \<lparr>op_size = (\<lambda>fc. Some (fc_size fc)), op_setPosition = fc_setPosition, op_setPositionLast = fc_setPositionLast,
      op_position = fc_position, op_read = fc_read, op_write = fc_write,
      op_supportsTruncation = True, op_truncate = fc_truncate, op_flush = fc_flush\<rparr>"

subsection \<open>Without I/O faults the file container is a storage\<close>

definition fc_content :: "file_container \<Rightarrow> byte list" where
  "fc_content fc = (case fileHandle fc of Some h \<Rightarrow> file_of h (io fc) | None \<Rightarrow> [])"

definition fc_cursor :: "file_container \<Rightarrow> nat" where
  "fc_cursor fc = (case fileHandle fc of Some h \<Rightarrow> hPosition h | None \<Rightarrow> 0)"

text \<open>Open for writing, no call fails, the cached size is the size, the cursor is inside.\<close>

definition fc_ok :: "file_container \<Rightarrow> bool" where
  "fc_ok fc \<longleftrightarrow> faults (io fc) = (\<lambda>_. None) \<and>
     (case fileHandle fc of
        Some h \<Rightarrow> hOpen h \<and> hWritable h \<and> disk (io fc) (hName h) \<noteq> None \<and> hName h = currentFilename fc \<and>
          hPosition h \<le> length (file_of h (io fc)) \<and>
          currentFileSize fc = length (file_of h (io fc))
      | None \<Rightarrow> False)"

lemma libc_no_fault: "faults s = (\<lambda>_. None) \<Longrightarrow> libc_call s = (None, s\<lparr>calls := calls s + 1\<rparr>)"
  by (simp add: libc_call_def)

lemma file_of_simps [simp]:
  "file_of h (s\<lparr>calls := n\<rparr>) = file_of h s" "file_of h (s\<lparr>errno := e\<rparr>) = file_of h s"
  "file_of (h\<lparr>hPosition := p\<rparr>) s = file_of h s" "file_of (h\<lparr>hEof := f\<rparr>) s = file_of h s"
  "file_of h (s\<lparr>disk := (disk s)(hName h := Some b)\<rparr>) = b"
  by (simp_all add: file_of_def)

lemmas libc_defs = largeSeek_def largeTell_def fread_def fwrite_def fflush_def libc_no_fault

lemma fc_okE:
  assumes "fc_ok fc"
  obtains h where "fileHandle fc = Some h" "faults (io fc) = (\<lambda>_. None)" "hOpen h" "hWritable h"
    "disk (io fc) (hName h) \<noteq> None" "hName h = currentFilename fc" "hPosition h \<le> length (file_of h (io fc))"
    "currentFileSize fc = length (file_of h (io fc))"
    "fc_content fc = file_of h (io fc)" "fc_cursor fc = hPosition h"
  using assms by (auto simp: fc_ok_def fc_content_def fc_cursor_def split: option.splits)

interpretation file_storage: storage file_ops fc_ok fc_content fc_cursor
proof unfold_locales
  fix d :: file_container and p
  assume "fc_ok d"
  then obtain h where h: "fileHandle d = Some h" "faults (io d) = (\<lambda>_. None)" "hOpen h" "hWritable h"
    "disk (io d) (hName h) \<noteq> None" "hName h = currentFilename d" "hPosition h \<le> length (file_of h (io d))"
    "currentFileSize d = length (file_of h (io d))"
    "fc_content d = file_of h (io d)" "fc_cursor d = hPosition h" by (rule fc_okE)
  show "fc_cursor d \<le> length (fc_content d)" using h by simp
  show "op_size file_ops d = Some (int (length (fc_content d)))" if "length (fc_content d) \<le> storage_limit"
    using h that by (simp add: file_ops_def fc_size_def storage_limit_def)
  show "op_position file_ops d = fc_cursor d"
    using h by (simp add: file_ops_def fc_position_def)
  show "\<exists>d'. op_setPosition file_ops p d = Some (NoStatus, d') \<and> fc_ok d' \<and> fc_content d' = fc_content d \<and> fc_cursor d' = p"
    if "p \<le> length (fc_content d)" "length (fc_content d) \<le> storage_limit"
    using h that
    by (auto simp: file_ops_def fc_setPosition_def libc_defs fc_ok_def fc_content_def fc_cursor_def)
  show "op_setPosition file_ops p d = Some (SeekError p (length (fc_content d)), d)"
    if "length (fc_content d) < p" "length (fc_content d) \<le> storage_limit"
    using h that by (simp add: file_ops_def fc_setPosition_def)
  show "\<exists>d'. op_setPositionLast file_ops d = Some (NoStatus, d') \<and> fc_ok d' \<and> fc_content d' = fc_content d \<and>
      fc_cursor d' = length (fc_content d)"
    using h
    by (auto simp: file_ops_def fc_setPositionLast_def libc_defs fc_ok_def fc_content_def fc_cursor_def)
  show "\<exists>d'. op_flush file_ops d = Some (NoStatus, d') \<and> fc_ok d' \<and> fc_content d' = fc_content d \<and> fc_cursor d' = fc_cursor d"
    using h
    by (auto simp: file_ops_def fc_flush_def libc_defs fc_ok_def fc_content_def fc_cursor_def)
  show "\<exists>d'. op_read file_ops n d = Some (ReadSuccessful m, take m (drop (fc_cursor d) (fc_content d)), d') \<and>
      fc_ok d' \<and> fc_content d' = fc_content d \<and> fc_cursor d' = fc_cursor d + m"
    if "length (fc_content d) \<le> storage_limit" "n < 4294967296" "m = min n (length (fc_content d) - fc_cursor d)"
    for n m
  proof -
    have len: "length (take n (drop (hPosition h) (file_of h (io d)))) = m"
      using that h by (simp add: min_def)
    then have "take n (drop (hPosition h) (file_of h (io d))) = take m (drop (hPosition h) (file_of h (io d)))"
      using that h by (simp add: min_def)
    with len show ?thesis
      using h that(1,2) that(3)
      by (auto simp: file_ops_def fc_read_def libc_defs fc_ok_def fc_content_def fc_cursor_def u32_id Let_def)
  qed
  show "\<exists>d'. op_write file_ops bs d = Some (WriteSuccessful (length bs), d') \<and> fc_ok d' \<and>
      fc_content d' = overlay (fc_content d) (fc_cursor d) bs \<and> fc_cursor d' = fc_cursor d + length bs"
    if "fc_cursor d + length bs \<le> storage_limit" "length (fc_content d) \<le> storage_limit" "length bs < 4294967296"
    for bs
    using h that
    by (auto simp: file_ops_def fc_write_def libc_defs fc_ok_def fc_content_def fc_cursor_def u32_id u64_id
        storage_limit_def length_overlay Let_def file_of_def)
qed

subsection \<open>Opening, closing and truncating\<close>

lemma fc_open_establishes:
  assumes "faults (io fc) = (\<lambda>_. None)" "case fileHandle fc of Some h \<Rightarrow> hOpen h | None \<Rightarrow> True"
    and "mode = OVERWRITE \<and> b = [] \<or> mode = READ_WRITE \<and> disk (io fc) name = Some b"
  shows "\<exists>fc'. fc_open name mode fc = Some (NoStatus, fc') \<and> fc_ok fc' \<and> fc_content fc' = b \<and> fc_cursor fc' = 0 \<and>
    disk (io fc') = (disk (io fc))(name := Some b) \<and> currentFilename fc' = name \<and> currentOpenMode fc' = mode"
proof -
  obtain fc1 where close: "(if fileHandle fc \<noteq> None then fc_close fc else Some (NoStatus, fc)) = Some (NoStatus, fc1)"
    "faults (io fc1) = (\<lambda>_. None)" "disk (io fc1) = disk (io fc)"
    using assms(1,2) by (cases "fileHandle fc") (auto simp: fc_close_def fclose_def libc_no_fault)
  then show ?thesis
    using assms(3)
    by (auto simp: fc_open_def fopen_def libc_defs fc_ok_def fc_content_def fc_cursor_def file_of_def)
qed

text \<open>
  C37. Without I/O faults, what was written to a file container is on disk: after writing at
  the cursor and closing, opening the same file again for reading and writing succeeds and
  gives a container with exactly the bytes before, overwritten and extended by the written
  ones, positioned at its start.
\<close>
theorem file_container_persistence:
  assumes "fc_ok fc" "length (fc_content fc) \<le> storage_limit"
    and "fc_cursor fc + length bs \<le> storage_limit" "length bs < 4294967296"
  shows "\<exists>fc1 fc2 fc3. fc_write bs fc = Some (WriteSuccessful (length bs), fc1) \<and>
    fc_close fc1 = Some (NoStatus, fc2) \<and>
    fc_open (currentFilename fc) READ_WRITE fc2 = Some (NoStatus, fc3) \<and> fc_ok fc3 \<and>
    fc_content fc3 = overlay (fc_content fc) (fc_cursor fc) bs \<and> fc_cursor fc3 = 0"
proof -
  from file_storage.write_law [OF assms(1,3,2,4)] obtain fc1 where
    w: "fc_write bs fc = Some (WriteSuccessful (length bs), fc1)" "fc_ok fc1"
      "fc_content fc1 = overlay (fc_content fc) (fc_cursor fc) bs"
    by (auto simp: file_ops_def)
  have name: "currentFilename fc1 = currentFilename fc"
    using w(1) by (auto simp: fc_write_def Let_def split: option.splits bind_splits if_splits)
  from w(2) obtain h where h: "fileHandle fc1 = Some h" "faults (io fc1) = (\<lambda>_. None)" "hOpen h"
    "disk (io fc1) (hName h) \<noteq> None" "hName h = currentFilename fc1" "fc_content fc1 = file_of h (io fc1)"
    by (rule fc_okE)
  obtain fc2 where c: "fc_close fc1 = Some (NoStatus, fc2)" "faults (io fc2) = (\<lambda>_. None)"
    "disk (io fc2) = disk (io fc1)" "fileHandle fc2 = None"
    using h by (auto simp: fc_close_def fclose_def libc_no_fault)
  have d: "disk (io fc2) (currentFilename fc) = Some (fc_content fc1)"
    using h c name by (auto simp: file_of_def)
  have "case fileHandle fc2 of Some h \<Rightarrow> hOpen h | None \<Rightarrow> True" by (simp add: c(4))
  moreover have "READ_WRITE = OVERWRITE \<and> fc_content fc1 = [] \<or>
      READ_WRITE = READ_WRITE \<and> disk (io fc2) (currentFilename fc) = Some (fc_content fc1)"
    using d by simp
  ultimately obtain fc3 where "fc_open (currentFilename fc) READ_WRITE fc2 = Some (NoStatus, fc3)" "fc_ok fc3"
    "fc_content fc3 = fc_content fc1" "fc_cursor fc3 = 0"
    using fc_open_establishes [OF c(2)] by blast
  with w c show ?thesis by auto
qed

definition sample_file :: file_container where
  "sample_file =
     \<lparr>currentFilename = ''f'', currentOpenMode = READ_WRITE,
      fileHandle = Some \<lparr>hName = ''f'', hPosition = 2, hEof = False, hWritable = True, hOpen = True\<rparr>,
      currentFileSize = 3,
      io = \<lparr>disk = [''f'' \<mapsto> [1, 2, 3]], faults = (\<lambda>_. None), calls = 0, errno = 0\<rparr>\<rparr>"

lemma sample_file_ok: "fc_ok sample_file" "fc_content sample_file = [1, 2, 3]" "fc_cursor sample_file = 2"
  by (simp_all add: sample_file_def fc_ok_def fc_content_def fc_cursor_def file_of_def)

theorem file_container_persistence_witness:
  "\<exists>fc1 fc2 fc3. fc_write [8, 9] sample_file = Some (WriteSuccessful 2, fc1) \<and>
    fc_close fc1 = Some (NoStatus, fc2) \<and> fc_open ''f'' READ_WRITE fc2 = Some (NoStatus, fc3) \<and>
    fc_content fc3 = [1, 2, 8, 9]"
proof -
  have "length (fc_content sample_file) \<le> storage_limit"
    "fc_cursor sample_file + length [8, 9 :: byte] \<le> storage_limit" "length [8, 9 :: byte] < 4294967296"
    by (simp_all add: sample_file_ok storage_limit_def)
  from file_container_persistence [OF sample_file_ok(1) this] show ?thesis
    by (auto simp: sample_file_ok overlay_def numeral_2_eq_2) (simp add: sample_file_def)
qed

text \<open>
  C39. \<open>FileContainer::truncate\<close> cuts the file on disk at the cursor but leaves the cached size
  as it was: afterwards \<open>size\<close> reports the length before the cut, and \<open>setPosition\<close> accepts
  positions past the end of the file.
\<close>
theorem file_container_truncate_stale_size:
  assumes "fc_ok fc" "length (fc_content fc) \<le> storage_limit" "fc_cursor fc \<le> q" "q \<le> length (fc_content fc)"
    and "currentOpenMode fc \<in> {READ_WRITE, OVERWRITE}"
  shows "\<exists>fc1 fc2. fc_truncate fc = Some (NoStatus, fc1) \<and> fc_content fc1 = take (fc_cursor fc) (fc_content fc) \<and>
    fc_size fc1 = int (length (fc_content fc)) \<and>
    fc_setPosition q fc1 = Some (NoStatus, fc2) \<and> fc_content fc2 = fc_content fc1"
proof -
  from assms(1) obtain h where h: "fileHandle fc = Some h" "faults (io fc) = (\<lambda>_. None)" "hOpen h" "hWritable h"
    "disk (io fc) (hName h) \<noteq> None" "hName h = currentFilename fc" "hPosition h \<le> length (file_of h (io fc))"
    "currentFileSize fc = length (file_of h (io fc))" "fc_content fc = file_of h (io fc)" "fc_cursor fc = hPosition h"
    by (rule fc_okE)
  with assms show ?thesis
    by (auto simp: fc_truncate_def ftruncate_def fopen_def libc_defs fc_setPosition_def fc_content_def fc_size_def
        file_of_def storage_limit_def)
qed

theorem file_container_truncate_stale_size_witness:
  "\<exists>fc1. fc_truncate sample_file = Some (NoStatus, fc1) \<and> fc_content fc1 = [1, 2] \<and> fc_size fc1 = 3"
proof -
  have "length (fc_content sample_file) \<le> storage_limit" "fc_cursor sample_file \<le> 3"
    "3 \<le> length (fc_content sample_file)" "currentOpenMode sample_file \<in> {READ_WRITE, OVERWRITE}"
    by (simp_all add: sample_file_ok storage_limit_def) (simp add: sample_file_def)
  from file_container_truncate_stale_size [OF sample_file_ok(1) this] show ?thesis
    by (auto simp: sample_file_ok)
qed

text \<open>
  C38. What a write to an open file container does, for every plan of faults: the bytes the C
  library transferred, all of them or the first \<open>k\<close> before a fault, are in the file at the cursor, over
  what was there and beyond its end; no other byte and no other file changes, and the cursor
  stands behind them. If they were all, \<open>WriteSuccessful\<close> reports their number and the cached size
  becomes the end of the write where that is larger; if not, \<open>FileWriteError\<close> has the file's name
  and the \<open>errno\<close> of the failing call, and the cached size stays. The position that both use is what \<open>ftello\<close>
  returned: the code does not notice when that call failed, and then reports and computes
  with \<open>2 ^ 64 - 1\<close>, so that the cached size misses the bytes that were written.
\<close>
theorem file_container_write_outcome:
  assumes h: "fileHandle fc = Some h" "hOpen h" "hWritable h" "disk (io fc) (hName h) = Some old" "hPosition h \<le> length old"
    and bs: "length bs < 4294967296"
  defines "n \<equiv> (case faults (io fc) (calls (io fc) + 1) of Some (e, k) \<Rightarrow> min k (length bs) | None \<Rightarrow> length bs)"
    and "told \<equiv> (if faults (io fc) (calls (io fc)) = None then hPosition h else 18446744073709551615)"
  shows "\<exists>status fc'. fc_write bs fc = Some (status, fc') \<and>
    disk (io fc') = (disk (io fc))(hName h := Some (overlay old (hPosition h) (take n bs))) \<and>
    fileHandle fc' = Some (h\<lparr>hPosition := hPosition h + n\<rparr>) \<and>
    (if n = length bs
     then status = WriteSuccessful (length bs) \<and>
       currentFileSize fc' = max (currentFileSize fc) (u64 (told + length bs))
     else (\<exists>e k. faults (io fc) (calls (io fc) + 1) = Some (e, k) \<and> status = FileWriteError (currentFilename fc) told e) \<and>
       currentFileSize fc' = currentFileSize fc)"
proof -
  have told: "largeTell h (io fc) = Some (told, snd (libc_call (io fc)))"
    using h(2) by (cases "faults (io fc) (calls (io fc))") (auto simp: told_def largeTell_def libc_call_def)
  let ?s = "snd (libc_call (io fc))"
  have s: "disk ?s = disk (io fc)" "faults ?s = faults (io fc)" "calls ?s = calls (io fc) + 1"
    by (auto simp: libc_call_def split: option.splits)
  have "\<exists>s'. fwrite bs h ?s = Some (n, h\<lparr>hPosition := hPosition h + n\<rparr>, s') \<and>
      disk s' = (disk (io fc))(hName h := Some (overlay old (hPosition h) (take n bs))) \<and>
      (\<forall>e k. faults (io fc) (calls (io fc) + 1) = Some (e, k) \<longrightarrow> errno s' = e)"
    using h s by (auto simp: fwrite_def n_def libc_call_def file_of_def Let_def split: option.splits)
  then obtain s' where w: "fwrite bs h ?s = Some (n, h\<lparr>hPosition := hPosition h + n\<rparr>, s')"
    "disk s' = (disk (io fc))(hName h := Some (overlay old (hPosition h) (take n bs)))"
    "\<forall>e k. faults (io fc) (calls (io fc) + 1) = Some (e, k) \<longrightarrow> errno s' = e" by blast
  have n: "n \<le> length bs" "n \<noteq> length bs \<longrightarrow> (\<exists>e k. faults (io fc) (calls (io fc) + 1) = Some (e, k))"
    by (auto simp: n_def split: option.splits)
  have "u32 n = n" using n(1) bs by (simp add: u32_id)
  with h(1) told w n(2) show ?thesis by (auto simp: fc_write_def Let_def max_def)
qed

theorem file_container_write_outcome_witness:
  "(\<exists>fc'. fc_write [8, 9] (sample_file\<lparr>io := (io sample_file)\<lparr>faults := (\<lambda>n. if n = 1 then Some (28, 1) else None)\<rparr>\<rparr>)
      = Some (FileWriteError ''f'' 2 28, fc') \<and> disk (io fc') ''f'' = Some [1, 2, 8] \<and> currentFileSize fc' = 3) \<and>
   (\<exists>fc'. fc_write [8, 9] sample_file = Some (WriteSuccessful 2, fc') \<and> disk (io fc') ''f'' = Some [1, 2, 8, 9] \<and>
      currentFileSize fc' = 4)"
proof -
  let ?h = "\<lparr>hName = ''f'', hPosition = 2, hEof = False, hWritable = True, hOpen = True\<rparr>"
  define fc where "fc = sample_file\<lparr>io := (io sample_file)\<lparr>faults := (\<lambda>n. if n = 1 then Some (28, 1) else None)\<rparr>\<rparr>"
  have short: "length [8, 9 :: byte] < 4294967296" "hPosition ?h \<le> length [1, 2, 3 :: byte]" by simp_all
  have bytes: "overlay [1, 2, 3] 2 [8] = [1, 2, 8 :: byte]"
    "overlay [1, 2, 3] 2 [8, 9] = [1, 2, 8, 9 :: byte]" by (simp_all add: overlay_def numeral_2_eq_2)
  have h: "fileHandle fc = Some ?h" "hOpen ?h" "hWritable ?h" "disk (io fc) (hName ?h) = Some [1, 2, 3]"
    and f: "faults (io fc) (calls (io fc)) = None" "faults (io fc) (calls (io fc) + 1) = Some (28, 1)"
      "currentFilename fc = ''f''" "currentFileSize fc = 3"
    by (simp_all add: fc_def sample_file_def)
  have h': "fileHandle sample_file = Some ?h" "hOpen ?h" "hWritable ?h"
      "disk (io sample_file) (hName ?h) = Some [1, 2, 3]"
    and f': "faults (io sample_file) n = None" "currentFileSize sample_file = 3" for n
    by (simp_all add: sample_file_def)
  have "\<exists>fc'. fc_write [8, 9] fc = Some (FileWriteError ''f'' 2 28, fc') \<and> disk (io fc') ''f'' = Some [1, 2, 8] \<and>
      currentFileSize fc' = 3"
    using file_container_write_outcome [OF h short(2,1)] by (auto simp: f f(2) [simplified] bytes)
  moreover have "\<exists>fc'. fc_write [8, 9] sample_file = Some (WriteSuccessful 2, fc') \<and>
      disk (io fc') ''f'' = Some [1, 2, 8, 9] \<and> currentFileSize fc' = 4"
    using file_container_write_outcome [OF h' short(2,1)] by (auto simp: f' bytes u64_id)
  ultimately show ?thesis unfolding fc_def by blast
qed

end
