(* ===== verification/Chunk.thy ===== *)
theory Chunk
  imports Chunk_Header Storage
begin

text \<open>
  The base class of all chunks (\<open>chunk.cpp\<close>) and the container it reads from and writes to.

  The world a chunk operation runs in is the medium of the container, reached through the
  functions of \<open>Container::Private\<close>, and the static \<open>Chunk::randomSeed\<close> of the generator
  that pads chunks. A chunk extends the record of its header; the virtual function
  \<open>updateCrc\<close> is an argument of \<open>Chunk_save\<close>, so that a derived class passes its own.
  A chunk holds a weak pointer to its container; chunks do not outlive it in the library,
  where the assertion that the pointer is still valid therefore holds.
\<close>

subsection \<open>The container seen from a chunk\<close>

record 'd world =
  device :: 'd
  randomSeed :: "32 word"

definition container_size :: "'d container_ops \<Rightarrow> ('d, 'z) world_scheme \<Rightarrow> int option" where
  "container_size K w = op_size K (device w)"

definition container_setPosition ::
  "'d container_ops \<Rightarrow> nat \<Rightarrow> ('d, 'z) world_scheme \<Rightarrow> (status \<times> ('d, 'z) world_scheme) option" where
  "container_setPosition K newOffset w =
     map_option (\<lambda>(s, d). (s, w\<lparr>device := d\<rparr>)) (op_setPosition K newOffset (device w))"

definition container_setPositionLast ::
  "'d container_ops \<Rightarrow> ('d, 'z) world_scheme \<Rightarrow> (status \<times> ('d, 'z) world_scheme) option" where
  "container_setPositionLast K w =
     map_option (\<lambda>(s, d). (s, w\<lparr>device := d\<rparr>)) (op_setPositionLast K (device w))"

definition container_position :: "'d container_ops \<Rightarrow> ('d, 'z) world_scheme \<Rightarrow> nat" where
  "container_position K w = op_position K (device w)"

definition container_read ::
  "'d container_ops \<Rightarrow> nat \<Rightarrow> ('d, 'z) world_scheme \<Rightarrow> (status \<times> byte list \<times> ('d, 'z) world_scheme) option" where
  "container_read K desiredCount w =
     map_option (\<lambda>(s, bs, d). (s, bs, w\<lparr>device := d\<rparr>)) (op_read K desiredCount (device w))"

definition container_write ::
  "'d container_ops \<Rightarrow> byte list \<Rightarrow> ('d, 'z) world_scheme \<Rightarrow> (status \<times> ('d, 'z) world_scheme) option" where
  "container_write K buffer w =
     map_option (\<lambda>(s, d). (s, w\<lparr>device := d\<rparr>)) (op_write K buffer (device w))"

definition container_supportsTruncation :: "'d container_ops \<Rightarrow> bool" where
  "container_supportsTruncation K = op_supportsTruncation K"

definition container_truncate ::
  "'d container_ops \<Rightarrow> ('d, 'z) world_scheme \<Rightarrow> (status \<times> ('d, 'z) world_scheme) option" where
  "container_truncate K w = map_option (\<lambda>(s, d). (s, w\<lparr>device := d\<rparr>)) (op_truncate K (device w))"

definition container_flush ::
  "'d container_ops \<Rightarrow> ('d, 'z) world_scheme \<Rightarrow> (status \<times> ('d, 'z) world_scheme) option" where
  "container_flush K w = map_option (\<lambda>(s, d). (s, w\<lparr>device := d\<rparr>)) (op_flush K (device w))"

text \<open>
  \<open>status.success() && ReadSuccessful(status).bytesRead() == n\<close> turns the status into
  \<open>NoStatus\<close>. The cast of any other successful status is a null dereference.
\<close>

definition completed_read :: "status \<Rightarrow> nat \<Rightarrow> status option" where
  "completed_read s n =
     (if success s then do { m \<leftarrow> ReadSuccessful_bytesRead s; Some (if m = n then NoStatus else s) }
      else Some s)"

definition completed_write :: "status \<Rightarrow> nat \<Rightarrow> status option" where
  "completed_write s n =
     (if success s then do { m \<leftarrow> WriteSuccessful_bytesWritten s; Some (if m = n then NoStatus else s) }
      else Some s)"

subsection \<open>The chunk\<close>

record chunk = chunk_header +
  currentFileIndex :: nat
  numberLoadedBytes :: nat

definition chunk_of_header :: "nat \<Rightarrow> chunk_header \<Rightarrow> chunk" where
  "chunk_of_header fileIndex h =
     \<lparr>header = header h, currentFileIndex = fileIndex, numberLoadedBytes = 0\<rparr>"

definition Chunk :: "(nat \<Rightarrow> byte) \<Rightarrow> nat \<Rightarrow> nat \<Rightarrow> chunk option" where
  "Chunk uninit fileIndex additionalChunkHeaderSizeBytes =
     map_option (chunk_of_header fileIndex) (ChunkHeader uninit additionalChunkHeaderSizeBytes)"

definition Chunk_common :: "(nat \<Rightarrow> byte) \<Rightarrow> nat \<Rightarrow> byte list \<Rightarrow> nat \<Rightarrow> chunk option" where
  "Chunk_common uninit fileIndex commonHeader additionalHeaderBytes =
     map_option (chunk_of_header fileIndex) (ChunkHeader_common uninit commonHeader additionalHeaderBytes)"

definition Chunk_sized :: "(nat \<Rightarrow> byte) \<Rightarrow> nat \<Rightarrow> byte list \<Rightarrow> chunk option" where
  "Chunk_sized uninit fileIndex commonHeader =
     map_option (chunk_of_header fileIndex) (ChunkHeader_sized uninit commonHeader)"

definition setFileIndex :: "nat \<Rightarrow> 'a chunk_scheme \<Rightarrow> 'a chunk_scheme" where
  "setFileIndex newFileIndex c = c\<lparr>currentFileIndex := newFileIndex\<rparr>"

definition fileIndex :: "'a chunk_scheme \<Rightarrow> nat" where
  "fileIndex c = currentFileIndex c"

definition Chunk_load ::
  "'d container_ops \<Rightarrow> bool \<Rightarrow> 'a chunk_scheme \<Rightarrow> ('d, 'z) world_scheme \<Rightarrow>
   (status \<times> 'a chunk_scheme \<times> ('d, 'z) world_scheme) option" where
  "Chunk_load K includeCommonHeader c w = (
     let (offset, bytesToLoad, base) =
       (if includeCommonHeader
        then (toPosition (currentFileIndex c), fullHeaderSizeBytes c, 0)
        else (u64 (toPosition (currentFileIndex c) + minimumChunkHeaderSizeBytes),
              additionalHeaderSizeBytes c, minimumChunkHeaderSizeBytes))
     in do {
       (status, w) \<leftarrow> container_setPosition K offset w;
       if \<not> has_info status then do {
         (status, bytes, w) \<leftarrow> container_read K bytesToLoad w;
         assertion (base + length bytes \<le> length (header c));
         let c = c\<lparr>header := overlay (header c) base bytes\<rparr>;
         status \<leftarrow> completed_read status bytesToLoad;
         Some (status, c, w)
       } else Some (status, c, w)
     })"

subsection \<open>Padding a chunk to its size\<close>

definition kla :: "32 word" where "kla = 1664525"

definition klc :: "32 word" where "klc = 1013904223"

primrec random_words :: "nat \<Rightarrow> 32 word \<Rightarrow> 32 word list \<times> 32 word" where
  "random_words 0 seed = ([], seed)"
| "random_words (Suc n) seed =
     (let seed = kla * seed + klc; (ws, last) = random_words n seed in (seed # ws, last))"

text \<open>The bytes of a 32-bit array element in memory, on a little-endian machine.\<close>

definition word_bytes :: "32 word \<Rightarrow> byte list" where
  "word_bytes x = [ucast x, ucast (drop_bit 8 x), ucast (drop_bit 16 x), ucast (drop_bit 24 x)]"

definition Chunk_writeTail ::
  "'d container_ops \<Rightarrow> nat \<Rightarrow> 'a chunk_scheme \<Rightarrow> ('d, 'z) world_scheme \<Rightarrow>
   (status \<times> ('d, 'z) world_scheme) option" where
  "Chunk_writeTail K additionalBytes c w = do {
     additionalBytes \<leftarrow>
       (if additionalBytes = 0 then do {
          let currentPosition = container_position K w;
          let chunkEnd = u64 (toPosition (currentFileIndex c) + chunkSize c);
          assertion (currentPosition \<le> chunkEnd);
          assertion (chunkEnd - currentPosition \<le> 4294967295);
          Some (u32 (chunkEnd - currentPosition))
        } else Some additionalBytes);
     if additionalBytes > 0 then do {
       let writeBuffer32Size = u32 (additionalBytes + 3) div 4;
       let (ws, seed) = random_words writeBuffer32Size (randomSeed w);
       let w = w\<lparr>randomSeed := seed\<rparr>;
       assertion (additionalBytes \<le> 4 * writeBuffer32Size);
       (status, w) \<leftarrow> container_write K (take additionalBytes (concat (map word_bytes ws))) w;
       status \<leftarrow> completed_write status additionalBytes;
       Some (status, w)
     } else Some (NoStatus, w)
   }"

subsection \<open>Saving and checking\<close>

definition Chunk_save ::
  "'d container_ops \<Rightarrow> ('a chunk_scheme \<Rightarrow> 'a chunk_scheme option) \<Rightarrow> bool \<Rightarrow> 'a chunk_scheme \<Rightarrow>
   ('d, 'z) world_scheme \<Rightarrow> (status \<times> 'a chunk_scheme \<times> ('d, 'z) world_scheme) option" where
  "Chunk_save K virtual_updateCrc padToChunkSize c w = do {
     (status, w) \<leftarrow> container_setPosition K (toPosition (currentFileIndex c)) w;
     (status, c, w) \<leftarrow>
       (if \<not> has_info status then do {
          c \<leftarrow> virtual_updateCrc c;
          (status, w) \<leftarrow> container_write K (header c) w;
          status \<leftarrow> completed_write status (fullHeaderSizeBytes c);
          Some (status, c, w)
        } else Some (status, c, w));
     if \<not> has_info status \<and> padToChunkSize then do {
       (status, w) \<leftarrow> Chunk_writeTail K 0 c w;
       Some (status, c, w)
     } else Some (status, c, w)
   }"

definition Chunk_checkCrc :: "'a chunk_header_scheme \<Rightarrow> bool" where
  "Chunk_checkCrc c \<longleftrightarrow> crc c = initializeCrc c"

definition Chunk_updateCrc :: "'a chunk_header_scheme \<Rightarrow> 'a chunk_header_scheme" where
  "Chunk_updateCrc c = setCrc (initializeCrc c) c"

subsection \<open>The behaviour on a medium without faults\<close>

lemma completed_simps [simp]:
  "completed_read (ReadSuccessful m) n = Some (if m = n then NoStatus else ReadSuccessful m)"
  "completed_write (WriteSuccessful m) n = Some (if m = n then NoStatus else WriteSuccessful m)"
  by (simp_all add: completed_read_def completed_write_def)

lemma length_random_words [simp]: "length (fst (random_words n seed)) = n"
  by (induction n arbitrary: seed) (simp_all add: Let_def split: prod.splits, metis fst_conv)

lemma length_concat_word_bytes [simp]: "length (concat (map word_bytes ws)) = 4 * length ws"
  by (induction ws) (simp_all add: word_bytes_def)

lemma fileIndex_limit: "i < 134217728 \<Longrightarrow> 32 * i < storage_limit"
  by (simp add: storage_limit_def)

context storage
begin

lemma container_setPosition_law:
  assumes "ok (device w)" "p \<le> length (content (device w))" "length (content (device w)) \<le> storage_limit"
  obtains d where "container_setPosition K p w = Some (NoStatus, w\<lparr>device := d\<rparr>)" "ok d"
    "content d = content (device w)" "cursor d = p"
proof -
  from setPosition_law [OF assms] obtain d where
    "op_setPosition K p (device w) = Some (NoStatus, d)" "ok d" "content d = content (device w)" "cursor d = p" by blast
  with that [of d] show ?thesis by (simp add: container_setPosition_def)
qed

lemma container_write_law:
  assumes "ok (device w)" "cursor (device w) + length bs \<le> storage_limit"
    "length (content (device w)) \<le> storage_limit" "length bs < 4294967296"
  obtains d where "container_write K bs w = Some (WriteSuccessful (length bs), w\<lparr>device := d\<rparr>)" "ok d"
    "content d = overlay (content (device w)) (cursor (device w)) bs" "cursor d = cursor (device w) + length bs"
proof -
  from write_law [OF assms] obtain d where
    "op_write K bs (device w) = Some (WriteSuccessful (length bs), d)" "ok d"
    "content d = overlay (content (device w)) (cursor (device w)) bs" "cursor d = cursor (device w) + length bs" by blast
  with that [of d] show ?thesis by (simp add: container_write_def)
qed

lemma container_read_law:
  assumes "ok (device w)" "cursor (device w) + n \<le> length (content (device w))"
    "length (content (device w)) \<le> storage_limit" "n < 4294967296"
  obtains d where "container_read K n w =
      Some (ReadSuccessful n, take n (drop (cursor (device w)) (content (device w))), w\<lparr>device := d\<rparr>)" "ok d"
    "content d = content (device w)" "cursor d = cursor (device w) + n"
proof -
  have "n = min n (length (content (device w)) - cursor (device w))"
    using assms(2) by simp
  from read_law [OF assms(1,3,4) this] obtain d where
    "op_read K n (device w) = Some (ReadSuccessful n, take n (drop (cursor (device w)) (content (device w))), d)" "ok d"
    "content d = content (device w)" "cursor d = cursor (device w) + n" by blast
  with that [of d] show ?thesis by (simp add: container_read_def)
qed

lemma Chunk_writeTail_law:
  assumes w: "ok (device w)" "length (content (device w)) \<le> storage_limit"
    and c: "currentFileIndex c < 134217728" "32 * currentFileIndex c + chunkSize c \<le> storage_limit"
    and pos: "32 * currentFileIndex c \<le> cursor (device w)" "cursor (device w) \<le> 32 * currentFileIndex c + chunkSize c"
  obtains d seed tl where "Chunk_writeTail K 0 c w = Some (NoStatus, w\<lparr>device := d, randomSeed := seed\<rparr>)" "ok d"
    "content d = overlay (content (device w)) (cursor (device w)) tl"
    "length tl = 32 * currentFileIndex c + chunkSize c - cursor (device w)"
    "cursor d = 32 * currentFileIndex c + chunkSize c"
proof -
  let ?e = "32 * currentFileIndex c + chunkSize c"
  define n where "n = ?e - cursor (device w)"
  note b = chunkSize_bounds [of c]
  have n: "n \<le> 4096" using pos b by (simp add: n_def)
  have e: "u64 (toPosition (currentFileIndex c) + chunkSize c) = ?e"
    using c b by (simp add: toPosition_id u64_id storage_limit_def)
  have wr: "u32 n = n" "u32 (n + 3) = n + 3" using n by (simp_all add: u32_id)
  show ?thesis
  proof (cases "n = 0")
    case True
    then have "Chunk_writeTail K 0 c w = Some (NoStatus, w)"
      using e pos n position_law [OF w(1)]
      by (simp add: Chunk_writeTail_def container_position_def Let_def n_def u32_def)
    then have "Chunk_writeTail K 0 c w = Some (NoStatus, w\<lparr>device := device w, randomSeed := randomSeed w\<rparr>)"
      by simp
    then show ?thesis
      by (rule that [where tl = "[]"]) (use True w pos in \<open>simp_all add: n_def\<close>)
  next
    case False
    obtain ws seed where rw: "random_words ((n + 3) div 4) (randomSeed w) = (ws, seed)" by fastforce
    then have len: "length ws = (n + 3) div 4"
      using length_random_words [of "(n + 3) div 4" "randomSeed w"] by simp
    define tl where "tl = take n (concat (map word_bytes ws))"
    have tl: "length tl = n" using len by (simp add: tl_def)
    let ?w = "w\<lparr>randomSeed := seed\<rparr>"
    have "cursor (device ?w) + length tl \<le> storage_limit" using pos c tl by (simp add: n_def)
    from container_write_law [OF _ this] w tl n obtain d where
      d: "container_write K tl ?w = Some (WriteSuccessful n, ?w\<lparr>device := d\<rparr>)" "ok d"
        "content d = overlay (content (device w)) (cursor (device w)) tl" "cursor d = cursor (device w) + n"
      by auto
    have "cursor (device w) \<le> ?e" "?e - cursor (device w) \<le> 4294967295" "n \<le> 4 * ((n + 3) div 4)"
      using pos n by (simp_all add: n_def)
    then have "Chunk_writeTail K 0 c w = Some (NoStatus, ?w\<lparr>device := d\<rparr>)"
      using False e d wr rw position_law [OF w(1)]
      by (simp add: Chunk_writeTail_def container_position_def Let_def flip: n_def tl_def)
    moreover have "?w\<lparr>device := d\<rparr> = w\<lparr>device := d, randomSeed := seed\<rparr>" by simp
    ultimately show ?thesis
      using that [where d = d and seed = seed and tl = tl] d tl pos by (simp add: n_def)
  qed
qed

end

context storage
begin

text \<open>Saving without padding writes the header array at the chunk's position.\<close>

lemma Chunk_save_header_law:
  assumes w: "ok (device w)" "length (content (device w)) \<le> storage_limit"
    and i: "currentFileIndex c < 134217728" "32 * currentFileIndex c \<le> length (content (device w))"
    and u: "upd c = Some c'" "currentFileIndex c' = currentFileIndex c" "length (header c') \<le> chunkSize c'"
    and fits: "32 * currentFileIndex c + chunkSize c' \<le> storage_limit"
  obtains d where "Chunk_save K upd False c w = Some (NoStatus, c', w\<lparr>device := d\<rparr>)" "ok d"
    "content d = overlay (content (device w)) (32 * currentFileIndex c) (header c')"
    "cursor d = 32 * currentFileIndex c + length (header c')"
proof -
  let ?p = "32 * currentFileIndex c"
  from container_setPosition_law [OF w(1) i(2) w(2)] obtain d1 where
    d1: "container_setPosition K ?p w = Some (NoStatus, w\<lparr>device := d1\<rparr>)" "ok d1"
      "content d1 = content (device w)" "cursor d1 = ?p" .
  let ?w = "w\<lparr>device := d1\<rparr>"
  have l: "length (header c') < 4294967296"
    using u chunkSize_bounds [of c'] by simp
  have "ok (device ?w)" "cursor (device ?w) + length (header c') \<le> storage_limit"
    "length (content (device ?w)) \<le> storage_limit"
    using d1 fits u w by simp_all
  from container_write_law [OF this l] obtain d2 where
    d2: "container_write K (header c') ?w = Some (WriteSuccessful (length (header c')), w\<lparr>device := d2\<rparr>)" "ok d2"
      "content d2 = overlay (content (device w)) ?p (header c')" "cursor d2 = ?p + length (header c')"
    using d1 by auto
  have "Chunk_save K upd False c w = Some (NoStatus, c', w\<lparr>device := d2\<rparr>)"
    using d1 d2 u i by (simp add: Chunk_save_def toPosition_id fullHeaderSizeBytes_def)
  with d2 that show ?thesis by blast
qed

text \<open>Saving with padding writes the chunk's whole area: header array and pseudo random bytes.\<close>

lemma Chunk_save_law:
  assumes w: "ok (device w)" "length (content (device w)) \<le> storage_limit"
    and i: "currentFileIndex c < 134217728" "32 * currentFileIndex c \<le> length (content (device w))"
    and u: "upd c = Some c'" "currentFileIndex c' = currentFileIndex c" "length (header c') \<le> chunkSize c'"
    and fits: "32 * currentFileIndex c + chunkSize c' \<le> storage_limit"
  obtains d seed tl where "Chunk_save K upd True c w = Some (NoStatus, c', w\<lparr>device := d, randomSeed := seed\<rparr>)"
    "ok d" "content d = overlay (content (device w)) (32 * currentFileIndex c) (header c' @ tl)"
    "length (header c' @ tl) = chunkSize c'"
proof -
  let ?p = "32 * currentFileIndex c"
  from Chunk_save_header_law [where upd = upd, OF assms] obtain d1 where
    d1: "Chunk_save K upd False c w = Some (NoStatus, c', w\<lparr>device := d1\<rparr>)" "ok d1"
      "content d1 = overlay (content (device w)) ?p (header c')" "cursor d1 = ?p + length (header c')" .
  let ?w = "w\<lparr>device := d1\<rparr>"
  have "ok (device ?w)" "length (content (device ?w)) \<le> storage_limit"
    "currentFileIndex c' < 134217728" "32 * currentFileIndex c' + chunkSize c' \<le> storage_limit"
    "32 * currentFileIndex c' \<le> cursor (device ?w)" "cursor (device ?w) \<le> 32 * currentFileIndex c' + chunkSize c'"
    using d1 fits u w i by (simp_all add: length_overlay)
  from Chunk_writeTail_law [OF this] obtain d seed tl where
    d: "Chunk_writeTail K 0 c' ?w = Some (NoStatus, ?w\<lparr>device := d, randomSeed := seed\<rparr>)" "ok d"
      "content d = overlay (content (device ?w)) (cursor (device ?w)) tl"
      "length tl = 32 * currentFileIndex c' + chunkSize c' - cursor (device ?w)"
      "cursor d = 32 * currentFileIndex c' + chunkSize c'" .
  have "Chunk_save K upd True c w = Some (NoStatus, c', w\<lparr>device := d, randomSeed := seed\<rparr>)"
    using d1(1) d(1) by (auto simp: Chunk_save_def split: bind_splits)
  moreover have "content d = overlay (content (device w)) ?p (header c' @ tl)"
    using d d1 i by (simp add: overlay_overlay_adjacent)
  moreover have "length (header c' @ tl) = chunkSize c'"
    using d d1 u by simp
  ultimately show ?thesis using d(2) that [where d = d and seed = seed and tl = tl] by blast
qed

text \<open>Loading fills the header array, from its start or after the common part, with what is stored.\<close>

lemma Chunk_load_full_law:
  assumes w: "ok (device w)" "length (content (device w)) \<le> storage_limit"
    and i: "currentFileIndex c < 134217728"
      "32 * currentFileIndex c + length (header c) \<le> length (content (device w))"
    and l: "length (header c) < 65536"
  obtains d where "Chunk_load K True c w = Some (NoStatus,
      c\<lparr>header := take (length (header c)) (drop (32 * currentFileIndex c) (content (device w)))\<rparr>, w\<lparr>device := d\<rparr>)"
    "ok d" "content d = content (device w)" "cursor d = 32 * currentFileIndex c + length (header c)"
proof -
  let ?p = "32 * currentFileIndex c"
  have p: "?p \<le> length (content (device w))" using i by simp
  from container_setPosition_law [OF w(1) p w(2)] obtain d1 where
    d1: "container_setPosition K ?p w = Some (NoStatus, w\<lparr>device := d1\<rparr>)" "ok d1"
      "content d1 = content (device w)" "cursor d1 = ?p" .
  let ?w = "w\<lparr>device := d1\<rparr>" and ?n = "length (header c)"
  have "ok (device ?w)" "cursor (device ?w) + ?n \<le> length (content (device ?w))"
    "length (content (device ?w)) \<le> storage_limit" "?n < 4294967296"
    using d1 i w l by simp_all
  from container_read_law [OF this] obtain d2 where
    d2: "container_read K ?n ?w = Some (ReadSuccessful ?n, take ?n (drop ?p (content (device w))), w\<lparr>device := d2\<rparr>)"
      "ok d2" "content d2 = content (device w)" "cursor d2 = ?p + ?n"
    using d1 by auto
  have "overlay (header c) 0 (take ?n (drop ?p (content (device w)))) = take ?n (drop ?p (content (device w)))"
    using i by (simp add: overlay_def)
  then have "Chunk_load K True c w = Some (NoStatus,
      c\<lparr>header := take ?n (drop ?p (content (device w)))\<rparr>, w\<lparr>device := d2\<rparr>)"
    using d1(1) d2(1) i by (simp add: Chunk_load_def toPosition_id fullHeaderSizeBytes_def Let_def)
  with d2 that show ?thesis by blast
qed

lemma Chunk_load_additional_law:
  assumes w: "ok (device w)" "length (content (device w)) \<le> storage_limit"
    and i: "currentFileIndex c < 134217728"
      "32 * currentFileIndex c + length (header c) \<le> length (content (device w))"
    and l: "4 \<le> length (header c)" "length (header c) < 65536"
  obtains d where "Chunk_load K False c w = Some (NoStatus,
      c\<lparr>header := take 4 (header c) @
        take (length (header c) - 4) (drop (32 * currentFileIndex c + 4) (content (device w)))\<rparr>, w\<lparr>device := d\<rparr>)"
    "ok d" "content d = content (device w)" "cursor d = 32 * currentFileIndex c + length (header c)"
proof -
  let ?p = "32 * currentFileIndex c + 4"
  have p: "?p \<le> length (content (device w))" using i l by simp
  from container_setPosition_law [OF w(1) p w(2)] obtain d1 where
    d1: "container_setPosition K ?p w = Some (NoStatus, w\<lparr>device := d1\<rparr>)" "ok d1"
      "content d1 = content (device w)" "cursor d1 = ?p" .
  let ?w = "w\<lparr>device := d1\<rparr>" and ?n = "length (header c) - 4"
  have "ok (device ?w)" "cursor (device ?w) + ?n \<le> length (content (device ?w))"
    "length (content (device ?w)) \<le> storage_limit" "?n < 4294967296"
    using d1 i w l by simp_all
  from container_read_law [OF this] obtain d2 where
    d2: "container_read K ?n ?w = Some (ReadSuccessful ?n, take ?n (drop ?p (content (device w))), w\<lparr>device := d2\<rparr>)"
      "ok d2" "content d2 = content (device w)" "cursor d2 = ?p + ?n"
    using d1 by auto
  have "overlay (header c) 4 (take ?n (drop ?p (content (device w)))) =
      take 4 (header c) @ take ?n (drop ?p (content (device w)))"
    using i by (simp add: overlay_def)
  moreover have "u64 (toPosition (currentFileIndex c) + 4) = ?p" "sub32 (length (header c)) 4 = ?n"
    using i l by (simp_all add: toPosition_id u64_id sub32_id)
  ultimately have "Chunk_load K False c w = Some (NoStatus,
      c\<lparr>header := take 4 (header c) @ take ?n (drop ?p (content (device w)))\<rparr>, w\<lparr>device := d2\<rparr>)"
    using d1(1) d2(1) i l by (simp add: Chunk_load_def additionalHeaderSizeBytes_def Let_def)
  with d2 that l show ?thesis by simp
qed

end

end
