(* ===== verification/Stream_Chunk.thy ===== *)
theory Stream_Chunk
  imports Chunk Memory_Container
begin

unbundle bit_operations_syntax

text \<open>
  Chunks that belong to a stream: \<open>StreamChunk\<close> (\<open>stream_chunk.cpp\<close>) with its 31-bit stream
  identifier and the mark of the last chunk in bytes 4 to 7 of the header array, and
  \<open>StreamStartChunk\<close> (\<open>stream_start_chunk.cpp\<close>) with the zero-terminated name of the
  virtual file in the 120 bytes after that. \<open>additionalHeader()\<close> of these classes is the
  header array from byte 4 and from byte 8.
\<close>

subsection \<open>Stream chunks\<close>

definition invalidStreamIdentifier :: nat where
  [simp]: "invalidStreamIdentifier = 4294967295"

definition numberAdditionalStreamHeaderBytes :: nat where
  [simp]: "numberAdditionalStreamHeaderBytes = 4"

definition setStreamIdentifier :: "nat \<Rightarrow> 'a chunk_header_scheme \<Rightarrow> 'a chunk_header_scheme" where
  "setStreamIdentifier newStreamIdentifier c = (
     let x = word_of_nat newStreamIdentifier :: 32 word;
         c = set_header_byte 4 (ucast x) c;
         c = set_header_byte 5 (ucast (drop_bit 8 x)) c;
         c = set_header_byte 6 (ucast (drop_bit 16 x)) c
     in set_header_byte 7 ((ucast (drop_bit 24 x) AND 0x7F) OR (header_byte 7 c AND 0x80)) c)"

definition streamIdentifier :: "'a chunk_header_scheme \<Rightarrow> nat" where
  "streamIdentifier c =
     unat ((ucast (header_byte 4 c) OR push_bit 8 (ucast (header_byte 5 c)) OR
            push_bit 16 (ucast (header_byte 6 c)) OR push_bit 24 (ucast (header_byte 7 c)))
           AND (0x7FFFFFFF :: 32 word))"

definition setLast :: "bool \<Rightarrow> 'a chunk_header_scheme \<Rightarrow> 'a chunk_header_scheme" where
  "setLast nowLast c =
     (if nowLast then set_header_byte 7 (header_byte 7 c OR 0x80) c
      else set_header_byte 7 (header_byte 7 c AND 0x7F) c)"

definition isLast :: "'a chunk_header_scheme \<Rightarrow> bool" where
  "isLast c \<longleftrightarrow> header_byte 7 c AND 0x80 \<noteq> 0"

definition stream_additionalHeader :: "'a chunk_header_scheme \<Rightarrow> byte list" where
  "stream_additionalHeader c = drop numberAdditionalStreamHeaderBytes (additionalHeader c)"

definition stream_additionalHeaderSizeBytes :: "'a chunk_header_scheme \<Rightarrow> nat" where
  "stream_additionalHeaderSizeBytes c =
     sub32 (additionalHeaderSizeBytes c) numberAdditionalStreamHeaderBytes"

definition StreamChunk :: "(nat \<Rightarrow> byte) \<Rightarrow> nat \<Rightarrow> nat \<Rightarrow> nat \<Rightarrow> chunk option" where
  "StreamChunk uninit index sid additionalChunkHeaderSizeBytes = do {
     c \<leftarrow> Chunk uninit index (numberAdditionalStreamHeaderBytes + additionalChunkHeaderSizeBytes);
     Some (setStreamIdentifier sid (setLast False c))
   }"

definition StreamChunk_common :: "(nat \<Rightarrow> byte) \<Rightarrow> nat \<Rightarrow> byte list \<Rightarrow> nat \<Rightarrow> chunk option" where
  "StreamChunk_common uninit index commonHeader additionalChunkHeaderSizeBytes = do {
     c \<leftarrow> Chunk_common uninit index commonHeader
       (numberAdditionalStreamHeaderBytes + additionalChunkHeaderSizeBytes);
     Some (c\<lparr>header := overlay (header c) 4 [0, 0, 0, 0]\<rparr>)
   }"

subsection \<open>Stream start chunks\<close>

definition maximumVirtualFilenameLength :: nat where
  [simp]: "maximumVirtualFilenameLength = 119"

definition numberStartHeaderBytes :: nat where
  [simp]: "numberStartHeaderBytes = 120"

text \<open>\<open>strncpy\<close> stops at the terminator of its source and pads the destination with zeros.\<close>

definition strncpy :: "byte list \<Rightarrow> nat \<Rightarrow> byte list" where
  "strncpy src n = (let s = take n (takeWhile (\<lambda>b. b \<noteq> 0) src) in s @ replicate (n - length s) 0)"

definition setVirtualFilename :: "string \<Rightarrow> 'a chunk_header_scheme \<Rightarrow> 'a chunk_header_scheme option" where
  "setVirtualFilename newVirtualFilename c = do {
     let bytesWritten = u32 (length newVirtualFilename + 1);
     let c = c\<lparr>header := overlay (header c) 8
       (strncpy (map byte_of_char newVirtualFilename) maximumVirtualFilenameLength)\<rparr>;
     let cleared = sub32 maximumVirtualFilenameLength bytesWritten;
     assertion (8 + bytesWritten + cleared \<le> length (header c));
     Some (c\<lparr>header := overlay (header c) (8 + bytesWritten) (replicate cleared 0)\<rparr>)
   }"

text \<open>The last byte of \<open>filenameBuffer\<close> is never set, so a name without terminator is undefined.\<close>

definition virtualFilename :: "'a chunk_header_scheme \<Rightarrow> string option" where
  "virtualFilename c = (
     let filenameBuffer = strncpy (stream_additionalHeader c) maximumVirtualFilenameLength
     in do {
       assertion (0 \<in> set filenameBuffer);
       Some (map char_of_byte (takeWhile (\<lambda>b. b \<noteq> 0) filenameBuffer))
     })"

definition StreamStartChunk :: "(nat \<Rightarrow> byte) \<Rightarrow> nat \<Rightarrow> string \<Rightarrow> nat \<Rightarrow> chunk option" where
  "StreamStartChunk uninit index name sid = do {
     c \<leftarrow> StreamChunk uninit index sid numberStartHeaderBytes;
     setVirtualFilename name (setType STREAM_START_CHUNK c)
   }"

definition StreamStartChunk_common :: "(nat \<Rightarrow> byte) \<Rightarrow> nat \<Rightarrow> byte list \<Rightarrow> chunk option" where
  "StreamStartChunk_common uninit index commonHeader = do {
     c \<leftarrow> StreamChunk_common uninit index commonHeader numberStartHeaderBytes;
     Some (c\<lparr>header := overlay (header c) 8 (replicate numberStartHeaderBytes 0)\<rparr>)
   }"

subsection \<open>Reading back the fields\<close>

lemma header_byte_add: "i + j < length (header c) \<Longrightarrow> header_byte (i + j) c = drop i (header c) ! j"
  by (simp add: header_byte_def)

lemma bit_high_byte: "bit (0x80 :: int) k \<longleftrightarrow> k = 7"
proof -
  have "bit (push_bit 7 1 :: int) k \<longleftrightarrow> k = 7"
    unfolding bit_push_bit_iff bit_1_iff by auto
  then show ?thesis by simp
qed

lemma stream_identifier_word:
  fixes x :: "32 word" and h :: byte
  shows "(ucast (ucast x :: byte) OR push_bit 8 (ucast (ucast (drop_bit 8 x) :: byte)) OR
      push_bit 16 (ucast (ucast (drop_bit 16 x) :: byte)) OR
      push_bit 24 (ucast ((ucast (drop_bit 24 x) AND 0x7F) OR (h AND 0x80) :: byte)))
    AND (0x7FFFFFFF :: 32 word) = x AND 0x7FFFFFFF"
proof -
  have m: "(0x7FFFFFFF :: 32 word) = mask 31" by (simp add: mask_eq_exp_minus_1)
  have n: "(0x7F :: byte) = mask 7" by (simp add: mask_eq_exp_minus_1)
  show ?thesis
    unfolding m n
    by (rule bit_word_eqI)
      (auto simp: bit_or_iff bit_and_iff bit_push_bit_iff bit_unsigned_iff bit_drop_bit_eq bit_mask_iff bit_high_byte)
qed

lemma last_mark_word:
  fixes h y :: byte
  shows "((y AND 0x7F) OR (h AND 0x80)) AND 0x80 = h AND 0x80"
    "(h OR 0x80) AND 0x80 = 0x80" "(h AND 0x7F) AND 0x80 = 0"
  by (simp_all add: bit.conj_disj_distrib2 and.assoc)


lemma unat_and_low_31: "unat (x AND 0x7FFFFFFF :: 32 word) = unat x mod 2147483648"
proof -
  have "x AND 0x7FFFFFFF = take_bit 31 x" by (simp add: take_bit_eq_mask mask_eq_exp_minus_1)
  then show ?thesis by (simp only: unsigned_take_bit_eq) (simp add: take_bit_eq_mod)
qed

lemma stream_identifier_last:
  fixes a b d :: "32 word" and h :: byte
  shows "(a OR b OR d OR push_bit 24 (ucast (h OR 0x80))) AND 0x7FFFFFFF = (a OR b OR d OR push_bit 24 (ucast h)) AND 0x7FFFFFFF"
    "(a OR b OR d OR push_bit 24 (ucast (h AND 0x7F))) AND 0x7FFFFFFF = (a OR b OR d OR push_bit 24 (ucast h)) AND 0x7FFFFFFF"
proof -
  have m: "(0x7FFFFFFF :: 32 word) = mask 31" "(0x7F :: byte) = mask 7" by (simp_all add: mask_eq_exp_minus_1)
  show "(a OR b OR d OR push_bit 24 (ucast (h OR 0x80))) AND 0x7FFFFFFF = (a OR b OR d OR push_bit 24 (ucast h)) AND 0x7FFFFFFF"
    "(a OR b OR d OR push_bit 24 (ucast (h AND 0x7F))) AND 0x7FFFFFFF = (a OR b OR d OR push_bit 24 (ucast h)) AND 0x7FFFFFFF"
    unfolding m
    by (rule bit_word_eqI, auto simp: bit_or_iff bit_and_iff bit_push_bit_iff bit_unsigned_iff bit_mask_iff
        bit_high_byte)+
qed

named_theorems stream_fields "fields of a stream chunk after the operations"

lemma setStreamIdentifier_fields [stream_fields]:
  assumes "8 \<le> length (header c)"
  shows "streamIdentifier (setStreamIdentifier n c) = n mod 2147483648"
    "isLast (setStreamIdentifier n c) = isLast c"
    "take 4 (header (setStreamIdentifier n c)) = take 4 (header c)"
    "drop 8 (header (setStreamIdentifier n c)) = drop 8 (header c)"
    "length (header (setStreamIdentifier n c)) = length (header c)"
proof -
  have l: "4 < length (header c)" "5 < length (header c)" "6 < length (header c)" "7 < length (header c)"
    using assms by simp_all
  show "streamIdentifier (setStreamIdentifier n c) = n mod 2147483648"
    unfolding streamIdentifier_def setStreamIdentifier_def Let_def
    using l by (simp add: stream_identifier_word unat_and_low_31 unat_of_nat mod_mod_cancel del: unsigned_and_eq)
  show "isLast (setStreamIdentifier n c) = isLast c"
    using l by (simp add: isLast_def setStreamIdentifier_def Let_def last_mark_word)
qed (simp_all add: setStreamIdentifier_def Let_def set_header_byte_def)

lemma setLast_fields [stream_fields]:
  assumes "8 \<le> length (header c)"
  shows "isLast (setLast b c) = b" "streamIdentifier (setLast b c) = streamIdentifier c"
    "take 4 (header (setLast b c)) = take 4 (header c)"
    "drop 8 (header (setLast b c)) = drop 8 (header c)"
    "length (header (setLast b c)) = length (header c)"
proof -
  have l: "4 < length (header c)" "5 < length (header c)" "6 < length (header c)" "7 < length (header c)"
    using assms by simp_all
  show "isLast (setLast b c) = b"
    using l by (simp add: isLast_def setLast_def last_mark_word)
  show "streamIdentifier (setLast b c) = streamIdentifier c"
    using l by (simp add: streamIdentifier_def setLast_def stream_identifier_last del: unsigned_and_eq unsigned_or_eq)
qed (simp_all add: setLast_def set_header_byte_def)

subsection \<open>The name of a virtual file\<close>

definition c_string :: "string \<Rightarrow> bool" where
  "c_string s \<longleftrightarrow> CHR 0x00 \<notin> set s"

lemma byte_of_char_eq_0 [simp]: "byte_of_char c = 0 \<longleftrightarrow> c = CHR 0x00"
proof -
  have "byte_of_char (CHR 0x00) = 0" by (simp add: byte_of_char_def)
  then show ?thesis by (metis byte_of_char_inj injD)
qed

lemma c_string_takeWhile:
  assumes "c_string s"
  shows "takeWhile (\<lambda>b. b \<noteq> 0) (map byte_of_char s @ 0 # rest) = map byte_of_char s"
    "takeWhile (\<lambda>b. b \<noteq> 0) (map byte_of_char s) = map byte_of_char s"
proof -
  have "\<forall>b \<in> set (map byte_of_char s). b \<noteq> 0"
    using assms by (auto simp: c_string_def)
  then show "takeWhile (\<lambda>b. b \<noteq> 0) (map byte_of_char s @ 0 # rest) = map byte_of_char s"
    "takeWhile (\<lambda>b. b \<noteq> 0) (map byte_of_char s) = map byte_of_char s"
    by (simp_all only: takeWhile_append2 takeWhile_eq_all_conv simp_thms takeWhile.simps if_False append_Nil2)
qed

lemma overlay_middle: "i = length xs \<Longrightarrow> length zs = length ys \<Longrightarrow> overlay (xs @ ys @ rest) i zs = xs @ zs @ rest"
  by (simp add: overlay_def)

lemma setVirtualFilename_eq:
  assumes "c_string s" "length s \<le> 118" "length (header c) = 128"
  shows "setVirtualFilename s c = Some (c\<lparr>header :=
    take 8 (header c) @ map byte_of_char s @ replicate (119 - length s) 0 @ drop 127 (header c)\<rparr>)"
proof -
  let ?n = "length s" and ?b = "map byte_of_char s"
  have w: "u32 (?n + 1) = ?n + 1" "sub32 119 (?n + 1) = 118 - ?n"
    using assms(2) by (simp_all add: u32_id sub32_id)
  have sc: "strncpy ?b 119 = ?b @ replicate (119 - ?n) 0"
    using assms by (simp add: strncpy_def c_string_takeWhile)
  let ?h = "overlay (header c) 8 (?b @ replicate (119 - ?n) 0)"
  have h: "?h = take 8 (header c) @ ?b @ replicate (119 - ?n) 0 @ drop 127 (header c)"
    using assms by (simp add: overlay_def)
  have "replicate (119 - ?n) 0 = 0 # replicate (118 - ?n) (0 :: byte)"
    using assms(2) by (simp flip: replicate_Suc add: Suc_diff_le)
  then have h': "?h = (take 8 (header c) @ ?b @ [0]) @ replicate (118 - ?n) 0 @ drop 127 (header c)"
    unfolding h by simp
  have "overlay ?h (?n + 9) (replicate (118 - ?n) 0) = ?h"
    unfolding h' by (rule overlay_middle) (use assms in simp_all)
  with w sc assms show ?thesis
    by (simp add: setVirtualFilename_def h length_overlay Let_def add.commute [of 9])
qed

lemma virtualFilename_stored:
  assumes "c_string s" "length s \<le> 118" "stream_additionalHeader c = map byte_of_char s @ replicate (119 - length s) 0 @ rest"
  shows "virtualFilename c = Some s"
proof -
  have r: "replicate (119 - length s) 0 = 0 # replicate (118 - length s) (0 :: byte)"
    using assms(2) by (simp flip: replicate_Suc add: Suc_diff_le)
  have "stream_additionalHeader c = map byte_of_char s @ 0 # replicate (118 - length s) 0 @ rest"
    by (simp add: assms(3) r)
  then have "takeWhile (\<lambda>b. b \<noteq> 0) (stream_additionalHeader c) = map byte_of_char s"
    using assms(1) by (simp only: c_string_takeWhile)
  then have "strncpy (stream_additionalHeader c) 119 = map byte_of_char s @ replicate (119 - length s) 0"
    using assms(2) by (simp add: strncpy_def)
  then show ?thesis
    using assms(1,2) by (simp add: virtualFilename_def r c_string_takeWhile Let_def comp_def)
qed

text \<open>
  C35. The name of a virtual file of at most 118 characters, none of them the terminator, is read
  back from the header it was stored in, whatever the header held before, and storing it keeps
  type, sizes, stream identifier and last mark. A name of 119 characters or more leaves the
  defined behaviour: the count passed to \<open>memset\<close> wraps around below zero.
\<close>
theorem virtual_filename_roundtrip:
  assumes "length (header c) = 128"
  shows "(c_string s \<and> length s \<le> 118 \<longrightarrow>
      (\<exists>c'. setVirtualFilename s c = Some c' \<and> virtualFilename c' = Some s \<and>
        take 8 (header c') = take 8 (header c) \<and> length (header c') = 128)) \<and>
    (119 \<le> length s \<and> length s < 4294967295 \<longrightarrow> setVirtualFilename s c = None)"
proof (intro conjI impI)
  assume s: "c_string s \<and> length s \<le> 118"
  then have "setVirtualFilename s c = Some (c\<lparr>header :=
      take 8 (header c) @ map byte_of_char s @ replicate (119 - length s) 0 @ drop 127 (header c)\<rparr>)"
    using setVirtualFilename_eq assms by blast
  moreover have "virtualFilename (c\<lparr>header :=
      take 8 (header c) @ map byte_of_char s @ replicate (119 - length s) 0 @ drop 127 (header c)\<rparr>) = Some s"
    by (rule virtualFilename_stored [where rest = "drop 127 (header c)"])
      (use s assms in \<open>simp_all add: stream_additionalHeader_def additionalHeader_def\<close>)
  ultimately show "\<exists>c'. setVirtualFilename s c = Some c' \<and> virtualFilename c' = Some s \<and>
      take 8 (header c') = take 8 (header c) \<and> length (header c') = 128"
    using s assms by auto
next
  assume s: "119 \<le> length s \<and> length s < 4294967295"
  then have "u32 (length s + 1) = length s + 1" "sub32 119 (length s + 1) = 119 + 4294967296 - (length s + 1)"
    by (simp_all add: u32_id sub32_wraps)
  then have "length (header c) < 8 + u32 (length s + 1) + sub32 119 (u32 (length s + 1))"
    using s assms by simp
  then have "assertion (8 + u32 (length s + 1) + sub32 119 (u32 (length s + 1)) \<le> length (header c)) = None"
    by (simp add: assertion_def)
  moreover have "length (overlay (header c) 8 (strncpy (map byte_of_char s) 119)) = length (header c)"
    using assms by (simp add: strncpy_def Let_def)
  ultimately show "setVirtualFilename s c = None"
    by (simp add: setVirtualFilename_def Let_def)
qed

theorem virtual_filename_roundtrip_witness:
  "(\<exists>c'. setVirtualFilename ''log'' \<lparr>header = replicate 128 (7 :: byte)\<rparr> = Some c' \<and> virtualFilename c' = Some ''log'') \<and>
   setVirtualFilename (replicate 119 CHR ''x'') \<lparr>header = replicate 128 (7 :: byte)\<rparr> = None"
  using virtual_filename_roundtrip [of "\<lparr>header = replicate 128 (7 :: byte)\<rparr>" "''log''"]
    virtual_filename_roundtrip [of "\<lparr>header = replicate 128 (7 :: byte)\<rparr>" "replicate 119 CHR ''x''"]
  by (auto simp: c_string_def)

text \<open>
  C36. Stream identifier and last mark share a byte of the header without disturbing each other:
  after any order of setting both, the identifier reads back modulo 2^31, the mark reads back
  as set, and no byte outside the four of the stream header changed.
\<close>
theorem stream_header_roundtrip:
  assumes "8 \<le> length (header c)"
  shows "streamIdentifier (setLast b (setStreamIdentifier n c)) = n mod 2147483648 \<and>
    isLast (setLast b (setStreamIdentifier n c)) = b \<and>
    streamIdentifier (setStreamIdentifier n (setLast b c)) = n mod 2147483648 \<and>
    isLast (setStreamIdentifier n (setLast b c)) = b \<and>
    take 4 (header (setLast b (setStreamIdentifier n c))) = take 4 (header c) \<and>
    drop 8 (header (setLast b (setStreamIdentifier n c))) = drop 8 (header c)"
  using assms by (simp add: stream_fields)

theorem stream_header_roundtrip_witness:
  "streamIdentifier (setLast True (setStreamIdentifier 4294967295 \<lparr>header = [0x80, 3, 0, 0, 9, 9, 9, 9, 5]\<rparr>)) =
   4294967295 mod 2147483648"
  using stream_header_roundtrip [of "\<lparr>header = [0x80, 3, 0, 0, 9, 9, 9, 9, 5]\<rparr>" True 4294967295] by simp

subsection \<open>What the constructors establish\<close>

lemma header_common_cong:
  assumes "take 4 (header c) = take 4 (header d)" "4 \<le> length (header c)" "4 \<le> length (header d)"
  shows "header_type c = header_type d" "chunkSize c = chunkSize d"
    "numberValidBytes c = numberValidBytes d" "crc c = crc d"
proof -
  have "header_byte i c = header_byte i d" if "i < 4" for i
    using arg_cong [OF assms(1), of "\<lambda>l. l ! i"] that assms(2,3) by (simp add: header_byte_def)
  then show "header_type c = header_type d" "chunkSize c = chunkSize d"
    "numberValidBytes c = numberValidBytes d" "crc c = crc d"
    by (simp_all add: header_type_def chunkSize_def numberValidBytes_def crc_def)
qed

lemma stream_header_cong:
  assumes "take 4 (drop 4 (header c)) = take 4 (drop 4 (header d))" "8 \<le> length (header c)" "8 \<le> length (header d)"
  shows "streamIdentifier c = streamIdentifier d" "isLast c = isLast d"
proof -
  have "header_byte (4 + i) c = header_byte (4 + i) d" if "i < 4" for i
    using arg_cong [OF assms(1), of "\<lambda>l. l ! i"] that assms(2,3) by (simp add: header_byte_def)
  from this [of 0] this [of 1] this [of 2] this [of 3]
  show "streamIdentifier c = streamIdentifier d" "isLast c = isLast d"
    by (simp_all add: streamIdentifier_def isLast_def)
qed

lemma chunk_frame [simp]:
  "currentFileIndex (set_header_byte i b c) = currentFileIndex c"
  "currentFileIndex (setType t c) = currentFileIndex c"
  "currentFileIndex (setCrc v c) = currentFileIndex c"
  "currentFileIndex (setLast l c) = currentFileIndex c"
  "currentFileIndex (setStreamIdentifier n c) = currentFileIndex c"
  "currentFileIndex (chunk_of_header n h) = n" "header (chunk_of_header n h) = header h"
  by (simp_all add: set_header_byte_def setType_def setCrc_def setLast_def setStreamIdentifier_def Let_def
      chunk_of_header_def)

lemma header_only:
  "header_type (chunk_of_header n h) = header_type h" "chunkSize (chunk_of_header n h) = chunkSize h"
  "numberValidBytes (chunk_of_header n h) = numberValidBytes h"
  by (simp_all add: header_type_def chunkSize_def numberValidBytes_def header_byte_def)

lemma StreamChunk_establishes:
  assumes "n \<le> 4088"
  obtains c where "StreamChunk uninit index sid n = Some c" "length (header c) = n + 8"
    "numberValidBytes c = n + 4" "chunkSize c = fit_size (n + 8)"
    "streamIdentifier c = sid mod 2147483648" "\<not> isLast c" "currentFileIndex c = index"
proof -
  from ChunkHeader_establishes [of "4 + n" uninit] assms obtain h where
    h: "ChunkHeader uninit (4 + n) = Some h" "length (header h) = n + 8" "numberValidBytes h = n + 4"
      "chunkSize h = fit_size (n + 8)" by (auto simp: ac_simps)
  let ?c = "chunk_of_header index h"
  let ?s = "setStreamIdentifier sid (setLast False ?c)"
  have len: "8 \<le> length (header ?c)" "length (header ?c) = n + 8" using h by simp_all
  then have l: "8 \<le> length (header (setLast False ?c))" by (simp add: stream_fields)
  have t: "take 4 (header ?s) = take 4 (header ?c)" using len l by (simp add: stream_fields)
  have "StreamChunk uninit index sid n = Some ?s"
    using h by (simp add: StreamChunk_def Chunk_def)
  with that [of ?s] show ?thesis
    using header_common_cong [OF t] len l h by (simp add: stream_fields header_only)
qed

text \<open>The chunk that starts a virtual file.\<close>

lemma StreamStartChunk_establishes:
  assumes "c_string name" "length name \<le> 118"
  obtains c where "StreamStartChunk uninit index name sid = Some c" "length (header c) = 128"
    "numberValidBytes c = 124" "chunkSize c = 128" "header_type c = STREAM_START_CHUNK"
    "streamIdentifier c = sid mod 2147483648" "virtualFilename c = Some name" "currentFileIndex c = index"
proof -
  have "(120 :: nat) \<le> 4088" by simp
  from StreamChunk_establishes [OF this, where uninit = uninit and index = index and sid = sid] obtain s where
    s: "StreamChunk uninit index sid 120 = Some s" "length (header s) = 128" "numberValidBytes s = 124"
      "chunkSize s = 128" "streamIdentifier s = sid mod 2147483648" "currentFileIndex s = index"
    by (auto simp: fit_size_def)
  let ?t = "setType STREAM_START_CHUNK s"
  have pos: "0 < length (header s)" using s(2) by simp
  have t: "length (header ?t) = 128" "numberValidBytes ?t = 124" "chunkSize ?t = 128" "header_type ?t = STREAM_START_CHUNK"
    using s pos setType_fields [of s STREAM_START_CHUNK] by simp_all
  have "take 4 (drop 4 (header ?t)) = take 4 (drop 4 (header s))"
    by (simp add: setType_def)
  then have id: "streamIdentifier ?t = sid mod 2147483648"
    using stream_header_cong [of ?t s] s t by simp
  let ?h = "take 8 (header ?t) @ map byte_of_char name @ replicate (119 - length name) 0 @ drop 127 (header ?t)"
  let ?c = "?t\<lparr>header := ?h\<rparr>"
  have eq: "StreamStartChunk uninit index name sid = Some ?c"
    using s setVirtualFilename_eq [OF assms t(1)] by (simp add: StreamStartChunk_def)
  have len: "length (header ?c) = 128" using assms t by simp
  have name: "virtualFilename ?c = Some name"
    by (rule virtualFilename_stored [OF assms, where rest = "drop 127 (header ?t)"])
      (use t(1) in \<open>simp add: stream_additionalHeader_def additionalHeader_def\<close>)
  have t4: "take 4 (header ?c) = take 4 (header ?t)" "take 4 (drop 4 (header ?c)) = take 4 (drop 4 (header ?t))"
    using t(1) by (simp_all add: take_drop)
  show ?thesis
    by (rule that [OF eq len])
      (use header_common_cong [OF t4(1)] stream_header_cong [OF t4(2)] t id len name s(6) in simp_all)
qed

lemma StreamStartChunk_common_establishes:
  assumes "length common = 4"
  obtains c where "StreamStartChunk_common uninit index common = Some c" "length (header c) = 128"
    "take 4 (header c) = common" "currentFileIndex c = index"
proof -
  let ?c = "chunk_of_header index \<lparr>header = common @ drop 4 (new_array uninit 128)\<rparr>"
  let ?s = "?c\<lparr>header := overlay (header ?c) 4 [0, 0, 0, 0]\<rparr>"
  let ?t = "?s\<lparr>header := overlay (header ?s) 8 (replicate 120 0)\<rparr>"
  have "StreamStartChunk_common uninit index common = Some ?t"
    using ChunkHeader_common_eq [of 124 common uninit] assms
    by (simp add: StreamStartChunk_common_def StreamChunk_common_def Chunk_common_def)
  moreover have "length (header ?t) = 128" "take 4 (header ?t) = common"
    using assms by (simp_all add: overlay_simps)
  ultimately show ?thesis using that by simp
qed

subsection \<open>A stored chunk is found again\<close>

lemma take_drop_split: "take m (drop p xs) @ take n (drop (p + m) xs) = take (m + n) (drop p xs)"
  by (simp add: take_add add.commute)

text \<open>
  The header array a chunk of \<open>n\<close> header bytes has in the bytes of the medium, as a chunk that
  is loaded from there sees it.
\<close>

definition stored_header :: "nat \<Rightarrow> byte list \<Rightarrow> nat \<Rightarrow> chunk_header" where
  "stored_header n bytes index = \<lparr>header = take n (drop (32 * index) bytes)\<rparr>"

lemma Chunk_updateCrc_fields [chunk_fields]:
  assumes "4 \<le> length (header c)"
  shows "header_type (Chunk_updateCrc c) = header_type c" "chunkSize (Chunk_updateCrc c) = chunkSize c"
    "numberValidBytes (Chunk_updateCrc c) = numberValidBytes c"
    "length (header (Chunk_updateCrc c)) = length (header c)"
    "drop 4 (header (Chunk_updateCrc c)) = drop 4 (header c)" "Chunk_checkCrc (Chunk_updateCrc c)"
  using assms setCrc_fields(6) [OF assms, of "initializeCrc c"]
  by (simp_all add: Chunk_updateCrc_def Chunk_checkCrc_def crc_setCrc setCrc_fields additionalHeader_def)

lemma Chunk_updateCrc_frame [simp]: "currentFileIndex (Chunk_updateCrc c) = currentFileIndex c"
  by (simp add: Chunk_updateCrc_def)

context storage
begin

lemma stream_start_chunk_law:
  assumes w: "ok (device w)" "length (content (device w)) \<le> storage_limit"
    and i: "32 * index \<le> length (content (device w))" "32 * index + 128 \<le> storage_limit"
    and n: "c_string name" "length name \<le> 118"
  obtains c c' d seed where "StreamStartChunk uninit index name sid = Some c"
    "Chunk_save K (\<lambda>c. Some (Chunk_updateCrc c)) True c w = Some (NoStatus, c', w\<lparr>device := d, randomSeed := seed\<rparr>)"
    "ok d" "content d = overlay (content (device w)) (32 * index) (header c')" "length (header c') = 128"
    "header_type c' = STREAM_START_CHUNK" "chunkSize c' = 128" "streamIdentifier c' = sid mod 2147483648"
    "virtualFilename c' = Some name" "Chunk_checkCrc c'" "currentFileIndex c' = index" "numberValidBytes c' = 124"
proof -
  from StreamStartChunk_establishes [OF n, where uninit = uninit and index = index and sid = sid] obtain c where
    c: "StreamStartChunk uninit index name sid = Some c" "length (header c) = 128"
      "numberValidBytes c = 124" "chunkSize c = 128" "header_type c = STREAM_START_CHUNK"
      "streamIdentifier c = sid mod 2147483648" "virtualFilename c = Some name" "currentFileIndex c = index" .
  let ?c = "Chunk_updateCrc c"
  have l4: "4 \<le> length (header c)" using c(2) by simp
  note u = Chunk_updateCrc_fields [OF l4]
  have d4: "take 4 (drop 4 (header ?c)) = take 4 (drop 4 (header c))" "drop 8 (header ?c) = drop 8 (header c)"
    using arg_cong [OF u(5), of "drop 4"] by (simp add: u(5), simp)
  have f: "streamIdentifier ?c = sid mod 2147483648" "virtualFilename ?c = Some name"
    using stream_header_cong [OF d4(1)] c u(4) d4(2)
    by (simp_all add: virtualFilename_def stream_additionalHeader_def additionalHeader_def)
  have idx: "currentFileIndex c < 134217728" "32 * currentFileIndex c \<le> length (content (device w))"
    using i c(8) by (simp_all add: storage_limit_def)
  have sz: "length (header ?c) \<le> chunkSize ?c" "32 * currentFileIndex c + chunkSize ?c \<le> storage_limit"
    using c u i by simp_all
  from Chunk_save_law [where upd = "\<lambda>c. Some (Chunk_updateCrc c)", OF w idx refl Chunk_updateCrc_frame sz]
  obtain d seed tl where
    d: "Chunk_save K (\<lambda>c. Some (Chunk_updateCrc c)) True c w = Some (NoStatus, ?c, w\<lparr>device := d, randomSeed := seed\<rparr>)"
      "ok d" "content d = overlay (content (device w)) (32 * currentFileIndex c) (header ?c @ tl)"
      "length (header ?c @ tl) = chunkSize ?c" .
  have "tl = []" using d(4) c u by simp
  with d c u f that [of c ?c] show ?thesis by simp
qed

lemma stream_start_load_law:
  assumes w: "ok (device w)" "length (content (device w)) \<le> storage_limit"
    and i: "32 * index + 128 \<le> length (content (device w))"
    and bytes: "bytes = take 128 (drop (32 * index) (content (device w)))"
  obtains l d l' where "StreamStartChunk_common uninit index (take 4 bytes) = Some l"
    "Chunk_load K False l w = Some (NoStatus, l', w\<lparr>device := d\<rparr>)" "header l' = bytes"
    "currentFileIndex l' = index" "ok d" "content d = content (device w)"
proof -
  have "length (take 4 bytes) = 4" using i bytes by simp
  from StreamStartChunk_common_establishes [OF this, where uninit = uninit and index = index] obtain l where
    l: "StreamStartChunk_common uninit index (take 4 bytes) = Some l" "length (header l) = 128"
      "take 4 (header l) = take 4 bytes" "currentFileIndex l = index" .
  have "currentFileIndex l < 134217728" "32 * currentFileIndex l + length (header l) \<le> length (content (device w))"
    "4 \<le> length (header l)" "length (header l) < 65536"
    using l i w by (simp_all add: storage_limit_def)
  from Chunk_load_additional_law [OF w this] obtain d where
    d: "Chunk_load K False l w = Some (NoStatus, l\<lparr>header := take 4 (header l) @
        take (length (header l) - 4) (drop (32 * currentFileIndex l + 4) (content (device w)))\<rparr>, w\<lparr>device := d\<rparr>)"
      "ok d" "content d = content (device w)" by blast
  have "take 4 (drop (32 * index) (content (device w))) @ take 124 (drop (32 * index + 4) (content (device w)))
      = take 128 (drop (32 * index) (content (device w)))"
    using take_drop_split [of 4 "32 * index" "content (device w)" 124] by simp
  then have "take 4 bytes @ take 124 (drop (32 * index + 4) (content (device w))) = bytes"
    by (simp add: bytes min_def)
  with d l that show ?thesis by simp
qed

end

text \<open>
  C33. A stream start chunk that is saved into a medium is recovered from it: the four common
  bytes read at its position describe a chunk of that type and size, and the chunk built from
  them and loaded has the stream identifier and the file name it was created with and a valid
  CRC. Saving writes exactly the chunk's area of the medium, and all of it.
\<close>
theorem stream_start_chunk_roundtrip:
  assumes S: "storage K ok content cursor"
    and w: "ok (device w)" "length (content (device w)) \<le> storage_limit"
    and i: "32 * index \<le> length (content (device w))" "32 * index + 128 \<le> storage_limit"
    and n: "c_string name" "length name \<le> 118"
  shows "\<exists>c c' w' bytes. StreamStartChunk uninit index name sid = Some c \<and>
    Chunk_save K (\<lambda>c. Some (Chunk_updateCrc c)) True c w = Some (NoStatus, c', w') \<and>
    length bytes = 128 \<and> content (device w') = overlay (content (device w)) (32 * index) bytes \<and>
    header_type (stored_header 4 (content (device w')) index) = STREAM_START_CHUNK \<and>
    chunkSize (stored_header 4 (content (device w')) index) = 128 \<and>
    (\<exists>l l' w''. StreamStartChunk_common uninit' index (take 4 bytes) = Some l \<and>
      Chunk_load K False l w' = Some (NoStatus, l', w'') \<and>
      streamIdentifier l' = sid mod 2147483648 \<and> virtualFilename l' = Some name \<and> Chunk_checkCrc l')"
proof -
  from storage.stream_start_chunk_law [OF S w i n, where uninit = uninit and sid = sid] obtain c c' d seed where
    c: "StreamStartChunk uninit index name sid = Some c"
      "Chunk_save K (\<lambda>c. Some (Chunk_updateCrc c)) True c w = Some (NoStatus, c', w\<lparr>device := d, randomSeed := seed\<rparr>)"
      "ok d" "content d = overlay (content (device w)) (32 * index) (header c')" "length (header c') = 128"
      "header_type c' = STREAM_START_CHUNK" "chunkSize c' = 128" "streamIdentifier c' = sid mod 2147483648"
      "virtualFilename c' = Some name" "Chunk_checkCrc c'" "currentFileIndex c' = index" "numberValidBytes c' = 124" .
  define w' where "w' = w\<lparr>device := d, randomSeed := seed\<rparr>"
  then have dev: "device w' = d" by simp
  have at: "take 128 (drop (32 * index) (content d)) = header c'"
    using take_drop_overlay [OF i(1), of "header c'"] c by simp
  have len: "length (content d) \<le> storage_limit" "32 * index + 128 \<le> length (content d)"
    using c w i by (simp_all add: length_overlay)
  have pre: "ok (device w')" "length (content (device w')) \<le> storage_limit"
    "32 * index + 128 \<le> length (content (device w'))"
    "header c' = take 128 (drop (32 * index) (content (device w')))"
    using at len c(3) dev by simp_all
  from storage.stream_start_load_law [OF S pre, where uninit = uninit'] obtain l d' l' where
    l: "StreamStartChunk_common uninit' index (take 4 (header c')) = Some l"
      "Chunk_load K False l w' = Some (NoStatus, l', w'\<lparr>device := d'\<rparr>)" "header l' = header c'" by blast
  have "take 4 (drop (32 * index) (content d)) = take 4 (header c')"
    using arg_cong [OF at, of "take 4"] by simp
  then have "header_type (stored_header 4 (content d) index) = header_type c'"
    "chunkSize (stored_header 4 (content d) index) = chunkSize c'"
    using header_common_cong [of "stored_header 4 (content d) index" c'] c(5) len
    by (simp_all add: stored_header_def)
  moreover have "streamIdentifier l' = streamIdentifier c'" "virtualFilename l' = virtualFilename c'"
    "Chunk_checkCrc l' = Chunk_checkCrc c'"
    using l(3) by (simp_all add: streamIdentifier_def virtualFilename_def stream_additionalHeader_def
        additionalHeader_def Chunk_checkCrc_def crc_def initializeCrc_def header_byte_def)
  ultimately show ?thesis
    using c l dev unfolding w'_def [symmetric] by (intro exI [of _ c] exI [of _ c'] exI [of _ w'] exI [of _ "header c'"]) simp
qed

definition empty_memory :: "memory_container world" where
  "empty_memory = \<lparr>device = \<lparr>memoryBuffer = Some [], mcCurrentPosition = 0\<rparr>, randomSeed = 0\<rparr>"

lemma empty_memory_ok [simp]:
  "mc_ok (device empty_memory)" "mc_content (device empty_memory) = []" "randomSeed empty_memory = 0"
  by (simp_all add: empty_memory_def mc_ok_def mc_content_def)

theorem stream_start_chunk_roundtrip_witness:
  "\<exists>c c' w'. StreamStartChunk (\<lambda>_. 0x55) 0 ''log'' 5 = Some c \<and>
    Chunk_save memory_ops (\<lambda>c. Some (Chunk_updateCrc c)) True c empty_memory = Some (NoStatus, c', w') \<and>
    header_type (stored_header 4 (mc_content (device w')) 0) = STREAM_START_CHUNK \<and>
    length (mc_content (device w')) = 128"
proof -
  have "mc_ok (device empty_memory)" "length (mc_content (device empty_memory)) \<le> storage_limit"
    "32 * 0 \<le> length (mc_content (device empty_memory))" "32 * 0 + 128 \<le> storage_limit"
    "c_string ''log''" "length ''log'' \<le> 118"
    by (simp_all add: storage_limit_def c_string_def)
  from stream_start_chunk_roundtrip [OF memory.storage_axioms this, of "\<lambda>_. 0x55" 5]
  show ?thesis by (fastforce simp: overlay_def)
qed

end
