(* ===== verification/Plain_Chunks.thy ===== *)
theory Plain_Chunks
  imports Stream_Chunk
begin

text \<open>
  The chunks that belong to no stream: \<open>FileHeaderChunk\<close> (\<open>file_header_chunk.cpp\<close>), the first
  chunk of a container with format version and identifier text, and \<open>FillChunk\<close>
  (\<open>fill_chunk.cpp\<close>), which covers free space.
\<close>

subsection \<open>File header chunks\<close>

definition containerMajorVersion :: byte where
  [simp]: "containerMajorVersion = 1"

definition containerMinorVersion :: byte where
  [simp]: "containerMinorVersion = 0"

definition FileHeaderChunk :: "(nat \<Rightarrow> byte) \<Rightarrow> nat \<Rightarrow> string \<Rightarrow> chunk option" where
  "FileHeaderChunk uninit index fileIdentifier = do {
     c \<leftarrow> Chunk uninit index (u32 (length fileIdentifier + 4));
     let c = setType FILE_HEADER_CHUNK c;
     (_, _, c) \<leftarrow> setNumberValidBytes (additionalHeaderSizeBytes c) False c;
     assertion (8 + length fileIdentifier \<le> length (header c));
     Some (c\<lparr>header := overlay (header c) 4
       ([containerMajorVersion, containerMinorVersion, 0, 0] @ map byte_of_char fileIdentifier)\<rparr>)
   }"

definition FileHeaderChunk_common :: "(nat \<Rightarrow> byte) \<Rightarrow> nat \<Rightarrow> byte list \<Rightarrow> chunk option" where
  "FileHeaderChunk_common uninit index commonHeader = Chunk_sized uninit index commonHeader"

definition majorVersion :: "'a chunk_header_scheme \<Rightarrow> byte option" where
  "majorVersion c = do { assertion (4 < length (header c)); Some (additionalHeader c ! 0) }"

definition minorVersion :: "'a chunk_header_scheme \<Rightarrow> byte option" where
  "minorVersion c = do { assertion (5 < length (header c)); Some (additionalHeader c ! 1) }"

definition file_identifier :: "'a chunk_header_scheme \<Rightarrow> string option" where
  "file_identifier c = (
     let validBytes = numberValidBytes c
     in if validBytes > 4 then do {
          let stringLength = validBytes - 4;
          assertion (8 + stringLength \<le> length (header c));
          Some (map char_of_byte (take stringLength (drop 4 (additionalHeader c))))
        } else Some [])"

definition file_header_isValid :: "string \<Rightarrow> 'a chunk_header_scheme \<Rightarrow> bool option" where
  "file_header_isValid expectedIdentifier c = do {
     s \<leftarrow> file_identifier c;
     if expectedIdentifier \<noteq> s then Some False
     else do {
       major \<leftarrow> majorVersion c;
       if major \<noteq> containerMajorVersion then Some False
       else do {
         minor \<leftarrow> minorVersion c;
         Some (minor = containerMinorVersion)
       }
     }
   }"

subsection \<open>Fill chunks\<close>

definition FillChunk_setBestFitSize :: "nat \<Rightarrow> 'a chunk_header_scheme \<Rightarrow> nat \<times> 'a chunk_header_scheme" where
  "FillChunk_setBestFitSize availableSpace c =
     (let (chunkSize, c) = setBestFitSize availableSpace c in (chunkSize, setAllBytesValid c))"

definition FillChunk :: "(nat \<Rightarrow> byte) \<Rightarrow> nat \<Rightarrow> nat \<Rightarrow> chunk option" where
  "FillChunk uninit index availableSpace = do {
     c \<leftarrow> Chunk uninit index 0;
     let c = setType FILL_CHUNK c;
     let (_, c) = setBestFitSize availableSpace c;
     Some (setAllBytesValid c)
   }"

definition FillChunk_common :: "(nat \<Rightarrow> byte) \<Rightarrow> nat \<Rightarrow> byte list \<Rightarrow> chunk option" where
  "FillChunk_common uninit index commonHeader = Chunk_common uninit index commonHeader 0"

definition fillSpaceBytes :: "'a chunk_header_scheme \<Rightarrow> nat" where
  "fillSpaceBytes c = chunkSize c"

lemma plain_frame [simp]:
  "currentFileIndex (setAllBytesValid c) = currentFileIndex c"
  "currentFileIndex (snd (setBestFitSize n c)) = currentFileIndex c"
  by (simp_all add: setAllBytesValid_def setBestFitSize_def set_header_byte_def Let_def split: prod.splits)

lemma FillChunk_establishes:
  assumes "n < 4294967296"
  obtains c where "FillChunk uninit index n = Some c" "length (header c) = 4" "header_type c = FILL_CHUNK"
    "chunkSize c = (if n < 32 then 32 else best_size n)" "numberValidBytes c = chunkSize c - 4"
    "currentFileIndex c = index"
proof -
  have "(0 :: nat) \<le> 4092" by simp
  from ChunkHeader_establishes [OF this, where uninit = uninit] obtain h where
    h: "ChunkHeader uninit 0 = Some h" "length (header h) = 0 + 4" .
  let ?t = "setType FILL_CHUNK (chunk_of_header index h)"
  have p: "0 < length (header (chunk_of_header index h))" using h by simp
  note t = setType_fields [OF p, of FILL_CHUNK]
  obtain best c where c: "setBestFitSize n ?t = (best, c)" by fastforce
  have p': "0 < length (header ?t)" using t(4) p by simp
  note s = setBestFitSize_fields [OF p' assms c]
  have "4 \<le> length (header c)" using s(4) t(4) h(2) by simp
  note a = setAllBytesValid_fields [OF this]
  have "FillChunk uninit index n = Some (setAllBytesValid c)"
    using h(1) c by (simp add: FillChunk_def Chunk_def)
  moreover have "currentFileIndex c = index"
    using plain_frame(2) [of n ?t] c by simp
  ultimately show ?thesis
    using that [of "setAllBytesValid c"] a s t h by simp
qed

lemma file_identifier_stored:
  assumes "numberValidBytes c = length s + 4" "drop 4 (additionalHeader c) = map byte_of_char s"
    "length (header c) = length s + 8"
  shows "file_identifier c = Some s"
  using assms by (cases s) (simp_all add: file_identifier_def comp_def Let_def)

lemma FileHeaderChunk_establishes:
  assumes "length s \<le> 4088"
  obtains c where "FileHeaderChunk uninit index s = Some c" "length (header c) = length s + 8"
    "header_type c = FILE_HEADER_CHUNK" "numberValidBytes c = length s + 4"
    "chunkSize c = fit_size (length s + 8)" "currentFileIndex c = index" "majorVersion c = Some 1" "minorVersion c = Some 0"
    "file_identifier c = Some s"
proof -
  let ?n = "length s + 4"
  have n: "?n \<le> 4092" using assms by simp
  from ChunkHeader_establishes [OF n, where uninit = uninit] obtain h where
    h: "ChunkHeader uninit ?n = Some h" "length (header h) = ?n + 4" "chunkSize h = fit_size (?n + 4)" .
  let ?t = "setType FILE_HEADER_CHUNK (chunk_of_header index h)"
  have p: "0 < length (header (chunk_of_header index h))" using h by simp
  note t = setType_fields [OF p, of FILE_HEADER_CHUNK]
  have l2: "2 \<le> length (header ?t)" using t(4) h by simp
  have sz: "additionalHeaderSizeBytes ?t = ?n" using t(4) h n by (simp add: additionalHeaderSizeBytes_def sub32_id)
  have fs: "?n + 4 \<le> fit_size (?n + 4)" using fit_size_bounds(3) [of "?n + 4"] n by simp
  have ch: "chunkSize (chunk_of_header index h) = fit_size (?n + 4)" using h(3) by (simp add: header_only)
  then have "min ?n (chunkSize ?t - 4) = ?n" using t(2) fs by simp
  then have sv: "setNumberValidBytes ?n False ?t = Some (?n, fit_size (?n + 4) \<noteq> chunkSize ?t, with_valid_bytes ?n ?t)"
    using setNumberValidBytes_eq [OF l2, of ?n False] by simp
  note v = with_valid_bytes_fields [OF l2 n]
  have len: "length (header (with_valid_bytes ?n ?t)) = length s + 8" using v(4) t(4) h(2) by simp
  let ?b = "[1, 0, 0, 0] @ map byte_of_char s" and ?v = "with_valid_bytes ?n ?t"
  let ?c = "?v\<lparr>header := overlay (header ?v) 4 ?b\<rparr>"
  have eq: "FileHeaderChunk uninit index s = Some ?c"
    using h(1) n sz sv len by (simp add: FileHeaderChunk_def Chunk_def u32_id Let_def)
  have lc: "length (header ?c) = length s + 8" "drop 4 (header ?c) = ?b"
    using len by (simp_all add: overlay_def)
  have "take 4 (header ?c) = take 4 (header ?v)" using len by (simp add: overlay_simps)
  note hc = header_common_cong [OF this]
  have hv: "header_type ?c = FILE_HEADER_CHUNK" "numberValidBytes ?c = ?n" "chunkSize ?c = fit_size (length s + 8)"
    using hc v t len lc by (simp_all add: add.commute)
  have "drop 4 (additionalHeader ?c) = map byte_of_char s"
    using arg_cong [OF lc(2), of "drop 4"] by (simp add: additionalHeader_def)
  from file_identifier_stored [OF hv(2) this] have "file_identifier ?c = Some s" using lc(1) by simp
  moreover have "majorVersion ?c = Some 1" "minorVersion ?c = Some 0"
    using lc by (simp_all add: majorVersion_def minorVersion_def additionalHeader_def)
  moreover have "currentFileIndex ?c = index"
    by (simp add: with_valid_bytes_def Let_def)
  ultimately show ?thesis using that [OF eq lc(1) hv(1)] hv by simp
qed

lemma plain_fields_of_header:
  assumes "header c = header d"
  shows "file_identifier c = file_identifier d" "majorVersion c = majorVersion d" "minorVersion c = minorVersion d"
    "Chunk_checkCrc c = Chunk_checkCrc d" "chunkSize c = chunkSize d"
  using assms
  by (simp_all add: file_identifier_def majorVersion_def minorVersion_def Chunk_checkCrc_def numberValidBytes_def
      chunkSize_def crc_def initializeCrc_def additionalHeader_def header_byte_def Let_def)

lemma ChunkHeader_sized_establishes:
  assumes "length common = 4" "numberValidBytes \<lparr>header = common\<rparr> \<le> 4092"
  shows "ChunkHeader_sized uninit common =
    Some \<lparr>header = common @ drop 4 (new_array uninit (numberValidBytes \<lparr>header = common\<rparr> + 4))\<rparr>"
proof -
  define x where "x = sub32 (2 ^ (sp2_of (common ! 0) + 5)) (numberInvalidBytes_of (common ! 0) (common ! 1))"
  let ?v = "numberValidBytes \<lparr>header = common\<rparr>"
  have v: "?v = sub32 x 4" by (simp add: numberValidBytes_def chunkSize_def header_byte_def x_def)
  have xl: "x < 4294967296" by (simp add: x_def sub32_def)
  have x: "x = ?v + 4"
  proof (cases "4 \<le> x")
    case True
    then show ?thesis using v sub32_id [OF True xl] by simp
  next
    case False
    then have "?v = x + 4294967296 - 4" using v sub32_wraps [of x 4] by simp
    then show ?thesis using assms(2) by simp
  qed
  then have "u16 x = ?v + 4" using assms(2) by (simp add: u16_id)
  then have "ChunkHeader_sized uninit common = Some \<lparr>header = overlay (new_array uninit (?v + 4)) 0 (take 4 common)\<rparr>"
    unfolding ChunkHeader_sized_def Let_def x_def [symmetric] by simp
  then show ?thesis using assms(1) by (simp add: overlay_def)
qed

lemma FileHeaderChunk_common_establishes:
  assumes "length common = 4" "numberValidBytes \<lparr>header = common\<rparr> \<le> 4092"
  obtains c where "FileHeaderChunk_common uninit index common = Some c"
    "length (header c) = numberValidBytes \<lparr>header = common\<rparr> + 4" "take 4 (header c) = common" "currentFileIndex c = index"
proof -
  let ?h = "common @ drop 4 (new_array uninit (numberValidBytes \<lparr>header = common\<rparr> + 4))"
  have "FileHeaderChunk_common uninit index common = Some (chunk_of_header index \<lparr>header = ?h\<rparr>)"
    using ChunkHeader_sized_establishes [OF assms] by (simp add: FileHeaderChunk_common_def Chunk_sized_def)
  then show ?thesis by (rule that) (use assms(1) in simp_all)
qed

context storage
begin

text \<open>Saving a chunk without payload and loading it through its common header.\<close>

lemma save_plain_law:
  assumes w: "ok (device w)" "length (content (device w)) \<le> storage_limit"
    and c: "4 \<le> length (header c)" "length (header c) \<le> chunkSize c"
    and i: "32 * currentFileIndex c \<le> length (content (device w))"
      "32 * currentFileIndex c + chunkSize c \<le> storage_limit"
  obtains d seed pad where
    "Chunk_save K (\<lambda>c. Some (Chunk_updateCrc c)) True c w =
      Some (NoStatus, Chunk_updateCrc c, w\<lparr>device := d, randomSeed := seed\<rparr>)" "ok d"
    "content d = overlay (content (device w)) (32 * currentFileIndex c) (header (Chunk_updateCrc c) @ pad)"
    "length (header (Chunk_updateCrc c) @ pad) = chunkSize c"
proof -
  note u = Chunk_updateCrc_fields [OF c(1)]
  have i': "currentFileIndex c < 134217728" "32 * currentFileIndex c \<le> length (content (device w))"
    using i chunkSize_bounds(1) [of c] by (simp_all add: storage_limit_def)
  have s: "length (header (Chunk_updateCrc c)) \<le> chunkSize (Chunk_updateCrc c)"
    "32 * currentFileIndex c + chunkSize (Chunk_updateCrc c) \<le> storage_limit" using u c i by simp_all
  from Chunk_save_law [where upd = "\<lambda>c. Some (Chunk_updateCrc c)", OF w i' refl Chunk_updateCrc_frame s]
  obtain d seed pad where
    "Chunk_save K (\<lambda>c. Some (Chunk_updateCrc c)) True c w =
      Some (NoStatus, Chunk_updateCrc c, w\<lparr>device := d, randomSeed := seed\<rparr>)" "ok d"
    "content d = overlay (content (device w)) (32 * currentFileIndex c) (header (Chunk_updateCrc c) @ pad)"
    "length (header (Chunk_updateCrc c) @ pad) = chunkSize (Chunk_updateCrc c)" .
  with that u show ?thesis by simp
qed

end

text \<open>
  C34. The header chunk a fresh container gets is recovered when the container is opened: after
  it was saved at the start of a medium, the chunk that is built from the four common bytes
  found there and loaded has the same identifier text (up to 4088 characters, any characters),
  format version 1.0, a valid CRC, and is accepted by \<open>isValid\<close>.
\<close>
theorem file_header_chunk_roundtrip:
  assumes S: "storage K ok content cursor"
    and w: "ok (device w)" "length (content (device w)) \<le> storage_limit"
    and s: "length s \<le> 4088"
  shows "\<exists>c c' w' l l' w''. FileHeaderChunk uninit 0 s = Some c \<and>
    Chunk_save K (\<lambda>c. Some (Chunk_updateCrc c)) True c w = Some (NoStatus, c', w') \<and>
    FileHeaderChunk_common uninit' 0 (take 4 (content (device w'))) = Some l \<and>
    Chunk_load K False l w' = Some (NoStatus, l', w'') \<and>
    file_identifier l' = Some s \<and> majorVersion l' = Some 1 \<and> minorVersion l' = Some 0 \<and>
    Chunk_checkCrc l' \<and> file_header_isValid s l' = Some True \<and> chunkSize l' = fit_size (length s + 8)"
proof -
  obtain c where c: "FileHeaderChunk uninit 0 s = Some c" "length (header c) = length s + 8"
    "numberValidBytes c = length s + 4" "chunkSize c = fit_size (length s + 8)" "currentFileIndex c = 0"
    "majorVersion c = Some 1" "minorVersion c = Some 0" "file_identifier c = Some s"
    using FileHeaderChunk_establishes [OF s] by blast
  let ?c = "Chunk_updateCrc c"
  have l4: "4 \<le> length (header c)" "length (header c) \<le> chunkSize c"
    "32 * currentFileIndex c \<le> length (content (device w))" "32 * currentFileIndex c + chunkSize c \<le> storage_limit"
    using c s fit_size_bounds [of "length s + 8"] by (simp_all add: storage_limit_def)
  note u = Chunk_updateCrc_fields [OF l4(1)]
  from storage.save_plain_law [OF S w l4] obtain d seed pad where
    d: "Chunk_save K (\<lambda>c. Some (Chunk_updateCrc c)) True c w =
      Some (NoStatus, ?c, w\<lparr>device := d, randomSeed := seed\<rparr>)" "ok d"
    "content d = overlay (content (device w)) (32 * currentFileIndex c) (header ?c @ pad)"
    "length (header ?c @ pad) = chunkSize c" .
  define w' where "w' = w\<lparr>device := d, randomSeed := seed\<rparr>"
  have dev: "device w' = d" by (simp add: w'_def)
  have d0: "content d = header ?c @ pad @ drop (chunkSize c) (content (device w))"
    using d(3,4) c(5) by (simp add: overlay_def)
  have len: "length (header ?c) = length s + 8" using u c by simp
  have t4: "take 4 (content d) = take 4 (header ?c)" unfolding d0 using len by simp
  have "header \<lparr>header = take 4 (header ?c)\<rparr> = take 4 (header ?c)" by simp
  then have nv: "numberValidBytes \<lparr>header = take 4 (header ?c)\<rparr> = length s + 4"
    using header_common_cong(3) [of "\<lparr>header = take 4 (header ?c)\<rparr>" ?c] len u c by simp
  have "length (take 4 (header ?c)) = 4" "numberValidBytes \<lparr>header = take 4 (header ?c)\<rparr> \<le> 4092"
    using len nv s by simp_all
  from FileHeaderChunk_common_establishes [OF this, where uninit = uninit' and index = 0, unfolded nv] obtain l where
    l: "FileHeaderChunk_common uninit' 0 (take 4 (header ?c)) = Some l" "length (header l) = length s + 4 + 4"
      "take 4 (header l) = take 4 (header ?c)" "currentFileIndex l = 0" .
  have lcd: "length (content d) = max (length (content (device w))) (chunkSize c)"
    unfolding d(3) using c(5) d(4) by (simp add: length_overlay)
  have pre: "ok (device w')" "length (content (device w')) \<le> storage_limit" "currentFileIndex l < 134217728"
    "32 * currentFileIndex l + length (header l) \<le> length (content (device w'))" "4 \<le> length (header l)"
    "length (header l) < 65536"
    using d(2) w(2) l(2,4) l4(2,4) s c(2,5) dev lcd by simp_all
  from storage.Chunk_load_additional_law [OF S pre] obtain d' where
    d': "Chunk_load K False l w' = Some (NoStatus, l\<lparr>header := take 4 (header l) @
        take (length (header l) - 4) (drop (32 * currentFileIndex l + 4) (content (device w')))\<rparr>, w'\<lparr>device := d'\<rparr>)"
    by blast
  let ?l = "l\<lparr>header := take 4 (header l) @
        take (length (header l) - 4) (drop (32 * currentFileIndex l + 4) (content (device w')))\<rparr>"
  have "header ?l = header ?c"
    using l d0 dev len by simp
  note same = plain_fields_of_header [OF this]
  have "file_identifier ?c = file_identifier c" "majorVersion ?c = majorVersion c" "minorVersion ?c = minorVersion c"
    using u len c(2) by (simp_all add: file_identifier_def majorVersion_def minorVersion_def additionalHeader_def Let_def)
  with same u c have f: "file_identifier ?l = Some s" "majorVersion ?l = Some 1" "minorVersion ?l = Some 0"
    "Chunk_checkCrc ?l" "chunkSize ?l = fit_size (length s + 8)" by simp_all
  then have "file_header_isValid s ?l = Some True" by (simp add: file_header_isValid_def)
  moreover have "FileHeaderChunk_common uninit' 0 (take 4 (content (device w'))) = Some l"
    using l(1) t4 dev by simp
  ultimately show ?thesis
    using f c(1) d(1) [folded w'_def] d' by blast
qed

theorem file_header_chunk_roundtrip_witness:
  "\<exists>c c' w' l l' w''. FileHeaderChunk (\<lambda>_. 0) 0 ''demo'' = Some c \<and>
    Chunk_save memory_ops (\<lambda>c. Some (Chunk_updateCrc c)) True c empty_memory = Some (NoStatus, c', w') \<and>
    FileHeaderChunk_common (\<lambda>_. 1) 0 (take 4 (mc_content (device w'))) = Some l \<and>
    Chunk_load memory_ops False l w' = Some (NoStatus, l', w'') \<and>
    file_identifier l' = Some ''demo'' \<and> file_header_isValid ''demo'' l' = Some True"
proof -
  have "mc_ok (device empty_memory)" "length (mc_content (device empty_memory)) \<le> storage_limit"
    "length ''demo'' \<le> 4088" by simp_all
  from file_header_chunk_roundtrip [OF memory.storage_axioms this, of "\<lambda>_. 0" "\<lambda>_. 1"]
  show ?thesis by blast
qed

end
