(* ===== verification/Container_Impl.thy ===== *)
theory Container_Impl
  imports Free_Space_Tracker Plain_Chunks
begin

text \<open>
  \<open>ContainerImpl\<close> (\<open>container_impl.cpp\<close>) without the operations that reach into virtual files
  (those are in \<open>Library\<close>): its state, the free space tracker it is derived from, opening a
  container, flushing free space to the medium, and the three maps through which it knows
  its virtual files. A shared pointer to a virtual file is a number; the interface object and
  the implementation object behind it are created together and share it.

  \<open>junk\<close> is what freshly allocated memory holds; no operation relies on it.
\<close>

record 'd container = "'d world" +
  spaceTracker :: free_space_tracker
  ignoreIdentifierOnOpen :: bool
  lastReportedStatus :: status
  currentFileIdentifier :: string
  currentMinorVersion :: byte
  startingFileIndex :: nat
  filesByIdentifier :: "(nat, nat) omap"
  fileApisByName :: "(string, nat) omap"
  filesByName :: "(string, nat) omap"
  fileMapsPopulated :: bool
  junk :: "nat \<Rightarrow> byte"

definition ContainerImpl :: "'d \<Rightarrow> 32 word \<Rightarrow> (nat \<Rightarrow> byte) \<Rightarrow> string \<Rightarrow> bool \<Rightarrow> 'd container" where
  "ContainerImpl medium seed uninit fileIdentifier ignoreIdentifier =
     \<lparr>device = medium, randomSeed = seed, spaceTracker = FreeSpaceTracker,
      ignoreIdentifierOnOpen = ignoreIdentifier, lastReportedStatus = NoStatus,
      currentFileIdentifier = fileIdentifier, currentMinorVersion = 255,
      startingFileIndex = invalidFileIndex, filesByIdentifier = [], fileApisByName = [], filesByName = [],
      fileMapsPopulated = False, junk = uninit\<rparr>"

definition setLastStatus :: "status \<Rightarrow> ('d, 'z) container_scheme \<Rightarrow> ('d, 'z) container_scheme" where
  "setLastStatus newStatus w = w\<lparr>lastReportedStatus := newStatus\<rparr>"

definition lastStatus :: "('d, 'z) container_scheme \<Rightarrow> status" where
  "lastStatus w = lastReportedStatus w"

definition container_minorVersion :: "('d, 'z) container_scheme \<Rightarrow> byte" where
  "container_minorVersion w = currentMinorVersion w"

definition containerScanNeeded :: "('d, 'z) container_scheme \<Rightarrow> bool" where
  "containerScanNeeded w \<longleftrightarrow> \<not> fileMapsPopulated w"

subsection \<open>Opening a container\<close>

text \<open>The checks of a loaded file header, in the order of the code.\<close>

definition check_identifier ::
  "string \<Rightarrow> chunk \<Rightarrow> status \<Rightarrow> status option" where
  "check_identifier expected fileHeader status = do {
     status \<leftarrow>
       (if \<not> has_info status then do {
          s \<leftarrow> file_identifier fileHeader;
          Some (if s \<noteq> expected then HeaderIdentifierInvalid else status)
        } else Some status);
     status \<leftarrow>
       (if \<not> has_info status then do {
          v \<leftarrow> majorVersion fileHeader;
          Some (if v < containerMajorVersion then VersionDownlevelStatus v containerMajorVersion else status)
        } else Some status);
     if \<not> has_info status then do {
       v \<leftarrow> majorVersion fileHeader;
       Some (if v > containerMajorVersion then HeaderVersionInvalid v containerMajorVersion else status)
     } else Some status
   }"

definition open_existing ::
  "'d container_ops \<Rightarrow> byte list \<Rightarrow> ('d, 'z) container_scheme \<Rightarrow> (status \<times> ('d, 'z) container_scheme) option" where
  "open_existing K commonHeader w = do {
     fileHeader \<leftarrow> FileHeaderChunk_common (junk w) 0 commonHeader;
     (status, fileHeader, w) \<leftarrow> Chunk_load K False fileHeader w;
     status \<leftarrow>
       (if \<not> ignoreIdentifierOnOpen w then check_identifier (currentFileIdentifier w) fileHeader status
        else Some status);
     let status = (if \<not> has_info status \<and> \<not> Chunk_checkCrc fileHeader then HeaderCrcError else status);
     w \<leftarrow>
       (if \<not> has_info status then do {
          v \<leftarrow> minorVersion fileHeader;
          Some (w\<lparr>currentMinorVersion := v, startingFileIndex := toFileIndex (chunkSize fileHeader)\<rparr>)
        } else Some w);
     size \<leftarrow> container_size K w;
     Some (status, w\<lparr>fileMapsPopulated := (size = int (startingFileIndex w))\<rparr>)
   }"

definition open_new ::
  "'d container_ops \<Rightarrow> ('d, 'z) container_scheme \<Rightarrow> (status \<times> ('d, 'z) container_scheme) option" where
  "open_new K w = do {
     fileHeader \<leftarrow> FileHeaderChunk (junk w) 0 (currentFileIdentifier w);
     (status, fileHeader, w) \<leftarrow> Chunk_save K (\<lambda>c. Some (Chunk_updateCrc c)) True fileHeader w;
     if \<not> has_info status then do {
       v \<leftarrow> minorVersion fileHeader;
       Some (status, w\<lparr>currentMinorVersion := v, startingFileIndex := toFileIndex (chunkSize fileHeader),
         fileMapsPopulated := True\<rparr>)
     } else Some (status, w)
   }"

definition container_open ::
  "'d container_ops \<Rightarrow> ('d, 'z) container_scheme \<Rightarrow> (status \<times> ('d, 'z) container_scheme) option" where
  "container_open K w = do {
     (status, w) \<leftarrow> container_setPosition K 0 w;
     (status, w) \<leftarrow>
       (if \<not> has_info status then do {
          (status, bytes, w) \<leftarrow> container_read K minimumChunkHeaderSizeBytes w;
          assertion (length bytes \<le> minimumChunkHeaderSizeBytes);
          let commonHeader = overlay (new_array (junk w) minimumChunkHeaderSizeBytes) 0 bytes;
          complete \<leftarrow>
            (if success status then do {
               n \<leftarrow> ReadSuccessful_bytesRead status;
               Some (n = minimumChunkHeaderSizeBytes)
             } else Some False);
          if complete then open_existing K commonHeader w
          else do {
            size \<leftarrow> container_size K w;
            if size = 0 then open_new K w else Some (status, w)
          }
        } else Some (status, w));
     let w = (if has_info status
              then w\<lparr>currentMinorVersion := 255, startingFileIndex := invalidFileIndex, fileMapsPopulated := False\<rparr>
              else w);
     Some (status, w\<lparr>filesByIdentifier := [], fileApisByName := [], filesByName := [],
       spaceTracker := clearFreeSpace (spaceTracker w), lastReportedStatus := status\<rparr>)
   }"

subsection \<open>Free space of the container\<close>

text \<open>\<open>size\<close> changes nothing; the tracker's operations get its result as an argument.\<close>

definition container_newFreeSpaceArea ::
  "nat \<Rightarrow> nat \<Rightarrow> bool \<Rightarrow> ('d, 'z) container_scheme \<Rightarrow> ('d, 'z) container_scheme option" where
  "container_newFreeSpaceArea startingIndex areaSize updateNeeded w =
     map_option (\<lambda>t. w\<lparr>spaceTracker := t\<rparr>) (newFreeSpaceArea startingIndex areaSize updateNeeded (spaceTracker w))"

definition container_reserveFreeSpaceArea ::
  "'d container_ops \<Rightarrow> nat \<Rightarrow> nat \<Rightarrow> nat \<Rightarrow> ('d, 'z) container_scheme \<Rightarrow>
   (free_space \<times> ('d, 'z) container_scheme) option" where
  "container_reserveFreeSpaceArea K startingIndex minimumSize desiredSize w = do {
     size \<leftarrow> container_size K w;
     map_option (\<lambda>(fs, t). (fs, w\<lparr>spaceTracker := t\<rparr>))
       (reserveFreeSpaceArea size startingIndex minimumSize desiredSize (spaceTracker w))
   }"

definition container_releaseReservation ::
  "'d container_ops \<Rightarrow> free_space \<Rightarrow> ('d, 'z) container_scheme \<Rightarrow> ('d, 'z) container_scheme option" where
  "container_releaseReservation K freeSpaceRegion w = do {
     size \<leftarrow> container_size K w;
     map_option (\<lambda>t. w\<lparr>spaceTracker := t\<rparr>) (releaseReservation size freeSpaceRegion (spaceTracker w))
   }"

partial_function (option) flushArea_loop ::
  "'d container_ops \<Rightarrow> container_area \<Rightarrow> ('d, 'z) container_scheme \<Rightarrow>
   (status \<times> ('d, 'z) container_scheme) option" where
  "flushArea_loop K remainingArea w =
     (if currentAreaSize remainingArea > 0 then do {
        c \<leftarrow> FillChunk (junk w) (currentStartingIndex remainingArea)
          (u32 (toPosition (currentAreaSize remainingArea)));
        (status, c, w) \<leftarrow> Chunk_save K (\<lambda>c. Some (Chunk_updateCrc c)) True c w;
        if \<not> has_info status
        then flushArea_loop K (snd (reduceBy (toFileIndex (chunkSize c)) FROM_FRONT remainingArea)) w
        else Some (status, w)
      } else Some (NoStatus, w))"

declare flushArea_loop.simps [code]

definition flushArea ::
  "'d container_ops \<Rightarrow> container_area \<Rightarrow> ('d, 'z) container_scheme \<Rightarrow>
   (bool \<times> ('d, 'z) container_scheme) option" where
  "flushArea K area w = do {
     size \<leftarrow> container_size K w;
     let containerSize = nat (size mod 18446744073709551616);
     (status, w) \<leftarrow>
       (if container_supportsTruncation K \<and> toPosition (endingIndex area) \<ge> containerSize then do {
          (status, w) \<leftarrow> container_setPosition K (toPosition (currentStartingIndex area)) w;
          if \<not> has_info status then container_truncate K w else Some (status, w)
        }
        else flushArea_loop K area w);
     Some (success status, w\<lparr>lastReportedStatus := status\<rparr>)
   }"

definition container_flushFreeSpace ::
  "'d container_ops \<Rightarrow> bool \<Rightarrow> ('d, 'z) container_scheme \<Rightarrow> (bool \<times> ('d, 'z) container_scheme) option" where
  "container_flushFreeSpace K flushAll w = do {
     (success, t, w) \<leftarrow> flushFreeSpace (flushArea K) flushAll (spaceTracker w) w;
     Some (success, w\<lparr>spaceTracker := t\<rparr>)
   }"

subsection \<open>The maps of virtual files\<close>

definition registerFileImplementation ::
  "nat \<Rightarrow> string \<Rightarrow> nat \<Rightarrow> ('d, 'z) container_scheme \<Rightarrow> ('d, 'z) container_scheme option" where
  "registerFileImplementation virtualFile name sid w = do {
     assertion (om_find name (filesByName w) = None);
     Some (w\<lparr>filesByName := om_insert name virtualFile (filesByName w),
             filesByIdentifier := om_insert sid virtualFile (filesByIdentifier w)\<rparr>)
   }"

definition fileRenamed ::
  "string \<Rightarrow> string \<Rightarrow> ('d, 'z) container_scheme \<Rightarrow> bool \<times> ('d, 'z) container_scheme" where
  "fileRenamed oldName newName w =
     (case (om_find oldName (fileApisByName w), om_find oldName (filesByName w)) of
        (Some api, Some f) \<Rightarrow>
          (True, w\<lparr>fileApisByName := om_erase oldName (om_insert newName api (fileApisByName w)),
                   filesByName := om_erase oldName (om_insert newName f (filesByName w))\<rparr>)
      | _ \<Rightarrow> (False, w))"

definition fileErased ::
  "string \<Rightarrow> ('d, 'z) container_scheme \<Rightarrow> bool \<times> ('d, 'z) container_scheme" where
  "fileErased name w =
     (case (om_find name (fileApisByName w), om_find name (filesByName w)) of
        (Some api, Some f) \<Rightarrow>
          (True, w\<lparr>fileApisByName := om_erase name (fileApisByName w),
                   filesByName := om_erase name (filesByName w)\<rparr>)
      | _ \<Rightarrow> (False, w))"

end
