(* ===== verification/Scatter_Gather.thy ===== *)
theory Scatter_Gather
  imports Prelude
begin

text \<open>
  \<open>ScatterGatherListSegment\<close> (\<open>scatter_gather_list_segment.cpp\<close>): a pointer, a length and the
  number of bytes processed so far. Segments alias the arrays they point into, so memory is
  explicit: a pointer is null or an offset into one of the arrays the stream code reads and
  writes, and reading or writing outside an array is undefined (\<open>None\<close>).
\<close>

subsection \<open>Memory\<close>

datatype block = CallerBuffer | ChunkBuffer | TailBuffer | LocalBuffer

datatype pointer = NullPtr | Ptr block nat

type_synonym memory = "block \<Rightarrow> byte list"

definition load_bytes :: "memory \<Rightarrow> pointer \<Rightarrow> nat \<Rightarrow> byte list option" where
  "load_bytes mem p n =
     (if n = 0 then Some []
      else case p of
        NullPtr \<Rightarrow> None
      | Ptr b i \<Rightarrow> if i + n \<le> length (mem b) then Some (take n (drop i (mem b))) else None)"

definition store_bytes :: "memory \<Rightarrow> pointer \<Rightarrow> byte list \<Rightarrow> memory option" where
  "store_bytes mem p bs =
     (if bs = [] then Some mem
      else case p of
        NullPtr \<Rightarrow> None
      | Ptr b i \<Rightarrow> if i + length bs \<le> length (mem b) then Some (mem(b := overlay (mem b) i bs)) else None)"

definition ptr_add :: "pointer \<Rightarrow> nat \<Rightarrow> pointer" where
  "ptr_add p n = (case p of NullPtr \<Rightarrow> NullPtr | Ptr b i \<Rightarrow> Ptr b (i + n))"

text \<open>The difference of two pointers into the same array.\<close>

definition ptr_diff :: "pointer \<Rightarrow> pointer \<Rightarrow> int option" where
  "ptr_diff p q =
     (case (p, q) of
        (NullPtr, NullPtr) \<Rightarrow> Some 0
      | (Ptr b i, Ptr c j) \<Rightarrow> if b = c then Some (int i - int j) else None
      | _ \<Rightarrow> None)"

lemma length_load_bytes: "load_bytes mem p n = Some bs \<Longrightarrow> length bs = n"
  by (auto simp: load_bytes_def split: if_splits pointer.splits)

lemma load_store_same:
  "store_bytes mem p bs = Some mem' \<Longrightarrow> load_bytes mem' p (length bs) = Some bs"
  by (auto simp: load_bytes_def store_bytes_def take_drop_overlay split: if_splits pointer.splits)

lemma store_other_block:
  "store_bytes mem (Ptr b i) bs = Some mem' \<Longrightarrow> c \<noteq> b \<Longrightarrow> mem' c = mem c"
  by (auto simp: store_bytes_def split: if_splits)

lemma store_length:
  "store_bytes mem p bs = Some mem' \<Longrightarrow> length (mem' c) = length (mem c)"
  by (auto simp: store_bytes_def split: if_splits pointer.splits)

subsection \<open>Segments\<close>

record scatter_gather_list_segment =
  currentBase :: pointer
  currentLength :: nat
  currentProcessedCount :: nat

definition ScatterGatherListSegment ::
  "pointer \<Rightarrow> nat \<Rightarrow> nat \<Rightarrow> scatter_gather_list_segment option" where
  "ScatterGatherListSegment base len processed = do {
     assertion (processed \<le> len);
     Some \<lparr>currentBase = base, currentLength = len, currentProcessedCount = processed\<rparr>
   }"

definition ScatterGatherListSegment_range ::
  "pointer \<Rightarrow> pointer \<Rightarrow> nat \<Rightarrow> scatter_gather_list_segment option" where
  "ScatterGatherListSegment_range base ending processed = do {
     d \<leftarrow> ptr_diff ending base;
     assertion (d \<ge> 0);
     assertion (processed \<le> u32 (nat d));
     Some \<lparr>currentBase = base, currentLength = u32 (nat d), currentProcessedCount = processed\<rparr>
   }"

definition update_segment ::
  "pointer \<Rightarrow> nat \<Rightarrow> scatter_gather_list_segment \<Rightarrow> scatter_gather_list_segment" where
  "update_segment newBase newLength s = s\<lparr>currentBase := newBase, currentLength := newLength\<rparr>"

definition update_segment_range ::
  "pointer \<Rightarrow> pointer \<Rightarrow> scatter_gather_list_segment \<Rightarrow> scatter_gather_list_segment option" where
  "update_segment_range newBase newEnd s = do {
     d \<leftarrow> ptr_diff newEnd newBase;
     assertion (d \<ge> 0);
     Some (s\<lparr>currentBase := newBase, currentLength := u32 (nat d)\<rparr>)
   }"

definition setBase :: "pointer \<Rightarrow> scatter_gather_list_segment \<Rightarrow> scatter_gather_list_segment" where
  "setBase newBase s = s\<lparr>currentBase := newBase\<rparr>"

definition setLength :: "nat \<Rightarrow> scatter_gather_list_segment \<Rightarrow> scatter_gather_list_segment" where
  "setLength newLength s = s\<lparr>currentLength := newLength\<rparr>"

definition setEnd :: "pointer \<Rightarrow> scatter_gather_list_segment \<Rightarrow> scatter_gather_list_segment option" where
  "setEnd newEnd s = do {
     d \<leftarrow> ptr_diff newEnd (currentBase s);
     assertion (d \<ge> 0);
     Some (s\<lparr>currentLength := u32 (nat d)\<rparr>)
   }"

definition segment_end :: "scatter_gather_list_segment \<Rightarrow> pointer" where
  "segment_end s = ptr_add (currentBase s) (currentLength s)"

definition setProcessedCount ::
  "nat \<Rightarrow> scatter_gather_list_segment \<Rightarrow> scatter_gather_list_segment option" where
  "setProcessedCount newProcessedCount s = do {
     assertion (newProcessedCount \<le> currentLength s);
     Some (s\<lparr>currentProcessedCount := newProcessedCount\<rparr>)
   }"

definition segment_equal :: "scatter_gather_list_segment \<Rightarrow> scatter_gather_list_segment \<Rightarrow> bool" where
  "segment_equal a b \<longleftrightarrow>
     currentBase b = currentBase a \<and> currentLength b = currentLength a \<and>
     currentProcessedCount b = currentProcessedCount a"

definition segment_not_equal :: "scatter_gather_list_segment \<Rightarrow> scatter_gather_list_segment \<Rightarrow> bool" where
  "segment_not_equal a b \<longleftrightarrow>
     currentBase b \<noteq> currentBase a \<or> currentLength b \<noteq> currentLength a \<or>
     currentProcessedCount b \<noteq> currentProcessedCount a"

text \<open>
  Setting a segment's end pointer and reading it back agree, the length that results is
  the distance from the base, and a segment built from two pointers equals the one built from
  base and length; an end before the base is refused.
\<close>
lemma segment_end_roundtrip:
  assumes "n < 4294967296"
  shows "(\<exists>s'. setEnd (ptr_add (currentBase s) n) s = Some s' \<and> currentBase s' = currentBase s \<and>
      segment_end s' = ptr_add (currentBase s) n \<and> (currentBase s \<noteq> NullPtr \<longrightarrow> currentLength s' = n)) \<and>
    ScatterGatherListSegment_range (Ptr b i) (Ptr b (i + n)) k = ScatterGatherListSegment (Ptr b i) n k \<and>
    (0 < j \<and> currentBase s = Ptr b (i + j) \<longrightarrow> setEnd (Ptr b i) s = None)"
  using assms
  by (cases "currentBase s")
    (auto simp: setEnd_def ptr_diff_def ptr_add_def segment_end_def u32_id ScatterGatherListSegment_range_def
      ScatterGatherListSegment_def)

end
