(* ===== verification/Stream_Data_Chunk.thy ===== *)
theory Stream_Data_Chunk
  imports Stream_Chunk Scatter_Gather
begin

unbundle bit_operations_syntax

text \<open>
  \<open>StreamDataChunk\<close> (\<open>stream_data_chunk.cpp\<close>): a chunk that carries payload of a stream. Its
  header holds the 48-bit offset of the payload in the virtual file; the payload itself is
  scattered over buffers in memory that a list of segments describes. Saving gathers the
  payload from the segments, loading scatters it into them, and the CRC runs over both the
  header and the segments.
\<close>

record stream_data_chunk = chunk +
  scatterGatherList :: "scatter_gather_list_segment list"
  currentScatterGatherListByteCount :: nat

definition numberDataHeaderBytes :: nat where
  [simp]: "numberDataHeaderBytes = 6"

definition setChunkSize :: "nat \<Rightarrow> 'a stream_data_chunk_scheme \<Rightarrow> nat \<times> 'a stream_data_chunk_scheme" where
  "setChunkSize newChunkSize c = setBestFitSize newChunkSize c"

definition setChunkOffset :: "nat \<Rightarrow> 'a chunk_header_scheme \<Rightarrow> 'a chunk_header_scheme" where
  "setChunkOffset newChunkOffset c = (
     let x = word_of_nat newChunkOffset :: 64 word;
         c = set_header_byte 8 (ucast x) c;
         c = set_header_byte 9 (ucast (drop_bit 8 x)) c;
         c = set_header_byte 10 (ucast (drop_bit 16 x)) c;
         c = set_header_byte 11 (ucast (drop_bit 24 x)) c;
         c = set_header_byte 12 (ucast (drop_bit 32 x)) c
     in set_header_byte 13 (ucast (drop_bit 40 x)) c)"

definition chunkOffset :: "'a chunk_header_scheme \<Rightarrow> nat" where
  "chunkOffset c =
     unat (ucast (header_byte 8 c) OR push_bit 8 (ucast (header_byte 9 c)) OR
           push_bit 16 (ucast (header_byte 10 c)) OR push_bit 24 (ucast (header_byte 11 c)) OR
           push_bit 32 (ucast (header_byte 12 c)) OR push_bit 40 (ucast (header_byte 13 c)) :: 64 word)"

definition payloadSize :: "'a chunk_header_scheme \<Rightarrow> nat" where
  "payloadSize c = sub32 (numberValidBytes c) (additionalHeaderSizeBytes c)"

definition clearScatterGatherList :: "'a stream_data_chunk_scheme \<Rightarrow> 'a stream_data_chunk_scheme" where
  "clearScatterGatherList c = c\<lparr>scatterGatherList := [], currentScatterGatherListByteCount := 0\<rparr>"

definition data_chunk_of_chunk :: "chunk \<Rightarrow> stream_data_chunk" where
  "data_chunk_of_chunk c =
     \<lparr>header = header c, currentFileIndex = currentFileIndex c, numberLoadedBytes = numberLoadedBytes c,
      scatterGatherList = [], currentScatterGatherListByteCount = 0\<rparr>"

definition StreamDataChunk :: "(nat \<Rightarrow> byte) \<Rightarrow> nat \<Rightarrow> nat \<Rightarrow> nat \<Rightarrow> stream_data_chunk option" where
  "StreamDataChunk uninit index sid offset = do {
     c \<leftarrow> StreamChunk uninit index sid numberDataHeaderBytes;
     Some (clearScatterGatherList (data_chunk_of_chunk (setChunkOffset offset (setType STREAM_DATA_CHUNK c))))
   }"

definition StreamDataChunk_common :: "(nat \<Rightarrow> byte) \<Rightarrow> nat \<Rightarrow> byte list \<Rightarrow> stream_data_chunk option" where
  "StreamDataChunk_common uninit index commonHeader = do {
     c \<leftarrow> StreamChunk_common uninit index commonHeader numberDataHeaderBytes;
     Some (clearScatterGatherList (data_chunk_of_chunk c))
   }"

definition addScatterGatherListSegment ::
  "scatter_gather_list_segment \<Rightarrow> 'a stream_data_chunk_scheme \<Rightarrow> nat \<times> 'a stream_data_chunk_scheme" where
  "addScatterGatherListSegment newSegment c = (
     let availableSpace = additionalAvailableSpace c;
         count = currentScatterGatherListByteCount c;
         bytesRemainingInChunk = (if availableSpace > count then availableSpace - count else 0);
         segmentLength = currentLength newSegment;
         expectedBytesProcessed =
           (if segmentLength < bytesRemainingInChunk then segmentLength else bytesRemainingInChunk)
     in (expectedBytesProcessed,
         c\<lparr>scatterGatherList := scatterGatherList c @ [newSegment],
           currentScatterGatherListByteCount := u32 (count + segmentLength)\<rparr>))"

definition addScatterGatherListSegment_buffer ::
  "pointer \<Rightarrow> nat \<Rightarrow> 'a stream_data_chunk_scheme \<Rightarrow> (nat \<times> 'a stream_data_chunk_scheme) option" where
  "addScatterGatherListSegment_buffer buffer bufferLength c = do {
     s \<leftarrow> ScatterGatherListSegment buffer bufferLength 0;
     Some (addScatterGatherListSegment s c)
   }"

definition scatterGatherListSize :: "'a stream_data_chunk_scheme \<Rightarrow> nat" where
  "scatterGatherListSize c = u32 (length (scatterGatherList c))"

definition scatterGatherListSegment :: "nat \<Rightarrow> 'a stream_data_chunk_scheme \<Rightarrow> scatter_gather_list_segment" where
  "scatterGatherListSegment index c =
     (if index < length (scatterGatherList c) then scatterGatherList c ! index
      else \<lparr>currentBase = NullPtr, currentLength = 0, currentProcessedCount = 0\<rparr>)"

subsection \<open>Scattering and gathering the payload\<close>

definition loadHeader ::
  "'d container_ops \<Rightarrow> bool \<Rightarrow> 'a stream_data_chunk_scheme \<Rightarrow> ('d, 'z) world_scheme \<Rightarrow>
   (status \<times> 'a stream_data_chunk_scheme \<times> ('d, 'z) world_scheme) option" where
  "loadHeader K includeCommonHeader c w = Chunk_load K includeCommonHeader c w"

fun load_segments ::
  "'d container_ops \<Rightarrow> scatter_gather_list_segment list \<Rightarrow> status \<Rightarrow> nat \<Rightarrow> memory \<Rightarrow> ('d, 'z) world_scheme \<Rightarrow>
   (status \<times> scatter_gather_list_segment list \<times> memory \<times> ('d, 'z) world_scheme) option" where
  "load_segments K [] status payloadBytesRemaining mem w = Some (status, [], mem, w)"
| "load_segments K (s # ss) status payloadBytesRemaining mem w =
     (if has_info status \<or> payloadBytesRemaining = 0 then Some (status, s # ss, mem, w)
      else do {
        let bytesToRead =
          (if currentLength s < payloadBytesRemaining then currentLength s else payloadBytesRemaining);
        (status, bytes, w) \<leftarrow> container_read K bytesToRead w;
        mem \<leftarrow> store_bytes mem (currentBase s) bytes;
        status \<leftarrow> completed_read status bytesToRead;
        s \<leftarrow> (if has_info status then Some s else setProcessedCount bytesToRead s);
        (status, ss, mem, w) \<leftarrow> load_segments K ss status (payloadBytesRemaining - bytesToRead) mem w;
        Some (status, s # ss, mem, w)
      })"

definition StreamDataChunk_load ::
  "'d container_ops \<Rightarrow> bool \<Rightarrow> 'a stream_data_chunk_scheme \<Rightarrow> memory \<Rightarrow> ('d, 'z) world_scheme \<Rightarrow>
   (status \<times> 'a stream_data_chunk_scheme \<times> memory \<times> ('d, 'z) world_scheme) option" where
  "StreamDataChunk_load K includeCommonHeader c mem w = do {
     (status, c, w) \<leftarrow> loadHeader K includeCommonHeader c w;
     (status, segments, mem, w) \<leftarrow> load_segments K (scatterGatherList c) status (payloadSize c) mem w;
     Some (status, c\<lparr>scatterGatherList := segments\<rparr>, mem, w)
   }"

fun save_segments ::
  "'d container_ops \<Rightarrow> scatter_gather_list_segment list \<Rightarrow> status \<Rightarrow> nat \<Rightarrow> memory \<Rightarrow> ('d, 'z) world_scheme \<Rightarrow>
   (status \<times> scatter_gather_list_segment list \<times> ('d, 'z) world_scheme) option" where
  "save_segments K [] status payloadBytesRemaining mem w = Some (status, [], w)"
| "save_segments K (s # ss) status payloadBytesRemaining mem w =
     (if has_info status \<or> payloadBytesRemaining = 0 then Some (status, s # ss, w)
      else do {
        let bytesToWrite =
          (if currentLength s < payloadBytesRemaining then currentLength s else payloadBytesRemaining);
        bytes \<leftarrow> load_bytes mem (currentBase s) bytesToWrite;
        (status, w) \<leftarrow> container_write K bytes w;
        status \<leftarrow> completed_write status bytesToWrite;
        s \<leftarrow> (if has_info status then Some s else setProcessedCount bytesToWrite s);
        (status, ss, w) \<leftarrow> save_segments K ss status (payloadBytesRemaining - bytesToWrite) mem w;
        Some (status, s # ss, w)
      })"

fun segments_crc ::
  "scatter_gather_list_segment list \<Rightarrow> nat \<Rightarrow> memory \<Rightarrow> running_crc \<Rightarrow> running_crc option" where
  "segments_crc [] payloadBytesRemaining mem currentCrc = Some currentCrc"
| "segments_crc (s # ss) payloadBytesRemaining mem currentCrc =
     (if payloadBytesRemaining = 0 then Some currentCrc
      else do {
        let bytesToProcess =
          (if currentLength s < payloadBytesRemaining then currentLength s else payloadBytesRemaining);
        bytes \<leftarrow> load_bytes mem (currentBase s) bytesToProcess;
        segments_crc ss (payloadBytesRemaining - bytesToProcess) mem (calculateCrc currentCrc bytes)
      })"

definition StreamDataChunk_checkCrc :: "memory \<Rightarrow> 'a stream_data_chunk_scheme \<Rightarrow> bool option" where
  "StreamDataChunk_checkCrc mem c = do {
     currentCrc \<leftarrow> segments_crc (scatterGatherList c) (additionalAvailableSpace c) mem (initializeCrc c);
     Some (currentCrc = crc c)
   }"

definition StreamDataChunk_updateCrc ::
  "memory \<Rightarrow> 'a stream_data_chunk_scheme \<Rightarrow> 'a stream_data_chunk_scheme option" where
  "StreamDataChunk_updateCrc mem c = do {
     currentCrc \<leftarrow> segments_crc (scatterGatherList c) (additionalAvailableSpace c) mem (initializeCrc c);
     Some (setCrc currentCrc c)
   }"

definition StreamDataChunk_save ::
  "'d container_ops \<Rightarrow> bool \<Rightarrow> 'a stream_data_chunk_scheme \<Rightarrow> memory \<Rightarrow> ('d, 'z) world_scheme \<Rightarrow>
   (status \<times> 'a stream_data_chunk_scheme \<times> ('d, 'z) world_scheme) option" where
  "StreamDataChunk_save K padToChunkSize c mem w = do {
     let available = additionalAvailableSpace c;
     let payloadBytesRemaining =
       (if currentScatterGatherListByteCount c < available then currentScatterGatherListByteCount c else available);
     (actualPayload, _, c) \<leftarrow>
       setNumberValidBytes (u32 (payloadBytesRemaining + additionalHeaderSizeBytes c)) False c;
     assertion (actualPayload = u32 (payloadBytesRemaining + additionalHeaderSizeBytes c));
     (status, c, w) \<leftarrow> Chunk_save K (StreamDataChunk_updateCrc mem) False c w;
     (status, segments, w) \<leftarrow> save_segments K (scatterGatherList c) status payloadBytesRemaining mem w;
     let c = c\<lparr>scatterGatherList := segments\<rparr>;
     if \<not> has_info status \<and> padToChunkSize then do {
       (status, w) \<leftarrow> Chunk_writeTail K 0 c w;
       Some (status, c, w)
     } else Some (status, c, w)
   }"

subsection \<open>Reading back the offset\<close>

lemma join_byte:
  "take_bit k x OR push_bit k (ucast (ucast (drop_bit k x) :: byte)) = (take_bit (k + 8) x :: 64 word)"
  by (rule bit_word_eqI) (auto simp: bit_or_iff bit_push_bit_iff bit_unsigned_iff bit_drop_bit_eq bit_take_bit_iff)

lemma chunk_offset_word:
  fixes x :: "64 word"
  shows "ucast (ucast x :: byte) OR push_bit 8 (ucast (ucast (drop_bit 8 x) :: byte)) OR
    push_bit 16 (ucast (ucast (drop_bit 16 x) :: byte)) OR push_bit 24 (ucast (ucast (drop_bit 24 x) :: byte)) OR
    push_bit 32 (ucast (ucast (drop_bit 32 x) :: byte)) OR push_bit 40 (ucast (ucast (drop_bit 40 x) :: byte)) =
    (take_bit 48 x :: 64 word)"
proof -
  have "ucast (ucast x :: byte) = (take_bit 8 x :: 64 word)"
    by (rule bit_word_eqI) (auto simp: bit_unsigned_iff bit_take_bit_iff)
  then show ?thesis by (simp add: join_byte flip: or.assoc)
qed

lemma setChunkOffset_fields [stream_fields]:
  assumes "14 \<le> length (header c)"
  shows "chunkOffset (setChunkOffset n c) = n mod 281474976710656"
    "take 8 (header (setChunkOffset n c)) = take 8 (header c)"
    "drop 14 (header (setChunkOffset n c)) = drop 14 (header c)"
    "length (header (setChunkOffset n c)) = length (header c)"
proof -
  have l: "8 < length (header c)" "9 < length (header c)" "10 < length (header c)" "11 < length (header c)"
    "12 < length (header c)" "13 < length (header c)" using assms by simp_all
  have "unat (take_bit 48 (word_of_nat n :: 64 word)) = n mod 281474976710656"
    by (simp only: unsigned_take_bit_eq) (simp add: take_bit_eq_mod unat_of_nat mod_mod_cancel)
  with l show "chunkOffset (setChunkOffset n c) = n mod 281474976710656"
    by (simp add: chunkOffset_def setChunkOffset_def Let_def chunk_offset_word)
qed (simp_all add: setChunkOffset_def Let_def set_header_byte_def)

lemma chunkOffset_cong:
  assumes "take 6 (drop 8 (header c)) = take 6 (drop 8 (header d))" "14 \<le> length (header c)" "14 \<le> length (header d)"
  shows "chunkOffset c = chunkOffset d"
proof -
  have "header_byte (8 + i) c = header_byte (8 + i) d" if "i < 6" for i
    using arg_cong [OF assms(1), of "\<lambda>l. l ! i"] that assms(2,3) by (simp add: header_byte_def)
  from this [of 0] this [of 1] this [of 2] this [of 3] this [of 4] this [of 5]
  show "chunkOffset c = chunkOffset d" by (simp add: chunkOffset_def)
qed

lemma data_chunk_frame [simp]:
  "header (data_chunk_of_chunk c) = header c" "currentFileIndex (data_chunk_of_chunk c) = currentFileIndex c"
  "scatterGatherList (data_chunk_of_chunk c) = []" "currentScatterGatherListByteCount (data_chunk_of_chunk c) = 0"
  "header (clearScatterGatherList d) = header d" "currentFileIndex (clearScatterGatherList d) = currentFileIndex d"
  "scatterGatherList (clearScatterGatherList d) = []" "currentScatterGatherListByteCount (clearScatterGatherList d) = 0"
  "currentFileIndex (setChunkOffset n c) = currentFileIndex c"
  by (simp_all add: data_chunk_of_chunk_def clearScatterGatherList_def setChunkOffset_def Let_def)

text \<open>The fields of a header are functions of the header array.\<close>

lemma fields_of_header:
  assumes "header c = header d"
  shows "header_type c = header_type d" "chunkSize c = chunkSize d" "numberValidBytes c = numberValidBytes d"
    "crc c = crc d" "streamIdentifier c = streamIdentifier d" "isLast c = isLast d" "chunkOffset c = chunkOffset d"
    "additionalHeader c = additionalHeader d" "initializeCrc c = initializeCrc d"
    "additionalHeaderSizeBytes c = additionalHeaderSizeBytes d"
    "additionalAvailableSpace c = additionalAvailableSpace d" "payloadSize c = payloadSize d"
  using assms
  by (simp_all add: header_type_def chunkSize_def numberValidBytes_def crc_def streamIdentifier_def isLast_def
      chunkOffset_def additionalHeader_def initializeCrc_def additionalHeaderSizeBytes_def
      additionalAvailableSpace_def payloadSize_def header_byte_def)

lemma StreamDataChunk_establishes:
  obtains c where "StreamDataChunk uninit index sid offset = Some c" "length (header c) = 14"
    "header_type c = STREAM_DATA_CHUNK" "streamIdentifier c = sid mod 2147483648"
    "chunkOffset c = offset mod 281474976710656" "currentFileIndex c = index" "scatterGatherList c = []"
    "currentScatterGatherListByteCount c = 0" "chunkSize c = 32" "numberValidBytes c = 10"
proof -
  have "(6 :: nat) \<le> 4088" by simp
  from StreamChunk_establishes [OF this, where uninit = uninit and index = index and sid = sid] obtain s where
    s: "StreamChunk uninit index sid 6 = Some s" "length (header s) = 6 + 8" "numberValidBytes s = 6 + 4"
      "chunkSize s = fit_size (6 + 8)" "streamIdentifier s = sid mod 2147483648" "currentFileIndex s = index" .
  let ?t = "setType STREAM_DATA_CHUNK s"
  have pos: "0 < length (header s)" using s(2) by simp
  note t = setType_fields [OF pos, of STREAM_DATA_CHUNK]
  have lt: "14 \<le> length (header ?t)" "8 \<le> length (header ?t)" "8 \<le> length (header s)" using t s(2) by simp_all
  have "take 4 (drop 4 (header ?t)) = take 4 (drop 4 (header s))" by (simp add: setType_def)
  from stream_header_cong [OF this lt(2,3)] s
  have ti: "streamIdentifier ?t = sid mod 2147483648" by simp
  let ?o = "setChunkOffset offset ?t"
  note o = setChunkOffset_fields [OF lt(1), of offset]
  have lo: "8 \<le> length (header ?o)" "4 \<le> length (header ?o)" "4 \<le> length (header ?t)" using o(4) lt by simp_all
  have "take 4 (header ?o) = take 4 (header ?t)" "take 4 (drop 4 (header ?o)) = take 4 (drop 4 (header ?t))"
    using arg_cong [OF o(2), of "take 4"] arg_cong [OF o(2), of "drop 4"] by (simp_all add: drop_take)
  note oc = header_common_cong [OF this(1) lo(2,3)] stream_header_cong [OF this(2) lo(1) lt(2)]
  let ?c = "clearScatterGatherList (data_chunk_of_chunk ?o)"
  have "header ?c = header ?o" by simp
  note fc = fields_of_header [OF this]
  have "StreamDataChunk uninit index sid offset = Some ?c"
    using s(1) by (simp add: StreamDataChunk_def)
  then show ?thesis
    by (rule that) (use s t o oc ti fc in \<open>simp_all add: fit_size_def\<close>)
qed

lemma StreamDataChunk_common_establishes:
  assumes "length common = 4"
  obtains c where "StreamDataChunk_common uninit index common = Some c" "length (header c) = 14"
    "take 4 (header c) = common" "currentFileIndex c = index" "scatterGatherList c = []"
    "currentScatterGatherListByteCount c = 0"
proof -
  let ?c = "chunk_of_header index \<lparr>header = common @ drop 4 (new_array uninit 14)\<rparr>"
  let ?s = "?c\<lparr>header := overlay (header ?c) 4 [0, 0, 0, 0]\<rparr>"
  have "StreamDataChunk_common uninit index common = Some (clearScatterGatherList (data_chunk_of_chunk ?s))"
    using ChunkHeader_common_eq [of 10 common uninit] assms
    by (simp add: StreamDataChunk_common_def StreamChunk_common_def Chunk_common_def)
  moreover have "length (header ?s) = 14" "take 4 (header ?s) = common"
    using assms by (simp_all add: overlay_simps)
  ultimately show ?thesis using that by simp
qed

subsection \<open>What the segments hold\<close>

fun gather :: "memory \<Rightarrow> scatter_gather_list_segment list \<Rightarrow> byte list option" where
  "gather mem [] = Some []"
| "gather mem (s # ss) = do {
     a \<leftarrow> load_bytes mem (currentBase s) (currentLength s);
     b \<leftarrow> gather mem ss;
     Some (a @ b)
   }"

fun scatter :: "memory \<Rightarrow> scatter_gather_list_segment list \<Rightarrow> byte list \<Rightarrow> memory option" where
  "scatter mem [] bs = Some mem"
| "scatter mem (s # ss) bs =
     (if bs = [] then Some mem
      else do {
        mem \<leftarrow> store_bytes mem (currentBase s) (take (currentLength s) bs);
        scatter mem ss (drop (currentLength s) bs)
      })"

text \<open>The processed counts after \<open>n\<close> bytes went through the segments.\<close>

fun processed :: "nat \<Rightarrow> scatter_gather_list_segment list \<Rightarrow> scatter_gather_list_segment list" where
  "processed n [] = []"
| "processed n (s # ss) =
     (if n = 0 then s # ss
      else s\<lparr>currentProcessedCount := min (currentLength s) n\<rparr> # processed (n - min (currentLength s) n) ss)"

definition total_length :: "scatter_gather_list_segment list \<Rightarrow> nat" where
  "total_length ss = sum_list (map currentLength ss)"

lemma total_length_simps [simp]:
  "total_length [] = 0" "total_length (s # ss) = currentLength s + total_length ss"
  "total_length (ss @ tt) = total_length ss + total_length tt"
  by (simp_all add: total_length_def)

lemma length_processed [simp]: "length (processed n ss) = length ss"
  by (induction n ss rule: processed.induct) simp_all

lemma processed_counts:
  assumes "n \<le> total_length ss" "\<forall>s \<in> set ss. currentProcessedCount s = 0"
  shows "sum_list (map currentProcessedCount (processed n ss)) = n"
proof -
  have "sum_list (map currentProcessedCount ss) = 0" if "\<forall>s \<in> set ss. currentProcessedCount s = 0"
    for ss :: "scatter_gather_list_segment list"
    using that by (induction ss) simp_all
  with assms show ?thesis
    by (induction n ss rule: processed.induct) (auto simp: min_def)
qed

lemma length_gather: "gather mem ss = Some bs \<Longrightarrow> length bs = total_length ss"
  by (induction ss arbitrary: bs) (auto simp: length_load_bytes split: bind_splits)

lemma load_bytes_prefix:
  "load_bytes mem p n = Some bs \<Longrightarrow> m \<le> n \<Longrightarrow> load_bytes mem p m = Some (take m bs)"
  by (auto simp: load_bytes_def min_def split: if_splits pointer.splits)

lemma gather_append:
  "gather mem ss = Some a \<Longrightarrow> gather mem tt = Some b \<Longrightarrow> gather mem (ss @ tt) = Some (a @ b)"
  by (induction ss arbitrary: a) (auto split: bind_splits)

lemma segments_crc_gather:
  "gather mem ss = Some bs \<Longrightarrow> segments_crc ss n mem c = Some (calculateCrc c (take n bs))"
proof (induction ss n mem c arbitrary: bs rule: segments_crc.induct)
  case (2 s ss n mem c)
  from "2.prems" obtain a b where ab: "load_bytes mem (currentBase s) (currentLength s) = Some a"
    "gather mem ss = Some b" "bs = a @ b" by (auto split: bind_splits)
  let ?k = "if currentLength s < n then currentLength s else n"
  have len: "length a = currentLength s" using length_load_bytes [OF ab(1)] .
  have "load_bytes mem (currentBase s) ?k = Some (take n a)"
    using load_bytes_prefix [OF ab(1), of ?k] len by auto
  moreover have "take n bs = take n a @ take (n - ?k) b" using ab(3) len by auto
  ultimately show ?case using "2.IH" ab(2) by (simp add: calculateCrc_append Let_def)
qed simp

context storage
begin

lemma save_segments_law:
  assumes "gather mem ss = Some bs" "n \<le> length bs" "ok (device w)" "cursor (device w) + n \<le> storage_limit"
    "length (content (device w)) \<le> storage_limit" "n < 4294967296"
  shows "\<exists>d. save_segments K ss NoStatus n mem w = Some (NoStatus, processed n ss, w\<lparr>device := d\<rparr>) \<and> ok d \<and>
    content d = overlay (content (device w)) (cursor (device w)) (take n bs) \<and> cursor d = cursor (device w) + n"
  using assms
proof (induction ss arbitrary: bs n w)
  case Nil
  then show ?case by (auto intro!: exI [of _ "device w"])
next
  case (Cons s ss)
  show ?case
  proof (cases "n = 0")
    case True
    then show ?thesis using Cons.prems by (auto intro!: exI [of _ "device w"])
  next
    case False
    from Cons.prems(1) obtain a b where ab: "load_bytes mem (currentBase s) (currentLength s) = Some a"
      "gather mem ss = Some b" "bs = a @ b" by (auto split: bind_splits)
    let ?k = "min (currentLength s) n"
    have len: "length a = currentLength s" using length_load_bytes [OF ab(1)] .
    have k: "(if currentLength s < n then currentLength s else n) = ?k" by simp
    have ld: "load_bytes mem (currentBase s) ?k = Some (take ?k a)"
      using load_bytes_prefix [OF ab(1), of ?k] by simp
    have lk: "length (take ?k a) = ?k" using len by simp
    have kk: "cursor (device w) + length (take ?k a) \<le> storage_limit" "length (take ?k a) < 4294967296"
      using Cons.prems(4,6) unfolding lk by simp_all
    from container_write_law [OF Cons.prems(3) kk(1) Cons.prems(5) kk(2), unfolded lk] obtain d1 where
      d1: "container_write K (take ?k a) w = Some (WriteSuccessful ?k, w\<lparr>device := d1\<rparr>)" "ok d1"
        "content d1 = overlay (content (device w)) (cursor (device w)) (take ?k a)"
        "cursor d1 = cursor (device w) + ?k" .
    let ?w = "w\<lparr>device := d1\<rparr>"
    have c: "cursor (device w) \<le> length (content (device w))" using cursor_law Cons.prems(3) by blast
    have "\<exists>d. save_segments K ss NoStatus (n - ?k) mem ?w = Some (NoStatus, processed (n - ?k) ss, ?w\<lparr>device := d\<rparr>) \<and>
        ok d \<and> content d = overlay (content (device ?w)) (cursor (device ?w)) (take (n - ?k) b) \<and>
        cursor d = cursor (device ?w) + (n - ?k)"
      by (rule Cons.IH) (use ab(2) Cons.prems ab(3) d1 len lk c in \<open>auto simp: length_overlay min_def\<close>)
    then obtain d2 where
      d2: "save_segments K ss NoStatus (n - ?k) mem ?w = Some (NoStatus, processed (n - ?k) ss, w\<lparr>device := d2\<rparr>)"
        "ok d2" "content d2 = overlay (content d1) (cursor d1) (take (n - ?k) b)" "cursor d2 = cursor (device w) + n"
      using d1 by auto
    have "take n bs = take ?k a @ take (n - ?k) b" using ab(3) len by (auto simp: min_def)
    then have "content d2 = overlay (content (device w)) (cursor (device w)) (take n bs)"
      using d1 d2 c lk overlay_overlay_adjacent [OF c, of "take ?k a" "take (n - ?k) b"] by simp
    moreover have "save_segments K (s # ss) NoStatus n mem w =
        Some (NoStatus, processed n (s # ss), w\<lparr>device := d2\<rparr>)"
      using False d1(1) d2(1) ld unfolding save_segments.simps k by (simp add: setProcessedCount_def Let_def)
    ultimately show ?thesis using d2 by blast
  qed
qed

lemma load_segments_law:
  assumes "scatter mem ss (take n (drop (cursor (device w)) (content (device w)))) = Some mem'"
    "n \<le> total_length ss" "ok (device w)" "cursor (device w) + n \<le> length (content (device w))"
    "length (content (device w)) \<le> storage_limit" "n < 4294967296"
  shows "\<exists>d. load_segments K ss NoStatus n mem w = Some (NoStatus, processed n ss, mem', w\<lparr>device := d\<rparr>) \<and> ok d \<and>
    content d = content (device w) \<and> cursor d = cursor (device w) + n"
  using assms
proof (induction ss arbitrary: mem n w)
  case Nil
  then show ?case by (auto intro!: exI [of _ "device w"])
next
  case (Cons s ss)
  show ?case
  proof (cases "n = 0")
    case True
    then show ?thesis using Cons.prems by (auto intro!: exI [of _ "device w"])
  next
    case False
    let ?k = "min (currentLength s) n" and ?bs = "take n (drop (cursor (device w)) (content (device w)))"
    have k: "(if currentLength s < n then currentLength s else n) = ?k" by simp
    have "length ?bs = n" using Cons.prems(4) by simp
    then have "?bs \<noteq> []" using False by force
    have tk: "take (currentLength s) ?bs = take ?k (drop (cursor (device w)) (content (device w)))"
      by (simp add: min.commute)
    from Cons.prems(1) \<open>?bs \<noteq> []\<close> obtain mem1 where
      m1: "store_bytes mem (currentBase s) (take (currentLength s) ?bs) = Some mem1"
        "scatter mem1 ss (drop (currentLength s) ?bs) = Some mem'"
      by (auto split: bind_splits)
    have kk: "cursor (device w) + ?k \<le> length (content (device w))" "?k < 4294967296"
      using Cons.prems(4,6) by simp_all
    from container_read_law [OF Cons.prems(3) kk(1) Cons.prems(5) kk(2)] obtain d1 where
      d1: "container_read K ?k w = Some (ReadSuccessful ?k, take ?k (drop (cursor (device w)) (content (device w))),
          w\<lparr>device := d1\<rparr>)" "ok d1" "content d1 = content (device w)" "cursor d1 = cursor (device w) + ?k" .
    let ?w = "w\<lparr>device := d1\<rparr>"
    have "drop (currentLength s) ?bs = take (n - ?k) (drop (cursor (device ?w)) (content (device ?w)))"
      using d1 by (simp add: drop_take min_def add.commute)
    then have "\<exists>d. load_segments K ss NoStatus (n - ?k) mem1 ?w =
          Some (NoStatus, processed (n - ?k) ss, mem', ?w\<lparr>device := d\<rparr>) \<and>
        ok d \<and> content d = content (device ?w) \<and> cursor d = cursor (device ?w) + (n - ?k)"
      by (intro Cons.IH) (use m1 Cons.prems d1 in \<open>auto simp: min_def\<close>)
    then obtain d2 where
      d2: "load_segments K ss NoStatus (n - ?k) mem1 ?w = Some (NoStatus, processed (n - ?k) ss, mem', w\<lparr>device := d2\<rparr>)"
        "ok d2" "content d2 = content (device w)" "cursor d2 = cursor (device w) + n"
      using d1 by auto
    have "load_segments K (s # ss) NoStatus n mem w =
        Some (NoStatus, processed n (s # ss), mem', w\<lparr>device := d2\<rparr>)"
      using False d1(1) d2(1) m1(1) unfolding load_segments.simps k tk by (simp add: setProcessedCount_def Let_def)
    with d2 show ?thesis by blast
  qed
qed

end

subsection \<open>Saving and loading on a medium without faults\<close>

lemma with_valid_bytes_frame [simp]:
  "currentFileIndex (with_valid_bytes n c) = currentFileIndex c"
  "scatterGatherList (with_valid_bytes n d) = scatterGatherList d"
  "currentScatterGatherListByteCount (with_valid_bytes n d) = currentScatterGatherListByteCount d"
  "scatterGatherList (setCrc v d) = scatterGatherList d"
  "currentScatterGatherListByteCount (setCrc v d) = currentScatterGatherListByteCount d"
  by (simp_all add: with_valid_bytes_def setCrc_def set_header_byte_def Let_def)

lemma stream_fields_cong:
  assumes "drop 4 (header c) = drop 4 (header d)" "length (header c) = 14" "length (header d) = 14"
  shows "streamIdentifier c = streamIdentifier d" "chunkOffset c = chunkOffset d"
proof -
  have "take 6 (drop 4 (drop 4 (header c))) = take 6 (drop 4 (drop 4 (header d)))"
    "take 4 (drop 4 (header c)) = take 4 (drop 4 (header d))" by (simp_all only: assms(1))
  then show "streamIdentifier c = streamIdentifier d" "chunkOffset c = chunkOffset d"
    using stream_header_cong [of c d] chunkOffset_cong [of c d] assms(2,3) by simp_all
qed

lemma fit_size_chunkSize [simp]: "fit_size (chunkSize c) = chunkSize c"
  using chunkSize_cases [of c] by (auto simp: fit_size_def)

text \<open>What \<open>save\<close> does to the header before it is written.\<close>

definition saved_header :: "byte list \<Rightarrow> 'a stream_data_chunk_scheme \<Rightarrow> 'a stream_data_chunk_scheme" where
  "saved_header payload c =
     (let c = with_valid_bytes (length payload + 10) c in setCrc (calculateCrc (initializeCrc c) payload) c)"

lemma saved_header_fields [stream_fields]:
  assumes "length (header c) = 14" "length payload \<le> 4082"
  shows "length (header (saved_header payload c)) = 14" "header_type (saved_header payload c) = header_type c"
    "chunkSize (saved_header payload c) = fit_size (length payload + 14)"
    "numberValidBytes (saved_header payload c) = length payload + 10"
    "crc (saved_header payload c) = calculateCrc (initializeCrc (saved_header payload c)) payload"
    "streamIdentifier (saved_header payload c) = streamIdentifier c"
    "chunkOffset (saved_header payload c) = chunkOffset c"
    "currentFileIndex (saved_header payload c) = currentFileIndex c"
    "scatterGatherList (saved_header payload c) = scatterGatherList c"
proof -
  let ?m = "length payload + 10"
  let ?v = "with_valid_bytes ?m c"
  have l2: "2 \<le> length (header c)" "?m \<le> 4092" using assms by simp_all
  note v = with_valid_bytes_fields [OF l2]
  have l4: "4 \<le> length (header ?v)" using v(4) assms by simp
  note s = setCrc_fields [OF l4] crc_setCrc [OF l4]
  have d: "drop 4 (header (saved_header payload c)) = drop 4 (header c)"
    using arg_cong [OF v(5), of "drop 2"]
    by (simp add: saved_header_def Let_def setCrc_def set_header_byte_def)
  show len: "length (header (saved_header payload c)) = 14"
    using v assms by (simp add: saved_header_def Let_def s)
  show "streamIdentifier (saved_header payload c) = streamIdentifier c"
    "chunkOffset (saved_header payload c) = chunkOffset c"
    using stream_fields_cong [OF d len assms(1)] .
  show "header_type (saved_header payload c) = header_type c"
    "chunkSize (saved_header payload c) = fit_size (length payload + 14)"
    "numberValidBytes (saved_header payload c) = length payload + 10"
    "crc (saved_header payload c) = calculateCrc (initializeCrc (saved_header payload c)) payload"
    "currentFileIndex (saved_header payload c) = currentFileIndex c"
    "scatterGatherList (saved_header payload c) = scatterGatherList c"
    using v by (simp_all add: saved_header_def Let_def s ac_simps)
qed

lemma updateCrc_saved_header:
  assumes "length (header c) = 14" "gather mem (scatterGatherList c) = Some bs"
    "payload = take (chunkSize c - 14) bs"
  shows "StreamDataChunk_updateCrc mem (with_valid_bytes (length payload + 10) c) = Some (saved_header payload c)"
    "length payload + 14 \<le> chunkSize c" "fit_size (length payload + 14) \<le> chunkSize c"
proof -
  note b = chunkSize_bounds [of c] and f = fit_size_bounds [of "length payload + 14"]
  show le: "length payload + 14 \<le> chunkSize c" using assms(3) b by simp
  show "fit_size (length payload + 14) \<le> chunkSize c"
    using fit_size_least [OF chunkSize_cases [of c] le] .
  have l2: "2 \<le> length (header c)" "length payload + 10 \<le> 4092" using assms(1) le b by simp_all
  note v = with_valid_bytes_fields [OF l2]
  have "additionalAvailableSpace (with_valid_bytes (length payload + 10) c) = fit_size (length payload + 14) - 14"
    using v assms(1) le b f by (simp add: additionalAvailableSpace_def sub32_id ac_simps)
  moreover have "take (fit_size (length payload + 14) - 14) bs = payload"
  proof (cases "length bs \<le> chunkSize c - 14")
    case True
    moreover have "length bs + 14 \<le> fit_size (length bs + 14)"
      using fit_size_bounds(3) [of "length bs + 14"] True b by simp
    ultimately show ?thesis using assms(3) by simp
  next
    case False
    then have "length payload + 14 = chunkSize c" using assms(3) b by simp
    then show ?thesis using assms(3) by simp
  qed
  ultimately show "StreamDataChunk_updateCrc mem (with_valid_bytes (length payload + 10) c) = Some (saved_header payload c)"
    using segments_crc_gather [OF assms(2)] by (simp add: StreamDataChunk_updateCrc_def saved_header_def Let_def)
qed

context storage
begin

lemma StreamDataChunk_save_law:
  assumes w: "ok (device w)" "length (content (device w)) \<le> storage_limit"
    and c: "length (header c) = 14" "gather mem (scatterGatherList c) = Some bs"
      "currentScatterGatherListByteCount c = length bs"
    and pl: "payload = take (chunkSize c - 14) bs"
    and i: "32 * currentFileIndex c \<le> length (content (device w))"
      "32 * currentFileIndex c + fit_size (length payload + 14) \<le> storage_limit"
  obtains d seed tl where "StreamDataChunk_save K True c mem w =
      Some (NoStatus, (saved_header payload c)\<lparr>scatterGatherList := processed (length payload) (scatterGatherList c)\<rparr>,
        w\<lparr>device := d, randomSeed := seed\<rparr>)" "ok d"
    "content d = overlay (content (device w)) (32 * currentFileIndex c) (header (saved_header payload c) @ payload @ tl)"
    "length (header (saved_header payload c) @ payload @ tl) = fit_size (length payload + 14)"
proof -
  let ?p = "32 * currentFileIndex c" and ?n = "length payload" and ?h = "saved_header payload c"
  let ?v = "with_valid_bytes (?n + 10) c"
  note b = chunkSize_bounds [of c] and f = fit_size_bounds [of "?n + 14"]
  note u = updateCrc_saved_header [OF c(1,2) pl]
  have n: "?n \<le> 4082" "?n \<le> length bs" "payload = take ?n bs" using u b pl by (auto simp: min_def)
  note h = saved_header_fields [OF c(1) n(1)]
  have avail: "additionalAvailableSpace c = chunkSize c - 14" "additionalHeaderSizeBytes c = 10"
    using c(1) b u by (simp_all add: additionalAvailableSpace_def additionalHeaderSizeBytes_def sub32_id)
  have av2: "additionalHeaderSizeBytes ?v = 10"
    using with_valid_bytes_fields(4) [of c "?n + 10"] c(1) n by (simp add: additionalHeaderSizeBytes_def sub32_id)
  have pay: "(if length bs < chunkSize c - 14 then length bs else chunkSize c - 14) = ?n"
    using pl by auto
  have "2 \<le> length (header c)" "min (?n + 10) (chunkSize c - 4) = ?n + 10" using c(1) u by simp_all
  then have sv: "setNumberValidBytes (?n + 10) False c = Some (?n + 10, fit_size (?n + 10 + 4) \<noteq> chunkSize c, ?v)"
    using setNumberValidBytes_eq [of c "?n + 10" False] by simp
  have wrp: "u32 (?n + 10) = ?n + 10" using n by (simp add: u32_id)
  have idx: "currentFileIndex c < 134217728" using i f by (simp add: storage_limit_def)
  have fits: "14 \<le> fit_size (?n + 14)" "?n + 14 \<le> fit_size (?n + 14)" "fit_size (?n + 14) \<le> 4096"
    using f n by simp_all
  from Chunk_save_header_law [where upd = "StreamDataChunk_updateCrc mem" and c = ?v, OF w _ _ u(1)] obtain d1 where
    d1: "Chunk_save K (StreamDataChunk_updateCrc mem) False ?v w = Some (NoStatus, ?h, w\<lparr>device := d1\<rparr>)" "ok d1"
      "content d1 = overlay (content (device w)) ?p (header ?h)" "cursor d1 = ?p + 14"
    using h i idx fits by auto
  let ?w = "w\<lparr>device := d1\<rparr>"
  have lim1: "length (content d1) \<le> storage_limit" using d1 w h i fits by (simp add: length_overlay)
  from save_segments_law [OF c(2) n(2), of ?w] obtain d2 where
    d2: "save_segments K (scatterGatherList c) NoStatus ?n mem ?w =
        Some (NoStatus, processed ?n (scatterGatherList c), w\<lparr>device := d2\<rparr>)" "ok d2"
      "content d2 = overlay (content d1) (?p + 14) payload" "cursor d2 = ?p + 14 + ?n"
    using d1 lim1 i fits n by auto
  let ?w2 = "w\<lparr>device := d2\<rparr>" and ?c = "?h\<lparr>scatterGatherList := processed ?n (scatterGatherList c)\<rparr>"
  have hc: "header ?c = header ?h" "currentFileIndex ?c = currentFileIndex c" using h by simp_all
  note fc = fields_of_header [OF hc(1)]
  have at: "content d2 = overlay (content (device w)) ?p (header ?h @ payload)"
    using d1(3,4) d2(3) h(1) i(1) overlay_overlay_adjacent [of ?p "content (device w)" "header ?h" payload] by simp
  have lim2: "length (content d2) \<le> storage_limit"
    unfolding at using w(2) h(1) i fits by (simp add: length_overlay)
  have "ok (device ?w2)" "length (content (device ?w2)) \<le> storage_limit"
    "currentFileIndex ?c < 134217728" "32 * currentFileIndex ?c + chunkSize ?c \<le> storage_limit"
    "32 * currentFileIndex ?c \<le> cursor (device ?w2)" "cursor (device ?w2) \<le> 32 * currentFileIndex ?c + chunkSize ?c"
    using d2(2,4) lim2 idx hc(2) fc(2) h(3) i(2) fits by simp_all
  from Chunk_writeTail_law [OF this] obtain d seed tl where
    d: "Chunk_writeTail K 0 ?c ?w2 = Some (NoStatus, ?w2\<lparr>device := d, randomSeed := seed\<rparr>)" "ok d"
      "content d = overlay (content (device ?w2)) (cursor (device ?w2)) tl"
      "length tl = 32 * currentFileIndex ?c + chunkSize ?c - cursor (device ?w2)"
      "cursor d = 32 * currentFileIndex ?c + chunkSize ?c" .
  have "StreamDataChunk_save K True c mem w = Some (NoStatus, ?c, ?w2\<lparr>device := d, randomSeed := seed\<rparr>)"
    unfolding StreamDataChunk_save_def Let_def avail c(3) pay wrp sv
    by (simp add: d1(1) h(9) d2(1) d(1) av2 wrp)
  moreover have "content d = overlay (content (device w)) ?p (header ?h @ payload @ tl)"
    using d(3) at d2(4) h(1) i(1) overlay_overlay_adjacent [of ?p "content (device w)" "header ?h @ payload" tl] by (simp add: add.assoc)
  moreover have "length (header ?h @ payload @ tl) = fit_size (?n + 14)"
    using d(4) d2(4) h(1,3) hc(2) fc(2) fits by simp
  ultimately show ?thesis using d(2) that [where d = d and seed = seed and tl = tl] by simp
qed

end

subsection \<open>Stored data chunks\<close>

text \<open>
  The chunk of a virtual file that lies at a file index of a medium: a data chunk of the stream
  \<open>sid\<close> whose payload is the piece of the virtual file at \<open>offset\<close>, in the smallest chunk
  size that holds it.
\<close>

definition data_chunk_at :: "byte list \<Rightarrow> nat \<Rightarrow> nat \<Rightarrow> nat \<Rightarrow> byte list \<Rightarrow> bool" where
  "data_chunk_at bytes index sid offset payload \<longleftrightarrow>
     (let h = stored_header 14 bytes index in
      32 * index + fit_size (length payload + 14) \<le> length bytes \<and> length payload \<le> 4082 \<and>
      header_type h = STREAM_DATA_CHUNK \<and> streamIdentifier h = sid \<and> chunkOffset h = offset \<and>
      numberValidBytes h = length payload + 10 \<and> chunkSize h = fit_size (length payload + 14) \<and>
      take (length payload) (drop (32 * index + 14) bytes) = payload)"

text \<open>A chunk only depends on the bytes of its area.\<close>

lemma data_chunk_at_area:
  assumes "data_chunk_at bytes index sid offset payload"
    "take (fit_size (length payload + 14)) (drop (32 * index) bytes') =
     take (fit_size (length payload + 14)) (drop (32 * index) bytes)"
    "32 * index + fit_size (length payload + 14) \<le> length bytes'"
  shows "data_chunk_at bytes' index sid offset payload"
proof -
  let ?n = "length payload" and ?f = "fit_size (length payload + 14)"
  have n: "?n \<le> 4082" using assms(1) by (simp add: data_chunk_at_def Let_def)
  have f: "?n + 14 \<le> ?f" using fit_size_bounds(3) [of "?n + 14"] n by simp
  have "take 14 (take ?f (drop (32 * index) bytes')) = take 14 (take ?f (drop (32 * index) bytes))"
    "take ?n (drop 14 (take ?f (drop (32 * index) bytes'))) = take ?n (drop 14 (take ?f (drop (32 * index) bytes)))"
    by (simp_all only: assms(2))
  then have "take 14 (drop (32 * index) bytes') = take 14 (drop (32 * index) bytes)"
    "take ?n (drop (32 * index + 14) bytes') = take ?n (drop (32 * index + 14) bytes)"
    using f by (simp_all add: drop_take add.commute min_absorb1)
  then show ?thesis
    using assms(1,3) by (simp add: data_chunk_at_def Let_def stored_header_def)
qed

lemma data_chunk_at_saved:
  assumes "bytes = overlay old (32 * index) (h @ payload @ pad)" "32 * index \<le> length old"
    "length (h @ payload @ pad) = fit_size (length payload + 14)" "length h = 14" "length payload \<le> 4082"
    "header c = h" "header_type c = STREAM_DATA_CHUNK" "streamIdentifier c = sid" "chunkOffset c = offset"
    "numberValidBytes c = length payload + 10" "chunkSize c = fit_size (length payload + 14)"
  shows "data_chunk_at bytes index sid offset payload"
proof -
  have at: "take (length (h @ payload @ pad)) (drop (32 * index) bytes) = h @ payload @ pad"
    unfolding assms(1) by (rule take_drop_overlay [OF assms(2)])
  have "take 14 (drop (32 * index) bytes) = h"
    using arg_cong [OF at, of "take 14"] assms(4) by simp
  then have "header (stored_header 14 bytes index) = header c"
    using assms(6) by (simp add: stored_header_def)
  note f = fields_of_header [OF this]
  have "take (length payload) (drop 14 (drop (32 * index) bytes)) = payload"
    using arg_cong [OF at, of "\<lambda>l. take (length payload) (drop 14 l)"] assms(4)
    by (simp add: drop_take min_def)
  moreover have "32 * index + fit_size (length payload + 14) \<le> length bytes"
    unfolding assms(1) using assms(2,3) by (simp add: length_overlay)
  ultimately show ?thesis
    using f assms by (simp add: data_chunk_at_def Let_def add.commute)
qed

context storage
begin

lemma save_data_chunk_law:
  assumes w: "ok (device w)" "length (content (device w)) \<le> storage_limit"
    and c: "length (header c) = 14" "gather mem (scatterGatherList c) = Some bs"
      "currentScatterGatherListByteCount c = length bs" "header_type c = STREAM_DATA_CHUNK"
    and pl: "payload = take (chunkSize c - 14) bs"
    and i: "32 * currentFileIndex c \<le> length (content (device w))"
      "32 * currentFileIndex c + fit_size (length payload + 14) \<le> storage_limit"
  obtains d seed c' image where
    "StreamDataChunk_save K True c mem w = Some (NoStatus, c', w\<lparr>device := d, randomSeed := seed\<rparr>)" "ok d"
    "content d = overlay (content (device w)) (32 * currentFileIndex c) image"
    "length image = fit_size (length payload + 14)"
    "data_chunk_at (content d) (currentFileIndex c) (streamIdentifier c) (chunkOffset c) payload"
    "header c' = take 14 image" "chunkSize c' = fit_size (length payload + 14)"
    "currentFileIndex c' = currentFileIndex c" "chunkOffset c' = chunkOffset c" "streamIdentifier c' = streamIdentifier c"
    "scatterGatherList c' = processed (length payload) (scatterGatherList c)"
    "crc c' = calculateCrc (initializeCrc c') payload"
proof -
  from StreamDataChunk_save_law [OF w c(1-3) pl i] obtain d seed pad where
    d: "StreamDataChunk_save K True c mem w =
        Some (NoStatus, (saved_header payload c)\<lparr>scatterGatherList := processed (length payload) (scatterGatherList c)\<rparr>,
          w\<lparr>device := d, randomSeed := seed\<rparr>)" "ok d"
      "content d = overlay (content (device w)) (32 * currentFileIndex c) (header (saved_header payload c) @ payload @ pad)"
      "length (header (saved_header payload c) @ payload @ pad) = fit_size (length payload + 14)" .
  let ?c = "(saved_header payload c)\<lparr>scatterGatherList := processed (length payload) (scatterGatherList c)\<rparr>"
  have n: "length payload \<le> 4082" using pl chunkSize_bounds [of c] by simp
  note h = saved_header_fields [OF c(1) n]
  have "header ?c = header (saved_header payload c)" by simp
  note f = fields_of_header [OF this]
  have "data_chunk_at (content d) (currentFileIndex c) (streamIdentifier c) (chunkOffset c) payload"
    by (rule data_chunk_at_saved [where c = ?c, OF d(3) i(1) d(4) h(1) n]) (use f h c in simp_all)
  then show ?thesis
    by (intro that [OF d(1-4)]) (use f h in simp_all)
qed

lemma loadHeader_law:
  assumes w: "ok (device w)" "length (content (device w)) \<le> storage_limit"
    and c: "length (header c) = 14" "32 * currentFileIndex c + 14 \<le> length (content (device w))"
    and inc: "inc \<or> take 4 (header c) = take 4 (drop (32 * currentFileIndex c) (content (device w)))"
  obtains d where "loadHeader K inc c w =
      Some (NoStatus, c\<lparr>header := take 14 (drop (32 * currentFileIndex c) (content (device w)))\<rparr>, w\<lparr>device := d\<rparr>)" "ok d"
    "content d = content (device w)" "cursor d = 32 * currentFileIndex c + 14"
proof -
  let ?p = "32 * currentFileIndex c"
  have idx: "currentFileIndex c < 134217728" "?p + length (header c) \<le> length (content (device w))"
    "4 \<le> length (header c)" "length (header c) < 65536"
    using w c by (simp_all add: storage_limit_def)
  show thesis
  proof (cases inc)
    case True
    from Chunk_load_full_law [OF w idx(1,2,4)] c that True show ?thesis by (auto simp: loadHeader_def)
  next
    case False
    have "take 4 (header c) @ take 10 (drop (?p + 4) (content (device w))) = take 14 (drop ?p (content (device w)))"
      using inc False take_drop_split [of 4 ?p "content (device w)" 10] by simp
    with Chunk_load_additional_law [OF w idx] c that False show ?thesis by (auto simp: loadHeader_def)
  qed
qed

lemma StreamDataChunk_load_any_law:
  assumes w: "ok (device w)" "length (content (device w)) \<le> storage_limit"
    and c: "length (header c) = 14"
    and at: "data_chunk_at (content (device w)) (currentFileIndex c) sid offset payload"
    and inc: "inc \<or> take 4 (header c) = take 4 (drop (32 * currentFileIndex c) (content (device w)))"
    and mem: "scatterGatherList c = [] \<and> mem' = mem \<or>
      length payload \<le> total_length (scatterGatherList c) \<and> scatter mem (scatterGatherList c) payload = Some mem'"
  obtains d where "StreamDataChunk_load K inc c mem w =
      Some (NoStatus, c\<lparr>header := take 14 (drop (32 * currentFileIndex c) (content (device w))),
        scatterGatherList := processed (length payload) (scatterGatherList c)\<rparr>, mem', w\<lparr>device := d\<rparr>)" "ok d"
    "content d = content (device w)"
proof -
  let ?p = "32 * currentFileIndex c" and ?n = "length payload"
  let ?h = "take 14 (drop ?p (content (device w)))"
  let ?c = "c\<lparr>header := ?h\<rparr>"
  have at': "?p + fit_size (?n + 14) \<le> length (content (device w))" "?n \<le> 4082"
    "numberValidBytes (stored_header 14 (content (device w)) (currentFileIndex c)) = ?n + 10"
    "take ?n (drop (?p + 14) (content (device w))) = payload"
    using at by (simp_all add: data_chunk_at_def Let_def)
  have f: "?n + 14 \<le> fit_size (?n + 14)" using fit_size_bounds(3) [of "?n + 14"] at'(2) by simp
  have idx: "?p + 14 \<le> length (content (device w))" using at' f by simp
  from loadHeader_law [OF w c idx inc] obtain d1 where
    d1: "loadHeader K inc c w = Some (NoStatus, ?c, w\<lparr>device := d1\<rparr>)" "ok d1"
      "content d1 = content (device w)" "cursor d1 = ?p + 14" .
  have "header ?c = header (stored_header 14 (content (device w)) (currentFileIndex c))"
    by (simp add: stored_header_def)
  note fh = fields_of_header [OF this]
  have lh: "length (header ?c) = 14" using idx c by simp
  have ps: "payloadSize ?c = ?n"
    using fh(3) at' lh by (simp add: payloadSize_def additionalHeaderSizeBytes_def sub32_id)
  let ?w = "w\<lparr>device := d1\<rparr>"
  have "\<exists>d. load_segments K (scatterGatherList c) NoStatus ?n mem ?w =
      Some (NoStatus, processed ?n (scatterGatherList c), mem', ?w\<lparr>device := d\<rparr>) \<and> ok d \<and> content d = content (device ?w)"
    using mem
  proof
    assume "scatterGatherList c = [] \<and> mem' = mem"
    then show ?thesis using d1 by (intro exI [of _ d1]) simp
  next
    assume m: "?n \<le> total_length (scatterGatherList c) \<and> scatter mem (scatterGatherList c) payload = Some mem'"
    have "take ?n (drop (cursor (device ?w)) (content (device ?w))) = payload" using d1 at'(4) by simp
    then have "\<exists>d. load_segments K (scatterGatherList c) NoStatus ?n mem ?w =
        Some (NoStatus, processed ?n (scatterGatherList c), mem', ?w\<lparr>device := d\<rparr>) \<and> ok d \<and>
        content d = content (device ?w) \<and> cursor d = cursor (device ?w) + ?n"
      by (intro load_segments_law) (use m d1 w at' f in \<open>simp_all\<close>)
    then show ?thesis by blast
  qed
  then obtain d where
    d: "load_segments K (scatterGatherList c) NoStatus ?n mem ?w =
      Some (NoStatus, processed ?n (scatterGatherList c), mem', w\<lparr>device := d\<rparr>)" "ok d"
      "content d = content (device w)" using d1(3) by auto
  have "StreamDataChunk_load K inc c mem w = Some (NoStatus,
      ?c\<lparr>scatterGatherList := processed ?n (scatterGatherList c)\<rparr>, mem', w\<lparr>device := d\<rparr>)"
    using d1(1) d(1) ps by (simp add: StreamDataChunk_load_def)
  with d that show ?thesis by simp
qed

lemma StreamDataChunk_load_law:
  assumes "ok (device w)" "length (content (device w)) \<le> storage_limit" "length (header c) = 14"
    and "data_chunk_at (content (device w)) (currentFileIndex c) sid offset payload"
    and "scatterGatherList c = [] \<and> mem' = mem \<or>
      length payload \<le> total_length (scatterGatherList c) \<and> scatter mem (scatterGatherList c) payload = Some mem'"
  obtains d where "StreamDataChunk_load K True c mem w =
      Some (NoStatus, c\<lparr>header := take 14 (drop (32 * currentFileIndex c) (content (device w))),
        scatterGatherList := processed (length payload) (scatterGatherList c)\<rparr>, mem', w\<lparr>device := d\<rparr>)" "ok d"
    "content d = content (device w)"
  using StreamDataChunk_load_any_law [OF assms(1-4) disjI1 [OF TrueI] assms(5)] .

end

subsection \<open>Chunks of the largest size\<close>

text \<open>A fresh data chunk after \<open>setChunkSize(maximumChunkSize)\<close>, as the stream code builds it.\<close>

lemma setChunkSize_fields:
  assumes "length (header c) = 14" "n < 4294967296" "setChunkSize n c = (best, c')"
  shows "chunkSize c' = (if n < 32 then 32 else best_size n)" "header_type c' = header_type c"
    "length (header c') = 14" "streamIdentifier c' = streamIdentifier c" "chunkOffset c' = chunkOffset c"
    "currentFileIndex c' = currentFileIndex c" "scatterGatherList c' = scatterGatherList c"
    "currentScatterGatherListByteCount c' = currentScatterGatherListByteCount c"
proof -
  have "0 < length (header c)" using assms(1) by simp
  note s = setBestFitSize_fields [OF this assms(2) assms(3) [unfolded setChunkSize_def]]
  show l: "length (header c') = 14" "chunkSize c' = (if n < 32 then 32 else best_size n)" "header_type c' = header_type c"
    using s assms(1) by simp_all
  have "drop 4 (header c') = drop 4 (header c)" using arg_cong [OF s(5), of "drop 3"] by simp
  with stream_fields_cong [of c' c] l assms(1)
  show "streamIdentifier c' = streamIdentifier c" "chunkOffset c' = chunkOffset c" by simp_all
  show "currentFileIndex c' = currentFileIndex c" "scatterGatherList c' = scatterGatherList c"
    "currentScatterGatherListByteCount c' = currentScatterGatherListByteCount c"
    using assms(3) by (auto simp: setChunkSize_def setBestFitSize_def set_header_byte_def Let_def split: if_splits)
qed

text \<open>Adding segments that fit.\<close>

lemma addScatterGatherListSegment_fields:
  "header (snd (addScatterGatherListSegment s c)) = header c"
  "currentFileIndex (snd (addScatterGatherListSegment s c)) = currentFileIndex c"
  "scatterGatherList (snd (addScatterGatherListSegment s c)) = scatterGatherList c @ [s]"
  "currentScatterGatherListByteCount (snd (addScatterGatherListSegment s c)) =
     u32 (currentScatterGatherListByteCount c + currentLength s)"
  by (simp_all add: addScatterGatherListSegment_def Let_def)

subsection \<open>Properties\<close>


lemma checkCrc_gather:
  assumes "gather mem (scatterGatherList c) = Some bs" "length (header c) = 14" "length bs + 14 \<le> chunkSize c"
  shows "StreamDataChunk_checkCrc mem c = Some (calculateCrc (initializeCrc c) bs = crc c)"
proof -
  have "additionalAvailableSpace c = chunkSize c - 14"
    using assms(2,3) chunkSize_bounds [of c] by (simp add: additionalAvailableSpace_def sub32_id)
  then show ?thesis
    using segments_crc_gather [OF assms(1), of "chunkSize c - 14"] assms(3) by (simp add: StreamDataChunk_checkCrc_def)
qed

lemma gather_processed: "gather mem (processed n ss) = gather mem ss"
  by (induction n ss rule: processed.induct) (simp_all)

text \<open>
  C31. A data chunk that is saved and loaded again gives the payload back: whatever segments of
  memory \<open>save\<close> gathers the payload from, and whatever segments of the same total length
  \<open>load\<close> scatters it into, the chunk found has the stream identifier, offset and payload size
  of the saved one, all processed counts add up to the payload, memory holds the payload, and
  the CRC, which runs over header and payload, checks. The chunk occupies the smallest chunk
  size that holds the payload and nothing outside it is written.
\<close>
theorem stream_data_chunk_roundtrip:
  assumes S: "storage K ok content cursor"
    and w: "ok (device w)" "length (content (device w)) \<le> storage_limit"
    and i: "32 * index \<le> length (content (device w))" "32 * index + 4096 \<le> storage_limit"
    and new: "StreamDataChunk uninit index sid offset = Some c" "setChunkSize 4096 c = (best, c1)"
      "StreamDataChunk uninit' index 0 0 = Some l"
    and src: "gather mem ss = Some bs" "length bs \<le> 4082" "\<forall>s \<in> set ss. currentProcessedCount s = 0"
    and dst: "total_length tt = length bs" "scatter mem2 tt bs = Some mem3" "gather mem3 tt = Some bs"
      "\<forall>s \<in> set tt. currentProcessedCount s = 0"
  shows "\<exists>c' w' l' w''.
    StreamDataChunk_save K True (c1\<lparr>scatterGatherList := ss, currentScatterGatherListByteCount := length bs\<rparr>) mem w =
      Some (NoStatus, c', w') \<and>
    chunkSize c' = fit_size (length bs + 14) \<and>
    sum_list (map currentProcessedCount (scatterGatherList c')) = length bs \<and>
    take (32 * index) (content (device w')) = take (32 * index) (content (device w)) \<and>
    drop (32 * index + chunkSize c') (content (device w')) = drop (32 * index + chunkSize c') (content (device w)) \<and>
    StreamDataChunk_load K True (l\<lparr>scatterGatherList := tt\<rparr>) mem2 w' = Some (NoStatus, l', mem3, w'') \<and>
    streamIdentifier l' = sid mod 2147483648 \<and> chunkOffset l' = offset mod 281474976710656 \<and>
    payloadSize l' = length bs \<and> sum_list (map currentProcessedCount (scatterGatherList l')) = length bs \<and>
    StreamDataChunk_checkCrc mem3 l' = Some True"
proof -
  from new(1) have c: "length (header c) = 14" "header_type c = STREAM_DATA_CHUNK" "currentFileIndex c = index"
    "streamIdentifier c = sid mod 2147483648" "chunkOffset c = offset mod 281474976710656"
    using StreamDataChunk_establishes [where uninit = uninit and index = index and sid = sid and offset = offset]
    by (metis option.inject)+
  from new(3) have l: "length (header l) = 14" "currentFileIndex l = index"
    using StreamDataChunk_establishes [where uninit = uninit' and index = index and sid = 0 and offset = 0]
    by (metis option.inject)+
  have "(4096 :: nat) < 4294967296" by simp
  note f1 = setChunkSize_fields [OF c(1) this new(2)]
  let ?c = "c1\<lparr>scatterGatherList := ss, currentScatterGatherListByteCount := length bs\<rparr>"
  have "header ?c = header c1" by simp
  note fc = fields_of_header [OF this]
  have size: "chunkSize ?c = 4096" using fc(2) f1(1) by (simp add: best_size_def)
  note fb = fit_size_bounds [of "length bs + 14"]
  have sp: "length (header ?c) = 14" "gather mem (scatterGatherList ?c) = Some bs"
    "currentScatterGatherListByteCount ?c = length bs" "header_type ?c = STREAM_DATA_CHUNK"
    "bs = take (chunkSize ?c - 14) bs" "32 * currentFileIndex ?c \<le> length (content (device w))"
    "32 * currentFileIndex ?c + fit_size (length bs + 14) \<le> storage_limit"
    using f1 fc src c i fb size by simp_all
  from storage.save_data_chunk_law [OF S w sp] obtain d seed c' image where
    d: "StreamDataChunk_save K True ?c mem w = Some (NoStatus, c', w\<lparr>device := d, randomSeed := seed\<rparr>)" "ok d"
      "content d = overlay (content (device w)) (32 * currentFileIndex ?c) image"
      "length image = fit_size (length bs + 14)"
      "data_chunk_at (content d) (currentFileIndex ?c) (streamIdentifier ?c) (chunkOffset ?c) bs"
      "header c' = take 14 image" "chunkSize c' = fit_size (length bs + 14)"
      "scatterGatherList c' = processed (length bs) (scatterGatherList ?c)"
      "crc c' = calculateCrc (initializeCrc c') bs" by metis
  define w' where "w' = w\<lparr>device := d, randomSeed := seed\<rparr>"
  have dev: "device w' = d" by (simp add: w'_def)
  have p: "32 * index \<le> length (content (device w))" "currentFileIndex ?c = index" using i f1 c by simp_all
  have lim: "length (content (device w')) \<le> storage_limit"
    unfolding dev d(3) using p w i fb d(4) by (simp add: length_overlay)
  let ?l = "l\<lparr>scatterGatherList := tt\<rparr>"
  have lp: "length (header ?l) = 14"
    "data_chunk_at (content (device w')) (currentFileIndex ?l) (streamIdentifier ?c) (chunkOffset ?c) bs"
    "scatterGatherList ?l = [] \<and> mem3 = mem2 \<or>
      length bs \<le> total_length (scatterGatherList ?l) \<and> scatter mem2 (scatterGatherList ?l) bs = Some mem3"
    using l p d(5) dst dev by simp_all
  have okw: "ok (device w')" using d(2) dev by simp
  from storage.StreamDataChunk_load_law [OF S okw lim lp] obtain d' where
    d': "StreamDataChunk_load K True ?l mem2 w' = Some (NoStatus, ?l\<lparr>header := take 14 (drop (32 * currentFileIndex ?l)
      (content (device w'))), scatterGatherList := processed (length bs) (scatterGatherList ?l)\<rparr>, mem3, w'\<lparr>device := d'\<rparr>)"
    by blast
  let ?l' = "?l\<lparr>header := take 14 (drop (32 * currentFileIndex ?l) (content (device w'))),
    scatterGatherList := processed (length bs) (scatterGatherList ?l)\<rparr>"
  have "take (length image) (drop (32 * index) (content d)) = image"
    unfolding d(3) p(2) by (rule take_drop_overlay [OF p(1)])
  then have "header ?l' = header c'"
    using arg_cong [of _ _ "take 14"] d(4,6) fb l dev by (auto simp: min_def)
  note fl = fields_of_header [OF this]
  have "header ?l' = header (stored_header 14 (content d) index)"
    using l dev by (simp add: stored_header_def)
  note fs = fields_of_header [OF this]
  have len: "length (header ?l') = 14" using d(4,6) fb \<open>header ?l' = header c'\<close> by simp
  have ids: "streamIdentifier ?l' = sid mod 2147483648" "chunkOffset ?l' = offset mod 281474976710656"
    "payloadSize ?l' = length bs"
    unfolding fs(5,7) payloadSize_def fs(3) additionalHeaderSizeBytes_def len
    using d(5) fc(5,7) f1(4,5) c(4,5) p(2) by (simp_all add: data_chunk_at_def Let_def sub32_id)
  have "StreamDataChunk_checkCrc mem3 ?l' = Some (calculateCrc (initializeCrc ?l') bs = crc ?l')"
    by (rule checkCrc_gather) (use dst len fl(2) d(7) fb(3) src(2) in \<open>simp_all add: gather_processed\<close>)
  then have crc: "StreamDataChunk_checkCrc mem3 ?l' = Some True"
    using fl d(9) by simp
  have frame: "take (32 * index) (content d) = take (32 * index) (content (device w))"
    "drop (32 * index + chunkSize c') (content d) = drop (32 * index + chunkSize c') (content (device w))"
    unfolding d(3) p(2) using p(1) d(4,7) by (simp_all add: overlay_simps)
  have counts: "sum_list (map currentProcessedCount (scatterGatherList c')) = length bs"
    "sum_list (map currentProcessedCount (scatterGatherList ?l')) = length bs"
    using processed_counts [of "length bs" ss] processed_counts [of "length bs" tt] length_gather [OF src(1)]
      src(3) dst d(8) by simp_all
  show ?thesis
    by (intro exI [of _ c'] exI [of _ w'] exI [of _ ?l'] exI [of _ "w'\<lparr>device := d'\<rparr>"] conjI)
      (use d(1,7) d' ids crc frame counts dev in \<open>simp_all add: w'_def\<close>)
qed

text \<open>
  C32. A chunk whose payload is corrupted in memory or on the medium by one burst of at most 16
  bits fails its CRC check: if the check succeeds with payload \<open>xs\<close> behind the segments, it
  fails with a payload that differs from it only inside such a window.
\<close>
theorem data_chunk_detects_corruption:
  assumes "StreamDataChunk_checkCrc mem c = Some True"
    and "gather mem (scatterGatherList c) = Some xs" "gather mem' (scatterGatherList c) = Some ys"
    and "length (header c) = 14" "length xs + 14 \<le> chunkSize c" "xs \<noteq> ys"
    and "data_bits xs = p @ e @ s" "data_bits ys = p @ e' @ s" "length e = length e'" "length e \<le> 16"
  shows "StreamDataChunk_checkCrc mem' c = Some False"
proof -
  have len: "length xs = length ys" using assms(2,3) by (simp add: length_gather)
  have "crc c = calculateCrc (initializeCrc c) xs"
    using assms(1) checkCrc_gather [OF assms(2,4,5)] by simp
  moreover have "calculateCrc (initializeCrc c) xs \<noteq> calculateCrc (initializeCrc c) ys"
    using burst_law [OF assms(7-10) len assms(6)] .
  ultimately show ?thesis
    using checkCrc_gather [OF assms(3,4)] len assms(5) by simp
qed

text \<open>Concrete memory and segments for the instances below.\<close>

definition sample_segment :: "nat \<Rightarrow> nat \<Rightarrow> scatter_gather_list_segment" where
  "sample_segment i n = \<lparr>currentBase = Ptr CallerBuffer i, currentLength = n, currentProcessedCount = 0\<rparr>"

definition sample_memory :: "byte list \<Rightarrow> memory" where
  "sample_memory bs = (\<lambda>_. [])(CallerBuffer := bs)"

definition sample_chunk :: stream_data_chunk where
  "sample_chunk = saved_header [1, 2, 3, 4]
     \<lparr>header = replicate 14 0, currentFileIndex = 0, numberLoadedBytes = 0,
      scatterGatherList = [sample_segment 0 4], currentScatterGatherListByteCount = 4\<rparr>"

theorem stream_data_chunk_roundtrip_witness:
  "\<exists>c best c1 l c' w' l' mem3 w''. StreamDataChunk (\<lambda>_. 0) 0 5 100 = Some c \<and>
    StreamDataChunk (\<lambda>_. 0) 0 0 0 = Some l \<and> setChunkSize 4096 c = (best, c1) \<and>
    StreamDataChunk_save memory_ops True (c1\<lparr>scatterGatherList := [sample_segment 0 2, sample_segment 2 1],
      currentScatterGatherListByteCount := 3\<rparr>) (sample_memory [7, 8, 9]) empty_memory = Some (NoStatus, c', w') \<and>
    StreamDataChunk_load memory_ops True (l\<lparr>scatterGatherList := [sample_segment 0 3]\<rparr>) (sample_memory [0, 0, 0]) w' =
      Some (NoStatus, l', mem3, w'') \<and>
    mem3 CallerBuffer = [7, 8, 9] \<and> streamIdentifier l' = 5 \<and> chunkOffset l' = 100 \<and>
    StreamDataChunk_checkCrc mem3 l' = Some True"
proof -
  obtain c where c: "StreamDataChunk (\<lambda>_. 0) 0 5 100 = Some c" using StreamDataChunk_establishes by blast
  obtain best c1 where c1: "setChunkSize 4096 c = (best, c1)" by fastforce
  obtain l where l: "StreamDataChunk (\<lambda>_. 0) 0 0 0 = Some l" using StreamDataChunk_establishes by blast
  let ?ss = "[sample_segment 0 2, sample_segment 2 1]" and ?tt = "[sample_segment 0 3]"
  let ?bs = "[7, 8, 9] :: byte list"
  have w: "mc_ok (device empty_memory)" "length (mc_content (device empty_memory)) \<le> storage_limit"
    "32 * 0 \<le> length (mc_content (device empty_memory))" "32 * 0 + 4096 \<le> storage_limit"
    by (simp_all add: storage_limit_def)
  have s: "gather (sample_memory ?bs) ?ss = Some ?bs" "length ?bs \<le> 4082"
    "\<forall>s \<in> set ?ss. currentProcessedCount s = 0"
    by (simp_all add: sample_segment_def sample_memory_def load_bytes_def)
  have t: "total_length ?tt = length ?bs" "scatter (sample_memory [0, 0, 0]) ?tt ?bs = Some (sample_memory ?bs)"
    "gather (sample_memory ?bs) ?tt = Some ?bs" "\<forall>s \<in> set ?tt. currentProcessedCount s = 0"
    by (simp_all add: sample_segment_def sample_memory_def load_bytes_def store_bytes_def overlay_def)
  have three: "length ?bs = 3" by simp
  from stream_data_chunk_roundtrip [OF memory.storage_axioms w c c1 l s t] obtain c' w' l' w'' where
    "StreamDataChunk_save memory_ops True (c1\<lparr>scatterGatherList := ?ss, currentScatterGatherListByteCount := 3\<rparr>)
      (sample_memory ?bs) empty_memory = Some (NoStatus, c', w')"
    "StreamDataChunk_load memory_ops True (l\<lparr>scatterGatherList := ?tt\<rparr>) (sample_memory [0, 0, 0]) w' =
      Some (NoStatus, l', sample_memory ?bs, w'')" "streamIdentifier l' = 5" "chunkOffset l' = 100"
    "StreamDataChunk_checkCrc (sample_memory ?bs) l' = Some True" unfolding three by (elim exE conjE) (rule that, simp_all)
  moreover have "sample_memory ?bs CallerBuffer = ?bs" by (simp add: sample_memory_def)
  ultimately show ?thesis using c c1 l by blast
qed

theorem data_chunk_detects_corruption_witness:
  "StreamDataChunk_checkCrc (sample_memory [1, 2, 3, 4]) sample_chunk = Some True \<and>
   StreamDataChunk_checkCrc (sample_memory [1, 9, 255, 4]) sample_chunk = Some False"
proof -
  let ?c = "\<lparr>header = replicate 14 0, currentFileIndex = 0, numberLoadedBytes = 0,
      scatterGatherList = [sample_segment 0 4], currentScatterGatherListByteCount = 4\<rparr> :: stream_data_chunk"
  have "length (header ?c) = 14" "length [1, 2, 3, 4 :: byte] \<le> 4082" by simp_all
  note h = saved_header_fields [OF this, folded sample_chunk_def]
  have g: "gather (sample_memory [1, 2, 3, 4]) (scatterGatherList sample_chunk) = Some [1, 2, 3, 4]"
    "gather (sample_memory [1, 9, 255, 4]) (scatterGatherList sample_chunk) = Some [1, 9, 255, 4]"
    using h(9) by (simp_all add: sample_segment_def sample_memory_def load_bytes_def)
  have l: "length (header sample_chunk) = 14" "length [1, 2, 3, 4 :: byte] + 14 \<le> chunkSize sample_chunk"
    using h by (simp_all add: fit_size_def)
  have t: "StreamDataChunk_checkCrc (sample_memory [1, 2, 3, 4]) sample_chunk = Some True"
    using checkCrc_gather [OF g(1) l] h(5) by simp
  have "StreamDataChunk_checkCrc (sample_memory [1, 9, 255, 4]) sample_chunk = Some False"
    by (rule data_chunk_detects_corruption [OF t g l, where p = "byte_bits 1" and s = "byte_bits 4"
          and e = "byte_bits 2 @ byte_bits 3" and e' = "byte_bits 9 @ byte_bits 255"])
      (simp_all add: data_bits_def)
  with t show ?thesis by simp
qed

end
