(* ===== verification/Virtual_File.thy ===== *)
theory Virtual_File
  imports Container_Impl Ring_Buffer Stream_Data_Chunk
begin

text \<open>
  \<open>VirtualFileImpl\<close> (\<open>virtual_file_impl.cpp\<close>): a stream of bytes kept as data chunks of the
  container, found through \<open>chunkMap\<close> (offset in the file to chunk and payload size), with
  the chunk that was last touched in \<open>chunkBuffer\<close> and the bytes behind the last chunk in the
  ring buffer \<open>tailBuffer\<close>. The operations here work on the file object and the container;
  scanning the container first, when that is needed, is the caller's step (\<open>Library\<close>).

  Pointers into the caller's buffer, \<open>chunkBuffer\<close> and \<open>tailBuffer\<close> are offsets into the
  memory blocks \<open>CallerBuffer\<close>, \<open>ChunkBuffer\<close> and \<open>TailBuffer\<close>. The iterator \<open>currentChunk\<close> is
  the key it stands on. \<open>currentContainer\<close> says whether the weak pointer to the container is
  still set.
\<close>

record virtual_file =
  currentName :: string
  currentStreamIdentifier :: nat
  startChunkIndex :: nat
  chunkMap :: "(nat, chunk_map_data) omap"
  currentChunk :: "nat option"
  chunkBuffer :: "byte list option"
  chunkBufferFlushNeeded :: bool
  tailBuffer :: "byte ring_buffer"
  currentPosition :: nat
  currentContainer :: bool

definition tailBufferSize :: nat where
  [simp]: "tailBufferSize = 4096"

definition chunkBufferSize :: nat where
  [simp]: "chunkBufferSize = 4096"

definition VirtualFileImpl :: "(nat \<Rightarrow> byte) \<Rightarrow> string \<Rightarrow> nat \<Rightarrow> virtual_file" where
  "VirtualFileImpl uninit newName sid =
     \<lparr>currentName = newName, currentStreamIdentifier = sid, startChunkIndex = invalidFileIndex,
      chunkMap = [], currentChunk = None, chunkBuffer = None, chunkBufferFlushNeeded = False,
      tailBuffer = RingBuffer (new_array uninit tailBufferSize), currentPosition = 0, currentContainer = True\<rparr>"

text \<open>The constructor from a stream start chunk that has been loaded.\<close>

definition VirtualFileImpl_start :: "(nat \<Rightarrow> byte) \<Rightarrow> chunk \<Rightarrow> virtual_file option" where
  "VirtualFileImpl_start uninit streamStartChunk = do {
     name \<leftarrow> virtualFilename streamStartChunk;
     Some ((VirtualFileImpl uninit name (streamIdentifier streamStartChunk))
       \<lparr>startChunkIndex := fileIndex streamStartChunk\<rparr>)
   }"

definition vf_setStreamIdentifier :: "nat \<Rightarrow> virtual_file \<Rightarrow> virtual_file" where
  "vf_setStreamIdentifier newIdentifier vf = vf\<lparr>currentStreamIdentifier := newIdentifier\<rparr>"

definition vf_setStreamStartIndex :: "nat \<Rightarrow> virtual_file \<Rightarrow> virtual_file" where
  "vf_setStreamStartIndex streamStartFileIndex vf = vf\<lparr>startChunkIndex := streamStartFileIndex\<rparr>"

definition vf_memory :: "byte list \<Rightarrow> virtual_file \<Rightarrow> memory" where
  "vf_memory caller vf b =
     (case b of
        CallerBuffer \<Rightarrow> caller
      | ChunkBuffer \<Rightarrow> (case chunkBuffer vf of Some bs \<Rightarrow> bs | None \<Rightarrow> [])
      | TailBuffer \<Rightarrow> buffer (tailBuffer vf)
      | LocalBuffer \<Rightarrow> [])"

definition tail_pointer :: "nat option \<Rightarrow> pointer" where
  "tail_pointer p = (case p of None \<Rightarrow> NullPtr | Some i \<Rightarrow> Ptr TailBuffer i)"

subsection \<open>Sizes and places\<close>

definition currentStoredSize :: "virtual_file \<Rightarrow> nat" where
  "currentStoredSize vf =
     (if chunkMap vf = [] then 0
      else let (k, d) = last (chunkMap vf) in u64 (k + chunkPayloadSize d))"

definition lastKnownFileIndex :: "virtual_file \<Rightarrow> nat" where
  "lastKnownFileIndex vf =
     (if chunkMap vf = [] then
        (if startChunkIndex vf = invalidFileIndex then 0 else startChunkIndex vf)
      else chunkStartingIndex (snd (last (chunkMap vf))))"

definition addChunkLocation :: "nat \<Rightarrow> nat \<Rightarrow> nat \<Rightarrow> virtual_file \<Rightarrow> virtual_file" where
  "addChunkLocation startingIndex baseOffset byteCount vf =
     (if om_find baseOffset (chunkMap vf) \<noteq> None
      then vf\<lparr>chunkMap := om_assign baseOffset (ChunkMapData startingIndex byteCount) (chunkMap vf)\<rparr>
      else vf\<lparr>chunkMap := om_insert baseOffset (ChunkMapData startingIndex byteCount) (chunkMap vf)\<rparr>)"

definition bytesInWriteCache :: "virtual_file \<Rightarrow> nat option" where
  "bytesInWriteCache vf = do {
     cachedBytes \<leftarrow>
       (if chunkBufferFlushNeeded vf
        then (case currentChunk vf of
                None \<Rightarrow> Some 0
              | Some k \<Rightarrow> map_option chunkPayloadSize (om_find k (chunkMap vf)))
        else Some 0);
     Some (u32 (cachedBytes + rb_count (tailBuffer vf)))
   }"

subsection \<open>The stream start chunk\<close>

definition writeStreamStartIfNeeded ::
  "'d container_ops \<Rightarrow> virtual_file \<Rightarrow> ('d, 'z) container_scheme \<Rightarrow>
   (status \<times> virtual_file \<times> ('d, 'z) container_scheme) option" where
  "writeStreamStartIfNeeded K vf w =
     (if startChunkIndex vf = invalidFileIndex then do {
        c \<leftarrow> StreamStartChunk (junk w) 0 (currentName vf) (currentStreamIdentifier vf);
        assertion (currentContainer vf);
        (reservedFreeSpace, w) \<leftarrow> container_reserveFreeSpaceArea K 0 (toFileIndex (chunkSize c)) 0 w;
        let c = setFileIndex (currentStartingIndex reservedFreeSpace) c;
        (status, c, w) \<leftarrow> Chunk_save K (\<lambda>c. Some (Chunk_updateCrc c)) True c w;
        if \<not> has_info status then do {
          w \<leftarrow> container_releaseReservation K
            (snd (reduceBy (toFileIndex (chunkSize c)) FROM_FRONT reservedFreeSpace)) w;
          Some (status, vf\<lparr>startChunkIndex := fileIndex c\<rparr>, w)
        } else Some (status, vf, w)
      } else Some (NoStatus, vf, w))"

subsection \<open>The chunk buffer\<close>

definition flushChunkBuffer ::
  "'d container_ops \<Rightarrow> virtual_file \<Rightarrow> ('d, 'z) container_scheme \<Rightarrow>
   (status \<times> virtual_file \<times> ('d, 'z) container_scheme) option" where
  "flushChunkBuffer K vf w = do {
     k \<leftarrow> currentChunk vf;
     d \<leftarrow> om_find k (chunkMap vf);
     c \<leftarrow> StreamDataChunk (junk w) (chunkStartingIndex d) (currentStreamIdentifier vf) k;
     let (_, c) = setChunkSize maximumChunkSize c;
     (_, c) \<leftarrow> addScatterGatherListSegment_buffer (Ptr ChunkBuffer 0) (chunkPayloadSize d) c;
     assertion (currentContainer vf);
     (status, c, w) \<leftarrow> StreamDataChunk_save K True c (vf_memory [] vf) w;
     Some (status, (if \<not> has_info status then vf\<lparr>chunkBufferFlushNeeded := False\<rparr> else vf), w)
   }"

definition loadChunkIntoBuffer ::
  "'d container_ops \<Rightarrow> virtual_file \<Rightarrow> ('d, 'z) container_scheme \<Rightarrow>
   (status \<times> virtual_file \<times> ('d, 'z) container_scheme) option" where
  "loadChunkIntoBuffer K vf w = do {
     k \<leftarrow> currentChunk vf;
     d \<leftarrow> om_find k (chunkMap vf);
     c \<leftarrow> StreamDataChunk (junk w) (chunkStartingIndex d) (currentStreamIdentifier vf) k;
     let (_, c) = setChunkSize maximumChunkSize c;
     let vf = (if chunkBuffer vf = None then vf\<lparr>chunkBuffer := Some (new_array (junk w) chunkBufferSize)\<rparr> else vf);
     (_, c) \<leftarrow> addScatterGatherListSegment_buffer (Ptr ChunkBuffer 0) (chunkPayloadSize d) c;
     assertion (currentContainer vf);
     (status, c, mem, w) \<leftarrow> StreamDataChunk_load K True c (vf_memory [] vf) w;
     let vf = vf\<lparr>chunkBuffer := Some (mem ChunkBuffer)\<rparr>;
     let status =
       (if \<not> has_info status \<and> streamIdentifier c \<noteq> currentStreamIdentifier vf
        then StreamIdentifierMismatch (streamIdentifier c) (currentStreamIdentifier vf) (toPosition (fileIndex c))
        else status);
     let status =
       (if \<not> has_info status \<and> chunkOffset c \<noteq> k
        then OffsetMismatch (chunkOffset c) k (toPosition (fileIndex c)) else status);
     let count = currentProcessedCount (scatterGatherListSegment 0 c);
     let status =
       (if \<not> has_info status \<and> count \<noteq> chunkPayloadSize d
        then PayloadSizeMismatch count (chunkPayloadSize d) (toPosition (fileIndex c)) else status);
     Some (status, vf, w)
   }"

text \<open>
  The start of each round of \<open>read\<close> and \<open>write\<close>: unless the chunk buffer's chunk covers the
  position, a changed buffer is written back and the chunk at the position becomes current.
  The result says whether the buffer holds the current chunk.
\<close>

definition locateChunk ::
  "'d container_ops \<Rightarrow> virtual_file \<Rightarrow> ('d, 'z) container_scheme \<Rightarrow>
   (status \<times> bool \<times> virtual_file \<times> ('d, 'z) container_scheme) option" where
  "locateChunk K vf w = do {
     covered \<leftarrow>
       (case currentChunk vf of
          None \<Rightarrow> Some False
        | Some k \<Rightarrow> do {
            d \<leftarrow> om_find k (chunkMap vf);
            Some (\<not> (k > currentPosition vf \<or> u64 (k + chunkPayloadSize d) \<le> currentPosition vf))
          });
     if covered then Some (NoStatus, True, vf, w)
     else do {
       (status, vf, w) \<leftarrow>
         (if chunkBufferFlushNeeded vf then do {
            assertion (currentChunk vf \<noteq> None);
            assertion (chunkBuffer vf \<noteq> None);
            flushChunkBuffer K vf w
          } else Some (NoStatus, vf, w));
       if \<not> has_info status then do {
         k \<leftarrow> om_prev (om_upper_bound (currentPosition vf) (chunkMap vf)) (chunkMap vf);
         Some (status, False, vf\<lparr>currentChunk := Some k\<rparr>, w)
       } else Some (status, False, vf, w)
     }
   }"

subsection \<open>Size and position\<close>

text \<open>The conversion of an unsigned 64-bit value to \<open>long long\<close>.\<close>

definition long_long :: "nat \<Rightarrow> int" where
  "long_long n = (if n < 9223372036854775808 then int n else int n - 18446744073709551616)"

text \<open>\<open>scan\<close> stands for \<open>container->scanContainer()\<close>, which may change this object too.\<close>

definition vf_size ::
  "(virtual_file \<Rightarrow> ('d, 'z) container_scheme \<Rightarrow> (status \<times> virtual_file \<times> ('d, 'z) container_scheme) option) \<Rightarrow>
   virtual_file \<Rightarrow> ('d, 'z) container_scheme \<Rightarrow> (int \<times> virtual_file \<times> ('d, 'z) container_scheme) option" where
  "vf_size scan vf w =
     (if \<not> currentContainer vf then Some (- 1, vf, w)
      else if containerScanNeeded w then do {
        (status, vf, w) \<leftarrow> scan vf w;
        if \<not> success status then Some (- 1, vf, w)
        else do { assertion (rb_empty (tailBuffer vf)); Some (long_long (currentStoredSize vf), vf, w) }
      }
      else Some (long_long (u64 (currentStoredSize vf + rb_count (tailBuffer vf))), vf, w))"

definition unsigned_64 :: "int \<Rightarrow> nat" where
  "unsigned_64 i = nat (i mod 18446744073709551616)"

definition set_last :: "status \<Rightarrow> virtual_file \<Rightarrow> ('d, 'z) container_scheme \<Rightarrow> ('d, 'z) container_scheme" where
  "set_last status vf w = (if currentContainer vf then setLastStatus status w else w)"

definition vf_setPosition ::
  "(virtual_file \<Rightarrow> ('d, 'z) container_scheme \<Rightarrow> (status \<times> virtual_file \<times> ('d, 'z) container_scheme) option) \<Rightarrow>
   nat \<Rightarrow> virtual_file \<Rightarrow> ('d, 'z) container_scheme \<Rightarrow> (status \<times> virtual_file \<times> ('d, 'z) container_scheme) option" where
  "vf_setPosition scan newOffset vf w = do {
     let status = (if \<not> currentContainer vf then ContainerUnavailable else NoStatus);
     (currentSize, vf, w) \<leftarrow> vf_size scan vf w;
     let (status, vf) =
       (if currentSize \<ge> 0 \<and> newOffset \<le> unsigned_64 currentSize
        then (status, vf\<lparr>currentPosition := newOffset\<rparr>)
        else (SeekError newOffset (unsigned_64 currentSize), vf));
     Some (status, vf, set_last status vf w)
   }"

definition vf_setPositionLast ::
  "(virtual_file \<Rightarrow> ('d, 'z) container_scheme \<Rightarrow> (status \<times> virtual_file \<times> ('d, 'z) container_scheme) option) \<Rightarrow>
   virtual_file \<Rightarrow> ('d, 'z) container_scheme \<Rightarrow> (status \<times> virtual_file \<times> ('d, 'z) container_scheme) option" where
  "vf_setPositionLast scan vf w =
     (if \<not> currentContainer vf then Some (ContainerUnavailable, vf, w)
      else do {
        (currentSize, vf, w) \<leftarrow> vf_size scan vf w;
        Some (NoStatus, vf\<lparr>currentPosition := unsigned_64 currentSize\<rparr>, setLastStatus NoStatus w)
      })"

definition vf_position :: "virtual_file \<Rightarrow> int" where
  "vf_position vf = long_long (currentPosition vf)"

text \<open>The first steps of an operation: is the container there, and does it have to be scanned?\<close>

definition scanIfNeeded ::
  "(virtual_file \<Rightarrow> ('d, 'z) container_scheme \<Rightarrow> (status \<times> virtual_file \<times> ('d, 'z) container_scheme) option) \<Rightarrow>
   status \<Rightarrow> virtual_file \<Rightarrow> ('d, 'z) container_scheme \<Rightarrow>
   (status \<times> virtual_file \<times> ('d, 'z) container_scheme) option" where
  "scanIfNeeded scan status vf w = do {
     let status = (if \<not> has_info status \<and> \<not> currentContainer vf then ContainerUnavailable else status);
     if \<not> has_info status \<and> containerScanNeeded w then scan vf w else Some (status, vf, w)
   }"

subsection \<open>Reading\<close>

text \<open>Copy from the chunk buffer to the caller.\<close>

definition copy_from_chunk_buffer ::
  "nat \<Rightarrow> nat \<Rightarrow> nat \<Rightarrow> byte list \<Rightarrow> virtual_file \<Rightarrow> byte list option" where
  "copy_from_chunk_buffer start off count caller vf = do {
     bytes \<leftarrow> load_bytes (vf_memory caller vf) (Ptr ChunkBuffer (sub64 (currentPosition vf) start)) count;
     mem \<leftarrow> store_bytes (vf_memory caller vf) (Ptr CallerBuffer off) bytes;
     Some (mem CallerBuffer)
   }"

text \<open>The chunk at the position is read past its end: it goes straight to the caller.\<close>

definition read_direct ::
  "'d container_ops \<Rightarrow> nat \<Rightarrow> chunk_map_data \<Rightarrow> nat \<Rightarrow> byte list \<Rightarrow> virtual_file \<Rightarrow> ('d, 'z) container_scheme \<Rightarrow>
   (status \<times> nat \<times> byte list \<times> virtual_file \<times> ('d, 'z) container_scheme) option" where
  "read_direct K k d off caller vf w = do {
     let chunkEndingOffset = u64 (k + chunkPayloadSize d);
     c \<leftarrow> StreamDataChunk (junk w) (chunkStartingIndex d) (currentStreamIdentifier vf) k;
     let (_, c) = setChunkSize maximumChunkSize c;
     (bytesOfReadData, c, vf) \<leftarrow>
       (if currentPosition vf = k then do {
          (_, c) \<leftarrow> addScatterGatherListSegment_buffer (Ptr CallerBuffer off) (chunkPayloadSize d) c;
          Some (chunkPayloadSize d, c, vf)
        } else do {
          let n = u32 (sub64 chunkEndingOffset (currentPosition vf));
          let vf = (if chunkBuffer vf = None
                    then vf\<lparr>chunkBuffer := Some (new_array (junk w) chunkBufferSize)\<rparr> else vf);
          (_, c) \<leftarrow> addScatterGatherListSegment_buffer (Ptr ChunkBuffer 0) (u32 (sub64 (currentPosition vf) k)) c;
          (_, c) \<leftarrow> addScatterGatherListSegment_buffer (Ptr CallerBuffer off) n c;
          Some (n, c, vf)
        });
     assertion (currentContainer vf);
     (status, c, mem, w) \<leftarrow> StreamDataChunk_load K True c (vf_memory caller vf) w;
     let vf = (if chunkBuffer vf = None then vf else vf\<lparr>chunkBuffer := Some (mem ChunkBuffer)\<rparr>);
     let status =
       (if \<not> has_info status \<and> streamIdentifier c \<noteq> currentStreamIdentifier vf
        then StreamIdentifierMismatch (streamIdentifier c) (currentStreamIdentifier vf) (toPosition (fileIndex c))
        else status);
     let status =
       (if \<not> has_info status \<and> chunkOffset c \<noteq> k
        then OffsetMismatch (chunkOffset c) k (toPosition (fileIndex c)) else status);
     let count = u32 (sum_list (map currentProcessedCount (scatterGatherList c)));
     let status =
       (if \<not> has_info status \<and> count \<noteq> chunkPayloadSize d
        then PayloadSizeMismatch count (chunkPayloadSize d) (toPosition (fileIndex c)) else status);
     Some (status, bytesOfReadData, mem CallerBuffer, vf\<lparr>currentChunk := None\<rparr>, w)
   }"

definition read_step ::
  "'d container_ops \<Rightarrow> nat \<Rightarrow> nat \<Rightarrow> nat \<Rightarrow> byte list \<Rightarrow> virtual_file \<Rightarrow> ('d, 'z) container_scheme \<Rightarrow>
   (status \<times> nat \<times> nat \<times> byte list \<times> virtual_file \<times> ('d, 'z) container_scheme) option" where
  "read_step K readEnd off remainingToRead caller vf w = do {
     (status, chunkLoaded, vf, w) \<leftarrow> locateChunk K vf w;
     (status, bytesOfReadData, caller, vf, w) \<leftarrow>
       (if \<not> has_info status then do {
          k \<leftarrow> currentChunk vf;
          d \<leftarrow> om_find k (chunkMap vf);
          let chunkEndingOffset = u64 (k + chunkPayloadSize d);
          if \<not> chunkLoaded \<and> readEnd > chunkEndingOffset then read_direct K k d off caller vf w
          else do {
            (status, vf, w) \<leftarrow> (if chunkLoaded then Some (status, vf, w) else loadChunkIntoBuffer K vf w);
            if \<not> has_info status then do {
              let chunkBytesRemaining = u32 (sub64 chunkEndingOffset (currentPosition vf));
              let n = (if remainingToRead < chunkBytesRemaining then remainingToRead else chunkBytesRemaining);
              caller \<leftarrow> copy_from_chunk_buffer k off n caller vf;
              Some (status, n, caller, vf, w)
            } else Some (status, 4294967295, caller, vf, w)
          }
        } else Some (status, 4294967295, caller, vf, w));
     if \<not> has_info status then do {
       assertion (bytesOfReadData \<noteq> 4294967295);
       Some (status, off + bytesOfReadData, sub32 remainingToRead bytesOfReadData, caller,
         vf\<lparr>currentPosition := u64 (currentPosition vf + bytesOfReadData)\<rparr>, w)
     } else Some (status, off, remainingToRead, caller, vf, w)
   }"

partial_function (option) read_loop ::
  "'d container_ops \<Rightarrow> nat \<Rightarrow> nat \<Rightarrow> status \<Rightarrow> nat \<Rightarrow> nat \<Rightarrow> byte list \<Rightarrow> virtual_file \<Rightarrow> ('d, 'z) container_scheme \<Rightarrow>
   (status \<times> nat \<times> nat \<times> byte list \<times> virtual_file \<times> ('d, 'z) container_scheme) option" where
  "read_loop K readEnd tailBufferBase status off remainingToRead caller vf w =
     (if \<not> has_info status \<and> remainingToRead > 0 \<and> currentPosition vf < tailBufferBase then do {
        (status, off, remainingToRead, caller, vf, w) \<leftarrow> read_step K readEnd off remainingToRead caller vf w;
        read_loop K readEnd tailBufferBase status off remainingToRead caller vf w
      } else Some (status, off, remainingToRead, caller, vf, w))"

declare read_loop.simps [code]

definition vf_read ::
  "'d container_ops \<Rightarrow>
   (virtual_file \<Rightarrow> ('d, 'z) container_scheme \<Rightarrow> (status \<times> virtual_file \<times> ('d, 'z) container_scheme) option) \<Rightarrow>
   nat \<Rightarrow> byte list \<Rightarrow> virtual_file \<Rightarrow> ('d, 'z) container_scheme \<Rightarrow>
   (status \<times> byte list \<times> virtual_file \<times> ('d, 'z) container_scheme) option" where
  "vf_read K scan desiredCount caller vf w = do {
     (currentSize, vf, w) \<leftarrow> vf_size scan vf w;
     let distanceToEof = sub64 (unsigned_64 currentSize) (currentPosition vf);
     let numberBytesToRead = (if desiredCount < distanceToEof then desiredCount else u32 distanceToEof);
     (status, vf, w) \<leftarrow> scanIfNeeded scan NoStatus vf w;
     let tailBufferBase = currentStoredSize vf;
     let readEnd = u64 (currentPosition vf + numberBytesToRead);
     (status, off, remainingToRead, caller, vf, w) \<leftarrow>
       read_loop K readEnd tailBufferBase status 0 numberBytesToRead caller vf w;
     (caller, vf) \<leftarrow>
       (if \<not> has_info status \<and> remainingToRead > 0 then do {
          assertion (currentPosition vf \<ge> tailBufferBase);
          let offset = u32 (sub64 (currentPosition vf) tailBufferBase);
          assertion (remainingToRead \<le> sub32 (rb_count (tailBuffer vf)) offset);
          mem \<leftarrow> store_bytes (vf_memory caller vf) (Ptr CallerBuffer off)
            (map (\<lambda>i. rb_snoop (u32 (offset + i)) (tailBuffer vf)) [0..<remainingToRead]);
          Some (mem CallerBuffer, vf\<lparr>currentPosition := u64 (currentPosition vf + remainingToRead)\<rparr>)
        } else Some (caller, vf));
     let status = (if \<not> has_info status then ReadSuccessful numberBytesToRead else status);
     Some (status, caller, vf, set_last status vf w)
   }"

end
