(* ===== verification/Virtual_File_Write.thy ===== *)
theory Virtual_File_Write
  imports Virtual_File
begin

text \<open>
  The operations of \<open>VirtualFileImpl\<close> that change the file: \<open>flush\<close>, \<open>append\<close>, \<open>write\<close>,
  \<open>truncate\<close>, \<open>erase\<close> and \<open>rename\<close>. Loops that may not end are partial functions; their
  result is \<open>None\<close> then, as it is when the code leaves the defined behaviour of C++.
\<close>

subsection \<open>A new chunk behind the last one\<close>

text \<open>
  What \<open>append\<close> and \<open>flush\<close> start a round of their loop with: reserve space behind the last
  known chunk and set up a data chunk there that may use all of it.
\<close>

definition reserve_chunk ::
  "'d container_ops \<Rightarrow> virtual_file \<Rightarrow> ('d, 'z) container_scheme \<Rightarrow>
   (free_space \<times> stream_data_chunk \<times> ('d, 'z) container_scheme) option" where
  "reserve_chunk K vf w = do {
     (reservedFreeSpace, w) \<leftarrow> container_reserveFreeSpaceArea K (lastKnownFileIndex vf)
       (toFileIndex minimumChunkSize) (toFileIndex maximumChunkSize) w;
     c \<leftarrow> StreamDataChunk (junk w) (currentStartingIndex reservedFreeSpace) (currentStreamIdentifier vf)
       (currentStoredSize vf);
     let (_, c) = setChunkSize (u32 (toPosition (currentAreaSize reservedFreeSpace))) c;
     Some (reservedFreeSpace, c, w)
   }"

text \<open>Give back what the saved chunk did not need.\<close>

definition release_rest ::
  "'d container_ops \<Rightarrow> free_space \<Rightarrow> stream_data_chunk \<Rightarrow> ('d, 'z) container_scheme \<Rightarrow>
   ('d, 'z) container_scheme option" where
  "release_rest K reservedFreeSpace c w =
     container_releaseReservation K
       (snd (reduceBy (toFileIndex (chunkSize c)) FROM_FRONT reservedFreeSpace)) w"

subsection \<open>\<open>flush\<close>\<close>

definition flush_step ::
  "'d container_ops \<Rightarrow> virtual_file \<Rightarrow> ('d, 'z) container_scheme \<Rightarrow>
   (status \<times> virtual_file \<times> ('d, 'z) container_scheme) option" where
  "flush_step K vf w = do {
     (reservedFreeSpace, c, w) \<leftarrow> reserve_chunk K vf w;
     let (_, p1, l1, p2, l2) = bulkExtractionStart (tailBuffer vf);
     (_, c) \<leftarrow> addScatterGatherListSegment_buffer (tail_pointer p1) l1 c;
     c \<leftarrow> (if p2 \<noteq> None
          then map_option snd (addScatterGatherListSegment_buffer (tail_pointer p2) l2 c) else Some c);
     assertion (currentContainer vf);
     (status, c, w) \<leftarrow> StreamDataChunk_save K True c (vf_memory [] vf) w;
     if \<not> has_info status then do {
       w \<leftarrow> release_rest K reservedFreeSpace c w;
       let numberBytesWritten = u32 (sum_list (map currentProcessedCount (scatterGatherList c)));
       assertion (numberBytesWritten \<le> rb_count (tailBuffer vf));
       let vf = addChunkLocation (fileIndex c) (chunkOffset c) numberBytesWritten vf;
       Some (status, vf\<lparr>tailBuffer := snd (bulkExtractionFinish numberBytesWritten (tailBuffer vf))\<rparr>, w)
     } else Some (status, vf, w)
   }"

partial_function (option) flush_loop ::
  "'d container_ops \<Rightarrow> status \<Rightarrow> virtual_file \<Rightarrow> ('d, 'z) container_scheme \<Rightarrow>
   (status \<times> virtual_file \<times> ('d, 'z) container_scheme) option" where
  "flush_loop K status vf w =
     (if \<not> has_info status \<and> rb_notEmpty (tailBuffer vf) then do {
        (status, vf, w) \<leftarrow> flush_step K vf w;
        flush_loop K status vf w
      } else Some (status, vf, w))"

declare flush_loop.simps [code]

definition vf_flush ::
  "'d container_ops \<Rightarrow> virtual_file \<Rightarrow> ('d, 'z) container_scheme \<Rightarrow>
   (status \<times> virtual_file \<times> ('d, 'z) container_scheme) option" where
  "vf_flush K vf w = do {
     (status, vf, w) \<leftarrow> writeStreamStartIfNeeded K vf w;
     let status = (if \<not> has_info status \<and> \<not> currentContainer vf then ContainerUnavailable else status);
     (status, vf, w) \<leftarrow>
       (if \<not> has_info status \<and> chunkBufferFlushNeeded vf then flushChunkBuffer K vf w
        else Some (status, vf, w));
     (status, vf, w) \<leftarrow> flush_loop K status vf w;
     Some (status, vf, set_last status vf w)
   }"

subsection \<open>\<open>append\<close>\<close>

text \<open>
  One round: the bytes of the tail buffer and then those of the caller from \<open>off\<close> on go
  into a new chunk, as many as fit.
\<close>

definition append_step ::
  "'d container_ops \<Rightarrow> byte list \<Rightarrow> nat \<Rightarrow> nat \<Rightarrow> virtual_file \<Rightarrow> ('d, 'z) container_scheme \<Rightarrow>
   (status \<times> nat \<times> nat \<times> virtual_file \<times> ('d, 'z) container_scheme) option" where
  "append_step K caller off remainingInBuffer vf w = do {
     (reservedFreeSpace, c, w) \<leftarrow> reserve_chunk K vf w;
     (numberLocalSegments, c) \<leftarrow>
       (if rb_empty (tailBuffer vf) then Some (0, c)
        else do {
          let (tailBufferCount, p1, l1, p2, l2) = bulkExtractionStart (tailBuffer vf);
          assertion (tailBufferCount = u32 (l1 + l2));
          (_, c) \<leftarrow> addScatterGatherListSegment_buffer (tail_pointer p1) l1 c;
          if l2 = 0 then Some (1, c)
          else do {
            (_, c) \<leftarrow> addScatterGatherListSegment_buffer (tail_pointer p2) l2 c;
            Some (2, c)
          }
        });
     (_, c) \<leftarrow> addScatterGatherListSegment_buffer (Ptr CallerBuffer off) remainingInBuffer c;
     assertion (currentContainer vf);
     (status, c, w) \<leftarrow> StreamDataChunk_save K True c (vf_memory caller vf) w;
     if \<not> has_info status then do {
       w \<leftarrow> release_rest K reservedFreeSpace c w;
       let writtenTailBuffer =
         u32 (sum_list (map (\<lambda>i. currentProcessedCount (scatterGatherListSegment i c)) [0..<numberLocalSegments]));
       let (success, rb) = bulkExtractionFinish writtenTailBuffer (tailBuffer vf);
       assertion success;
       let vf = vf\<lparr>tailBuffer := rb\<rparr>;
       let writtenFromCall = currentProcessedCount (scatterGatherListSegment numberLocalSegments c);
       assertion (writtenFromCall \<le> remainingInBuffer);
       let totalWrittenThisChunk = u32 (writtenTailBuffer + writtenFromCall);
       Some (status, off + writtenFromCall, remainingInBuffer - writtenFromCall,
         addChunkLocation (fileIndex c) (chunkOffset c) totalWrittenThisChunk vf, w)
     } else Some (status, off, remainingInBuffer, vf, w)
   }"

partial_function (option) append_loop ::
  "'d container_ops \<Rightarrow> byte list \<Rightarrow> status \<Rightarrow> nat \<Rightarrow> nat \<Rightarrow> virtual_file \<Rightarrow> ('d, 'z) container_scheme \<Rightarrow>
   (status \<times> nat \<times> nat \<times> virtual_file \<times> ('d, 'z) container_scheme) option" where
  "append_loop K caller status off remainingInBuffer vf w =
     (if \<not> has_info status \<and> rb_available (tailBuffer vf) \<le> remainingInBuffer then do {
        (status, off, remainingInBuffer, vf, w) \<leftarrow> append_step K caller off remainingInBuffer vf w;
        append_loop K caller status off remainingInBuffer vf w
      } else Some (status, off, remainingInBuffer, vf, w))"

declare append_loop.simps [code]

text \<open>\<open>memcpy\<close> from the caller's buffer into the tail buffer's array.\<close>

definition copy_to_tail :: "nat option \<Rightarrow> byte list \<Rightarrow> nat \<Rightarrow> nat \<Rightarrow> virtual_file \<Rightarrow> virtual_file option" where
  "copy_to_tail p caller off count vf = do {
     bytes \<leftarrow> load_bytes (vf_memory caller vf) (Ptr CallerBuffer off) count;
     mem \<leftarrow> store_bytes (vf_memory caller vf) (tail_pointer p) bytes;
     Some (vf\<lparr>tailBuffer := (tailBuffer vf)\<lparr>buffer := mem TailBuffer\<rparr>\<rparr>)
   }"

text \<open>What is left of the caller's data after the loop is kept in the tail buffer.\<close>

definition append_tail :: "byte list \<Rightarrow> nat \<Rightarrow> nat \<Rightarrow> virtual_file \<Rightarrow> virtual_file option" where
  "append_tail caller off remainingInBuffer vf = do {
     let (availableSpace, p1, l1, p2, l2) = bulkInsertionStart (tailBuffer vf);
     assertion (availableSpace > remainingInBuffer);
     let countP1 = (if l1 < remainingInBuffer then l1 else remainingInBuffer);
     vf \<leftarrow> copy_to_tail p1 caller off countP1 vf;
     let rest = remainingInBuffer - countP1;
     vf \<leftarrow>
       (if rest > 0 then do {
          assertion (p2 \<noteq> None \<and> l2 \<ge> rest);
          copy_to_tail p2 caller (off + countP1) rest vf
        } else Some vf);
     let (success, rb) = bulkInsertionFinish remainingInBuffer (tailBuffer vf);
     assertion success;
     Some (vf\<lparr>tailBuffer := rb\<rparr>)
   }"

definition vf_append ::
  "'d container_ops \<Rightarrow>
   (virtual_file \<Rightarrow> ('d, 'z) container_scheme \<Rightarrow> (status \<times> virtual_file \<times> ('d, 'z) container_scheme) option) \<Rightarrow>
   byte list \<Rightarrow> nat \<Rightarrow> nat \<Rightarrow> virtual_file \<Rightarrow> ('d, 'z) container_scheme \<Rightarrow>
   (status \<times> virtual_file \<times> ('d, 'z) container_scheme) option" where
  "vf_append K scan caller off desiredCount vf w = do {
     (status, vf, w) \<leftarrow> writeStreamStartIfNeeded K vf w;
     (status, vf, w) \<leftarrow> scanIfNeeded scan status vf w;
     (status, off, remainingInBuffer, vf, w) \<leftarrow> append_loop K caller status off desiredCount vf w;
     vf \<leftarrow> (if \<not> has_info status \<and> remainingInBuffer > 0 then append_tail caller off remainingInBuffer vf
           else Some vf);
     (status, vf, w) \<leftarrow>
       (if \<not> has_info status then do {
          (currentSize, vf, w) \<leftarrow> vf_size scan vf w;
          Some (WriteSuccessful desiredCount, vf\<lparr>currentPosition := unsigned_64 currentSize\<rparr>, w)
        } else Some (status, vf, w));
     Some (status, vf, set_last status vf w)
   }"

subsection \<open>\<open>write\<close>\<close>

text \<open>The chunk at the position is overwritten to its end: its new payload goes straight to the container.\<close>

definition write_direct ::
  "'d container_ops \<Rightarrow> bool \<Rightarrow> nat \<Rightarrow> chunk_map_data \<Rightarrow> byte list \<Rightarrow> nat \<Rightarrow> virtual_file \<Rightarrow>
   ('d, 'z) container_scheme \<Rightarrow> (status \<times> nat \<times> virtual_file \<times> ('d, 'z) container_scheme) option" where
  "write_direct K chunkLoaded k d caller off vf w = do {
     let chunkEndingOffset = u64 (k + chunkPayloadSize d);
     c \<leftarrow> StreamDataChunk (junk w) (chunkStartingIndex d) (currentStreamIdentifier vf) k;
     let (_, c) = setChunkSize maximumChunkSize c;
     (bytesOfNewData, c, vf, w) \<leftarrow>
       (if currentPosition vf = k then do {
          (_, c) \<leftarrow> addScatterGatherListSegment_buffer (Ptr CallerBuffer off) (chunkPayloadSize d) c;
          Some (chunkPayloadSize d, c, vf, w)
        } else do {
          (status, vf, w) \<leftarrow> (if chunkLoaded then Some (NoStatus, vf, w) else loadChunkIntoBuffer K vf w);
          if \<not> has_info status then do {
            let n = u32 (sub64 chunkEndingOffset (currentPosition vf));
            (_, c) \<leftarrow> addScatterGatherListSegment_buffer (Ptr ChunkBuffer 0) (u32 (sub64 (currentPosition vf) k)) c;
            (_, c) \<leftarrow> addScatterGatherListSegment_buffer (Ptr CallerBuffer off) n c;
            Some (n, c, vf, w)
          } else Some (0, c, vf, w)
        });
     assertion (currentContainer vf);
     (status, c, w) \<leftarrow> StreamDataChunk_save K True c (vf_memory caller vf) w;
     Some (status, bytesOfNewData, vf\<lparr>currentChunk := None, chunkBufferFlushNeeded := False\<rparr>, w)
   }"

text \<open>The new data ends inside the chunk: it goes into the chunk buffer.\<close>

definition write_buffered ::
  "'d container_ops \<Rightarrow> bool \<Rightarrow> nat \<Rightarrow> byte list \<Rightarrow> nat \<Rightarrow> nat \<Rightarrow> virtual_file \<Rightarrow>
   ('d, 'z) container_scheme \<Rightarrow> (status \<times> nat \<times> virtual_file \<times> ('d, 'z) container_scheme) option" where
  "write_buffered K chunkLoaded k caller off remainingInBuffer vf w = do {
     (status, vf, w) \<leftarrow> (if chunkLoaded then Some (NoStatus, vf, w) else loadChunkIntoBuffer K vf w);
     if \<not> has_info status then do {
       bytes \<leftarrow> load_bytes (vf_memory caller vf) (Ptr CallerBuffer off) remainingInBuffer;
       mem \<leftarrow> store_bytes (vf_memory caller vf) (Ptr ChunkBuffer (sub64 (currentPosition vf) k)) bytes;
       Some (status, remainingInBuffer, vf\<lparr>chunkBuffer := Some (mem ChunkBuffer), chunkBufferFlushNeeded := True\<rparr>, w)
     } else Some (status, remainingInBuffer, vf, w)
   }"

definition write_step ::
  "'d container_ops \<Rightarrow> nat \<Rightarrow> byte list \<Rightarrow> nat \<Rightarrow> nat \<Rightarrow> virtual_file \<Rightarrow> ('d, 'z) container_scheme \<Rightarrow>
   (status \<times> nat \<times> nat \<times> virtual_file \<times> ('d, 'z) container_scheme) option" where
  "write_step K writeEnd caller off remainingInBuffer vf w = do {
     (status, chunkLoaded, vf, w) \<leftarrow> locateChunk K vf w;
     if \<not> has_info status then do {
       k \<leftarrow> currentChunk vf;
       d \<leftarrow> om_find k (chunkMap vf);
       (status, bytesOfNewData, vf, w) \<leftarrow>
         (if writeEnd > u64 (k + chunkPayloadSize d) then write_direct K chunkLoaded k d caller off vf w
          else write_buffered K chunkLoaded k caller off remainingInBuffer vf w);
       if \<not> has_info status
       then Some (status, off + bytesOfNewData, sub32 remainingInBuffer bytesOfNewData,
         vf\<lparr>currentPosition := u64 (currentPosition vf + bytesOfNewData)\<rparr>, w)
       else Some (status, off, remainingInBuffer, vf, w)
     } else Some (status, off, remainingInBuffer, vf, w)
   }"

partial_function (option) write_loop ::
  "'d container_ops \<Rightarrow> nat \<Rightarrow> nat \<Rightarrow> byte list \<Rightarrow> status \<Rightarrow> nat \<Rightarrow> nat \<Rightarrow> virtual_file \<Rightarrow>
   ('d, 'z) container_scheme \<Rightarrow> (status \<times> nat \<times> nat \<times> virtual_file \<times> ('d, 'z) container_scheme) option" where
  "write_loop K writeEnd tailBufferBase caller status off remainingInBuffer vf w =
     (if \<not> has_info status \<and> remainingInBuffer > 0 \<and> currentPosition vf < tailBufferBase then do {
        (status, off, remainingInBuffer, vf, w) \<leftarrow> write_step K writeEnd caller off remainingInBuffer vf w;
        write_loop K writeEnd tailBufferBase caller status off remainingInBuffer vf w
      } else Some (status, off, remainingInBuffer, vf, w))"

declare write_loop.simps [code]

text \<open>Overwriting what is in the tail buffer, entry by entry.\<close>

fun snoop_assign_all :: "nat \<Rightarrow> byte list \<Rightarrow> byte ring_buffer \<Rightarrow> byte ring_buffer" where
  "snoop_assign_all offset [] rb = rb"
| "snoop_assign_all offset (b # bs) rb = snoop_assign_all (u32 (offset + 1)) bs (rb_snoop_assign offset b rb)"

definition write_tail ::
  "nat \<Rightarrow> nat \<Rightarrow> byte list \<Rightarrow> nat \<Rightarrow> nat \<Rightarrow> virtual_file \<Rightarrow> (nat \<times> nat \<times> nat \<times> virtual_file) option" where
  "write_tail tailBufferBase tailBufferEnd caller off remainingInBuffer vf = do {
     assertion (currentPosition vf \<ge> tailBufferBase);
     if currentPosition vf = tailBufferBase \<and> remainingInBuffer \<ge> rb_count (tailBuffer vf)
     then Some (tailBufferBase, off, remainingInBuffer, vf\<lparr>tailBuffer := rb_clear (tailBuffer vf)\<rparr>)
     else do {
       let offset = u32 (sub64 (currentPosition vf) tailBufferBase);
       let remainingInTailBuffer = sub32 (rb_count (tailBuffer vf)) offset;
       let entriesToSnoop =
         (if remainingInBuffer < remainingInTailBuffer then remainingInBuffer else remainingInTailBuffer);
       bytes \<leftarrow> load_bytes (vf_memory caller vf) (Ptr CallerBuffer off) entriesToSnoop;
       Some (tailBufferEnd, off + entriesToSnoop, remainingInBuffer - entriesToSnoop,
         vf\<lparr>tailBuffer := snoop_assign_all offset bytes (tailBuffer vf),
            currentPosition := u64 (currentPosition vf + entriesToSnoop)\<rparr>)
     }
   }"

definition vf_write ::
  "'d container_ops \<Rightarrow>
   (virtual_file \<Rightarrow> ('d, 'z) container_scheme \<Rightarrow> (status \<times> virtual_file \<times> ('d, 'z) container_scheme) option) \<Rightarrow>
   byte list \<Rightarrow> nat \<Rightarrow> virtual_file \<Rightarrow> ('d, 'z) container_scheme \<Rightarrow>
   (status \<times> virtual_file \<times> ('d, 'z) container_scheme) option" where
  "vf_write K scan caller desiredCount vf w = do {
     (status, vf, w) \<leftarrow> scanIfNeeded scan NoStatus vf w;
     let tailBufferBase = currentStoredSize vf;
     let tailBufferEnd = u64 (tailBufferBase + rb_count (tailBuffer vf));
     let writeEnd = u64 (currentPosition vf + desiredCount);
     (status, off, remainingInBuffer, vf, w) \<leftarrow>
       write_loop K writeEnd tailBufferBase caller status 0 desiredCount vf w;
     (tailBufferEnd, off, remainingInBuffer, vf) \<leftarrow>
       (if \<not> has_info status \<and> remainingInBuffer > 0
        then write_tail tailBufferBase tailBufferEnd caller off remainingInBuffer vf
        else Some (tailBufferEnd, off, remainingInBuffer, vf));
     (status, vf, w) \<leftarrow>
       (if \<not> has_info status \<and> remainingInBuffer > 0 then do {
          assertion (currentPosition vf = tailBufferEnd);
          (status, vf, w) \<leftarrow> vf_append K scan caller off remainingInBuffer vf w;
          status \<leftarrow> completed_write status remainingInBuffer;
          Some (status, vf, w)
        } else Some (status, vf, w));
     let status = (if \<not> has_info status then WriteSuccessful desiredCount else status);
     Some (status, vf, set_last status vf w)
   }"

subsection \<open>\<open>truncate\<close>\<close>

text \<open>The checks every operation makes of a chunk it has loaded.\<close>

definition check_data_chunk :: "virtual_file \<Rightarrow> nat \<Rightarrow> stream_data_chunk \<Rightarrow> status \<Rightarrow> status" where
  "check_data_chunk vf startingOffset c status = (
     let status =
       (if \<not> has_info status \<and> streamIdentifier c \<noteq> currentStreamIdentifier vf
        then StreamIdentifierMismatch (streamIdentifier c) (currentStreamIdentifier vf) (toPosition (fileIndex c))
        else status)
     in if \<not> has_info status \<and> chunkOffset c \<noteq> startingOffset
        then OffsetMismatch (chunkOffset c) startingOffset (toPosition (fileIndex c)) else status)"

text \<open>
  The chunk the position is inside of is loaded into an array on the stack and stored again
  with the bytes before the position. The checks come before the load, as they do in the code.
\<close>

definition shorten_chunk ::
  "'d container_ops \<Rightarrow> nat \<Rightarrow> virtual_file \<Rightarrow> ('d, 'z) container_scheme \<Rightarrow>
   (status \<times> nat option \<times> virtual_file \<times> ('d, 'z) container_scheme) option" where
  "shorten_chunk K k vf w = do {
     d \<leftarrow> om_find k (chunkMap vf);
     let startingIndex = chunkStartingIndex d;
     oldChunk \<leftarrow> StreamDataChunk (junk w) startingIndex (currentStreamIdentifier vf) k;
     let status = check_data_chunk vf k oldChunk NoStatus;
     (status, oldChunk, mem, w) \<leftarrow>
       (if \<not> has_info status then do {
          (_, oldChunk) \<leftarrow> addScatterGatherListSegment_buffer (Ptr LocalBuffer 0) maximumChunkSize oldChunk;
          assertion (currentContainer vf);
          StreamDataChunk_load K True oldChunk
            ((vf_memory [] vf)(LocalBuffer := new_array (junk w) maximumChunkSize)) w
        } else Some (status, oldChunk, vf_memory [] vf, w));
     if \<not> has_info status then do {
       newChunk \<leftarrow> StreamDataChunk (junk w) startingIndex (currentStreamIdentifier vf) k;
       let (_, newChunk) = setChunkSize (chunkSize oldChunk) newChunk;
       let bytesThisChunk = sub64 (currentPosition vf) k;
       assertion (bytesThisChunk \<le> chunkPayloadSize d);
       (_, newChunk) \<leftarrow> addScatterGatherListSegment_buffer (Ptr LocalBuffer 0) (u32 bytesThisChunk) newChunk;
       assertion (currentContainer vf);
       (status, newChunk, w) \<leftarrow> StreamDataChunk_save K True newChunk mem w;
       if \<not> has_info status then do {
         assertion (currentProcessedCount (scatterGatherListSegment 0 newChunk) = bytesThisChunk);
         let vf = vf\<lparr>chunkMap := om_assign k (setPayloadSize (u32 bytesThisChunk) d) (chunkMap vf)\<rparr>;
         w \<leftarrow>
           (if chunkSize newChunk \<noteq> chunkSize oldChunk then do {
              assertion (chunkSize newChunk < chunkSize oldChunk);
              let oldChunkSize = toFileIndex (chunkSize oldChunk);
              let newChunkSize = toFileIndex (chunkSize newChunk);
              container_newFreeSpaceArea (u32 (startingIndex + newChunkSize))
                (sub32 oldChunkSize newChunkSize) True w
            } else Some w);
         Some (status, om_next k (chunkMap vf), vf, w)
       } else Some (status, Some k, vf, w)
     } else Some (status, Some k, vf, w)
   }"

text \<open>The chunks from \<open>pos\<close> on are given back.\<close>

partial_function (option) truncate_loop ::
  "'d container_ops \<Rightarrow> status \<Rightarrow> nat option \<Rightarrow> virtual_file \<Rightarrow> ('d, 'z) container_scheme \<Rightarrow>
   (status \<times> virtual_file \<times> ('d, 'z) container_scheme) option" where
  "truncate_loop K status pos vf w =
     (if \<not> has_info status \<and> pos \<noteq> None then do {
        k \<leftarrow> pos;
        d \<leftarrow> om_find k (chunkMap vf);
        c \<leftarrow> StreamDataChunk (junk w) (chunkStartingIndex d) (currentStreamIdentifier vf) k;
        assertion (currentContainer vf);
        (status, c, _, w) \<leftarrow> StreamDataChunk_load K True c (vf_memory [] vf) w;
        let status = check_data_chunk vf k c status;
        if \<not> has_info status then do {
          w \<leftarrow> container_newFreeSpaceArea (fileIndex c) (toFileIndex (chunkSize c)) True w;
          truncate_loop K status (om_next k (chunkMap vf)) (vf\<lparr>chunkMap := om_erase k (chunkMap vf)\<rparr>) w
        } else truncate_loop K status pos vf w
      } else Some (status, vf, w))"

declare truncate_loop.simps [code]

definition vf_truncate ::
  "'d container_ops \<Rightarrow> virtual_file \<Rightarrow> ('d, 'z) container_scheme \<Rightarrow>
   (status \<times> virtual_file \<times> ('d, 'z) container_scheme) option" where
  "vf_truncate K vf w = do {
     let status = (if \<not> currentContainer vf then ContainerUnavailable else NoStatus);
     (status, vf, w) \<leftarrow> (if \<not> has_info status then vf_flush K vf w else Some (status, vf, w));
     if \<not> has_info status then do {
       k \<leftarrow> om_prev (om_upper_bound (currentPosition vf) (chunkMap vf)) (chunkMap vf);
       (status, pos, vf, w) \<leftarrow>
         (if k < currentPosition vf then shorten_chunk K k vf w else Some (status, Some k, vf, w));
       (status, vf, w) \<leftarrow> truncate_loop K status pos vf w;
       Some (status, (if \<not> has_info status then vf\<lparr>currentChunk := None\<rparr> else vf), w)
     } else Some (status, vf, w)
   }"

subsection \<open>\<open>erase\<close>\<close>

text \<open>The stream start chunk, checked against what the file is called; its area is to be released.\<close>

definition erase_start ::
  "'d container_ops \<Rightarrow> virtual_file \<Rightarrow> ('d, 'z) container_scheme \<Rightarrow>
   (status \<times> container_area list \<times> ('d, 'z) container_scheme) option" where
  "erase_start K vf w = do {
     c \<leftarrow> StreamStartChunk (junk w) (startChunkIndex vf) (currentName vf) (currentStreamIdentifier vf);
     (status, c, w) \<leftarrow> Chunk_load K True c w;
     let status =
       (if \<not> has_info status \<and> streamIdentifier c \<noteq> currentStreamIdentifier vf
        then StreamIdentifierMismatch (streamIdentifier c) (currentStreamIdentifier vf) (toPosition (fileIndex c))
        else status);
     status \<leftarrow>
       (if \<not> has_info status then do {
          name \<leftarrow> virtualFilename c;
          Some (if name \<noteq> currentName vf
                then FilenameMismatch name (currentName vf) (toPosition (startChunkIndex vf)) else status)
        } else Some status);
     Some (status,
       (if \<not> has_info status then [ContainerArea (startChunkIndex vf) (toFileIndex (chunkSize c))] else []), w)
   }"

fun erase_chunks ::
  "'d container_ops \<Rightarrow> virtual_file \<Rightarrow> (nat, chunk_map_data) omap \<Rightarrow> status \<Rightarrow> container_area list \<Rightarrow>
   ('d, 'z) container_scheme \<Rightarrow> (status \<times> container_area list \<times> ('d, 'z) container_scheme) option" where
  "erase_chunks K vf [] status areasToRelease w = Some (status, areasToRelease, w)"
| "erase_chunks K vf ((k, d) # m) status areasToRelease w =
     (if \<not> has_info status then do {
        c \<leftarrow> StreamDataChunk (junk w) (chunkStartingIndex d) (currentStreamIdentifier vf) k;
        (status, c, _, w) \<leftarrow> StreamDataChunk_load K True c (vf_memory [] vf) w;
        let status = check_data_chunk vf k c status;
        if \<not> has_info status
        then erase_chunks K vf m status
          (areasToRelease @ [ContainerArea (chunkStartingIndex d) (toFileIndex (chunkSize c))]) w
        else Some (status, areasToRelease, w)
      } else Some (status, areasToRelease, w))"

fun release_areas ::
  "container_area list \<Rightarrow> ('d, 'z) container_scheme \<Rightarrow> ('d, 'z) container_scheme option" where
  "release_areas [] w = Some w"
| "release_areas (a # as) w = do {
     w \<leftarrow> container_newFreeSpaceArea (currentStartingIndex a) (currentAreaSize a) True w;
     release_areas as w
   }"

definition vf_erase ::
  "'d container_ops \<Rightarrow>
   (virtual_file \<Rightarrow> ('d, 'z) container_scheme \<Rightarrow> (status \<times> virtual_file \<times> ('d, 'z) container_scheme) option) \<Rightarrow>
   virtual_file \<Rightarrow> ('d, 'z) container_scheme \<Rightarrow> (status \<times> virtual_file \<times> ('d, 'z) container_scheme) option" where
  "vf_erase K scan vf w = do {
     (status, vf, w) \<leftarrow> scanIfNeeded scan NoStatus vf w;
     (status, areasToRelease, w) \<leftarrow>
       (if \<not> has_info status \<and> startChunkIndex vf \<noteq> invalidFileIndex then erase_start K vf w
        else Some (status, [], w));
     (status, areasToRelease, w) \<leftarrow> erase_chunks K vf (chunkMap vf) status areasToRelease w;
     (status, w) \<leftarrow>
       (if \<not> has_info status then do {
          w \<leftarrow> release_areas areasToRelease w;
          (success, w) \<leftarrow> container_flushFreeSpace K False w;
          Some ((if \<not> success then lastStatus w else status), w)
        } else Some (status, w));
     if \<not> has_info status then do {
       let (success, w) = fileErased (currentName vf) w;
       assertion success;
       Some (status, vf\<lparr>currentContainer := False\<rparr>, setLastStatus status w)
     } else Some (status, vf, set_last status vf w)
   }"

subsection \<open>\<open>rename\<close>\<close>

definition vf_rename ::
  "'d container_ops \<Rightarrow> string \<Rightarrow> virtual_file \<Rightarrow> ('d, 'z) container_scheme \<Rightarrow>
   (status \<times> virtual_file \<times> ('d, 'z) container_scheme) option" where
  "vf_rename K newName vf w = do {
     let status = (if \<not> currentContainer vf then ContainerUnavailable else NoStatus);
     let oldName = currentName vf;
     (status, vf, w) \<leftarrow>
       (if \<not> has_info status \<and> oldName \<noteq> newName then do {
          (status, w) \<leftarrow>
            (if startChunkIndex vf \<noteq> invalidFileIndex then do {
               c \<leftarrow> StreamStartChunk (junk w) (startChunkIndex vf) newName (currentStreamIdentifier vf);
               (status, c, w) \<leftarrow> Chunk_save K (\<lambda>c. Some (Chunk_updateCrc c)) True c w;
               Some (status, w)
             } else Some (status, w));
          if \<not> has_info status then do {
            let vf = vf\<lparr>currentName := newName\<rparr>;
            let (success, w) = fileRenamed oldName newName w;
            assertion success;
            Some (status, vf, w)
          } else Some (status, vf, w)
        } else Some (status, vf, w));
     Some (status, vf, set_last status vf w)
   }"

end
