(* ===== verification/Stored_Stream.thy ===== *)
theory Stored_Stream
  imports Virtual_File_Write
begin

text \<open>
  The bytes of a stream on the medium: \<open>stored\<close> says that the chunks of a chunk map lie there
  without gaps and carry the given bytes, \<open>chunks_apart\<close> that they do not share cells (units
  of 32 bytes, counted by file indexes), and \<open>keeps\<close> that a change of the medium leaves a set
  of cells alone. The laws of \<open>Byte_Stream\<close> are stated with these.
\<close>

subsection \<open>Cells of the medium\<close>

definition keeps :: "nat set \<Rightarrow> byte list \<Rightarrow> byte list \<Rightarrow> bool" where
  "keeps cells bytes bytes' \<longleftrightarrow>
     length bytes \<le> length bytes' \<and> (\<forall>j < length bytes. j div 32 \<in> cells \<longrightarrow> bytes' ! j = bytes ! j)"

lemma keeps_refl [simp]: "keeps cells bytes bytes"
  by (simp add: keeps_def)

lemma keeps_trans: "keeps cells a b \<Longrightarrow> keeps cells b c \<Longrightarrow> keeps cells a c"
  by (auto simp: keeps_def)

lemma keeps_mono: "keeps cells a b \<Longrightarrow> cells' \<subseteq> cells \<Longrightarrow> keeps cells' a b"
  by (auto simp: keeps_def)

lemma keeps_length: "keeps cells a b \<Longrightarrow> length a \<le> length b"
  by (simp add: keeps_def)

lemma keeps_overlay:
  assumes "32 * i \<le> length bytes" "length img = 32 * n" "cells \<inter> {i ..< i + n} = {}"
  shows "keeps cells bytes (overlay bytes (32 * i) img)"
  unfolding keeps_def
proof (intro conjI allI impI)
  show "length bytes \<le> length (overlay bytes (32 * i) img)" using assms by (simp add: length_overlay)
  fix j assume j: "j < length bytes" "j div 32 \<in> cells"
  then have "j div 32 < i \<or> i + n \<le> j div 32" using assms(3) by force
  then have "j < 32 * i \<or> 32 * i + 32 * n \<le> j" by linarith
  with j assms(1,2) show "overlay bytes (32 * i) img ! j = bytes ! j" by (auto simp: nth_overlay)
qed

lemma keeps_area:
  assumes "keeps cells bytes bytes'" "{i ..< i + n} \<subseteq> cells" "32 * i + 32 * n \<le> length bytes"
  shows "take (32 * n) (drop (32 * i) bytes') = take (32 * n) (drop (32 * i) bytes)"
proof (rule nth_equalityI)
  have "length bytes \<le> length bytes'" using assms(1) by (rule keeps_length)
  with assms(3) show "length (take (32 * n) (drop (32 * i) bytes')) = length (take (32 * n) (drop (32 * i) bytes))" by simp
  fix j assume "j < length (take (32 * n) (drop (32 * i) bytes'))"
  then have j: "j < 32 * n" by simp
  then have "(32 * i + j) div 32 \<in> cells" using assms(2) by (auto simp: less_mult_imp_div_less mult.commute)
  with j assms show "take (32 * n) (drop (32 * i) bytes') ! j = take (32 * n) (drop (32 * i) bytes) ! j"
    by (simp add: keeps_def)
qed

lemma fit_size_cells: "32 * (fit_size n div 32) = fit_size n"
proof -
  have "fit_size n \<in> {32, 64, 128, 256, 512, 1024, 2048, 4096}" by (simp add: fit_size_def)
  then show ?thesis by auto
qed

lemma fit_size_cells_bounds:
  "0 < fit_size n div 32" "fit_size n div 32 \<le> 128"
  using fit_size_bounds(1,2) [of n] by simp_all

text \<open>A chunk of \<open>n\<close> payload bytes takes at most \<open>n\<close> cells.\<close>

lemma fit_size_payload: "0 < n \<Longrightarrow> fit_size (n + 14) div 32 \<le> n"
  by (simp add: fit_size_def)

subsection \<open>The chunks of a stream\<close>

definition cells_of :: "nat \<Rightarrow> nat \<Rightarrow> nat set" where
  "cells_of index n = {index ..< index + fit_size (n + 14) div 32}"

definition chunk_cells :: "chunk_map_data \<Rightarrow> nat set" where
  "chunk_cells d = cells_of (chunkStartingIndex d) (chunkPayloadSize d)"

definition map_cells :: "(nat, chunk_map_data) omap \<Rightarrow> nat set" where
  "map_cells m = (\<Union>p \<in> set m. chunk_cells (snd p))"

lemma map_cells_simps [simp]:
  "map_cells [] = {}" "map_cells ((k, d) # m) = chunk_cells d \<union> map_cells m"
  "map_cells (l @ m) = map_cells l \<union> map_cells m"
  by (auto simp: map_cells_def)

fun chunks_apart :: "(nat, chunk_map_data) omap \<Rightarrow> bool" where
  "chunks_apart [] \<longleftrightarrow> True"
| "chunks_apart ((k, d) # m) \<longleftrightarrow> chunk_cells d \<inter> map_cells m = {} \<and> chunks_apart m"

lemma chunks_apart_append:
  "chunks_apart (l @ m) \<longleftrightarrow> chunks_apart l \<and> chunks_apart m \<and> map_cells l \<inter> map_cells m = {}"
  by (induction l rule: chunks_apart.induct) auto

fun stored :: "byte list \<Rightarrow> nat \<Rightarrow> nat \<Rightarrow> (nat, chunk_map_data) omap \<Rightarrow> byte list \<Rightarrow> bool" where
  "stored bytes sid off [] data \<longleftrightarrow> data = []"
| "stored bytes sid off ((k, d) # m) data \<longleftrightarrow>
     k = off \<and> 0 < chunkPayloadSize d \<and> chunkPayloadSize d \<le> length data \<and>
     data_chunk_at bytes (chunkStartingIndex d) sid k (take (chunkPayloadSize d) data) \<and>
     stored bytes sid (off + chunkPayloadSize d) m (drop (chunkPayloadSize d) data)"

lemma data_chunk_keeps:
  assumes "data_chunk_at bytes index sid k payload" "keeps cells bytes bytes'" "cells_of index (length payload) \<subseteq> cells"
  shows "data_chunk_at bytes' index sid k payload"
proof (rule data_chunk_at_area [OF assms(1)])
  have len: "32 * index + fit_size (length payload + 14) \<le> length bytes"
    using assms(1) by (simp add: data_chunk_at_def Let_def)
  with keeps_length [OF assms(2)]
  show "32 * index + fit_size (length payload + 14) \<le> length bytes'" by simp
  show "take (fit_size (length payload + 14)) (drop (32 * index) bytes') =
      take (fit_size (length payload + 14)) (drop (32 * index) bytes)"
    using keeps_area [OF assms(2), of index "fit_size (length payload + 14) div 32"] assms(3) len
    by (simp add: cells_of_def fit_size_cells)
qed

lemma stored_keeps:
  "stored bytes sid off m data \<Longrightarrow> keeps cells bytes bytes' \<Longrightarrow> map_cells m \<subseteq> cells \<Longrightarrow> stored bytes' sid off m data"
proof (induction bytes sid off m data rule: stored.induct)
  case (2 bytes sid off k d m data)
  let ?p = "take (chunkPayloadSize d) data"
  have "length ?p = chunkPayloadSize d" using "2.prems"(1) by simp
  moreover have "data_chunk_at bytes (chunkStartingIndex d) sid k ?p" "cells_of (chunkStartingIndex d) (chunkPayloadSize d) \<subseteq> cells"
    using "2.prems" unfolding stored.simps map_cells_simps chunk_cells_def by blast+
  ultimately have "data_chunk_at bytes' (chunkStartingIndex d) sid k ?p"
    using data_chunk_keeps [OF _ "2.prems"(2)] by metis
  with 2 show ?case by simp
qed simp

definition payload_total :: "(nat, chunk_map_data) omap \<Rightarrow> nat" where
  "payload_total m = sum_list (map (\<lambda>p. chunkPayloadSize (snd p)) m)"

lemma payload_total_simps [simp]:
  "payload_total [] = 0" "payload_total ((k, d) # m) = chunkPayloadSize d + payload_total m"
  "payload_total (l @ m) = payload_total l + payload_total m"
  by (simp_all add: payload_total_def)

lemma stored_length: "stored bytes sid off m data \<Longrightarrow> length data = payload_total m"
proof (induction bytes sid off m data rule: stored.induct)
  case (2 bytes sid off k d m data)
  from "2.prems" have "chunkPayloadSize d \<le> length data"
    "stored bytes sid (off + chunkPayloadSize d) m (drop (chunkPayloadSize d) data)" by simp_all
  with "2.IH" show ?case by simp
qed simp

lemma stored_append:
  "stored bytes sid off (l @ m) data \<longleftrightarrow>
     payload_total l \<le> length data \<and> stored bytes sid off l (take (payload_total l) data) \<and>
     stored bytes sid (off + payload_total l) m (drop (payload_total l) data)"
proof (induction bytes sid off l data rule: stored.induct)
  case (2 bytes sid off k d l data)
  let ?n = "chunkPayloadSize d" and ?t = "payload_total l"
  have e: "take ?n (take (?n + ?t) data) = take ?n data" "drop ?n (take (?n + ?t) data) = take ?t (drop ?n data)"
    "drop ?t (drop ?n data) = drop (?n + ?t) data" "off + ?n + ?t = off + (?n + ?t)"
    by (simp_all add: drop_take add.commute)
  have "stored bytes sid off (((k, d) # l) @ m) data \<longleftrightarrow>
      (k = off \<and> 0 < ?n \<and> ?n \<le> length data \<and> data_chunk_at bytes (chunkStartingIndex d) sid k (take ?n data)) \<and>
      (?t \<le> length (drop ?n data) \<and> stored bytes sid (off + ?n) l (take ?t (drop ?n data)) \<and>
        stored bytes sid (off + ?n + ?t) m (drop ?t (drop ?n data)))"
    using "2.IH" by (simp only: append_Cons stored.simps) blast
  also have "\<dots> \<longleftrightarrow> payload_total ((k, d) # l) \<le> length data \<and>
      stored bytes sid off ((k, d) # l) (take (payload_total ((k, d) # l)) data) \<and>
      stored bytes sid (off + payload_total ((k, d) # l)) m (drop (payload_total ((k, d) # l)) data)"
    by (simp only: stored.simps payload_total_simps e) auto
  finally show ?case .
qed auto

text \<open>One chunk of the stream, between those before and those behind it.\<close>

lemma stored_mid:
  assumes "stored bytes sid off (l @ (k, d) # r) data"
  defines "n \<equiv> chunkPayloadSize d"
  shows "k = off + payload_total l" "0 < n" "payload_total l + n \<le> length data" "n \<le> 4082"
    "data_chunk_at bytes (chunkStartingIndex d) sid k (take n (drop (payload_total l) data))"
    "payload_total (l @ (k, d) # r) = length data"
proof -
  have h: "payload_total l \<le> length data" "stored bytes sid (off + payload_total l) ((k, d) # r) (drop (payload_total l) data)"
    using assms(1) unfolding stored_append by blast+
  from h(2) show k: "k = off + payload_total l" and "0 < n"
    and at: "data_chunk_at bytes (chunkStartingIndex d) sid k (take n (drop (payload_total l) data))"
    unfolding stored.simps n_def by blast+
  have "n \<le> length (drop (payload_total l) data)" using h(2) unfolding stored.simps n_def by blast
  with h(1) show le: "payload_total l + n \<le> length data" by simp
  then have "length (take n (drop (payload_total l) data)) = n" by simp
  with at show "n \<le> 4082" by (simp add: data_chunk_at_def Let_def)
  show "payload_total (l @ (k, d) # r) = length data" using stored_length [OF assms(1)] by simp
qed

lemma stored_keys:
  "stored bytes sid off m data \<Longrightarrow> k \<in> om_keys m \<Longrightarrow> off \<le> k \<and> k < off + length data"
proof -
  assume s: "stored bytes sid off m data" and "k \<in> om_keys m"
  then obtain l d r where m: "m = l @ (k, d) # r" by (metis om_split)
  from stored_mid [OF s [unfolded m]] show ?thesis by simp
qed

lemma stored_sorted: "stored bytes sid off m data \<Longrightarrow> om_sorted m"
proof (induction bytes sid off m data rule: stored.induct)
  case (2 bytes sid off k d m data)
  have "\<forall>b \<in> om_keys m. k < b"
    using "2.prems" stored_keys [of bytes sid "off + chunkPayloadSize d" m "drop (chunkPayloadSize d) data"] by fastforce
  with 2 show ?case by simp
qed simp

text \<open>A chunk is rewritten in place with as many bytes.\<close>

lemma stored_replace:
  assumes "stored bytes sid off (l @ (k, d) # r) data" "chunks_apart (l @ (k, d) # r)"
    and "keeps (map_cells l \<union> map_cells r) bytes bytes'"
    and "data_chunk_at bytes' (chunkStartingIndex d) sid k payload" "length payload = chunkPayloadSize d"
  shows "stored bytes' sid off (l @ (k, d) # r) (overlay data (payload_total l) payload)"
proof -
  let ?t = "payload_total l" and ?n = "chunkPayloadSize d"
  note m = stored_mid [OF assms(1)]
  have s: "stored bytes sid off l (take ?t data)" "stored bytes sid (off + ?t + ?n) r (drop ?n (drop ?t data))"
    using assms(1) unfolding stored_append by simp_all
  have "stored bytes' sid off l (take ?t data)" "stored bytes' sid (off + ?t + ?n) r (drop ?n (drop ?t data))"
    using stored_keeps [OF s(1) assms(3)] stored_keeps [OF s(2) assms(3)] by simp_all
  moreover have "take ?t (overlay data ?t payload) = take ?t data"
    "drop ?t (overlay data ?t payload) = payload @ drop (?t + ?n) data"
    using m assms(5) by (simp_all add: overlay_def)
  ultimately show ?thesis
    unfolding stored_append using m assms(4,5) by (simp add: overlay_def add.commute)
qed

end
