(* ===== verification/Free_Space_Flush.thy ===== *)
theory Free_Space_Flush
  imports Stored_Stream
begin

text \<open>
  \<open>ContainerImpl::flushArea\<close> and \<open>flushFreeSpace\<close> on a medium without faults that can be
  truncated: fill chunks go exactly over an area inside the container, an area at its end is cut
  off, and together they move the size of the container the way the step \<open>Flush\<close> of
  \<open>Free_Space_Tracker\<close> says, without touching a cell in use.
\<close>

context storage
begin

text \<open>The loop covers the area with fill chunks, each the largest that fits.\<close>

lemma flushArea_loop_law:
  assumes "ok (device w)" "length (content (device w)) < storage_limit"
    and "32 * (currentStartingIndex a + currentAreaSize a) \<le> length (content (device w))"
    and "used \<inter> {currentStartingIndex a ..< currentStartingIndex a + currentAreaSize a} = {}"
  shows "\<exists>w'. flushArea_loop K a w = Some (NoStatus, w') \<and> ok (device w') \<and>
    length (content (device w')) = length (content (device w)) \<and>
    keeps used (content (device w)) (content (device w')) \<and> spaceTracker w' = spaceTracker w"
  using assms
proof (induction "currentAreaSize a" arbitrary: a w rule: less_induct)
  case less
  let ?s = "currentStartingIndex a" and ?n = "currentAreaSize a"
  show ?case
  proof (cases "?n = 0")
    case True
    then show ?thesis using less.prems by (simp add: flushArea_loop.simps)
  next
    case False
    have n: "32 * (?s + ?n) < 4294967296" using less.prems by (simp add: storage_limit_def)
    then have pos: "u32 (toPosition ?n) = 32 * ?n" by (simp add: toPosition_id u32_id)
    have "32 * ?n < 4294967296" using n by simp
    from FillChunk_establishes [OF this, where uninit = "junk w" and index = ?s] obtain c where
      c: "FillChunk (junk w) ?s (32 * ?n) = Some c" "length (header c) = 4"
        "chunkSize c = (if 32 * ?n < 32 then 32 else best_size (32 * ?n))" "currentFileIndex c = ?s" .
    obtain k where k: "best_size (32 * ?n) = 2 ^ k" "5 \<le> k"
      using best_size_log2 [of "32 * ?n"] False n by auto
    define m where "m = (2 ^ (k - 5) :: nat)"
    have "(2 :: nat) ^ k = 2 ^ (5 + (k - 5))" using k(2) by simp
    also have "\<dots> = 32 * m" unfolding m_def power_add by simp
    finally have size: "chunkSize c = 32 * m" using c(3) k False by simp
    have m: "0 < m" "m \<le> ?n" using size c(3) False best_size_bounds(3) [of "32 * ?n"] by (auto simp: m_def split: if_splits)
    have pre: "4 \<le> length (header c)" "length (header c) \<le> chunkSize c"
      "32 * currentFileIndex c \<le> length (content (device w))" "32 * currentFileIndex c + chunkSize c \<le> storage_limit"
      "length (content (device w)) \<le> storage_limit"
      using c size m less.prems by (simp_all add: storage_limit_def)
    from save_plain_law [OF less.prems(1) pre(5,1-4), unfolded c(4) size] obtain d seed pad where
      d: "Chunk_save K (\<lambda>c. Some (Chunk_updateCrc c)) True c w =
          Some (NoStatus, Chunk_updateCrc c, w\<lparr>device := d, randomSeed := seed\<rparr>)" "ok d"
        "content d = overlay (content (device w)) (32 * ?s) (header (Chunk_updateCrc c) @ pad)"
        "length (header (Chunk_updateCrc c) @ pad) = 32 * m" .
    have size': "toFileIndex (chunkSize (Chunk_updateCrc c)) = m"
      using Chunk_updateCrc_fields [OF pre(1)] size m n by (simp add: toFileIndex_def u32_id)
    let ?a = "a\<lparr>currentStartingIndex := ?s + m, currentAreaSize := ?n - m\<rparr>"
    let ?w = "w\<lparr>device := d, randomSeed := seed\<rparr>"
    have red: "snd (reduceBy m FROM_FRONT a) = ?a" using m n by (simp add: reduceBy_def u32_id)
    have len: "length (content d) = length (content (device w))"
      using d(3,4) m less.prems(3) by (simp add: length_overlay)
    have sub: "used \<inter> {?s ..< ?s + m} = {}" using less.prems(4) m(2) by fastforce
    have keep: "keeps used (content (device w)) (content d)"
      unfolding d(3) by (rule keeps_overlay [OF _ d(4) sub]) (use less.prems in simp)
    have "\<exists>w'. flushArea_loop K ?a ?w = Some (NoStatus, w') \<and> ok (device w') \<and>
        length (content (device w')) = length (content (device ?w)) \<and>
        keeps used (content (device ?w)) (content (device w')) \<and> spaceTracker w' = spaceTracker ?w"
    proof (rule less.hyps)
      show "used \<inter> {currentStartingIndex ?a ..< currentStartingIndex ?a + currentAreaSize ?a} = {}"
        using less.prems(4) m(2) by fastforce
    qed (use m d(2) len less.prems in simp_all)
    then obtain w' where w': "flushArea_loop K ?a ?w = Some (NoStatus, w')" "ok (device w')"
      "length (content (device w')) = length (content d)" "keeps used (content d) (content (device w'))"
      "spaceTracker w' = spaceTracker w" by auto
    have "flushArea_loop K a w = flushArea_loop K ?a ?w"
      using False pos c(1) d(1) size' red by (subst flushArea_loop.simps) simp
    with w' len keeps_trans [OF keep w'(4)] show ?thesis by simp
  qed
qed

end

text \<open>What the bytes of the cells in use keep when the container may shrink.\<close>

definition cells_kept :: "nat set \<Rightarrow> byte list \<Rightarrow> byte list \<Rightarrow> bool" where
  "cells_kept cells bytes bytes' \<longleftrightarrow>
     length bytes' \<le> length bytes \<and> (\<forall>j < length bytes'. j div 32 \<in> cells \<longrightarrow> bytes' ! j = bytes ! j)"

lemma cells_kept_simps [simp]: "cells_kept cells b b" "cells_kept cells b (take n b)"
  by (auto simp: cells_kept_def)

lemma cells_kept_trans: "cells_kept cells a b \<Longrightarrow> cells_kept cells b c \<Longrightarrow> cells_kept cells a c"
  by (auto simp: cells_kept_def)

lemma keeps_cells_kept: "keeps cells a b \<Longrightarrow> length b = length a \<Longrightarrow> cells_kept cells a b"
  by (auto simp: keeps_def cells_kept_def)

context truncating_storage
begin

text \<open>One area that starts inside the container.\<close>

lemma flushArea_law:
  assumes w: "ok (device w)" "length (content (device w)) = 32 * eof" "32 * eof < storage_limit"
    and a: "k < e" "32 * e < storage_limit" "k \<le> eof" "used \<inter> {k ..< e} = {}"
  shows "\<exists>w'. flushArea K (ContainerArea k (e - k)) w = Some (True, w') \<and> ok (device w') \<and>
    flushArea_cells True (ContainerArea k (e - k)) eof = Some (True, length (content (device w')) div 32) \<and>
    length (content (device w')) = 32 * (if eof \<le> e then k else eof) \<and>
    cells_kept used (content (device w)) (content (device w')) \<and> spaceTracker w' = spaceTracker w"
proof -
  let ?a = "ContainerArea k (e - k)"
  have lim: "32 * eof < 4294967296" "32 * e < 4294967296" "length (content (device w)) \<le> storage_limit"
    using w a(2) by (simp_all add: storage_limit_def)
  have area: "currentStartingIndex ?a = k" "currentAreaSize ?a = e - k" "endingIndex ?a = e"
    using a(1) lim by (simp_all add: ContainerArea_def endingIndex_def u32_id)
  have size: "container_size K w = Some (int (32 * eof))"
    using size_law [OF w(1) lim(3)] w(2) by (simp add: container_size_def)
  have "nat (int (32 * eof) mod 18446744073709551616) = 32 * eof" using lim(1) by simp
  then have cond: "container_supportsTruncation K \<and> nat (int (32 * eof) mod 18446744073709551616) \<le> toPosition (endingIndex ?a)
      \<longleftrightarrow> eof \<le> e"
    using lim supports_law by (simp only: area(3)) (simp add: toPosition_id container_supportsTruncation_def)
  have branch: "flushArea K ?a w = do {
      (status, w) \<leftarrow>
        (if eof \<le> e then do {
           (status, w) \<leftarrow> container_setPosition K (toPosition (currentStartingIndex ?a)) w;
           if \<not> has_info status then container_truncate K w else Some (status, w)
         }
         else flushArea_loop K ?a w);
      Some (success status, w\<lparr>lastReportedStatus := status\<rparr>)
    }"
    by (simp only: flushArea_def size Option.bind.bind_lunit Let_def cond)
  show ?thesis
  proof (cases "eof \<le> e")
    case True
    have p: "32 * k \<le> length (content (device w))" using a(3) w(2) by simp
    from container_setPosition_law [OF w(1) p lim(3)] obtain d1 where
      d1: "container_setPosition K (32 * k) w = Some (NoStatus, w\<lparr>device := d1\<rparr>)" "ok d1"
        "content d1 = content (device w)" "cursor d1 = 32 * k" .
    with truncate_law [OF d1(2)] lim(3) obtain d2 where
      d2: "op_truncate K d1 = Some (NoStatus, d2)" "ok d2" "content d2 = take (32 * k) (content (device w))"
      by auto
    have "toPosition k = 32 * k" using a(1) lim by (simp add: toPosition_id)
    then have "flushArea K ?a w = Some (True, w\<lparr>device := d2, lastReportedStatus := NoStatus\<rparr>)"
      using True d1(1) d2(1) area unfolding branch by (simp add: container_truncate_def)
    then show ?thesis using d2 a(3) w(2) True by (simp add: flushArea_cells_def area)
  next
    case False
    have "used \<inter> {currentStartingIndex ?a ..< currentStartingIndex ?a + currentAreaSize ?a} = {}"
      "32 * (currentStartingIndex ?a + currentAreaSize ?a) \<le> length (content (device w))"
      "length (content (device w)) < storage_limit"
      using a w False by (simp_all add: area)
    from flushArea_loop_law [OF w(1) this(3,2,1)] obtain w' where
      w': "flushArea_loop K ?a w = Some (NoStatus, w')" "ok (device w')"
        "length (content (device w')) = length (content (device w))"
        "keeps used (content (device w)) (content (device w'))" "spaceTracker w' = spaceTracker w" by blast
    have "flushArea K ?a w = Some (True, w'\<lparr>lastReportedStatus := NoStatus\<rparr>)"
      using False w'(1) unfolding branch by simp
    then show ?thesis using w' w(2) False keeps_cells_kept [OF w'(4,3)] by (simp add: flushArea_cells_def area)
  qed
qed

text \<open>All of them: the code's loop moves the size of the container as the loop over cells does.\<close>

lemma flush_regions_law:
  assumes "ok (device w)" "length (content (device w)) = 32 * eof" "32 * eof < storage_limit"
    and "fm_ok m" "reserved_regions m = {}" "\<forall>p \<in> set m. fst p \<le> eof \<and> 32 * currentEndingIndex (snd p) < storage_limit"
    and "available_cells m \<inter> used = {}"
  shows "\<exists>m' w' eof'. flush_regions (flushArea K) flushAll True m w = Some (True, m', w') \<and> ok (device w') \<and>
    flush_regions (flushArea_cells True) flushAll True m eof = Some (True, m', eof') \<and>
    length (content (device w')) = 32 * eof' \<and> cells_kept used (content (device w)) (content (device w')) \<and>
    spaceTracker w' = spaceTracker w"
  using assms
proof (induction m arbitrary: w eof)
  case Nil
  then show ?case by simp
next
  case (Cons p m)
  obtain k d where p: "p = (k, d)" by fastforce
  let ?e = "currentEndingIndex d"
  have ok: "k < ?e" "?e < 4294967296" "fm_ok m" "\<not> isReserved d" "reserved_regions m = {}"
    "available_cells m \<inter> used = {}" "used \<inter> {k ..< ?e} = {}" "k \<le> eof" "32 * ?e < storage_limit"
    using Cons.prems by (auto simp: p fm_ok_Cons region_ok_def cells_simps region_cells_def split: if_splits)
  have sub: "sub32 ?e k = ?e - k" using ok(1,2) by (simp add: sub32_id)
  have m: "\<forall>p \<in> set m. fst p \<le> eof \<and> 32 * currentEndingIndex (snd p) < storage_limit" using Cons.prems(6) by simp
  show ?case
  proof (cases "flushAll \<or> fileUpdateNeeded d")
    case True
    from flushArea_law [OF Cons.prems(1-3) ok(1,9,8,7)] obtain w1 where
      w1: "flushArea K (ContainerArea k (?e - k)) w = Some (True, w1)" "ok (device w1)"
        "flushArea_cells True (ContainerArea k (?e - k)) eof = Some (True, length (content (device w1)) div 32)"
        "length (content (device w1)) = 32 * (if eof \<le> ?e then k else eof)"
        "cells_kept used (content (device w)) (content (device w1))" "spaceTracker w1 = spaceTracker w" by blast
    let ?eof = "if eof \<le> ?e then k else eof"
    have empty: "m = []" if "eof \<le> ?e"
    proof -
      have "q \<notin> set m" for q
      proof
        assume q: "q \<in> set m"
        then have "region_sep (k, d) q" "fst q \<le> eof"
          using Cons.prems(4) m by (simp_all add: p fm_ok_Cons)
        moreover have "\<not> isReserved (snd q)" using ok(5) q unfolding reserved_regions_def by blast
        ultimately show False using ok(4) that by (auto simp: region_sep_def)
      qed
      then show ?thesis by (cases m) auto
    qed
    have "32 * ?eof < storage_limit" "\<forall>p \<in> set m. fst p \<le> ?eof \<and> 32 * currentEndingIndex (snd p) < storage_limit"
      using Cons.prems(3) ok(8) m empty by auto
    from Cons.IH [OF w1(2,4) this(1) ok(3,5) this(2) ok(6)] obtain m' w' eof' where
      w': "flush_regions (flushArea K) flushAll True m w1 = Some (True, m', w')" "ok (device w')"
        "flush_regions (flushArea_cells True) flushAll True m ?eof = Some (True, m', eof')"
        "length (content (device w')) = 32 * eof'" "cells_kept used (content (device w1)) (content (device w'))"
        "spaceTracker w' = spaceTracker w1" by blast
    have "length (content (device w1)) div 32 = ?eof" using w1(4) by simp
    with True w1 w' cells_kept_trans [OF w1(5) w'(5)] show ?thesis by (simp add: p sub del: if_split)
  next
    case False
    from Cons.IH [OF Cons.prems(1-3) ok(3,5) m ok(6)] False show ?thesis by (auto simp: p)
  qed
qed

text \<open>
  \<open>flushFreeSpace\<close> of a container that satisfies the ledger of its cells: it succeeds, it is the
  step \<open>Flush\<close> on tracker and size, and no byte of a cell in use changes or is cut off.
\<close>

lemma container_flushFreeSpace_step:
  assumes w: "ok (device w)" "length (content (device w)) = 32 * eof" "32 * bound < storage_limit"
    and led: "tracker.ledger (spaceTracker w) used bound" "used \<subseteq> {..< eof}" "eof \<le> bound"
  obtains w' eof' where "container_flushFreeSpace K flushAll w = Some (True, w')" "ok (device w')"
    "length (content (device w')) = 32 * eof'" "used \<subseteq> {..< eof'}"
    "space_step True (Flush flushAll) (spaceTracker w, used, eof) (spaceTracker w', used, eof')"
    "cells_kept used (content (device w)) (content (device w'))"
proof -
  let ?m = "freeMap (spaceTracker w)"
  have l: "fm_ok ?m" "reserved_regions ?m = {}" "available_cells ?m \<inter> used = {}" "available_cells ?m \<union> used = {..< bound}"
    using led(1) by (simp_all add: tracker.ledger_def)
  have "fst p \<le> eof \<and> 32 * currentEndingIndex (snd p) < storage_limit" if p: "p \<in> set ?m" for p
  proof -
    have "fst p < currentEndingIndex (snd p)" using fm_ok_entry [OF l(1), of "fst p" "snd p"] p by simp
    moreover have "\<not> isReserved (snd p)" using l(2) p unfolding reserved_regions_def by blast
    ultimately have "currentEndingIndex (snd p) - 1 \<in> available_cells ?m"
      using p unfolding available_cells_def region_cells_def by (intro UN_I [of p]) auto
    then have "currentEndingIndex (snd p) - 1 < bound" using l(4) by blast
    then show ?thesis using w(3) region_starts_inside [OF l(1,2,4) led(2) p] by simp
  qed
  then have "\<forall>p \<in> set ?m. fst p \<le> eof \<and> 32 * currentEndingIndex (snd p) < storage_limit" by blast
  moreover have "32 * eof < storage_limit" using w(3) led(3) by simp
  ultimately obtain m' w' eof' where
    r: "flush_regions (flushArea K) flushAll True ?m w = Some (True, m', w')" "ok (device w')"
      "flush_regions (flushArea_cells True) flushAll True ?m eof = Some (True, m', eof')"
      "length (content (device w')) = 32 * eof'" "cells_kept used (content (device w)) (content (device w'))"
    using flush_regions_law [OF w(1,2) _ l(1,2) _ l(3)] by blast
  let ?t = "spaceTracker w\<lparr>freeMap := m'\<rparr>"
  have cells: "flushFreeSpace (flushArea_cells True) flushAll (spaceTracker w) eof = Some (True, ?t, eof')"
    using r(3) by (simp add: flushFreeSpace_def)
  with flushFreeSpace_cells [OF led, of True flushAll] have "used \<subseteq> {..< eof'}" by auto
  moreover have "container_flushFreeSpace K flushAll w = Some (True, w'\<lparr>spaceTracker := ?t\<rparr>)"
    using r(1) by (simp add: container_flushFreeSpace_def flushFreeSpace_def)
  moreover have "space_step True (Flush flushAll) (spaceTracker w, used, eof) (?t, used, eof')"
    using cells by (rule space_step.flush)
  ultimately show thesis using that [of "w'\<lparr>spaceTracker := ?t\<rparr>" eof'] r by simp
qed

end

end
