(* ===== verification/Library.thy ===== *)
theory Library
  imports Virtual_File_Write
begin

text \<open>
  The container together with its virtual files: the operations of \<open>ContainerImpl\<close> that reach
  into files (\<open>close\<close>, \<open>directory\<close>, \<open>streamRead\<close>, \<open>newVirtualFile\<close>, \<open>scanContainer\<close>,
  \<open>traverseContainer\<close>) and the public operations of \<open>Container::Container\<close> and
  \<open>Container::VirtualFile\<close>, which find the file object behind a handle and run the operation
  on it. File objects are in \<open>virtualFiles\<close>; a handle is the position there.

  \<open>createFile\<close> is the library's own (\<open>new VirtualFile(name, this)\<close>). The callbacks
  \<open>receivedData\<close> and \<open>endOfFile\<close>, which an application overrides, are parameters; the
  library's own are \<open>default_receivedData\<close> and \<open>default_endOfFile\<close>.
\<close>

record 'd library = "'d container" +
  virtualFiles :: "virtual_file list"

definition library_of :: "'d container \<Rightarrow> 'd library" where
  "library_of w = container.extend w \<lparr>virtualFiles = []\<rparr>"

definition file_at :: "nat \<Rightarrow> ('d, 'z) library_scheme \<Rightarrow> virtual_file option" where
  "file_at r h = (if r < length (virtualFiles h) then Some (virtualFiles h ! r) else None)"

definition put_file :: "nat \<Rightarrow> virtual_file \<Rightarrow> ('d, 'z) library_scheme \<Rightarrow> ('d, 'z) library_scheme" where
  "put_file r vf h = h\<lparr>virtualFiles := (virtualFiles h)[r := vf]\<rparr>"

text \<open>Run an operation of the file behind a handle.\<close>

definition with_file ::
  "nat \<Rightarrow> (virtual_file \<Rightarrow> ('d, 'z) library_scheme \<Rightarrow> ('a \<times> virtual_file \<times> ('d, 'z) library_scheme) option) \<Rightarrow>
   ('d, 'z) library_scheme \<Rightarrow> ('a \<times> ('d, 'z) library_scheme) option" where
  "with_file r f h = do {
     vf \<leftarrow> file_at r h;
     (x, vf, h) \<leftarrow> f vf h;
     Some (x, put_file r vf h)
   }"

subsection \<open>New files\<close>

partial_function (option) search_identifier :: "nat \<Rightarrow> (nat, nat) omap \<Rightarrow> nat option" where
  "search_identifier newIdentifier m =
     (if om_find newIdentifier m = None then Some newIdentifier
      else do {
        let newIdentifier = u32 (newIdentifier + 1);
        assertion (newIdentifier \<noteq> invalidStreamIdentifier);
        search_identifier newIdentifier m
      })"

declare search_identifier.simps [code]

text \<open>
  \<open>traverse\<close> is \<open>traverseContainer(true)\<close>, called while the maps are not filled in. The
  traversal itself marks them as filled before it creates files, so that the files it creates
  do not start another one.
\<close>

definition newStreamIdentifier ::
  "(('d, 'z) library_scheme \<Rightarrow> (status \<times> ('d, 'z) library_scheme) option) \<Rightarrow>
   ('d, 'z) library_scheme \<Rightarrow> (nat \<times> bool \<times> ('d, 'z) library_scheme) option" where
  "newStreamIdentifier traverse h = do {
     (isOK, h) \<leftarrow>
       (if \<not> fileMapsPopulated h then do {
          (status, h) \<leftarrow> traverse h;
          Some (\<not> has_info status, h\<lparr>lastReportedStatus := status\<rparr>)
        } else Some (True, h));
     newIdentifier \<leftarrow>
       (if isOK then search_identifier 0 (filesByIdentifier h) else Some invalidStreamIdentifier);
     Some (newIdentifier, isOK, h)
   }"

definition createFile ::
  "(('d, 'z) library_scheme \<Rightarrow> (status \<times> ('d, 'z) library_scheme) option) \<Rightarrow>
   string \<Rightarrow> ('d, 'z) library_scheme \<Rightarrow> (nat \<times> ('d, 'z) library_scheme) option" where
  "createFile traverse virtualFileName h = do {
     (sid, _, h) \<leftarrow> newStreamIdentifier traverse h;
     Some (length (virtualFiles h),
       h\<lparr>virtualFiles := virtualFiles h @ [VirtualFileImpl (junk h) virtualFileName sid]\<rparr>)
   }"

definition impl_newVirtualFile ::
  "(('d, 'z) library_scheme \<Rightarrow> (status \<times> ('d, 'z) library_scheme) option) \<Rightarrow>
   string \<Rightarrow> ('d, 'z) library_scheme \<Rightarrow> (nat option \<times> ('d, 'z) library_scheme) option" where
  "impl_newVirtualFile traverse newVirtualFileName h = do {
     h \<leftarrow>
       (if \<not> fileMapsPopulated h then do {
          (status, h) \<leftarrow> traverse h;
          Some (h\<lparr>lastReportedStatus := status\<rparr>)
        } else Some h);
     if om_find newVirtualFileName (fileApisByName h) = None then do {
       (r, h) \<leftarrow> createFile traverse newVirtualFileName h;
       Some (Some r, h\<lparr>fileApisByName := om_insert newVirtualFileName r (fileApisByName h)\<rparr>)
     } else Some (None, h)
   }"

text \<open>\<open>Container::newVirtualFile\<close> follows the pointer without a test for null.\<close>

definition newVirtualFile ::
  "(('d, 'z) library_scheme \<Rightarrow> (status \<times> ('d, 'z) library_scheme) option) \<Rightarrow>
   string \<Rightarrow> ('d, 'z) library_scheme \<Rightarrow> (nat \<times> ('d, 'z) library_scheme) option" where
  "newVirtualFile traverse newVirtualFileName h = do {
     (virtualFile, h) \<leftarrow> impl_newVirtualFile traverse newVirtualFileName h;
     r \<leftarrow> virtualFile;
     vf \<leftarrow> file_at r h;
     h \<leftarrow> registerFileImplementation r (currentName vf) (currentStreamIdentifier vf) h;
     Some (r, h)
   }"

subsection \<open>Traversing the container\<close>

text \<open>The callbacks of an application.\<close>

record 'w callbacks =
  receivedData :: "nat \<Rightarrow> byte list \<Rightarrow> 'w \<Rightarrow> (status \<times> 'w) option"
  endOfFile :: "nat \<Rightarrow> 'w \<Rightarrow> (status \<times> 'w) option"

definition default_receivedData :: "nat \<Rightarrow> byte list \<Rightarrow> 'w \<Rightarrow> (status \<times> 'w) option" where
  "default_receivedData r bs w = Some (StreamingReadError, w)"

definition default_endOfFile :: "nat \<Rightarrow> 'w \<Rightarrow> (status \<times> 'w) option" where
  "default_endOfFile r w = Some (NoStatus, w)"

definition default_callbacks :: "'w callbacks" where
  "default_callbacks = \<lparr>receivedData = default_receivedData, endOfFile = default_endOfFile\<rparr>"

text \<open>A stream start chunk: the file of that name is created and takes over the stored identifier.\<close>

definition traverse_start ::
  "'d container_ops \<Rightarrow> byte list \<Rightarrow> nat \<Rightarrow> ('d, 'z) library_scheme \<Rightarrow>
   (status \<times> ('d, 'z) library_scheme) option" where
  "traverse_start K commonHeader filePosition h = do {
     c \<leftarrow> StreamStartChunk_common (junk h) (toFileIndex filePosition) commonHeader;
     (status, c, h) \<leftarrow> Chunk_load K False c h;
     if has_info status then Some (status, h)
     else do {
       name \<leftarrow> virtualFilename c;
       let sid = streamIdentifier c;
       if om_find name (filesByName h) \<noteq> None
       then Some (FilenameMismatch name '''' filePosition, h)
       else do {
         (r, h) \<leftarrow> newVirtualFile (\<lambda>_. None) name h;
         r \<leftarrow> om_find name (filesByName h);
         vf \<leftarrow> file_at r h;
         let guessIdentifier = currentStreamIdentifier vf;
         h \<leftarrow>
           (if guessIdentifier \<noteq> sid then do {
              g \<leftarrow> om_find guessIdentifier (filesByIdentifier h);
              let h = put_file r (vf_setStreamIdentifier sid vf) h;
              Some (h\<lparr>filesByIdentifier := om_erase guessIdentifier (om_insert sid g (filesByIdentifier h))\<rparr>)
            } else Some h);
         vf \<leftarrow> file_at r h;
         Some (status, put_file r (vf_setStreamStartIndex (fileIndex c) vf) h)
       }
     }
   }"

text \<open>A data chunk: its place is added to the file of its stream, and its payload handed out when it was asked for.\<close>

definition traverse_data ::
  "'d container_ops \<Rightarrow> ('d, 'z) library_scheme callbacks \<Rightarrow> bool \<Rightarrow> byte list \<Rightarrow> nat \<Rightarrow>
   ('d, 'z) library_scheme \<Rightarrow> (status \<times> ('d, 'z) library_scheme) option" where
  "traverse_data K app buildMapsOnly commonHeader filePosition h = do {
     c \<leftarrow> StreamDataChunk_common (junk h) (toFileIndex filePosition) commonHeader;
     (status, c, mem, h) \<leftarrow>
       (if buildMapsOnly then do {
          (status, c, h) \<leftarrow> loadHeader K False c h;
          Some (status, c, (\<lambda>_. []), h)
        } else do {
          (_, c) \<leftarrow> addScatterGatherListSegment_buffer (Ptr LocalBuffer 0) maximumChunkSize c;
          StreamDataChunk_load K False c ((\<lambda>_. [])(LocalBuffer := new_array (junk h) maximumChunkSize)) h
        });
     if has_info status then Some (status, h)
     else (case om_find (streamIdentifier c) (filesByIdentifier h) of
        None \<Rightarrow> Some (StreamIdentifierMismatch (streamIdentifier c) 0 filePosition, h)
      | Some r \<Rightarrow> do {
          vf \<leftarrow> file_at r h;
          let h = put_file r (addChunkLocation (fileIndex c) (chunkOffset c) (payloadSize c) vf) h;
          if \<not> buildMapsOnly
          then receivedData app r (take (currentProcessedCount (scatterGatherListSegment 0 c)) (mem LocalBuffer)) h
          else Some (status, h)
        })
   }"

definition traverse_chunk ::
  "'d container_ops \<Rightarrow> ('d, 'z) library_scheme callbacks \<Rightarrow> bool \<Rightarrow> byte list \<Rightarrow> nat \<Rightarrow>
   ('d, 'z) library_scheme \<Rightarrow> (status \<times> nat \<times> ('d, 'z) library_scheme) option" where
  "traverse_chunk K app buildMapsOnly commonHeader filePosition h = do {
     hd \<leftarrow> ChunkHeader_sized (junk h) commonHeader;
     let n = chunkSize hd;
     (status, h) \<leftarrow>
       (case header_type hd of
          FILL_CHUNK \<Rightarrow>
            map_option (Pair NoStatus)
              (container_newFreeSpaceArea (toFileIndex filePosition) (toFileIndex n) False h)
        | STREAM_START_CHUNK \<Rightarrow> traverse_start K commonHeader filePosition h
        | STREAM_DATA_CHUNK \<Rightarrow> traverse_data K app buildMapsOnly commonHeader filePosition h
        | FILE_HEADER_CHUNK \<Rightarrow> Some (ContainerDataError filePosition, h));
     Some (status, n, h)
   }"

partial_function (option) traverse_loop ::
  "'d container_ops \<Rightarrow> ('d, 'z) library_scheme callbacks \<Rightarrow> bool \<Rightarrow> nat \<Rightarrow> status \<Rightarrow> nat \<Rightarrow>
   ('d, 'z) library_scheme \<Rightarrow> (status \<times> ('d, 'z) library_scheme) option" where
  "traverse_loop K app buildMapsOnly fileSize status filePosition h =
     (if \<not> has_info status \<and> filePosition < fileSize then do {
        (status, h) \<leftarrow> container_setPosition K filePosition h;
        (status, commonHeader, h) \<leftarrow>
          (if \<not> has_info status then do {
             (status, bytes, h) \<leftarrow> container_read K minimumChunkHeaderSizeBytes h;
             status \<leftarrow> completed_read status minimumChunkHeaderSizeBytes;
             Some (status, overlay (new_array (junk h) minimumChunkHeaderSizeBytes) 0 bytes, h)
           } else Some (status, [], h));
        (status, n, h) \<leftarrow>
          (if \<not> has_info status then traverse_chunk K app buildMapsOnly commonHeader filePosition h
           else Some (status, 0, h));
        traverse_loop K app buildMapsOnly fileSize status
          (if \<not> has_info status then u64 (filePosition + n) else filePosition) h
      } else Some (status, h))"

declare traverse_loop.simps [code]

definition traverseContainer ::
  "'d container_ops \<Rightarrow> ('d, 'z) library_scheme callbacks \<Rightarrow> bool \<Rightarrow> ('d, 'z) library_scheme \<Rightarrow>
   (status \<times> ('d, 'z) library_scheme) option" where
  "traverseContainer K app buildMapsOnly h = do {
     let h = h\<lparr>fileMapsPopulated := True\<rparr>;
     size \<leftarrow> container_size K h;
     traverse_loop K app buildMapsOnly (unsigned_64 size) NoStatus (toPosition (startingFileIndex h)) h
   }"

definition build_maps ::
  "'d container_ops \<Rightarrow> ('d, 'z) library_scheme \<Rightarrow> (status \<times> ('d, 'z) library_scheme) option" where
  "build_maps K h = traverseContainer K default_callbacks True h"

definition scanContainer ::
  "'d container_ops \<Rightarrow> ('d, 'z) library_scheme \<Rightarrow> (status \<times> ('d, 'z) library_scheme) option" where
  "scanContainer K h = do {
     (status, h) \<leftarrow> (if \<not> fileMapsPopulated h then build_maps K h else Some (NoStatus, h));
     Some (status, h\<lparr>lastReportedStatus := status\<rparr>)
   }"

definition directory ::
  "'d container_ops \<Rightarrow> ('d, 'z) library_scheme \<Rightarrow> ((string, nat) omap \<times> ('d, 'z) library_scheme) option" where
  "directory K h = do {
     h \<leftarrow>
       (if \<not> fileMapsPopulated h then do {
          (status, h) \<leftarrow> build_maps K h;
          Some (h\<lparr>lastReportedStatus := status\<rparr>)
        } else Some h);
     Some (fileApisByName h, h)
   }"

fun end_of_files ::
  "('d, 'z) library_scheme callbacks \<Rightarrow> (string, nat) omap \<Rightarrow> status \<Rightarrow> ('d, 'z) library_scheme \<Rightarrow>
   (status \<times> ('d, 'z) library_scheme) option" where
  "end_of_files app [] status h = Some (status, h)"
| "end_of_files app ((name, r) # m) status h =
     (if \<not> has_info status then do {
        (status, h) \<leftarrow> endOfFile app r h;
        end_of_files app m status h
      } else Some (status, h))"

definition streamRead ::
  "'d container_ops \<Rightarrow> ('d, 'z) library_scheme callbacks \<Rightarrow> ('d, 'z) library_scheme \<Rightarrow>
   (status \<times> ('d, 'z) library_scheme) option" where
  "streamRead K app h = do {
     (status, h) \<leftarrow> traverseContainer K app False h;
     end_of_files app (filesByName h) status h
   }"

subsection \<open>Closing\<close>

fun flush_files ::
  "'d container_ops \<Rightarrow> (string, nat) omap \<Rightarrow> status \<Rightarrow> ('d, 'z) library_scheme \<Rightarrow>
   (status \<times> ('d, 'z) library_scheme) option" where
  "flush_files K [] status h = Some (status, h)"
| "flush_files K ((name, r) # m) status h =
     (if \<not> has_info status then do {
        (status, h) \<leftarrow> with_file r (vf_flush K) h;
        flush_files K m status h
      } else Some (status, h))"

definition container_close ::
  "'d container_ops \<Rightarrow> ('d, 'z) library_scheme \<Rightarrow> (status \<times> ('d, 'z) library_scheme) option" where
  "container_close K h = do {
     (success, h) \<leftarrow> container_flushFreeSpace K False h;
     if \<not> success then Some (lastReportedStatus h, h)
     else do {
       (status, h) \<leftarrow> flush_files K (filesByName h) NoStatus h;
       Some (status, h\<lparr>lastReportedStatus := status\<rparr>)
     }
   }"

subsection \<open>The operations of a file handle\<close>

text \<open>\<open>container->scanContainer()\<close> called from the file behind handle \<open>r\<close>, which it may change.\<close>

definition scan_from ::
  "'d container_ops \<Rightarrow> nat \<Rightarrow> virtual_file \<Rightarrow> ('d, 'z) library_scheme \<Rightarrow>
   (status \<times> virtual_file \<times> ('d, 'z) library_scheme) option" where
  "scan_from K r vf h = do {
     (status, h) \<leftarrow> scanContainer K (put_file r vf h);
     vf \<leftarrow> file_at r h;
     Some (status, vf, h)
   }"

definition file_size :: "'d container_ops \<Rightarrow> nat \<Rightarrow> ('d, 'z) library_scheme \<Rightarrow> (int \<times> ('d, 'z) library_scheme) option" where
  "file_size K r = with_file r (vf_size (scan_from K r))"

definition file_setPosition ::
  "'d container_ops \<Rightarrow> nat \<Rightarrow> nat \<Rightarrow> ('d, 'z) library_scheme \<Rightarrow> (status \<times> ('d, 'z) library_scheme) option" where
  "file_setPosition K r newOffset = with_file r (vf_setPosition (scan_from K r) newOffset)"

definition file_setPositionLast ::
  "'d container_ops \<Rightarrow> nat \<Rightarrow> ('d, 'z) library_scheme \<Rightarrow> (status \<times> ('d, 'z) library_scheme) option" where
  "file_setPositionLast K r = with_file r (vf_setPositionLast (scan_from K r))"

text \<open>\<open>read\<close> fills the front of the caller's array and returns all of it.\<close>

definition file_read ::
  "'d container_ops \<Rightarrow> nat \<Rightarrow> nat \<Rightarrow> byte list \<Rightarrow> ('d, 'z) library_scheme \<Rightarrow>
   ((status \<times> byte list) \<times> ('d, 'z) library_scheme) option" where
  "file_read K r desiredCount caller =
     with_file r (\<lambda>vf h. map_option (\<lambda>(status, caller, vf, h). ((status, caller), vf, h))
       (vf_read K (scan_from K r) desiredCount caller vf h))"

definition file_write ::
  "'d container_ops \<Rightarrow> nat \<Rightarrow> byte list \<Rightarrow> ('d, 'z) library_scheme \<Rightarrow> (status \<times> ('d, 'z) library_scheme) option" where
  "file_write K r bytes = with_file r (vf_write K (scan_from K r) bytes (length bytes))"

definition file_append ::
  "'d container_ops \<Rightarrow> nat \<Rightarrow> byte list \<Rightarrow> ('d, 'z) library_scheme \<Rightarrow> (status \<times> ('d, 'z) library_scheme) option" where
  "file_append K r bytes = with_file r (vf_append K (scan_from K r) bytes 0 (length bytes))"

definition file_truncate :: "'d container_ops \<Rightarrow> nat \<Rightarrow> ('d, 'z) library_scheme \<Rightarrow> (status \<times> ('d, 'z) library_scheme) option" where
  "file_truncate K r = with_file r (vf_truncate K)"

definition file_flush :: "'d container_ops \<Rightarrow> nat \<Rightarrow> ('d, 'z) library_scheme \<Rightarrow> (status \<times> ('d, 'z) library_scheme) option" where
  "file_flush K r = with_file r (vf_flush K)"

definition file_erase :: "'d container_ops \<Rightarrow> nat \<Rightarrow> ('d, 'z) library_scheme \<Rightarrow> (status \<times> ('d, 'z) library_scheme) option" where
  "file_erase K r = with_file r (vf_erase K (scan_from K r))"

definition file_rename ::
  "'d container_ops \<Rightarrow> nat \<Rightarrow> string \<Rightarrow> ('d, 'z) library_scheme \<Rightarrow> (status \<times> ('d, 'z) library_scheme) option" where
  "file_rename K r newName = with_file r (vf_rename K newName)"

definition create_file ::
  "'d container_ops \<Rightarrow> string \<Rightarrow> ('d, 'z) library_scheme \<Rightarrow> (nat \<times> ('d, 'z) library_scheme) option" where
  "create_file K name = newVirtualFile (build_maps K) name"

end
