(* ===== verification/Byte_Stream.thy ===== *)
theory Byte_Stream
  imports Stored_Stream
begin

text \<open>
  Virtual files as byte sequences: the operations of \<open>VirtualFileImpl\<close> on a medium without
  faults, against the bytes of the stream they stand for (\<open>holds\<close>).
\<close>

subsection \<open>What a virtual file stands for\<close>

abbreviation seg :: "pointer \<Rightarrow> nat \<Rightarrow> scatter_gather_list_segment" where
  "seg p n \<equiv> \<lparr>currentBase = p, currentLength = n, currentProcessedCount = 0\<rparr>"

definition tail_ok :: "byte ring_buffer \<Rightarrow> bool" where
  "tail_ok rb \<longleftrightarrow> rb_ok rb \<and> bufferLength rb = 4096"

text \<open>The changes that are only in the chunk buffer.\<close>

definition patched :: "virtual_file \<Rightarrow> byte list \<Rightarrow> byte list" where
  "patched vf D =
     (case (currentChunk vf, chunkBuffer vf) of
        (Some k, Some cb) \<Rightarrow>
          (if chunkBufferFlushNeeded vf
           then (case om_find k (chunkMap vf) of
                   Some d \<Rightarrow> overlay D k (take (chunkPayloadSize d) cb) | None \<Rightarrow> D)
           else D)
      | _ \<Rightarrow> D)"

definition buffer_ok :: "virtual_file \<Rightarrow> byte list \<Rightarrow> bool" where
  "buffer_ok vf D \<longleftrightarrow>
     (\<forall>cb. chunkBuffer vf = Some cb \<longrightarrow> length cb = 4096) \<and>
     (case currentChunk vf of
        None \<Rightarrow> \<not> chunkBufferFlushNeeded vf
      | Some k \<Rightarrow> \<exists>d cb. om_find k (chunkMap vf) = Some d \<and> chunkBuffer vf = Some cb \<and>
          (\<not> chunkBufferFlushNeeded vf \<longrightarrow> take (chunkPayloadSize d) cb = take (chunkPayloadSize d) (drop k D)))"

definition start_chunk_at :: "byte list \<Rightarrow> nat \<Rightarrow> nat \<Rightarrow> string \<Rightarrow> bool" where
  "start_chunk_at bytes index sid name \<longleftrightarrow>
     (let h = stored_header 128 bytes index in
      32 * index + 128 \<le> length bytes \<and> header_type h = STREAM_START_CHUNK \<and> chunkSize h = 128 \<and>
      numberValidBytes h = 124 \<and>
      streamIdentifier h = sid \<and> virtualFilename h = Some name)"

definition start_cells :: "virtual_file \<Rightarrow> nat set" where
  "start_cells vf =
     (if startChunkIndex vf = invalidFileIndex then {} else {startChunkIndex vf ..< startChunkIndex vf + 4})"

lemma start_cells_update [simp]:
  "start_cells (vf\<lparr>tailBuffer := rb\<rparr>) = start_cells vf" "start_cells (vf\<lparr>chunkMap := m\<rparr>) = start_cells vf"
  "start_cells (vf\<lparr>currentChunk := cc\<rparr>) = start_cells vf" "start_cells (vf\<lparr>chunkBuffer := cb\<rparr>) = start_cells vf"
  "start_cells (vf\<lparr>chunkBufferFlushNeeded := f\<rparr>) = start_cells vf"
  "start_cells (vf\<lparr>currentPosition := p\<rparr>) = start_cells vf"
  by (simp_all add: start_cells_def)

definition file_cells :: "virtual_file \<Rightarrow> nat set" where
  "file_cells vf = start_cells vf \<union> map_cells (chunkMap vf)"

text \<open>\<open>D\<close> are the bytes in the chunks, \<open>used\<close> the cells in use, which contain the file's.\<close>

definition holds_stored :: "byte list \<Rightarrow> nat set \<Rightarrow> virtual_file \<Rightarrow> byte list \<Rightarrow> bool" where
  "holds_stored bytes used vf D \<longleftrightarrow>
     currentContainer vf \<and> currentStreamIdentifier vf < 2147483648 \<and> file_cells vf \<subseteq> used \<and>
     (startChunkIndex vf \<noteq> invalidFileIndex \<longrightarrow>
        start_chunk_at bytes (startChunkIndex vf) (currentStreamIdentifier vf) (currentName vf)) \<and>
     start_cells vf \<inter> map_cells (chunkMap vf) = {} \<and> chunks_apart (chunkMap vf) \<and> tail_ok (tailBuffer vf) \<and>
     stored bytes (currentStreamIdentifier vf) 0 (chunkMap vf) D \<and> buffer_ok vf D"

definition holds :: "byte list \<Rightarrow> nat set \<Rightarrow> virtual_file \<Rightarrow> byte list \<Rightarrow> bool" where
  "holds bytes used vf data \<longleftrightarrow>
     length data < 281474976710656 \<and>
     (\<exists>D. holds_stored bytes used vf D \<and> data = patched vf D @ contents (tailBuffer vf))"

lemma start_chunk_keeps:
  assumes "start_chunk_at bytes index sid name" "keeps cells bytes bytes'" "{index ..< index + 4} \<subseteq> cells"
  shows "start_chunk_at bytes' index sid name"
proof -
  have len: "32 * index + 128 \<le> length bytes" using assms(1) by (simp add: start_chunk_at_def Let_def)
  then have "take 128 (drop (32 * index) bytes') = take 128 (drop (32 * index) bytes)"
    using keeps_area [OF assms(2,3)] by simp
  then show ?thesis
    using assms(1) len keeps_length [OF assms(2)] by (simp add: start_chunk_at_def stored_header_def Let_def)
qed

lemma found_chunk:
  assumes "stored bytes sid 0 m D" "om_find k m = Some d"
  obtains l r where "m = l @ (k, d) # r" "k \<notin> om_keys l" "k = payload_total l" "0 < chunkPayloadSize d"
    "k + chunkPayloadSize d \<le> length D" "chunkPayloadSize d \<le> 4082"
proof -
  have "k \<in> om_keys m" using assms(2) by (metis om_find_None_iff option.distinct(1))
  then obtain l v r where m: "m = l @ (k, v) # r" "k \<notin> om_keys l" by (rule om_split)
  then have "d = v" using assms(2) by (simp add: om_find_mid)
  with that m stored_mid [OF assms(1) [unfolded m(1)]] show thesis by simp
qed

lemma found_chunk_bounds:
  assumes "stored bytes sid 0 m D" "om_find k m = Some d"
  shows "k + chunkPayloadSize d \<le> length D" "chunkPayloadSize d \<le> 4082" "0 < chunkPayloadSize d"
  by (rule found_chunk [OF assms], assumption)+

lemma length_patched:
  assumes "stored bytes sid 0 (chunkMap vf) D" "buffer_ok vf D"
  shows "length (patched vf D) = length D"
proof (cases "currentChunk vf")
  case (Some k)
  with assms(2) obtain d cb where b: "om_find k (chunkMap vf) = Some d" "chunkBuffer vf = Some cb" "length cb = 4096"
    by (auto simp: buffer_ok_def)
  from found_chunk_bounds [OF assms(1) b(1)] have "k + length (take (chunkPayloadSize d) cb) \<le> length D" using b(3) by simp
  then show ?thesis using Some b by (simp add: patched_def)
qed (simp add: patched_def)

lemma currentStoredSize_stored:
  assumes "stored bytes sid 0 (chunkMap vf) D" "length D < 281474976710656"
  shows "currentStoredSize vf = length D"
proof (cases "chunkMap vf" rule: rev_cases)
  case Nil
  then show ?thesis using assms(1) by (simp add: currentStoredSize_def)
next
  case (snoc l p)
  obtain k d where p: "p = (k, d)" by (cases p)
  note s = stored_mid [OF assms(1) [unfolded snoc p]]
  from snoc p s(1,6) show ?thesis using assms(2) by (simp add: currentStoredSize_def u64_id)
qed

lemma lastKnownFileIndex_used:
  assumes "holds_stored bytes used vf D" "used \<subseteq> {..< eof}"
  shows "lastKnownFileIndex vf \<le> eof"
proof (cases "chunkMap vf" rule: rev_cases)
  case Nil
  have "startChunkIndex vf = invalidFileIndex \<or> startChunkIndex vf \<in> file_cells vf"
    by (simp add: file_cells_def start_cells_def)
  then show ?thesis using assms Nil by (auto simp: lastKnownFileIndex_def holds_stored_def)
next
  case (snoc l p)
  have "chunkStartingIndex (snd p) \<in> chunk_cells (snd p)"
    using fit_size_cells_bounds by (simp add: chunk_cells_def cells_of_def)
  moreover have "chunk_cells (snd p) \<subseteq> file_cells vf" using snoc by (auto simp: file_cells_def map_cells_def)
  ultimately have "chunkStartingIndex (snd p) < eof" using assms by (auto simp: holds_stored_def)
  then show ?thesis using snoc by (simp add: lastKnownFileIndex_def)
qed

lemma om_find_append: "om_find k (l @ m) = (case om_find k l of None \<Rightarrow> om_find k m | Some v \<Rightarrow> Some v)"
  by (induction k l rule: om_find.induct) auto

lemma overlay_append: "i + length ys \<le> length xs \<Longrightarrow> overlay (xs @ zs) i ys = overlay xs i ys @ zs"
  by (simp add: overlay_def)

text \<open>A further chunk behind the others.\<close>

lemma holds_add_chunk:
  assumes h: "holds_stored bytes used vf D" "length D < 281474976710656"
    and new: "keeps used bytes bytes'" "data_chunk_at bytes' index (currentStreamIdentifier vf) (length D) p"
      "p \<noteq> []" "cells_of index (length p) \<inter> used = {}" "tail_ok rb"
  defines "vf' \<equiv> addChunkLocation index (length D) (length p) (vf\<lparr>tailBuffer := rb\<rparr>)"
  shows "holds_stored bytes' (used \<union> cells_of index (length p)) vf' (D @ p)"
    "patched vf' (D @ p) = patched vf D @ p" "tailBuffer vf' = rb"
    "vf' = vf\<lparr>chunkMap := chunkMap vf', tailBuffer := rb\<rparr>"
    "file_cells vf' = file_cells vf \<union> cells_of index (length p)"
    "chunkMap vf' = chunkMap vf @ [(length D, ChunkMapData index (length p))]"
proof -
  let ?d = "ChunkMapData index (length p)" and ?m = "chunkMap vf"
  have h': "stored bytes (currentStreamIdentifier vf) 0 ?m D" "buffer_ok vf D" "file_cells vf \<subseteq> used"
    "chunks_apart ?m" "start_cells vf \<inter> map_cells ?m = {}"
    using h(1) by (simp_all add: holds_stored_def)
  have keys: "\<forall>k \<in> om_keys ?m. k < length D" using stored_keys [OF h'(1)] by simp
  then have nk: "length D \<notin> om_keys ?m" by blast
  have "om_insert (length D) ?d (?m @ []) = ?m @ [(length D, ?d)]"
    by (rule om_insert_mid) (use keys stored_sorted [OF h'(1)] in auto)
  then have vf': "vf' = vf\<lparr>chunkMap := ?m @ [(length D, ?d)], tailBuffer := rb\<rparr>"
    using nk by (simp add: vf'_def addChunkLocation_def)
  have mc: "map_cells ?m \<subseteq> used" "start_cells vf \<subseteq> used" using h'(3) by (simp_all add: file_cells_def)
  have "stored bytes' (currentStreamIdentifier vf) 0 ?m D" by (rule stored_keeps [OF h'(1) new(1) mc(1)])
  moreover have "length p \<le> 4082" using new(2) by (simp add: data_chunk_at_def Let_def)
  ultimately have st: "stored bytes' (currentStreamIdentifier vf) 0 (?m @ [(length D, ?d)]) (D @ p)"
    using new(2,3) stored_length [OF h'(1)] by (simp add: stored_append ChunkMapData_def)
  have fnd: "om_find k (?m @ [(length D, ?d)]) = Some d" if "om_find k ?m = Some d" for k d
    using that by (simp add: om_find_append)
  show "tailBuffer vf' = rb" "vf' = vf\<lparr>chunkMap := chunkMap vf', tailBuffer := rb\<rparr>"
    "chunkMap vf' = ?m @ [(length D, ?d)]"
    by (simp_all add: vf')
  show "file_cells vf' = file_cells vf \<union> cells_of index (length p)"
    by (auto simp: vf' file_cells_def chunk_cells_def ChunkMapData_def)
  have buf: "patched vf' (D @ p) = patched vf D @ p \<and> buffer_ok vf' (D @ p)"
  proof (cases "currentChunk vf")
    case None
    with h'(2) show ?thesis by (simp add: patched_def buffer_ok_def vf')
  next
    case (Some k)
    with h'(2) obtain d cb where b: "om_find k ?m = Some d" "chunkBuffer vf = Some cb" "length cb = 4096"
      "\<not> chunkBufferFlushNeeded vf \<longrightarrow> take (chunkPayloadSize d) cb = take (chunkPayloadSize d) (drop k D)"
      by (auto simp: buffer_ok_def)
    note k = found_chunk_bounds [OF h'(1) b(1)]
    with Some b show ?thesis
      by (simp add: patched_def buffer_ok_def vf' fnd overlay_append)
  qed
  then show "patched vf' (D @ p) = patched vf D @ p" ..
  have "start_chunk_at bytes' (startChunkIndex vf) (currentStreamIdentifier vf) (currentName vf)"
    if "startChunkIndex vf \<noteq> invalidFileIndex"
    using h(1) mc(2) that start_chunk_keeps [OF _ new(1)] by (simp add: holds_stored_def start_cells_def)
  moreover have "chunk_cells ?d = cells_of index (length p)" by (simp add: chunk_cells_def ChunkMapData_def)
  ultimately show "holds_stored bytes' (used \<union> cells_of index (length p)) vf' (D @ p)"
    using h(1) h'(4,5) mc new(4,5) st buf
    by (auto simp: holds_stored_def vf' file_cells_def start_cells_def chunks_apart_append)
qed

lemma buffer_cong:
  assumes "currentChunk vf' = currentChunk vf" "chunkBuffer vf' = chunkBuffer vf"
    "chunkBufferFlushNeeded vf' = chunkBufferFlushNeeded vf" "chunkMap vf' = chunkMap vf"
  shows "patched vf' D = patched vf D" "buffer_ok vf' D \<longleftrightarrow> buffer_ok vf D"
  unfolding patched_def buffer_ok_def assms by (rule refl)+

text \<open>Only the tail buffer changes.\<close>

lemma holds_tail:
  "holds_stored bytes used vf D \<Longrightarrow> tail_ok rb \<Longrightarrow>
   holds_stored bytes used (vf\<lparr>tailBuffer := rb\<rparr>) D \<and> patched (vf\<lparr>tailBuffer := rb\<rparr>) D = patched vf D"
  using buffer_cong [of "vf\<lparr>tailBuffer := rb\<rparr>" vf D] by (simp add: holds_stored_def file_cells_def)

subsection \<open>The segments of the tail buffer\<close>

definition tail_segments :: "byte ring_buffer \<Rightarrow> scatter_gather_list_segment list" where
  "tail_segments rb = (case bulkExtractionStart rb of (_, p1, l1, p2, l2) \<Rightarrow>
     [seg (tail_pointer p1) l1] @ (if p2 \<noteq> None then [seg (tail_pointer p2) l2] else []))"

lemma load_tail:
  fixes vf :: virtual_file
  assumes "\<And>i. p = Some i \<Longrightarrow> i + l \<le> bufferLength (tailBuffer vf)" "p = None \<longleftrightarrow> l = 0"
  shows "load_bytes (vf_memory caller vf) (tail_pointer p) l = Some (segment (tailBuffer vf) p l)"
  using assms by (cases p) (simp_all add: load_bytes_def tail_pointer_def vf_memory_def segment_def)

lemma gather_tail:
  assumes "tail_ok (tailBuffer vf)"
  shows "gather (vf_memory caller vf) (tail_segments (tailBuffer vf)) = Some (contents (tailBuffer vf))"
proof -
  have ok: "rb_ok (tailBuffer vf)" using assms by (simp add: tail_ok_def)
  obtain n p1 l1 p2 l2 where r: "bulkExtractionStart (tailBuffer vf) = (n, p1, l1, p2, l2)"
    by (metis prod_cases5)
  note b = bulkExtractionStart_ok [OF ok r]
  have "load_bytes (vf_memory caller vf) (tail_pointer p1) l1 = Some (segment (tailBuffer vf) p1 l1)"
    "load_bytes (vf_memory caller vf) (tail_pointer p2) l2 = Some (segment (tailBuffer vf) p2 l2)"
    using load_tail b(7-10) by blast+
  then show ?thesis using b(3) by (cases p2) (simp_all add: tail_segments_def r segment_def)
qed

lemma total_length_tail:
  fixes vf :: virtual_file
  shows "tail_ok (tailBuffer vf) \<Longrightarrow> total_length (tail_segments (tailBuffer vf)) = rb_count (tailBuffer vf)"
  using length_gather [OF gather_tail [of vf "[]"]] by simp

lemma tail_count: "tail_ok rb \<Longrightarrow> rb_count rb \<le> 4096 \<and> rb_available rb = 4096 - rb_count rb"
  using rb_ok_bounds(4) [of rb] by (auto simp: tail_ok_def rb_ok_def rb_count_def)

lemma add_segment:
  "addScatterGatherListSegment_buffer p n c =
     Some (fst (addScatterGatherListSegment (seg p n) c),
       c\<lparr>scatterGatherList := scatterGatherList c @ [seg p n],
         currentScatterGatherListByteCount := u32 (currentScatterGatherListByteCount c + n)\<rparr>)"
  by (simp add: addScatterGatherListSegment_buffer_def ScatterGatherListSegment_def addScatterGatherListSegment_def Let_def)

subsection \<open>Allocating and storing a chunk\<close>

text \<open>
  The container as the writers find it: a whole number of cells, of which the tracker knows
  the available ones and \<open>used\<close> are the others, and its maps filled in.
\<close>

definition in_space :: "('d \<Rightarrow> byte list) \<Rightarrow> nat set \<Rightarrow> nat \<Rightarrow> ('d, 'z) container_scheme \<Rightarrow> bool" where
  "in_space content used eof w \<longleftrightarrow>
     length (content (device w)) = 32 * eof \<and> tracker.ledger (spaceTracker w) used eof \<and> fileMapsPopulated w"

lemma ledger_used: "tracker.ledger t used eof \<Longrightarrow> used \<subseteq> {..< eof}"
  by (auto simp: tracker.ledger_def)

lemma space_limit: "eof < 134217728 \<Longrightarrow> 32 * eof \<le> storage_limit"
  by (simp add: storage_limit_def)

context storage
begin

lemma reserve_space_law:
  assumes sp: "in_space content used eof w" "ok (device w)" and n: "0 < n" "n \<le> want" "eof + want < 134217728"
    and s: "s \<le> eof"
  obtains fs t1 where "container_reserveFreeSpaceArea K s n want w = Some (fs, w\<lparr>spaceTracker := t1\<rparr>)"
    "n \<le> currentAreaSize fs" "area_cells fs \<inter> used = {}" "currentStartingIndex fs \<le> eof"
    "currentStartingIndex fs + currentAreaSize fs < 134217728"
    "\<forall>c. 0 < c \<and> c \<le> currentAreaSize fs \<longrightarrow> (\<exists>fs' t'. reduceBy c FROM_FRONT fs = (True, fs') \<and>
      releaseReservation (int (32 * max eof (currentStartingIndex fs + c))) fs' t1 = Some t' \<and>
      tracker.ledger t' (used \<union> {currentStartingIndex fs ..< currentStartingIndex fs + c})
        (max eof (currentStartingIndex fs + c)))"
proof -
  have led: "tracker.ledger (spaceTracker w) used eof" "length (content (device w)) = 32 * eof"
    using sp(1) by (simp_all add: in_space_def)
  have "s + want < 4294967296" using n s by simp
  from tracker.ledger_allocate [OF led(1) n(1,2) this n(3), unfolded reserve_cells_def release_cells_def]
  obtain fs t1 where r: "reserveFreeSpaceArea (int (32 * eof)) s n want (spaceTracker w) = Some (fs, t1)"
    "n \<le> currentAreaSize fs" "area_cells fs \<inter> used = {}" "currentStartingIndex fs \<le> eof"
    "currentStartingIndex fs + currentAreaSize fs < 134217728"
    and rest: "\<forall>c. 0 < c \<and> c \<le> currentAreaSize fs \<longrightarrow> (\<exists>fs' t'. reduceBy c FROM_FRONT fs = (True, fs') \<and>
      releaseReservation (int (32 * max eof (currentStartingIndex fs + c))) fs' t1 = Some t' \<and>
      tracker.ledger t' (used \<union> {currentStartingIndex fs ..< currentStartingIndex fs + c})
        (max eof (currentStartingIndex fs + c)))" by blast
  have "container_size K w = Some (int (32 * eof))"
    using size_law [OF sp(2)] led(2) n(3) space_limit [of eof] by (simp add: container_size_def)
  then have "container_reserveFreeSpaceArea K s n want w = Some (fs, w\<lparr>spaceTracker := t1\<rparr>)"
    using r(1) by (simp add: container_reserveFreeSpaceArea_def)
  with r rest that show ?thesis by blast
qed

text \<open>The rest of a reservation is released when a chunk lies at its front.\<close>

lemma release_space_law:
  assumes fs: "currentStartingIndex fs \<le> eof" "currentStartingIndex fs + currentAreaSize fs < 134217728"
    and c: "c = fit_size n div 32" "c \<le> currentAreaSize fs" "length img = fit_size n"
    and rel: "reduceBy c FROM_FRONT fs = (True, fs')"
      "releaseReservation (int (32 * max eof (currentStartingIndex fs + c))) fs' (spaceTracker w) = Some t'"
      "tracker.ledger t' (used \<union> {currentStartingIndex fs ..< currentStartingIndex fs + c})
        (max eof (currentStartingIndex fs + c))"
    and w: "ok (device w)" "content (device w) = overlay bytes (32 * currentStartingIndex fs) img"
      "length bytes = 32 * eof" "eof < 134217728" "fileMapsPopulated w"
  shows "container_releaseReservation K (snd (reduceBy (toFileIndex (fit_size n)) FROM_FRONT fs)) w =
      Some (w\<lparr>spaceTracker := t'\<rparr>)"
    "in_space content (used \<union> {currentStartingIndex fs ..< currentStartingIndex fs + c})
      (max eof (currentStartingIndex fs + c)) (w\<lparr>spaceTracker := t'\<rparr>)"
proof -
  let ?e = "max eof (currentStartingIndex fs + c)"
  have "32 * c = fit_size n" using c(1) fit_size_cells by simp
  then have len: "length (content (device w)) = 32 * ?e"
    using w(2,3) fs(1) c(3) by (simp add: length_overlay max_def)
  have "?e < 134217728" using w(4) fs(2) c(2) by simp
  then have "container_size K w = Some (int (32 * ?e))"
    using size_law [OF w(1)] len space_limit [of ?e] by (simp add: container_size_def)
  moreover have "toFileIndex (fit_size n) = c"
    using c(1) fit_size_bounds(2) [of n] by (simp add: toFileIndex_def u32_id)
  ultimately show "container_releaseReservation K (snd (reduceBy (toFileIndex (fit_size n)) FROM_FRONT fs)) w =
      Some (w\<lparr>spaceTracker := t'\<rparr>)"
    using rel(1,2) by (simp add: container_releaseReservation_def)
  show "in_space content (used \<union> {currentStartingIndex fs ..< currentStartingIndex fs + c}) ?e (w\<lparr>spaceTracker := t'\<rparr>)"
    using len rel(3) w(5) by (simp add: in_space_def)
qed

lemma new_chunk_law:
  assumes w: "ok (device w)" "in_space content used eof w" and room: "eof + 128 < 134217728"
    and idx: "lastKnownFileIndex vf \<le> eof"
    and gather: "gather mem ss = Some bs" "bs \<noteq> []"
  obtains fs c w1 c' w2 w3 n where "reserve_chunk K vf w = Some (fs, c, w1)"
    "scatterGatherList c = []" "currentScatterGatherListByteCount c = 0"
    "StreamDataChunk_save K True (c\<lparr>scatterGatherList := ss, currentScatterGatherListByteCount := length bs\<rparr>) mem w1 =
      Some (NoStatus, c', w2)"
    "release_rest K fs c' w2 = Some w3" "0 < n" "n \<le> length bs" "n \<le> 4082"
    "scatterGatherList c' = processed n ss" "chunkOffset c' = currentStoredSize vf mod 281474976710656"
    "w3 = w\<lparr>device := device w3, randomSeed := randomSeed w3, spaceTracker := spaceTracker w3\<rparr>"
    "ok (device w3)" "in_space content (used \<union> cells_of (fileIndex c') n) (max eof (fileIndex c' + fit_size (n + 14) div 32)) w3"
    "fileIndex c' \<le> eof" "cells_of (fileIndex c') n \<inter> used = {}"
    "keeps used (content (device w)) (content (device w3))"
    "data_chunk_at (content (device w3)) (fileIndex c') (currentStreamIdentifier vf mod 2147483648)
      (currentStoredSize vf mod 281474976710656) (take n bs)"
proof -
  have one: "0 < toFileIndex minimumChunkSize" "toFileIndex minimumChunkSize \<le> toFileIndex maximumChunkSize"
    "eof + toFileIndex maximumChunkSize < 134217728"
    using room by (simp_all add: toFileIndex_def u32_id)
  from reserve_space_law [OF w(2,1) one idx] obtain fs t1 where
    fs: "container_reserveFreeSpaceArea K (lastKnownFileIndex vf) (toFileIndex minimumChunkSize)
        (toFileIndex maximumChunkSize) w = Some (fs, w\<lparr>spaceTracker := t1\<rparr>)"
      "toFileIndex minimumChunkSize \<le> currentAreaSize fs" "area_cells fs \<inter> used = {}"
      "currentStartingIndex fs \<le> eof" "currentStartingIndex fs + currentAreaSize fs < 134217728"
    and rel: "\<forall>c. 0 < c \<and> c \<le> currentAreaSize fs \<longrightarrow> (\<exists>fs' t'. reduceBy c FROM_FRONT fs = (True, fs') \<and>
        releaseReservation (int (32 * max eof (currentStartingIndex fs + c))) fs' t1 = Some t' \<and>
        tracker.ledger t' (used \<union> {currentStartingIndex fs ..< currentStartingIndex fs + c})
          (max eof (currentStartingIndex fs + c)))" .
  let ?i = "currentStartingIndex fs" and ?a = "currentAreaSize fs"
  let ?w1 = "w\<lparr>spaceTracker := t1\<rparr>"
  from StreamDataChunk_establishes [where uninit = "junk w" and index = ?i and sid = "currentStreamIdentifier vf"
      and offset = "currentStoredSize vf"] obtain c0 where
    c0: "StreamDataChunk (junk w) ?i (currentStreamIdentifier vf) (currentStoredSize vf) = Some c0"
      "length (header c0) = 14" "header_type c0 = STREAM_DATA_CHUNK"
      "streamIdentifier c0 = currentStreamIdentifier vf mod 2147483648"
      "chunkOffset c0 = currentStoredSize vf mod 281474976710656" "currentFileIndex c0 = ?i"
      "scatterGatherList c0 = []" "currentScatterGatherListByteCount c0 = 0" by metis
  have a: "1 \<le> ?a" "?a < 134217728" using fs(2,5) by (simp_all add: toFileIndex_def u32_id)
  then have pos: "u32 (toPosition ?a) = 32 * ?a" by (simp add: toPosition_id u32_id)
  obtain best c where set: "setChunkSize (32 * ?a) c0 = (best, c)" by (metis surj_pair)
  have "32 * ?a < 4294967296" using a by simp
  note c = setChunkSize_fields [OF c0(2) this set]
  have size: "chunkSize c = best_size (32 * ?a)" using c(1) a by simp
  have sz: "32 \<le> chunkSize c" "chunkSize c \<le> 32 * ?a" "chunkSize c \<le> 4096"
    using best_size_bounds [of "32 * ?a"] a unfolding size by simp_all
  have res: "reserve_chunk K vf w = Some (fs, c, ?w1)"
    using fs(1) c0(1) set by (simp add: reserve_chunk_def pos)
  let ?c = "c\<lparr>scatterGatherList := ss, currentScatterGatherListByteCount := length bs\<rparr>"
  have "header ?c = header c" by simp
  note fc = fields_of_header [OF this]
  define payload where "payload = take (chunkSize ?c - 14) bs"
  define n where "n = length payload"
  have pl: "payload = take n bs" "n \<le> length bs" "n + 14 \<le> chunkSize c" "0 < n"
    using sz gather(2) by (auto simp: payload_def n_def fc min_def)
  have fit: "fit_size (n + 14) \<le> chunkSize c" by (rule fit_size_least [OF chunkSize_cases pl(3)])
  have cells: "fit_size (n + 14) div 32 \<le> ?a" using fit sz(2) by simp
  have e: "length (content (device w)) = 32 * eof" "fileMapsPopulated w" "tracker.ledger (spaceTracker w) used eof"
    using w(2) by (simp_all add: in_space_def)
  have sp: "ok (device ?w1)" "length (content (device ?w1)) \<le> storage_limit"
    "length (header ?c) = 14" "gather mem (scatterGatherList ?c) = Some bs"
    "currentScatterGatherListByteCount ?c = length bs" "header_type ?c = STREAM_DATA_CHUNK"
    "payload = take (chunkSize ?c - 14) bs"
    "32 * currentFileIndex ?c \<le> length (content (device ?w1))"
    "32 * currentFileIndex ?c + fit_size (length payload + 14) \<le> storage_limit"
    using w(1) e room c c0 gather(1) fc payload_def fs(4,5) fit sz n_def by (simp_all add: storage_limit_def)
  from save_data_chunk_law [OF sp] obtain d seed c' img where
    d: "StreamDataChunk_save K True ?c mem ?w1 = Some (NoStatus, c', ?w1\<lparr>device := d, randomSeed := seed\<rparr>)" "ok d"
      "content d = overlay (content (device ?w1)) (32 * currentFileIndex ?c) img"
      "length img = fit_size (length payload + 14)"
      "data_chunk_at (content d) (currentFileIndex ?c) (streamIdentifier ?c) (chunkOffset ?c) payload"
      "chunkSize c' = fit_size (length payload + 14)"
      "currentFileIndex c' = currentFileIndex ?c" "chunkOffset c' = chunkOffset ?c"
      "scatterGatherList c' = processed (length payload) (scatterGatherList ?c)" by metis
  let ?w2 = "?w1\<lparr>device := d, randomSeed := seed\<rparr>" and ?n = "fit_size (n + 14) div 32"
  have i: "currentFileIndex ?c = ?i" "fileIndex c' = ?i" using c c0 d(7) by (simp_all add: fileIndex_def)
  have "0 < ?n" using fit_size_cells_bounds by blast
  from rel [rule_format, OF conjI [OF this cells]] obtain fs' t' where
    rel1: "reduceBy ?n FROM_FRONT fs = (True, fs')" "releaseReservation (int (32 * max eof (?i + ?n))) fs' t1 = Some t'"
      "tracker.ledger t' (used \<union> {?i ..< ?i + ?n}) (max eof (?i + ?n))" by blast
  have "spaceTracker ?w2 = t1" by simp
  then have "releaseReservation (int (32 * max eof (?i + ?n))) fs' (spaceTracker ?w2) = Some t'"
    using rel1(2) by (simp only:)
  note rel' = rel1(1) this rel1(3)
  have dev: "ok (device ?w2)" "content (device ?w2) = overlay (content (device w)) (32 * ?i) img" "eof < 134217728"
    "fileMapsPopulated ?w2" "length img = fit_size (n + 14)"
    using d i e(2) room by (simp_all add: n_def)
  note release = release_space_law [OF fs(4,5) refl cells dev(5) rel' dev(1,2) e(1) dev(3,4)]
  define w3 where "w3 = ?w2\<lparr>spaceTracker := t'\<rparr>"
  have w3: "device w3 = d" "w3 = w\<lparr>device := device w3, randomSeed := randomSeed w3, spaceTracker := spaceTracker w3\<rparr>"
    by (simp_all add: w3_def)
  have "release_rest K fs c' ?w2 = Some w3"
    using release(1) d(6) by (simp add: release_rest_def w3_def n_def)
  moreover have "in_space content (used \<union> cells_of ?i n) (max eof (?i + ?n)) w3"
    using release(2) by (simp add: cells_of_def w3_def)
  moreover have dis: "cells_of ?i n \<inter> used = {}"
  proof -
    have "cells_of ?i n \<subseteq> area_cells fs" using cells by (auto simp: area_cells_def cells_of_def)
    with fs(3) show ?thesis by blast
  qed
  moreover have "keeps used (content (device w)) (content (device w3))"
    unfolding w3(1) d(3) i(1)
    using keeps_overlay [of ?i "content (device w)" img ?n used] dis e(1) fs(4) dev(5) fit_size_cells [of "n + 14"]
    by (simp add: cells_of_def Int_commute)
  moreover have "data_chunk_at (content (device w3)) ?i (currentStreamIdentifier vf mod 2147483648)
      (currentStoredSize vf mod 281474976710656) (take n bs)"
    using d(5) c c0 pl(1) fc w3(1) by simp
  moreover have "n \<le> 4082" using pl(3) sz(3) by simp
  moreover have "scatterGatherList c = []" "currentScatterGatherListByteCount c = 0" using c(7,8) c0(7,8) by simp_all
  moreover have "scatterGatherList c' = processed n ss" using d(9) by (simp add: n_def)
  moreover have "chunkOffset c' = currentStoredSize vf mod 281474976710656" using d(8) fc(7) c(5) c0(5) by simp
  moreover have "ok (device w3)" using d(2) w3(1) by simp
  ultimately show thesis
    using that [OF res _ _ d(1) _ pl(4,2) _ _ _ w3(2), unfolded i(2)] fs(4) by blast
qed

end

subsection \<open>Progress of a writer\<close>

text \<open>
  What every operation of a file may do to the rest: take up at most \<open>n\<close> cells behind the end
  of the container, use further cells, which are then the file's, and change nothing else of
  the medium than cells of the file.
\<close>

definition same_container :: "('d, 'z) container_scheme \<Rightarrow> ('d, 'z) container_scheme \<Rightarrow> bool" where
  "same_container w w' \<longleftrightarrow>
     (\<exists>d s t l. w' = w\<lparr>device := d, randomSeed := s, spaceTracker := t, lastReportedStatus := l\<rparr>)"

lemma same_containerI:
  "w' = w\<lparr>device := d, randomSeed := s, spaceTracker := t\<rparr> \<Longrightarrow> same_container w w'"
  "w' = w\<lparr>device := d, randomSeed := s, spaceTracker := t, lastReportedStatus := l\<rparr> \<Longrightarrow> same_container w w'"
proof -
  have "w\<lparr>device := d, randomSeed := s, spaceTracker := t\<rparr> =
      w\<lparr>device := d, randomSeed := s, spaceTracker := t, lastReportedStatus := lastReportedStatus w\<rparr>"
    by (cases w) simp
  then show "same_container w w'" if "w' = w\<lparr>device := d, randomSeed := s, spaceTracker := t\<rparr>"
    using that unfolding same_container_def by metis
  show "same_container w w'" if "w' = w\<lparr>device := d, randomSeed := s, spaceTracker := t, lastReportedStatus := l\<rparr>"
    using that unfolding same_container_def by blast
qed

lemma same_container_refl [simp]: "same_container w w"
proof -
  have "w = w\<lparr>device := device w, randomSeed := randomSeed w, spaceTracker := spaceTracker w\<rparr>" by (cases w) simp
  then show ?thesis by (rule same_containerI(1))
qed

lemma same_container_trans:
  assumes "same_container w w'" "same_container w' w''"
  shows "same_container w w''"
proof -
  from assms obtain d s t l d' s' t' l' where
    "w' = w\<lparr>device := d, randomSeed := s, spaceTracker := t, lastReportedStatus := l\<rparr>"
    "w'' = w'\<lparr>device := d', randomSeed := s', spaceTracker := t', lastReportedStatus := l'\<rparr>"
    by (auto simp: same_container_def)
  then have "w'' = w\<lparr>device := d', randomSeed := s', spaceTracker := t', lastReportedStatus := l'\<rparr>" by simp
  then show ?thesis by (rule same_containerI(2))
qed

lemma same_container_fields:
  assumes "same_container w w'"
  shows "ignoreIdentifierOnOpen w' = ignoreIdentifierOnOpen w" "currentFileIdentifier w' = currentFileIdentifier w"
    "startingFileIndex w' = startingFileIndex w" "filesByIdentifier w' = filesByIdentifier w"
    "fileApisByName w' = fileApisByName w" "filesByName w' = filesByName w"
    "fileMapsPopulated w' = fileMapsPopulated w" "junk w' = junk w" "container.more w' = container.more w"
  using assms by (auto simp: same_container_def)

text \<open>
  A container without gaps has all its cells in use, and a file is in order when its stream
  start chunk lies before its data chunks and these follow each other: a writer keeps both, so
  that whoever traverses the container finds a file before its bytes, and these from the first
  to the last.
\<close>

definition in_order :: "virtual_file \<Rightarrow> bool" where
  "in_order vf \<longleftrightarrow>
     (chunkMap vf = [] \<or> startChunkIndex vf \<noteq> invalidFileIndex) \<and>
     sorted_wrt (<) (startChunkIndex vf # map (\<lambda>p. chunkStartingIndex (snd p)) (chunkMap vf))"

lemma in_order_cong:
  "startChunkIndex vf' = startChunkIndex vf \<Longrightarrow> chunkMap vf' = chunkMap vf \<Longrightarrow> in_order vf' = in_order vf"
  "startChunkIndex vf' = startChunkIndex vf \<Longrightarrow> chunkMap vf' = chunkMap vf \<Longrightarrow> file_cells vf' = file_cells vf"
  by (simp_all add: in_order_def file_cells_def start_cells_def)

lemma in_order_chunk:
  "in_order vf \<Longrightarrow> p \<in> set (chunkMap vf) \<Longrightarrow>
   startChunkIndex vf \<noteq> invalidFileIndex \<and> startChunkIndex vf < chunkStartingIndex (snd p)"
  by (auto simp: in_order_def)

lemma in_order_add:
  assumes "in_order vf" "startChunkIndex vf \<noteq> invalidFileIndex" "startChunkIndex vf' = startChunkIndex vf"
    and "chunkMap vf' = chunkMap vf @ [(k, d)]" "startChunkIndex vf < chunkStartingIndex d"
    and "\<forall>p \<in> set (chunkMap vf). chunkStartingIndex (snd p) < chunkStartingIndex d"
  shows "in_order vf'"
  using assms by (auto simp: in_order_def sorted_wrt_append)

lemma next_cell:
  assumes "used = {..< eof}" "{i ..< i + n} \<inter> used = {}" "i \<le> eof" "0 < (n :: nat)"
  shows "i = eof" "used \<union> {i ..< i + n} = {..< max eof (i + n)}"
proof -
  have "i \<notin> used" using assms(2,4) by fastforce
  then show "i = eof" using assms(1,3) by simp
  then show "used \<union> {i ..< i + n} = {..< max eof (i + n)}" using assms(1) by auto
qed

definition advance ::
  "('d \<Rightarrow> bool) \<Rightarrow> ('d \<Rightarrow> byte list) \<Rightarrow> nat \<Rightarrow> nat set \<times> nat \<times> virtual_file \<times> ('d, 'z) container_scheme \<Rightarrow>
   nat set \<times> nat \<times> virtual_file \<times> ('d, 'z) container_scheme \<Rightarrow> bool" where
  "advance ok content n st st' \<longleftrightarrow>
     (case (st, st') of ((used, eof, vf, w), (used', eof', vf', w')) \<Rightarrow>
       ok (device w') \<and> in_space content used' eof' w' \<and> eof' \<le> eof + n \<and> used \<subseteq> used' \<and>
       file_cells vf' = file_cells vf \<union> (used' - used) \<and>
       keeps (used - file_cells vf) (content (device w)) (content (device w')) \<and>
       same_container w w' \<and>
       currentName vf' = currentName vf \<and> currentStreamIdentifier vf' = currentStreamIdentifier vf \<and>
       (used = {..< eof} \<and> in_order vf \<longrightarrow> used' = {..< eof'} \<and> in_order vf'))"

lemma advance_refl: "ok (device w) \<Longrightarrow> in_space content used eof w \<Longrightarrow> advance ok content n (used, eof, vf, w) (used, eof, vf, w)"
  by (simp add: advance_def)

lemma advance_mono: "advance ok content n st st' \<Longrightarrow> n \<le> m \<Longrightarrow> advance ok content m st st'"
  by (auto simp: advance_def split: prod.splits)

lemma advance_trans:
  assumes "advance ok content n st st'" "advance ok content m st' st''"
  shows "advance ok content (n + m) st st''"
proof -
  obtain used eof vf w where st: "st = (used, eof, vf, w)" by (cases st)
  obtain used' eof' vf' w' where st': "st' = (used', eof', vf', w')" by (cases st')
  obtain used'' eof'' vf'' w'' where st'': "st'' = (used'', eof'', vf'', w'')" by (cases st'')
  from assms(1) [unfolded st st' advance_def prod.case] have a: "ok (device w')" "eof' \<le> eof + n" "used \<subseteq> used'"
    "file_cells vf' = file_cells vf \<union> (used' - used)" "keeps (used - file_cells vf) (content (device w)) (content (device w'))"
    "same_container w w'"
    "currentName vf' = currentName vf" "currentStreamIdentifier vf' = currentStreamIdentifier vf"
    "used = {..< eof} \<and> in_order vf \<longrightarrow> used' = {..< eof'} \<and> in_order vf'" by blast+
  from assms(2) [unfolded st' st'' advance_def prod.case] have b: "ok (device w'')" "in_space content used'' eof'' w''"
    "eof'' \<le> eof' + m" "used' \<subseteq> used''"
    "file_cells vf'' = file_cells vf' \<union> (used'' - used')"
    "keeps (used' - file_cells vf') (content (device w')) (content (device w''))"
    "same_container w' w''"
    "currentName vf'' = currentName vf'" "currentStreamIdentifier vf'' = currentStreamIdentifier vf'"
    "used' = {..< eof'} \<and> in_order vf' \<longrightarrow> used'' = {..< eof''} \<and> in_order vf''" by blast+
  have "keeps (used - file_cells vf) (content (device w')) (content (device w''))"
    by (rule keeps_mono [OF b(6)]) (use a(3,4) in blast)
  with a(5) have k: "keeps (used - file_cells vf) (content (device w)) (content (device w''))" by (rule keeps_trans)
  have f: "file_cells vf'' = file_cells vf \<union> (used'' - used)" using a(3,4) b(4,5) by blast
  have fr: "same_container w w''" using a(6) b(7) by (rule same_container_trans)
  show ?thesis
    unfolding st st'' advance_def prod.case
    using a(2,3,7-9) b(1-4,8-10) k f by (intro conjI fr) auto
qed

lemma advance_world:
  assumes "advance ok content n st (used, eof, vf, w)" "same_container w w'" "ok (device w')"
    and "content (device w') = content (device w)" "spaceTracker w' = spaceTracker w"
  shows "advance ok content n st (used, eof, vf, w')"
proof -
  obtain used0 eof0 vf0 w0 where st: "st = (used0, eof0, vf0, w0)" by (cases st)
  have sc: "same_container w0 w \<Longrightarrow> same_container w0 w'" using assms(2) by (rule same_container_trans [rotated])
  note f = same_container_fields(7) [OF assms(2)]
  from assms(1) show ?thesis unfolding st advance_def prod.case using sc assms(3-5) f by (simp add: in_space_def)
qed

text \<open>Another file keeps its bytes.\<close>

lemma advance_other:
  assumes "advance ok content n (used, eof, vf, w) (used', eof', vf', w')"
    and "holds (content (device w)) used other data" "file_cells other \<inter> file_cells vf = {}"
  shows "holds (content (device w')) used' other data" "file_cells other \<inter> file_cells vf' = {}"
proof -
  from assms(1) have a: "used \<subseteq> used'" "file_cells vf' = file_cells vf \<union> (used' - used)"
    "keeps (used - file_cells vf) (content (device w)) (content (device w'))" by (simp_all add: advance_def)
  from assms(2) obtain D where D: "holds_stored (content (device w)) used other D" "length data < 281474976710656"
    "data = patched other D @ contents (tailBuffer other)" by (auto simp: holds_def)
  then have u: "file_cells other \<subseteq> used" by (simp add: holds_stored_def)
  with assms(3) have sub: "start_cells other \<subseteq> used - file_cells vf" "map_cells (chunkMap other) \<subseteq> used - file_cells vf"
    by (auto simp: file_cells_def)
  have "start_chunk_at (content (device w')) (startChunkIndex other) (currentStreamIdentifier other) (currentName other)"
    if "startChunkIndex other \<noteq> invalidFileIndex"
    using D(1) that sub(1) start_chunk_keeps [OF _ a(3)] by (simp add: holds_stored_def start_cells_def)
  moreover have "stored (content (device w')) (currentStreamIdentifier other) 0 (chunkMap other) D"
    using D(1) stored_keeps [OF _ a(3) sub(2)] by (simp add: holds_stored_def)
  ultimately have "holds_stored (content (device w')) used' other D"
    using D(1) a(1) u by (auto simp: holds_stored_def)
  then show "holds (content (device w')) used' other data" using D(2,3) by (auto simp: holds_def)
  show "file_cells other \<inter> file_cells vf' = {}" using a(2) u assms(3) by blast
qed

context storage
begin

text \<open>
  One round of \<open>flush\<close> and \<open>append\<close>: the bytes of the tail buffer and possibly more go into a
  new chunk behind the last one, as many as fit.
\<close>

lemma store_round_law:
  assumes w: "ok (device w)" "in_space content used eof w" and room: "eof + 128 < 134217728"
    and h: "holds_stored (content (device w)) used vf D"
    and t: "contents (tailBuffer vf) = t" "t @ x \<noteq> []" "length D + length (t @ x) < 281474976710656"
    and g: "gather (vf_memory caller vf) ss = Some (t @ x)"
    and si: "startChunkIndex vf \<noteq> invalidFileIndex"
  obtains fs c w1 c' w2 w' n rb' vf' used' eof' where "reserve_chunk K vf w = Some (fs, c, w1)"
    "scatterGatherList c = []" "currentScatterGatherListByteCount c = 0"
    "StreamDataChunk_save K True (c\<lparr>scatterGatherList := ss, currentScatterGatherListByteCount := length (t @ x)\<rparr>)
      (vf_memory caller vf) w1 = Some (NoStatus, c', w2)"
    "release_rest K fs c' w2 = Some w'" "0 < n" "n \<le> length (t @ x)" "scatterGatherList c' = processed n ss"
    "bulkExtractionFinish (min n (length t)) (tailBuffer vf) = (True, rb')"
    "vf' = addChunkLocation (fileIndex c') (chunkOffset c') n (vf\<lparr>tailBuffer := rb'\<rparr>)"
    "holds_stored (content (device w')) used' vf' (D @ take n (t @ x))" "contents (tailBuffer vf') = drop n t"
    "patched vf' (D @ take n (t @ x)) = patched vf D @ take n (t @ x)"
    "advance ok content n (used, eof, vf, w) (used', eof', vf', w')"
    "vf' = vf\<lparr>chunkMap := chunkMap vf', tailBuffer := tailBuffer vf'\<rparr>"
proof -
  have tok: "tail_ok (tailBuffer vf)" and sid: "currentStreamIdentifier vf < 2147483648"
    and st: "stored (content (device w)) (currentStreamIdentifier vf) 0 (chunkMap vf) D"
    using h by (simp_all add: holds_stored_def)
  have used: "used \<subseteq> {..< eof}" using w(2) ledger_used unfolding in_space_def by blast
  have lD: "length D < 281474976710656" using t(3) by simp
  note size = currentStoredSize_stored [OF st lD]
  let ?rb = "tailBuffer vf" and ?b = "t @ x"
  have lt: "length t = rb_count ?rb" using t(1) length_contents by metis
  from new_chunk_law [OF w room lastKnownFileIndex_used [OF h used] g t(2)] obtain fs c w1 c' w2 w' n where
    c: "reserve_chunk K vf w = Some (fs, c, w1)" "scatterGatherList c = []" "currentScatterGatherListByteCount c = 0"
      "StreamDataChunk_save K True (c\<lparr>scatterGatherList := ss,
        currentScatterGatherListByteCount := length ?b\<rparr>) (vf_memory caller vf) w1 = Some (NoStatus, c', w2)"
      "release_rest K fs c' w2 = Some w'" "0 < n" "n \<le> length ?b" "n \<le> 4082"
      "scatterGatherList c' = processed n ss" "chunkOffset c' = currentStoredSize vf mod 281474976710656"
      "w' = w\<lparr>device := device w', randomSeed := randomSeed w', spaceTracker := spaceTracker w'\<rparr>" "ok (device w')"
      "in_space content (used \<union> cells_of (fileIndex c') n) (max eof (fileIndex c' + fit_size (n + 14) div 32)) w'"
      "fileIndex c' \<le> eof" "cells_of (fileIndex c') n \<inter> used = {}"
      "keeps used (content (device w)) (content (device w'))"
      "data_chunk_at (content (device w')) (fileIndex c') (currentStreamIdentifier vf mod 2147483648)
        (currentStoredSize vf mod 281474976710656) (take n ?b)" .
  obtain rb' where f: "bulkExtractionFinish (min n (length t)) ?rb = (True, rb')" "rb_ok rb'"
    "contents rb' = drop n t" "bufferLength rb' = 4096"
  proof -
    obtain s rb' where sr: "bulkExtractionFinish (min n (length t)) ?rb = (s, rb')" by (metis surj_pair)
    have rbo: "rb_ok ?rb" using tok by (simp add: tail_ok_def)
    from bulkExtractionFinish_ok [OF rbo sr] sr lt t(1) tok that show thesis by (simp add: tail_ok_def min_def split: if_splits)
  qed
  define vf' where "vf' = addChunkLocation (fileIndex c') (length D) (length (take n ?b)) (vf\<lparr>tailBuffer := rb'\<rparr>)"
  have mods: "currentStoredSize vf mod 281474976710656 = length D"
    "currentStreamIdentifier vf mod 2147483648 = currentStreamIdentifier vf" using size lD sid by simp_all
  have len: "length (take n ?b) = n" and ne: "take n ?b \<noteq> []" using c(6,7) t(2) by auto
  have tok': "tail_ok rb'" using f by (simp add: tail_ok_def)
  have dis: "cells_of (fileIndex c') (length (take n ?b)) \<inter> used = {}" using c(15) unfolding len .
  note new = holds_add_chunk [OF h lD c(16) c(17) [unfolded mods] ne dis tok', folded vf'_def, unfolded len]
  have n1: "vf' = addChunkLocation (fileIndex c') (chunkOffset c') n (vf\<lparr>tailBuffer := rb'\<rparr>)"
    unfolding vf'_def len c(10) mods(1) ..
  have n2: "vf' = vf\<lparr>chunkMap := chunkMap vf', tailBuffer := tailBuffer vf'\<rparr>" using new(3,4) by simp
  have n3: "advance ok content n (used, eof, vf, w) (used \<union> cells_of (fileIndex c') n,
      max eof (fileIndex c' + fit_size (n + 14) div 32), vf', w')"
    unfolding advance_def prod.case
  proof (intro conjI c(12-13) same_containerI(1) [OF c(11)])
    show "max eof (fileIndex c' + fit_size (n + 14) div 32) \<le> eof + n"
      using c(14) fit_size_payload [OF c(6)] by simp
    show "file_cells vf' = file_cells vf \<union> (used \<union> cells_of (fileIndex c') n - used)"
      using new(5) c(15) by blast
    show "keeps (used - file_cells vf) (content (device w)) (content (device w'))"
      using c(16) by (rule keeps_mono) blast
    show "used = {..< eof} \<and> in_order vf \<longrightarrow>
        used \<union> cells_of (fileIndex c') n = {..< max eof (fileIndex c' + fit_size (n + 14) div 32)} \<and> in_order vf'"
    proof (intro impI)
      assume o: "used = {..< eof} \<and> in_order vf"
      note next_cell = next_cell [OF conjunct1 [OF o] c(15) [unfolded cells_of_def] c(14) fit_size_cells_bounds(1)]
      have "startChunkIndex vf \<in> file_cells vf" using si by (simp add: file_cells_def start_cells_def)
      then have "startChunkIndex vf < fileIndex c'" using h o next_cell(1) by (auto simp: holds_stored_def)
      moreover have "\<forall>p \<in> set (chunkMap vf). chunkStartingIndex (snd p) < fileIndex c'"
      proof
        fix p assume "p \<in> set (chunkMap vf)"
        moreover have "chunkStartingIndex (snd p) \<in> chunk_cells (snd p)"
          using fit_size_cells_bounds by (simp add: chunk_cells_def cells_of_def)
        ultimately have "chunkStartingIndex (snd p) \<in> file_cells vf" unfolding file_cells_def map_cells_def by blast
        then have "chunkStartingIndex (snd p) < eof" using h conjunct1 [OF o] unfolding holds_stored_def by blast
        then show "chunkStartingIndex (snd p) < fileIndex c'" using next_cell(1) by simp
      qed
      moreover have "startChunkIndex vf' = startChunkIndex vf" using arg_cong [OF n2, of startChunkIndex] by simp
      ultimately have "in_order vf'"
        by (intro in_order_add [OF conjunct2 [OF o] si _ new(6)]) (simp_all add: ChunkMapData_def)
      then show "used \<union> cells_of (fileIndex c') n = {..< max eof (fileIndex c' + fit_size (n + 14) div 32)} \<and> in_order vf'"
        using next_cell(2) by (simp add: cells_of_def)
    qed
  qed (use new(4) in \<open>auto simp: vf'_def addChunkLocation_def\<close>)
  have n4: "contents (tailBuffer vf') = drop n t" using new(3) f(3) by simp
  show thesis by (rule that [OF c(1-7,9) f(1) n1 new(1) n4 new(2) n3 n2])
qed

lemma flush_step_law:
  assumes w: "ok (device w)" "in_space content used eof w" and room: "eof + 128 < 134217728"
    and h: "holds_stored (content (device w)) used vf D"
    and t: "contents (tailBuffer vf) = t" "t \<noteq> []" "length D + length t < 281474976710656"
    and si: "startChunkIndex vf \<noteq> invalidFileIndex"
  obtains n used' eof' vf' w' where "flush_step K vf w = Some (NoStatus, vf', w')" "0 < n" "n \<le> length t"
    "holds_stored (content (device w')) used' vf' (D @ take n t)" "contents (tailBuffer vf') = drop n t"
    "patched vf' (D @ take n t) = patched vf D @ take n t"
    "advance ok content n (used, eof, vf, w) (used', eof', vf', w')"
    "vf' = vf\<lparr>chunkMap := chunkMap vf', tailBuffer := tailBuffer vf'\<rparr>"
proof -
  have tok: "tail_ok (tailBuffer vf)" and cont: "currentContainer vf" using h by (simp_all add: holds_stored_def)
  let ?rb = "tailBuffer vf"
  have g: "gather (vf_memory [] vf) (tail_segments ?rb) = Some (t @ [])" using gather_tail [OF tok, of "[]"] t(1) by simp
  have t': "t @ [] \<noteq> []" "length D + length (t @ []) < 281474976710656" using t by simp_all
  from store_round_law [OF w room h t(1) t' g si] obtain fs c w1 c' w2 w' n rb' vf' used' eof' where
    c: "reserve_chunk K vf w = Some (fs, c, w1)" "scatterGatherList c = []" "currentScatterGatherListByteCount c = 0"
      "StreamDataChunk_save K True (c\<lparr>scatterGatherList := tail_segments ?rb,
        currentScatterGatherListByteCount := length (t @ [])\<rparr>) (vf_memory [] vf) w1 = Some (NoStatus, c', w2)"
      "release_rest K fs c' w2 = Some w'" "0 < n" "n \<le> length (t @ [])"
      "scatterGatherList c' = processed n (tail_segments ?rb)"
      "bulkExtractionFinish (min n (length t)) ?rb = (True, rb')"
      "vf' = addChunkLocation (fileIndex c') (chunkOffset c') n (vf\<lparr>tailBuffer := rb'\<rparr>)"
    and new: "holds_stored (content (device w')) used' vf' (D @ take n (t @ []))" "contents (tailBuffer vf') = drop n t"
      "patched vf' (D @ take n (t @ [])) = patched vf D @ take n (t @ [])"
      "advance ok content n (used, eof, vf, w) (used', eof', vf', w')"
      "vf' = vf\<lparr>chunkMap := chunkMap vf', tailBuffer := tailBuffer vf'\<rparr>" .
  have lt: "length t = rb_count ?rb" using t(1) length_contents by metis
  obtain m p1 l1 p2 l2 where r: "bulkExtractionStart ?rb = (m, p1, l1, p2, l2)" by (metis prod_cases5)
  have rbo: "rb_ok ?rb" using tok by (simp add: tail_ok_def)
  note b = bulkExtractionStart_ok [OF rbo r]
  have cnt: "l1 + l2 = length t" "l1 + l2 < 4294967296" "p2 = None \<Longrightarrow> l2 = 0"
    using b(1,2,8) lt tail_count [OF tok] by simp_all
  have "\<forall>s \<in> set (tail_segments ?rb). currentProcessedCount s = 0"
    by (simp add: tail_segments_def r)
  then have sum: "sum_list (map currentProcessedCount (scatterGatherList c')) = n"
    unfolding c(8) using processed_counts [of n "tail_segments ?rb"] c(7) lt total_length_tail [OF tok] by simp
  have "min n (length t) = n" using c(7) by simp
  then have "flush_step K vf w = Some (NoStatus, vf', w')"
    using c(1-5,7,9,10) r cnt lt cont sum
    by (auto simp: flush_step_def add_segment tail_segments_def u32_id Let_def addChunkLocation_def split: if_splits)
  then show thesis using that [OF _ c(6)] c(7) new by simp
qed

end

lemma chunk_frame_trans:
  fixes vf vf1 vf2 :: virtual_file
  assumes "vf1 = vf\<lparr>chunkMap := chunkMap vf1, tailBuffer := tailBuffer vf1\<rparr>"
    "vf2 = vf1\<lparr>chunkMap := chunkMap vf2, tailBuffer := tailBuffer vf2\<rparr>"
  shows "vf2 = vf\<lparr>chunkMap := chunkMap vf2, tailBuffer := tailBuffer vf2\<rparr>"
  using assms by (cases vf; cases vf1; cases vf2) simp

context storage
begin

lemma flush_loop_law:
  assumes "ok (device w)" "in_space content used eof w" "eof + length t + 128 < 134217728"
    and "holds_stored (content (device w)) used vf D"
    and "contents (tailBuffer vf) = t" "length D + length t < 281474976710656" "startChunkIndex vf \<noteq> invalidFileIndex"
  shows "\<exists>used' eof' vf' w'. flush_loop K NoStatus vf w = Some (NoStatus, vf', w') \<and>
    holds_stored (content (device w')) used' vf' (D @ t) \<and> contents (tailBuffer vf') = [] \<and>
    patched vf' (D @ t) = patched vf D @ t \<and>
    advance ok content (length t) (used, eof, vf, w) (used', eof', vf', w') \<and>
    vf' = vf\<lparr>chunkMap := chunkMap vf', tailBuffer := tailBuffer vf'\<rparr>"
  using assms
proof (induction t arbitrary: used eof vf w D rule: length_induct)
  case (1 t)
  have lt: "length t = rb_count (tailBuffer vf)" using 1(6) length_contents by metis
  show ?case
  proof (cases "t = []")
    case True
    then have "rb_empty (tailBuffer vf)" using lt by (simp add: rb_empty_def rb_count_def)
    then have "flush_loop K NoStatus vf w = Some (NoStatus, vf, w)"
      by (subst flush_loop.simps) (simp add: rb_notEmpty_def)
    then show ?thesis
      using 1(2,3,5,6) True by (intro exI [of _ used] exI [of _ eof] exI [of _ vf] exI [of _ w]) (simp add: advance_refl)
  next
    case False
    have room: "eof + 128 < 134217728" using 1(4) by simp
    from flush_step_law [OF 1(2,3) room 1(5,6) False 1(7,8)] obtain n used1 eof1 vf1 w1 where
      s: "flush_step K vf w = Some (NoStatus, vf1, w1)" "0 < n" "n \<le> length t"
        "holds_stored (content (device w1)) used1 vf1 (D @ take n t)" "contents (tailBuffer vf1) = drop n t"
        "patched vf1 (D @ take n t) = patched vf D @ take n t"
        "advance ok content n (used, eof, vf, w) (used1, eof1, vf1, w1)"
        "vf1 = vf\<lparr>chunkMap := chunkMap vf1, tailBuffer := tailBuffer vf1\<rparr>" .
    from s(7) have a: "ok (device w1)" "in_space content used1 eof1 w1" "eof1 \<le> eof + n"
      by (simp_all add: advance_def)
    have d: "length (drop n t) < length t" "eof1 + length (drop n t) + 128 < 134217728"
      "length (D @ take n t) + length (drop n t) < 281474976710656"
      using s(2,3) a(3) 1(4,7) by simp_all
    have si: "startChunkIndex vf1 \<noteq> invalidFileIndex" using arg_cong [OF s(8), of startChunkIndex] 1(8) by simp
    from 1(1) [rule_format, OF d(1) a(1,2) d(2) s(4,5) d(3) si] obtain used' eof' vf' w' where
      r: "flush_loop K NoStatus vf1 w1 = Some (NoStatus, vf', w')"
        "holds_stored (content (device w')) used' vf' ((D @ take n t) @ drop n t)" "contents (tailBuffer vf') = []"
        "patched vf' ((D @ take n t) @ drop n t) = patched vf1 (D @ take n t) @ drop n t"
        "advance ok content (length (drop n t)) (used1, eof1, vf1, w1) (used', eof', vf', w')"
        "vf' = vf1\<lparr>chunkMap := chunkMap vf', tailBuffer := tailBuffer vf'\<rparr>" by (elim exE conjE)
    have "rb_notEmpty (tailBuffer vf)" using False lt by (cases t) (simp_all add: rb_notEmpty_def rb_empty_def rb_count_def)
    then have "flush_loop K NoStatus vf w = Some (NoStatus, vf', w')"
      using s(1) r(1) by (subst flush_loop.simps) simp
    moreover have "advance ok content (length t) (used, eof, vf, w) (used', eof', vf', w')"
      using advance_trans [OF s(7) r(5)] s(3) by simp
    moreover have "vf' = vf\<lparr>chunkMap := chunkMap vf', tailBuffer := tailBuffer vf'\<rparr>"
      using s(8) r(6) by (rule chunk_frame_trans)
    moreover have "holds_stored (content (device w')) used' vf' (D @ t)" "patched vf' (D @ t) = patched vf D @ t"
      using r(2,4) s(6) by simp_all
    ultimately show ?thesis
      using r(3) by (intro exI [of _ used'] exI [of _ eof'] exI [of _ vf'] exI [of _ w'] conjI)
  qed
qed

end


end
