(* ===== verification/Stream_Operations.thy ===== *)
theory Stream_Operations
  imports Byte_Stream
begin

text \<open>
  The operations of a virtual file on a medium without faults: what \<open>flush\<close>, \<open>append\<close>, \<open>read\<close>
  and \<open>write\<close> do to the bytes of the stream (\<open>holds\<close>), that they return, and what they leave
  of other files.
\<close>

lemma same_container_updates [simp]:
  "same_container w (w\<lparr>device := d, randomSeed := s\<rparr>)"
  "same_container w (w\<lparr>device := d, randomSeed := s, spaceTracker := t\<rparr>)"
  "same_container w (w\<lparr>device := d\<rparr>)"
  "same_container w (setLastStatus l w)"
proof -
  have "w\<lparr>device := d, randomSeed := s\<rparr> = w\<lparr>device := d, randomSeed := s, spaceTracker := spaceTracker w\<rparr>"
    "w\<lparr>device := d\<rparr> = w\<lparr>device := d, randomSeed := randomSeed w, spaceTracker := spaceTracker w\<rparr>"
    "setLastStatus l w = w\<lparr>device := device w, randomSeed := randomSeed w, spaceTracker := spaceTracker w,
      lastReportedStatus := l\<rparr>" by (cases w, simp add: setLastStatus_def)+
  then show "same_container w (w\<lparr>device := d, randomSeed := s\<rparr>)" "same_container w (w\<lparr>device := d\<rparr>)"
    "same_container w (setLastStatus l w)"
    by (blast intro: same_containerI)+
qed (rule same_containerI(1) [OF refl])

subsection \<open>The stream start chunk\<close>

lemma reserve_default:
  "container_reserveFreeSpaceArea K s n 0 w = container_reserveFreeSpaceArea K s n n w"
  by (simp add: container_reserveFreeSpaceArea_def reserveFreeSpaceArea_def)

lemma StreamStartChunk_index:
  "StreamStartChunk uninit index name sid = map_option (setFileIndex index) (StreamStartChunk uninit 0 name sid)"
proof (cases "ChunkHeader uninit 124")
  case (Some h)
  then show ?thesis
    by (simp add: StreamStartChunk_def StreamChunk_def Chunk_def chunk_of_header_def setFileIndex_def Let_def
        setVirtualFilename_def setType_def setStreamIdentifier_def setLast_def set_header_byte_def header_byte_def
        assertion_def)
qed (simp add: StreamStartChunk_def StreamChunk_def Chunk_def)

context storage
begin

lemma writeStreamStart_law:
  assumes w: "ok (device w)" "in_space content used eof w" and room: "eof + 4 < 134217728"
    and h: "holds_stored (content (device w)) used vf D"
    and name: "c_string (currentName vf)" "length (currentName vf) \<le> 118"
  obtains used' eof' vf' w' where "writeStreamStartIfNeeded K vf w = Some (NoStatus, vf', w')"
    "holds_stored (content (device w')) used' vf' D" "startChunkIndex vf' \<noteq> invalidFileIndex"
    "advance ok content 4 (used, eof, vf, w) (used', eof', vf', w')"
    "vf' = vf\<lparr>startChunkIndex := startChunkIndex vf'\<rparr>"
proof (cases "startChunkIndex vf = invalidFileIndex")
  case False
  then show thesis
    using that [of vf w used eof] h w by (simp add: writeStreamStartIfNeeded_def advance_refl)
next
  case True
  have e: "length (content (device w)) = 32 * eof" "fileMapsPopulated w" "used \<subseteq> {..< eof}"
    using w(2) ledger_used unfolding in_space_def by blast+
  have z: "(0 :: nat) < 4" "(4 :: nat) \<le> 4" "(0 :: nat) \<le> eof" by simp_all
  from reserve_space_law [OF w(2,1) z(1,2) room z(3)] obtain fs t1 where
    fs: "container_reserveFreeSpaceArea K 0 4 4 w = Some (fs, w\<lparr>spaceTracker := t1\<rparr>)"
      "4 \<le> currentAreaSize fs" "area_cells fs \<inter> used = {}"
      "currentStartingIndex fs \<le> eof" "currentStartingIndex fs + currentAreaSize fs < 134217728"
    and rel: "\<forall>c. 0 < c \<and> c \<le> currentAreaSize fs \<longrightarrow> (\<exists>fs' t'. reduceBy c FROM_FRONT fs = (True, fs') \<and>
        releaseReservation (int (32 * max eof (currentStartingIndex fs + c))) fs' t1 = Some t' \<and>
        tracker.ledger t' (used \<union> {currentStartingIndex fs ..< currentStartingIndex fs + c})
          (max eof (currentStartingIndex fs + c)))" .
  let ?i = "currentStartingIndex fs" and ?w1 = "w\<lparr>spaceTracker := t1\<rparr>"
  have sp: "ok (device ?w1)" "length (content (device ?w1)) \<le> storage_limit"
    "32 * ?i \<le> length (content (device ?w1))" "32 * ?i + 128 \<le> storage_limit"
    using w(1) e(1) fs(2,4,5) room by (simp_all add: storage_limit_def)
  from stream_start_chunk_law [OF sp name, where uninit = "junk w" and sid = "currentStreamIdentifier vf"] obtain c c' d seed where
    c: "StreamStartChunk (junk w) ?i (currentName vf) (currentStreamIdentifier vf) = Some c"
      "Chunk_save K (\<lambda>c. Some (Chunk_updateCrc c)) True c ?w1 = Some (NoStatus, c', ?w1\<lparr>device := d, randomSeed := seed\<rparr>)"
      "ok d" "content d = overlay (content (device ?w1)) (32 * ?i) (header c')" "length (header c') = 128"
      "header_type c' = STREAM_START_CHUNK" "chunkSize c' = 128"
      "streamIdentifier c' = currentStreamIdentifier vf mod 2147483648"
      "virtualFilename c' = Some (currentName vf)" "Chunk_checkCrc c'" "currentFileIndex c' = ?i" "numberValidBytes c' = 124" .
  from StreamStartChunk_establishes [OF name, where uninit = "junk w" and index = 0 and sid = "currentStreamIdentifier vf"]
  obtain c0 where c0: "StreamStartChunk (junk w) 0 (currentName vf) (currentStreamIdentifier vf) = Some c0"
    "chunkSize c0 = 128" .
  then have cc: "c = setFileIndex ?i c0"
    using StreamStartChunk_index [of "junk w" ?i "currentName vf" "currentStreamIdentifier vf"] c(1) by simp
  let ?w2 = "?w1\<lparr>device := d, randomSeed := seed\<rparr>" and ?cells = "{?i ..< ?i + 4}"
  have four: "fit_size 128 = 128" "4 = fit_size 128 div 32" by (simp_all add: fit_size_def)
  have "(0 :: nat) < 4" by simp
  from rel [rule_format, OF conjI [OF this fs(2)]] obtain fs' t' where
    rel1: "reduceBy 4 FROM_FRONT fs = (True, fs')" "releaseReservation (int (32 * max eof (?i + 4))) fs' t1 = Some t'"
      "tracker.ledger t' (used \<union> ?cells) (max eof (?i + 4))" by blast
  have rel2: "releaseReservation (int (32 * max eof (?i + 4))) fs' (spaceTracker ?w2) = Some t'" using rel1(2) by simp
  have dev: "length (header c') = fit_size 128" "ok (device ?w2)"
    "content (device ?w2) = overlay (content (device w)) (32 * ?i) (header c')" "eof < 134217728" "fileMapsPopulated ?w2"
    using c(3-5) e(2) room four(1) by simp_all
  note release = release_space_law [OF fs(4,5) four(2) fs(2) dev(1) rel1(1) rel2 rel1(3) dev(2,3) e(1) dev(4,5)]
  define w' where "w' = ?w2\<lparr>spaceTracker := t'\<rparr>"
  define vf' where "vf' = vf\<lparr>startChunkIndex := ?i\<rparr>"
  have ni: "?i \<noteq> invalidFileIndex" using fs(4) room by simp
  have op: "writeStreamStartIfNeeded K vf w = Some (NoStatus, vf', w')"
    using True c0 fs(1) c(2,7,11) cc release(1) h
    by (simp add: writeStreamStartIfNeeded_def reserve_default [of K 0 4] toFileIndex_def u32_id holds_stored_def four(1) w'_def vf'_def fileIndex_def)
  have dis: "?cells \<inter> used = {}"
  proof -
    have "?cells \<subseteq> area_cells fs" using fs(2) by (auto simp: area_cells_def)
    with fs(3) show ?thesis by blast
  qed
  have k: "keeps used (content (device w)) (content (device w'))"
    using keeps_overlay [of ?i "content (device w)" "header c'" 4 used] dis e(1) fs(4) c(5) dev(3)
    by (simp add: w'_def Int_commute)
  have mc: "map_cells (chunkMap vf) \<subseteq> used" "start_cells vf = {}" "start_cells vf' = ?cells"
    using h True ni by (auto simp: holds_stored_def file_cells_def start_cells_def vf'_def)
  have at: "start_chunk_at (content (device w')) ?i (currentStreamIdentifier vf) (currentName vf)"
  proof -
    have "take 128 (drop (32 * ?i) (content d)) = header c'"
      using take_drop_overlay [of "32 * ?i" "content (device w)" "header c'"] fs(4) e(1) c(4,5) by simp
    then have "header (stored_header 128 (content d) ?i) = header c'" by (simp add: stored_header_def)
    note f = fields_of_header [OF this]
    have "virtualFilename (stored_header 128 (content d) ?i) = virtualFilename c'"
      unfolding virtualFilename_def stream_additionalHeader_def f(8) ..
    then show ?thesis
      using f c h fs(4) e(1) by (simp add: start_chunk_at_def w'_def length_overlay holds_stored_def)
  qed
  have "stored (content (device w')) (currentStreamIdentifier vf) 0 (chunkMap vf) D"
    using h stored_keeps [OF _ k mc(1)] by (simp add: holds_stored_def)
  moreover have "buffer_ok vf' D" using h buffer_cong [of vf' vf D] by (simp add: holds_stored_def vf'_def)
  moreover have "?cells \<inter> map_cells (chunkMap vf) = {}" using dis mc(1) by blast
  moreover have "file_cells vf' \<subseteq> used \<union> ?cells"
    using mc(1,3) unfolding file_cells_def by (auto simp: vf'_def)
  moreover have f: "currentContainer vf' = currentContainer vf" "currentName vf' = currentName vf"
    "currentStreamIdentifier vf' = currentStreamIdentifier vf" "chunkMap vf' = chunkMap vf"
    "tailBuffer vf' = tailBuffer vf" "startChunkIndex vf' = ?i" by (simp_all add: vf'_def)
  ultimately have hs: "holds_stored (content (device w')) (used \<union> ?cells) vf' D"
    using h at unfolding holds_stored_def f mc(3) by blast
  have "advance ok content 4 (used, eof, vf, w) (used \<union> ?cells, max eof (?i + 4), vf', w')"
    unfolding advance_def prod.case
  proof (intro conjI)
    show "file_cells vf' = file_cells vf \<union> (used \<union> ?cells - used)" using dis mc by (auto simp: file_cells_def vf'_def)
    show "keeps (used - file_cells vf) (content (device w)) (content (device w'))" using k by (rule keeps_mono) blast
    show "in_space content (used \<union> ?cells) (max eof (?i + 4)) w'" using release(2) by (simp add: w'_def)
    show "used = {..< eof} \<and> in_order vf \<longrightarrow> used \<union> ?cells = {..< max eof (?i + 4)} \<and> in_order vf'"
      using next_cell(2) [OF _ dis fs(4)] True by (auto simp: in_order_def vf'_def)
  qed (use fs(4) dev(2) in \<open>simp_all add: w'_def vf'_def\<close>)
  with op hs ni show thesis by (intro that [of vf' w']) (simp_all add: vf'_def)
qed

end

subsection \<open>Chunks rewritten in place\<close>

lemma length_mod_id: "length D < 281474976710656 \<Longrightarrow> k + n \<le> length D \<Longrightarrow> k mod 281474976710656 = k"
  by simp

lemma chunk_map_cells:
  "om_find k (chunkMap vf) = Some d \<Longrightarrow> chunk_cells d \<subseteq> map_cells (chunkMap vf)"
  using om_find_SomeD [of k "chunkMap vf" d] by (force simp: map_cells_def)

text \<open>A file that differs only in buffers, on a medium where it has the bytes \<open>D'\<close>.\<close>

lemma holds_stored_update:
  assumes "holds_stored bytes used vf D" "keeps (start_cells vf) bytes bytes'"
    "stored bytes' (currentStreamIdentifier vf) 0 (chunkMap vf) D'"
    and vf': "vf' = vf\<lparr>currentChunk := cc, chunkBuffer := cb, chunkBufferFlushNeeded := f, currentPosition := p\<rparr>"
    and "buffer_ok vf' D'"
  shows "holds_stored bytes' used vf' D'"
proof -
  have "start_chunk_at bytes' (startChunkIndex vf) (currentStreamIdentifier vf) (currentName vf)"
    if "startChunkIndex vf \<noteq> invalidFileIndex"
    using assms(1) that start_chunk_keeps [OF _ assms(2)] by (simp add: holds_stored_def start_cells_def)
  with assms show ?thesis by (simp add: holds_stored_def file_cells_def)
qed

context storage
begin

lemma rewrite_chunk_law:
  assumes w: "ok (device w)" "in_space content used eof w" "eof < 134217728"
    and h: "holds_stored (content (device w)) used vf D" "length D < 281474976710656"
    and d: "om_find k (chunkMap vf) = Some d"
    and src: "gather mem ss = Some p" "length p = chunkPayloadSize d"
    and new: "StreamDataChunk (junk w) (chunkStartingIndex d) (currentStreamIdentifier vf) k = Some c0"
      "setChunkSize maximumChunkSize c0 = (best, c)"
  obtains c' w' where
    "StreamDataChunk_save K True (c\<lparr>scatterGatherList := ss, currentScatterGatherListByteCount := length p\<rparr>) mem w =
      Some (NoStatus, c', w')"
    "stored (content (device w')) (currentStreamIdentifier vf) 0 (chunkMap vf) (overlay D k p)"
    "keeps (start_cells vf) (content (device w)) (content (device w'))"
    "\<And>vf'. startChunkIndex vf' = startChunkIndex vf \<Longrightarrow> chunkMap vf' = chunkMap vf \<Longrightarrow> currentName vf' = currentName vf \<Longrightarrow>
      currentStreamIdentifier vf' = currentStreamIdentifier vf \<Longrightarrow>
      advance ok content 0 (used, eof, vf, w) (used, eof, vf', w')"
proof -
  have st: "stored (content (device w)) (currentStreamIdentifier vf) 0 (chunkMap vf) D"
    and hc: "chunks_apart (chunkMap vf)" "start_cells vf \<inter> map_cells (chunkMap vf) = {}" "file_cells vf \<subseteq> used"
      "currentStreamIdentifier vf < 2147483648"
    using h(1) by (simp_all add: holds_stored_def)
  from found_chunk [OF st d] obtain l r where m: "chunkMap vf = l @ (k, d) # r" "k = payload_total l"
    "0 < chunkPayloadSize d" "k + chunkPayloadSize d \<le> length D" "chunkPayloadSize d \<le> 4082" .
  note at = stored_mid(5) [OF st [unfolded m(1)]]
  let ?i = "chunkStartingIndex d" and ?f = "fit_size (length p + 14)"
  from StreamDataChunk_establishes [where uninit = "junk w" and index = ?i and sid = "currentStreamIdentifier vf"
      and offset = k] new(1) have c0: "length (header c0) = 14" "header_type c0 = STREAM_DATA_CHUNK"
      "streamIdentifier c0 = currentStreamIdentifier vf mod 2147483648"
      "chunkOffset c0 = k mod 281474976710656" "currentFileIndex c0 = ?i"
    by (metis option.inject)+
  have "maximumChunkSize < 4294967296" by simp
  note c = setChunkSize_fields [OF c0(1) this new(2)]
  let ?c = "c\<lparr>scatterGatherList := ss, currentScatterGatherListByteCount := length p\<rparr>"
  have "header ?c = header c" by simp
  note fc = fields_of_header [OF this]
  have size: "chunkSize ?c = 4096" using c(1) fc(2) by (simp add: best_size_def)
  have e: "length (content (device w)) = 32 * eof" "fileMapsPopulated w" "tracker.ledger (spaceTracker w) used eof"
    using w(2) by (simp_all add: in_space_def)
  have len: "32 * ?i + ?f \<le> 32 * eof"
    using at e(1) src(2) m(2,4) by (simp add: data_chunk_at_def Let_def min_absorb2)
  have sp: "ok (device w)" "length (content (device w)) \<le> storage_limit" "length (header ?c) = 14"
    "gather mem (scatterGatherList ?c) = Some p" "currentScatterGatherListByteCount ?c = length p"
    "header_type ?c = STREAM_DATA_CHUNK" "p = take (chunkSize ?c - 14) p"
    "32 * currentFileIndex ?c \<le> length (content (device w))" "32 * currentFileIndex ?c + ?f \<le> storage_limit"
    using w(1,3) e(1) c c0 src m(5) size fc len by (simp_all add: storage_limit_def)
  from save_data_chunk_law [OF sp] obtain dv seed c' img where
    s: "StreamDataChunk_save K True ?c mem w = Some (NoStatus, c', w\<lparr>device := dv, randomSeed := seed\<rparr>)" "ok dv"
      "content dv = overlay (content (device w)) (32 * currentFileIndex ?c) img" "length img = ?f"
      "data_chunk_at (content dv) (currentFileIndex ?c) (streamIdentifier ?c) (chunkOffset ?c) p" by metis
  define w' where "w' = w\<lparr>device := dv, randomSeed := seed\<rparr>"
  have i: "currentFileIndex ?c = ?i" using c c0 by simp
  have cont: "content (device w') = overlay (content (device w)) (32 * ?i) img" "device w' = dv"
    using s(3) i by (simp_all add: w'_def)
  have lc: "length (content (device w')) = 32 * eof"
    using cont(1) s(4) len e(1) by simp
  have cells: "chunk_cells d = {?i ..< ?i + ?f div 32}" using src(2) by (simp add: chunk_cells_def cells_of_def)
  have ks: "keeps cs (content (device w)) (content (device w'))" if "cs \<inter> chunk_cells d = {}" for cs
    unfolding cont(1)
    by (rule keeps_overlay [where n = "?f div 32"])
      (use len e(1) s(4) fit_size_cells [of "length p + 14"] that cells in simp_all)
  have apart: "map_cells l \<union> map_cells r \<subseteq> map_cells (chunkMap vf)" "(map_cells l \<union> map_cells r) \<inter> chunk_cells d = {}"
    using hc(1) m(1) by (auto simp: chunks_apart_append)
  have dat: "data_chunk_at (content (device w')) ?i (currentStreamIdentifier vf) k p"
    using s(5) c c0 fc i hc(4) length_mod_id [OF h(2) m(4)] cont(2) by simp
  have sub: "chunk_cells d \<subseteq> map_cells (chunkMap vf)" by (rule chunk_map_cells [OF d])
  have "stored (content (device w')) (currentStreamIdentifier vf) 0 (chunkMap vf) (overlay D k p)"
    using stored_replace [OF st [unfolded m(1)] hc(1) [unfolded m(1)] ks [OF apart(2)] dat src(2)] m(1,2) by simp
  moreover have "keeps (start_cells vf) (content (device w)) (content (device w'))"
    by (rule ks) (use hc(2) sub in blast)
  moreover have "advance ok content 0 (used, eof, vf, w) (used, eof, vf', w')"
    if "startChunkIndex vf' = startChunkIndex vf" "chunkMap vf' = chunkMap vf" "currentName vf' = currentName vf"
      "currentStreamIdentifier vf' = currentStreamIdentifier vf" for vf'
    unfolding advance_def prod.case
  proof (intro conjI that(3,4))
    show "keeps (used - file_cells vf) (content (device w)) (content (device w'))"
      by (rule ks) (use sub in \<open>auto simp: file_cells_def\<close>)
    show "in_space content used eof w'" using lc e by (simp add: in_space_def w'_def)
  qed (use s(2) in_order_cong [OF that(1,2)] in \<open>simp_all add: w'_def\<close>)
  ultimately show thesis using that s(1) by (simp add: w'_def)
qed

text \<open>The changes in the chunk buffer are written back.\<close>

lemma flushChunkBuffer_law:
  assumes w: "ok (device w)" "in_space content used eof w" "eof < 134217728"
    and h: "holds_stored (content (device w)) used vf D" "length D < 281474976710656"
    and f: "chunkBufferFlushNeeded vf"
  obtains w' where "flushChunkBuffer K vf w = Some (NoStatus, vf\<lparr>chunkBufferFlushNeeded := False\<rparr>, w')"
    "holds_stored (content (device w')) used (vf\<lparr>chunkBufferFlushNeeded := False\<rparr>) (patched vf D)"
    "advance ok content 0 (used, eof, vf, w) (used, eof, vf\<lparr>chunkBufferFlushNeeded := False\<rparr>, w')"
proof -
  have st: "stored (content (device w)) (currentStreamIdentifier vf) 0 (chunkMap vf) D" and b: "buffer_ok vf D"
    and cont: "currentContainer vf" using h(1) by (simp_all add: holds_stored_def)
  from b f obtain k d cb where k: "currentChunk vf = Some k" "om_find k (chunkMap vf) = Some d"
    "chunkBuffer vf = Some cb" "length cb = 4096" by (auto simp: buffer_ok_def split: option.splits)
  let ?n = "chunkPayloadSize d" and ?p = "take (chunkPayloadSize d) cb"
  note fb = found_chunk_bounds [OF st k(2)]
  have len: "length ?p = ?n" using fb(2) k(4) by simp
  have g: "gather (vf_memory [] vf) [seg (Ptr ChunkBuffer 0) ?n] = Some ?p"
    using k(3,4) fb(2) by (simp add: load_bytes_def vf_memory_def)
  from StreamDataChunk_establishes [where uninit = "junk w" and index = "chunkStartingIndex d"
      and sid = "currentStreamIdentifier vf" and offset = k] obtain c0 where
    c0: "StreamDataChunk (junk w) (chunkStartingIndex d) (currentStreamIdentifier vf) k = Some c0"
      "length (header c0) = 14" "scatterGatherList c0 = []" "currentScatterGatherListByteCount c0 = 0" .
  obtain best c where set: "setChunkSize maximumChunkSize c0 = (best, c)" by (metis surj_pair)
  have "maximumChunkSize < 4294967296" by simp
  note c = setChunkSize_fields [OF c0(2) this set]
  from rewrite_chunk_law [OF w h k(2) g len c0(1) set] obtain c' w' where
    r: "StreamDataChunk_save K True (c\<lparr>scatterGatherList := [seg (Ptr ChunkBuffer 0) ?n],
        currentScatterGatherListByteCount := length ?p\<rparr>) (vf_memory [] vf) w = Some (NoStatus, c', w')"
      "stored (content (device w')) (currentStreamIdentifier vf) 0 (chunkMap vf) (overlay D k ?p)"
      "keeps (start_cells vf) (content (device w)) (content (device w'))"
      "\<And>vf'. startChunkIndex vf' = startChunkIndex vf \<Longrightarrow> chunkMap vf' = chunkMap vf \<Longrightarrow>
        currentName vf' = currentName vf \<Longrightarrow> currentStreamIdentifier vf' = currentStreamIdentifier vf \<Longrightarrow>
        advance ok content 0 (used, eof, vf, w) (used, eof, vf', w')" by blast
  let ?vf = "vf\<lparr>chunkBufferFlushNeeded := False\<rparr>"
  have pd: "patched vf D = overlay D k ?p" using k f by (simp add: patched_def)
  have "take ?n (drop k (overlay D k ?p)) = ?p"
    using take_drop_overlay [of k D ?p] fb(1) len by simp
  then have "buffer_ok ?vf (overlay D k ?p)" using k by (simp add: buffer_ok_def)
  then have "holds_stored (content (device w')) used ?vf (patched vf D)"
    unfolding pd by (intro holds_stored_update [OF h(1) r(3,2), where cc = "currentChunk vf" and cb = "chunkBuffer vf"
      and p = "currentPosition vf" and f = False]) simp_all
  moreover have "flushChunkBuffer K vf w = Some (NoStatus, ?vf, w')"
    using k(1,2) c0 set c r(1) len cont fb(2) by (simp add: flushChunkBuffer_def add_segment u32_id)
  moreover have "advance ok content 0 (used, eof, vf, w) (used, eof, ?vf, w')"
    by (rule r(4)) (simp_all add: file_cells_def)
  ultimately show thesis using that by blast
qed

end


subsection \<open>\<open>flush\<close>\<close>

lemma currentContainer_holds: "holds_stored bytes used vf D \<Longrightarrow> currentContainer vf"
  by (simp add: holds_stored_def)

lemma setLastStatus_simps [simp]:
  "device (setLastStatus s w) = device w" "spaceTracker (setLastStatus s w) = spaceTracker w"
  "fileMapsPopulated (setLastStatus s w) = fileMapsPopulated w" "lastReportedStatus (setLastStatus s w) = s"
  by (simp_all add: setLastStatus_def)

lemma advance_setLastStatus:
  "advance ok content n st (used, eof, vf, w) \<Longrightarrow> advance ok content n st (used, eof, vf, setLastStatus s w)"
  by (rule advance_world [OF _ same_container_updates(4)]) (auto simp: advance_def)

context storage
begin

lemma vf_flush_law:
  assumes w: "ok (device w)" "in_space content used eof w"
    and room: "eof + rb_count (tailBuffer vf) + 132 < 134217728"
    and h: "holds (content (device w)) used vf data"
    and name: "c_string (currentName vf)" "length (currentName vf) \<le> 118"
  shows "\<exists>used' eof' vf' w'. vf_flush K vf w = Some (NoStatus, vf', w') \<and>
    holds_stored (content (device w')) used' vf' data \<and> rb_count (tailBuffer vf') = 0 \<and>
    \<not> chunkBufferFlushNeeded vf' \<and> startChunkIndex vf' \<noteq> invalidFileIndex \<and>
    currentPosition vf' = currentPosition vf \<and>
    advance ok content (rb_count (tailBuffer vf) + 4) (used, eof, vf, w) (used', eof', vf', w') \<and>
    lastReportedStatus w' = NoStatus"
proof -
  define t where "t = contents (tailBuffer vf)"
  have lt: "length t = rb_count (tailBuffer vf)" by (simp add: t_def)
  from h obtain D where D: "holds_stored (content (device w)) used vf D" "data = patched vf D @ t"
    "length data < 281474976710656" by (auto simp: holds_def t_def)
  have r4: "eof + 4 < 134217728" using room by simp
  from writeStreamStart_law [OF w r4 D(1) name] obtain used1 eof1 vf1 w1 where
    s: "writeStreamStartIfNeeded K vf w = Some (NoStatus, vf1, w1)"
      "holds_stored (content (device w1)) used1 vf1 D" "startChunkIndex vf1 \<noteq> invalidFileIndex"
      "advance ok content 4 (used, eof, vf, w) (used1, eof1, vf1, w1)"
      "vf1 = vf\<lparr>startChunkIndex := startChunkIndex vf1\<rparr>" .
  have f1: "tailBuffer vf1 = tailBuffer vf" "chunkBufferFlushNeeded vf1 = chunkBufferFlushNeeded vf"
    "chunkMap vf1 = chunkMap vf" "currentChunk vf1 = currentChunk vf" "chunkBuffer vf1 = chunkBuffer vf"
    using arg_cong [OF s(5), of tailBuffer] arg_cong [OF s(5), of chunkBufferFlushNeeded] arg_cong [OF s(5), of chunkMap]
      arg_cong [OF s(5), of currentChunk] arg_cong [OF s(5), of chunkBuffer] by simp_all
  note p1 = buffer_cong(1) [OF f1(4,5,2,3), of D]
  from s(4) have a1: "ok (device w1)" "in_space content used1 eof1 w1" "eof1 \<le> eof + 4" by (simp_all add: advance_def)
  have e1: "eof1 < 134217728" using a1(3) room by simp
  have b1: "buffer_ok vf1 D" "stored (content (device w1)) (currentStreamIdentifier vf1) 0 (chunkMap vf1) D"
    using s(2) by (simp_all add: holds_stored_def)
  have lD: "length D < 281474976710656" "length (patched vf1 D) = length D"
    using length_patched [OF b1(2,1)] D(2,3) p1 by simp_all
  have "\<exists>vf2 w2. (if chunkBufferFlushNeeded vf1 then flushChunkBuffer K vf1 w1 else Some (NoStatus, vf1, w1)) =
      Some (NoStatus, vf2, w2) \<and> holds_stored (content (device w2)) used1 vf2 (patched vf1 D) \<and>
      advance ok content 0 (used1, eof1, vf1, w1) (used1, eof1, vf2, w2) \<and> vf2 = vf1\<lparr>chunkBufferFlushNeeded := False\<rparr>"
  proof (cases "chunkBufferFlushNeeded vf1")
    case True
    from flushChunkBuffer_law [OF a1(1,2) e1 s(2) lD(1) True] True show ?thesis by metis
  next
    case False
    then have "vf1\<lparr>chunkBufferFlushNeeded := False\<rparr> = vf1" by (cases vf1) simp
    moreover have "patched vf1 D = D" using False by (simp add: patched_def split: option.splits)
    ultimately show ?thesis using False s(2) a1(1,2) by (simp add: advance_refl)
  qed
  then obtain vf2 w2 where
    b: "(if chunkBufferFlushNeeded vf1 then flushChunkBuffer K vf1 w1 else Some (NoStatus, vf1, w1)) = Some (NoStatus, vf2, w2)"
      "holds_stored (content (device w2)) used1 vf2 (patched vf1 D)"
      "advance ok content 0 (used1, eof1, vf1, w1) (used1, eof1, vf2, w2)" "vf2 = vf1\<lparr>chunkBufferFlushNeeded := False\<rparr>"
    by blast
  have t2: "contents (tailBuffer vf2) = t" using b(4) f1(1) by (simp add: t_def)
  from b(3) have a2: "ok (device w2)" "in_space content used1 eof1 w2" by (simp_all add: advance_def)
  have r2: "eof1 + length t + 128 < 134217728" "length (patched vf1 D) + length t < 281474976710656"
    using a1(3) room lt D(2,3) lD(2) p1 by simp_all
  have si: "startChunkIndex vf2 \<noteq> invalidFileIndex" using s(3) b(4) by simp
  from flush_loop_law [OF a2 r2(1) b(2) t2 r2(2) si] obtain used' eof' vf' w' where
    l: "flush_loop K NoStatus vf2 w2 = Some (NoStatus, vf', w')"
      "holds_stored (content (device w')) used' vf' (patched vf1 D @ t)" "contents (tailBuffer vf') = []"
      "advance ok content (length t) (used1, eof1, vf2, w2) (used', eof', vf', w')"
      "vf' = vf2\<lparr>chunkMap := chunkMap vf', tailBuffer := tailBuffer vf'\<rparr>" by (elim exE conjE)
  have f: "chunkBufferFlushNeeded vf' = False" "startChunkIndex vf' = startChunkIndex vf1"
    "currentPosition vf' = currentPosition vf"
    using arg_cong [OF l(5), of chunkBufferFlushNeeded] arg_cong [OF l(5), of startChunkIndex]
      arg_cong [OF l(5), of currentPosition] arg_cong [OF s(5), of currentPosition] b(4) by simp_all
  have "advance ok content (4 + 0 + length t) (used, eof, vf, w) (used', eof', vf', w')"
    by (rule advance_trans [OF advance_trans [OF s(4) b(3)] l(4)])
  then have "advance ok content (rb_count (tailBuffer vf) + 4) (used, eof, vf, w) (used', eof', vf', setLastStatus NoStatus w')"
    using lt advance_setLastStatus by (simp add: add.commute)
  moreover have "vf_flush K vf w = Some (NoStatus, vf', setLastStatus NoStatus w')"
    using s(1) b(1) l(1) currentContainer_holds [OF s(2)] currentContainer_holds [OF l(2)]
    by (simp add: vf_flush_def set_last_def)
  moreover have "holds_stored (content (device (setLastStatus NoStatus w'))) used' vf' data"
    using l(2) D(2) p1 by simp
  moreover have "rb_count (tailBuffer vf') = 0" using arg_cong [OF l(3), of length] by simp
  ultimately show ?thesis using f s(3) by (intro exI [of _ used'] exI [of _ eof'] exI [of _ vf']
      exI [of _ "setLastStatus NoStatus w'"] conjI) simp_all
qed

end


subsection \<open>\<open>append\<close>\<close>

lemma processed_0 [simp]: "processed 0 ss = ss"
  by (cases ss) simp_all

lemma processed_append: "processed n (ss @ tt) = processed n ss @ processed (n - total_length ss) tt"
  by (induction n ss rule: processed.induct) (auto simp: min_def)

lemma sum_processed:
  "\<forall>s \<in> set ss. currentProcessedCount s = 0 \<Longrightarrow>
   sum_list (map currentProcessedCount (processed n ss)) = min n (total_length ss)"
proof (induction n ss rule: processed.induct)
  case (2 n s ss)
  have "sum_list (map currentProcessedCount ss) = 0" using "2.prems" by (induction ss) simp_all
  with 2 show ?case by (auto simp: min_def)
qed simp

text \<open>The segments of one round: the tail buffer's, when it has bytes, and the caller's.\<close>

definition append_segments :: "byte ring_buffer \<Rightarrow> scatter_gather_list_segment list" where
  "append_segments rb = (if rb_empty rb then [] else tail_segments rb)"

lemma append_segments_facts:
  fixes vf :: virtual_file
  assumes "tail_ok (tailBuffer vf)"
  defines "ss \<equiv> append_segments (tailBuffer vf)"
  shows "gather (vf_memory caller vf) ss = Some (contents (tailBuffer vf))"
    "total_length ss = rb_count (tailBuffer vf)" "\<forall>s \<in> set ss. currentProcessedCount s = 0"
proof -
  show g: "gather (vf_memory caller vf) ss = Some (contents (tailBuffer vf))"
    using gather_tail [OF assms(1), of caller]
    by (simp add: ss_def append_segments_def rb_empty_def contents_def)
  then show "total_length ss = rb_count (tailBuffer vf)" using length_gather by force
  show "\<forall>s \<in> set ss. currentProcessedCount s = 0"
    by (auto simp: ss_def append_segments_def tail_segments_def split: prod.splits)
qed

context storage
begin

lemma append_step_law:
  assumes w: "ok (device w)" "in_space content used eof w" and room: "eof + 128 < 134217728"
    and h: "holds_stored (content (device w)) used vf D"
    and t: "contents (tailBuffer vf) = t" "length D + length t + count < 281474976710656"
    and x: "off + count \<le> length caller" "x = take count (drop off caller)" "count < 4294963200"
      "rb_available (tailBuffer vf) \<le> count"
    and si: "startChunkIndex vf \<noteq> invalidFileIndex"
  obtains n used' eof' vf' w' where
    "append_step K caller off count vf w =
      Some (NoStatus, off + (n - length t), count - (n - length t), vf', w')" "0 < n" "n \<le> length t + count"
    "holds_stored (content (device w')) used' vf' (D @ take n (t @ x))" "contents (tailBuffer vf') = drop n t"
    "patched vf' (D @ take n (t @ x)) = patched vf D @ take n (t @ x)"
    "advance ok content n (used, eof, vf, w) (used', eof', vf', w')"
    "vf' = vf\<lparr>chunkMap := chunkMap vf', tailBuffer := tailBuffer vf'\<rparr>"
proof -
  have tok: "tail_ok (tailBuffer vf)" and cont: "currentContainer vf" using h by (simp_all add: holds_stored_def)
  let ?rb = "tailBuffer vf" and ?ts = "append_segments (tailBuffer vf)"
  let ?ss = "?ts @ [seg (Ptr CallerBuffer off) count]"
  note ts = append_segments_facts [OF tok]
  have lx: "length x = count" using x(1,2) by simp
  have lt: "length t = rb_count ?rb" using t(1) length_contents by metis
  have "load_bytes (vf_memory caller vf) (Ptr CallerBuffer off) count = Some x"
    using x(1,2) by (simp add: load_bytes_def vf_memory_def)
  then have g: "gather (vf_memory caller vf) ?ss = Some (t @ x)"
    using gather_append [OF ts(1)] t(1) by simp
  have ne: "t @ x \<noteq> []" using x(4) tail_count [OF tok] lt lx by auto
  have t': "length D + length (t @ x) < 281474976710656" using t(2) lx by simp
  from store_round_law [OF w room h t(1) ne t' g si] obtain fs c w1 c' w2 w' n rb' vf' used' eof' where
    c: "reserve_chunk K vf w = Some (fs, c, w1)" "scatterGatherList c = []" "currentScatterGatherListByteCount c = 0"
      "StreamDataChunk_save K True (c\<lparr>scatterGatherList := ?ss, currentScatterGatherListByteCount := length (t @ x)\<rparr>)
        (vf_memory caller vf) w1 = Some (NoStatus, c', w2)"
      "release_rest K fs c' w2 = Some w'" "0 < n" "n \<le> length (t @ x)" "scatterGatherList c' = processed n ?ss"
      "bulkExtractionFinish (min n (length t)) ?rb = (True, rb')"
      "vf' = addChunkLocation (fileIndex c') (chunkOffset c') n (vf\<lparr>tailBuffer := rb'\<rparr>)"
    and new: "holds_stored (content (device w')) used' vf' (D @ take n (t @ x))" "contents (tailBuffer vf') = drop n t"
      "patched vf' (D @ take n (t @ x)) = patched vf D @ take n (t @ x)"
      "advance ok content n (used, eof, vf, w) (used', eof', vf', w')"
      "vf' = vf\<lparr>chunkMap := chunkMap vf', tailBuffer := tailBuffer vf'\<rparr>" .
  let ?k = "length ?ts"
  have lst: "scatterGatherList c' = processed n ?ts @ processed (n - length t) [seg (Ptr CallerBuffer off) count]"
    unfolding c(8) processed_append ts(2) lt ..
  have front: "map (\<lambda>i. currentProcessedCount (scatterGatherListSegment i c')) [0 ..< ?k] =
      map currentProcessedCount (processed n ?ts)"
    by (rule nth_equalityI) (simp_all add: scatterGatherListSegment_def lst nth_append)
  have sum: "u32 (sum_list (map (\<lambda>i. currentProcessedCount (scatterGatherListSegment i c')) [0 ..< ?k])) = min n (length t)"
    unfolding front sum_processed [OF ts(3)] ts(2) lt using tail_count [OF tok] by (intro u32_id) linarith
  have call: "currentProcessedCount (scatterGatherListSegment ?k c') = n - length t"
    using c(7) lx by (simp add: scatterGatherListSegment_def lst nth_append)
  have tot: "u32 (min n (length t) + (n - length t)) = n"
    using c(7) lx lt tail_count [OF tok] x(3) by (simp add: u32_id min_def)
  have segs: "(if rb_empty ?rb then Some (0, c)
      else do {
        let (tailBufferCount, p1, l1, p2, l2) = bulkExtractionStart ?rb;
        assertion (tailBufferCount = u32 (l1 + l2));
        (_, c) \<leftarrow> addScatterGatherListSegment_buffer (tail_pointer p1) l1 c;
        if l2 = 0 then Some (1, c)
        else do { (_, c) \<leftarrow> addScatterGatherListSegment_buffer (tail_pointer p2) l2 c; Some (2, c) }
      }) = Some (?k, c\<lparr>scatterGatherList := ?ts, currentScatterGatherListByteCount := length t\<rparr>)"
  proof (cases "rb_empty ?rb")
    case True
    then have "length t = 0" using lt by (simp add: rb_empty_def rb_count_def)
    moreover have "c\<lparr>scatterGatherList := [], currentScatterGatherListByteCount := 0\<rparr> = c"
      using c(2,3) by (cases c) simp
    ultimately show ?thesis using True by (simp add: append_segments_def)
  next
    case False
    obtain m p1 l1 p2 l2 where r: "bulkExtractionStart ?rb = (m, p1, l1, p2, l2)" by (metis prod_cases5)
    have rbo: "rb_ok ?rb" using tok by (simp add: tail_ok_def)
    note b = bulkExtractionStart_ok [OF rbo r]
    have "l1 + l2 = length t" "l1 + l2 < 4294967296" "m = l1 + l2" "p2 = None \<longleftrightarrow> l2 = 0"
      using b(1,2,8) lt tail_count [OF tok] by simp_all
    with False r c(2,3) show ?thesis
      by (auto simp: add_segment append_segments_def tail_segments_def u32_id Let_def)
  qed
  have cnt: "u32 (length t + count) = length (t @ x)"
    using lx lt tail_count [OF tok] x(3) by (simp add: u32_id)
  have "append_step K caller off count vf w =
      Some (NoStatus, off + (n - length t), count - (n - length t), vf', w')"
    unfolding append_step_def c(1) bind.bind_lunit prod.case segs
    using c(4,5,7,9,10) sum call tot cont cnt lx
    by (simp add: add_segment Let_def addChunkLocation_def)
  then show thesis using that [OF _ c(6)] c(7) lx new by simp
qed

end


context storage
begin

lemma append_loop_law:
  assumes "ok (device w)" "in_space content used eof w" "eof + length t + count + 128 < 134217728"
    and "holds_stored (content (device w)) used vf D"
    and "contents (tailBuffer vf) = t" "length D + length t + count < 281474976710656"
    and "off + count \<le> length caller" "count < 4294963200" "startChunkIndex vf \<noteq> invalidFileIndex"
  shows "\<exists>n used' eof' vf' w' off' count'.
    append_loop K caller NoStatus off count vf w = Some (NoStatus, off', count', vf', w') \<and>
    off' + count' = off + count \<and> count' < rb_available (tailBuffer vf') \<and> n \<le> length t + count \<and>
    holds_stored (content (device w')) used' vf' (D @ take n (t @ take count (drop off caller))) \<and>
    contents (tailBuffer vf') @ take count' (drop off' caller) = drop n (t @ take count (drop off caller)) \<and>
    patched vf' (D @ take n (t @ take count (drop off caller))) = patched vf D @ take n (t @ take count (drop off caller)) \<and>
    advance ok content n (used, eof, vf, w) (used', eof', vf', w') \<and>
    vf' = vf\<lparr>chunkMap := chunkMap vf', tailBuffer := tailBuffer vf'\<rparr>"
  using assms
proof (induction "length t + count" arbitrary: used eof vf w D t off count rule: less_induct)
  case less
  let ?x = "take count (drop off caller)"
  show ?case
  proof (cases "rb_available (tailBuffer vf) \<le> count")
    case False
    then have "append_loop K caller NoStatus off count vf w = Some (NoStatus, off, count, vf, w)"
      by (subst append_loop.simps) simp
    then show ?thesis
      using less.prems False
      by (intro exI [of _ 0] exI [of _ used] exI [of _ eof] exI [of _ vf] exI [of _ w] exI [of _ off] exI [of _ count])
        (simp add: advance_refl)
  next
    case True
    have room: "eof + 128 < 134217728" using less.prems(3) by simp
    from append_step_law [OF less.prems(1,2) room less.prems(4-7) refl less.prems(8) True less.prems(9)] obtain n used1 eof1 vf1 w1 where
      s: "append_step K caller off count vf w =
          Some (NoStatus, off + (n - length t), count - (n - length t), vf1, w1)" "0 < n" "n \<le> length t + count"
        "holds_stored (content (device w1)) used1 vf1 (D @ take n (t @ ?x))" "contents (tailBuffer vf1) = drop n t"
        "patched vf1 (D @ take n (t @ ?x)) = patched vf D @ take n (t @ ?x)"
        "advance ok content n (used, eof, vf, w) (used1, eof1, vf1, w1)"
        "vf1 = vf\<lparr>chunkMap := chunkMap vf1, tailBuffer := tailBuffer vf1\<rparr>" .
    let ?k = "n - length t"
    let ?off = "off + ?k" and ?count = "count - ?k"
    let ?x1 = "take ?count (drop ?off caller)"
    have x1: "?x1 = drop ?k ?x" "drop n t @ ?x1 = drop n (t @ ?x)" by (simp_all add: drop_take add.commute)
    have lx: "length ?x = count" using less.prems(7) by simp
    from s(7) have a: "ok (device w1)" "in_space content used1 eof1 w1" "eof1 \<le> eof + n"
      by (simp_all add: advance_def)
    have d: "length (drop n t) + ?count < length t + count" "eof1 + length (drop n t) + ?count + 128 < 134217728"
      "length (D @ take n (t @ ?x)) + length (drop n t) + ?count < 281474976710656"
      "?off + ?count \<le> length caller" "?count < 4294963200"
    proof -
      have "length (take n (t @ ?x)) = n" using s(3) lx by simp
      then show "length (D @ take n (t @ ?x)) + length (drop n t) + ?count < 281474976710656"
        using s(3) less.prems(6) by (simp only: length_append length_drop)
    qed (use s(2,3) a(3) less.prems(3,7,8) in simp_all)
    have si: "startChunkIndex vf1 \<noteq> invalidFileIndex" using arg_cong [OF s(8), of startChunkIndex] less.prems(9) by simp
    from less.hyps [OF d(1) a(1,2) d(2) s(4,5) d(3-5) si] obtain m used' eof' vf' w' off' count' where
      r: "append_loop K caller NoStatus ?off ?count vf1 w1 = Some (NoStatus, off', count', vf', w')"
        "off' + count' = ?off + ?count" "count' < rb_available (tailBuffer vf')" "m \<le> length (drop n t) + ?count"
        "holds_stored (content (device w')) used' vf' ((D @ take n (t @ ?x)) @ take m (drop n t @ ?x1))"
        "contents (tailBuffer vf') @ take count' (drop off' caller) = drop m (drop n t @ ?x1)"
        "patched vf' ((D @ take n (t @ ?x)) @ take m (drop n t @ ?x1)) =
          patched vf1 (D @ take n (t @ ?x)) @ take m (drop n t @ ?x1)"
        "advance ok content m (used1, eof1, vf1, w1) (used', eof', vf', w')"
        "vf' = vf1\<lparr>chunkMap := chunkMap vf', tailBuffer := tailBuffer vf'\<rparr>" by (elim exE conjE)
    have loop: "append_loop K caller NoStatus off count vf w = Some (NoStatus, off', count', vf', w')"
      using s(1) r(1) True by (subst append_loop.simps) simp
    have sum: "take n (t @ ?x) @ take m (drop n t @ ?x1) = take (n + m) (t @ ?x)"
      "drop m (drop n t @ ?x1) = drop (n + m) (t @ ?x)"
      unfolding x1(2) by (simp only: take_add) (simp only: drop_drop add.commute)
    have adv: "advance ok content (n + m) (used, eof, vf, w) (used', eof', vf', w')"
      by (rule advance_trans [OF s(7) r(8)])
    have fr: "vf' = vf\<lparr>chunkMap := chunkMap vf', tailBuffer := tailBuffer vf'\<rparr>"
      using s(8) r(9) by (rule chunk_frame_trans)
    have hs: "holds_stored (content (device w')) used' vf' (D @ take (n + m) (t @ ?x))"
      "patched vf' (D @ take (n + m) (t @ ?x)) = patched vf D @ take (n + m) (t @ ?x)"
      using r(5) r(7) [unfolded s(6)] unfolding append_assoc sum .
    have bnd: "off' + count' = off + count" "n + m \<le> length t + count"
      using r(2,4) s(3) by (simp_all add: min_def split: if_splits)
    show ?thesis
      by (intro exI conjI) (fact loop bnd(1) r(3) bnd(2) hs(1) r(6) [unfolded sum] hs(2) adv fr)+
  qed
qed

end

text \<open>What does not fill a chunk stays in the tail buffer.\<close>

lemma copy_to_tail_eq:
  fixes vf :: virtual_file
  assumes "off + n \<le> length caller" "n = 0 \<or> (\<exists>i. p = Some i \<and> i + n \<le> bufferLength (tailBuffer vf))"
  shows "copy_to_tail p caller off n vf =
    Some (vf\<lparr>tailBuffer := fill_segment p (take n (drop off caller)) (tailBuffer vf)\<rparr>)"
proof (cases "n = 0")
  case True
  then show ?thesis
    by (cases p) (simp_all add: copy_to_tail_def load_bytes_def store_bytes_def fill_segment_def vf_memory_def)
next
  case False
  with assms obtain i where i: "p = Some i" "i + n \<le> bufferLength (tailBuffer vf)" by blast
  have "length (take n (drop off caller)) = n" using assms(1) by simp
  then have "take n (drop off caller) \<noteq> []" using False by auto
  with assms False i show ?thesis
    by (simp add: copy_to_tail_def load_bytes_def store_bytes_def fill_segment_def vf_memory_def tail_pointer_def)
qed

lemma append_tail_law:
  fixes vf :: virtual_file
  assumes tok: "tail_ok (tailBuffer vf)" and x: "off + count \<le> length caller" "0 < count"
    "count < rb_available (tailBuffer vf)"
  obtains rb where "append_tail caller off count vf = Some (vf\<lparr>tailBuffer := rb\<rparr>)" "tail_ok rb"
    "contents rb = contents (tailBuffer vf) @ take count (drop off caller)"
proof -
  let ?rb = "tailBuffer vf" and ?x = "take count (drop off caller)"
  have rbo: "rb_ok ?rb" using tok by (simp add: tail_ok_def)
  obtain m p1 l1 p2 l2 where r: "bulkInsertionStart ?rb = (m, p1, l1, p2, l2)" by (metis prod_cases5)
  note b = bulkInsertionStart_ok [OF rbo r]
  have lx: "length ?x = count" using x(1) by simp
  let ?c1 = "min l1 count"
  let ?rb1 = "fill_segment p1 (take ?c1 ?x) ?rb"
  let ?rb2 = "fill_segment p2 (drop l1 ?x) ?rb1"
  have t1: "take ?c1 ?x = take l1 ?x" "take ?c1 (drop off caller) = take ?c1 ?x" by (simp_all add: min_def)
  have p1: "p1 = Some (currentInsertionIndex ?rb)" using b(1,3) x(2,3) by simp
  have len1: "bufferLength ?rb1 = bufferLength ?rb"
    using p1 b(6) lx by (simp add: fill_segment_def)
  have c1: "copy_to_tail p1 caller off ?c1 vf = Some (vf\<lparr>tailBuffer := ?rb1\<rparr>)"
    unfolding t1(2) [symmetric] by (rule copy_to_tail_eq) (use x(1) p1 b(6) in auto)
  have c2: "(if count - ?c1 > 0 then do {
        assertion (p2 \<noteq> None \<and> l2 \<ge> count - ?c1);
        copy_to_tail p2 caller (off + ?c1) (count - ?c1) (vf\<lparr>tailBuffer := ?rb1\<rparr>)
      } else Some (vf\<lparr>tailBuffer := ?rb1\<rparr>)) = Some (vf\<lparr>tailBuffer := ?rb2\<rparr>)"
  proof (cases "count - ?c1 > 0")
    case True
    then have k: "?c1 = l1" "l1 < count" by simp_all
    moreover have "count - l1 \<le> l2" using b(1,2) x(3) by linarith
    moreover have "p2 = Some 0" using b(4,5) calculation by fastforce
    ultimately have k: "?c1 = l1" "l1 < count" "count - l1 \<le> l2" "p2 = Some 0" by simp_all
    have "take (count - l1) (drop (off + l1) caller) = drop l1 ?x" by (simp add: drop_take add.commute)
    with k True copy_to_tail_eq [of "off + l1" "count - l1" caller p2 "vf\<lparr>tailBuffer := ?rb1\<rparr>"] x(1) len1 b(7)
    show ?thesis by simp
  next
    case False
    then have "drop l1 ?x = []" using lx by simp
    then show ?thesis using False by (cases p2) (simp_all add: fill_segment_def)
  qed
  have fs: "fill_segments ?x (m, p1, l1, p2, l2) ?rb = ?rb2" by (simp add: fill_segments_def t1(1))
  obtain success rb where fin: "bulkInsertionFinish count ?rb2 = (success, rb)" by (metis surj_pair)
  have "length ?x \<le> rb_available ?rb" using lx x(3) by simp
  note ins = bulkInsertion_ok [OF rbo r this, of success rb, unfolded fs lx, OF fin]
  have "append_tail caller off count vf = Some (vf\<lparr>tailBuffer := rb\<rparr>)"
  proof -
    have if1: "(if l1 < count then l1 else count) = ?c1" by simp
    show ?thesis
      unfolding append_tail_def r Let_def prod.case if1 c1 bind.bind_lunit c2
      using b(1) x(3) fin ins(1) by simp
  qed
  moreover have "tail_ok rb" using ins tok by (simp add: tail_ok_def)
  ultimately show thesis using that ins(3) by simp
qed


end
