(* ===== verification/Stream_Append.thy ===== *)
theory Stream_Append
  imports Stream_Operations
begin

text \<open>
  \<open>append\<close> as a whole: the bytes of the caller are behind the others, whatever part of them
  is in chunks and in the tail buffer.
\<close>

lemma in_space_scan: "in_space content used eof w \<Longrightarrow> scanIfNeeded scan NoStatus vf w =
    Some ((if currentContainer vf then NoStatus else ContainerUnavailable), vf, w)"
  by (simp add: in_space_def scanIfNeeded_def containerScanNeeded_def)

lemma vf_size_holds:
  assumes "holds_stored (content (device w)) used vf D" "in_space content used eof w"
    and "length D + rb_count (tailBuffer vf) < 281474976710656"
  shows "vf_size scan vf w = Some (int (length D + rb_count (tailBuffer vf)), vf, w)"
proof -
  have "stored (content (device w)) (currentStreamIdentifier vf) 0 (chunkMap vf) D"
    using assms(1) by (simp add: holds_stored_def)
  then have "currentStoredSize vf = length D" using assms(3) currentStoredSize_stored by simp
  then show ?thesis
    using assms currentContainer_holds [OF assms(1)]
    by (simp add: vf_size_def in_space_def containerScanNeeded_def long_long_def u64_id)
qed

lemma holdsI: "holds_stored bytes used vf D \<Longrightarrow> data = patched vf D @ contents (tailBuffer vf) \<Longrightarrow>
    length data < 281474976710656 \<Longrightarrow> holds bytes used vf data"
  unfolding holds_def by blast

lemma holds_cases:
  assumes "holds bytes used vf data"
  obtains D where "holds_stored bytes used vf D" "data = patched vf D @ contents (tailBuffer vf)"
    "length D + rb_count (tailBuffer vf) = length data" "length data < 281474976710656"
proof -
  from assms obtain D where D: "holds_stored bytes used vf D" "data = patched vf D @ contents (tailBuffer vf)"
    "length data < 281474976710656" by (auto simp: holds_def)
  moreover have "length (patched vf D) = length D"
    using D(1) length_patched unfolding holds_stored_def by blast
  ultimately show thesis using that by simp
qed

text \<open>The position is no part of what a file stands for.\<close>

lemma holds_stored_position [simp]: "holds_stored bytes used (vf\<lparr>currentPosition := p\<rparr>) D = holds_stored bytes used vf D"
  using buffer_cong [of "vf\<lparr>currentPosition := p\<rparr>" vf D] by (simp add: holds_stored_def file_cells_def)

lemma patched_position [simp]: "patched (vf\<lparr>currentPosition := p\<rparr>) D = patched vf D"
  using buffer_cong [of "vf\<lparr>currentPosition := p\<rparr>" vf D] by simp

lemma holds_position [simp]: "holds bytes used (vf\<lparr>currentPosition := p\<rparr>) data = holds bytes used vf data"
  by (simp add: holds_def)

lemma advance_tail_position:
  "advance ok content n st (used, eof, vf, w) \<Longrightarrow>
   advance ok content n st (used, eof, vf\<lparr>tailBuffer := rb, currentPosition := p\<rparr>, setLastStatus s w)"
  by (rule advance_setLastStatus) (simp add: advance_def file_cells_def in_order_def split: prod.splits)

context storage
begin

lemma vf_append_law:
  assumes w: "ok (device w)" "in_space content used eof w"
    and room: "eof + rb_count (tailBuffer vf) + count + 132 < 134217728"
    and h: "holds (content (device w)) used vf data" "length data + count < 281474976710656"
    and name: "c_string (currentName vf)" "length (currentName vf) \<le> 118"
    and x: "off + count \<le> length caller" "count < 4294963200"
  shows "\<exists>used' eof' vf' w'. vf_append K scan caller off count vf w = Some (WriteSuccessful count, vf', w') \<and>
    holds (content (device w')) used' vf' (data @ take count (drop off caller)) \<and>
    startChunkIndex vf' \<noteq> invalidFileIndex \<and>
    currentPosition vf' = length data + count \<and>
    advance ok content (rb_count (tailBuffer vf) + count + 4) (used, eof, vf, w) (used', eof', vf', w') \<and>
    eof' + rb_count (tailBuffer vf') \<le> eof + rb_count (tailBuffer vf) + count + 4 \<and>
    lastReportedStatus w' = WriteSuccessful count"
proof -
  let ?x = "take count (drop off caller)"
  define t where "t = contents (tailBuffer vf)"
  have lt: "length t = rb_count (tailBuffer vf)" by (simp add: t_def)
  have lx: "length ?x = count" using x(1) by simp
  from holds_cases [OF h(1)] obtain D where D: "holds_stored (content (device w)) used vf D"
    "data = patched vf D @ t" "length D + rb_count (tailBuffer vf) = length data" unfolding t_def by metis
  have r4: "eof + 4 < 134217728" using room by simp
  from writeStreamStart_law [OF w r4 D(1) name] obtain used1 eof1 vf1 w1 where
    s: "writeStreamStartIfNeeded K vf w = Some (NoStatus, vf1, w1)"
      "holds_stored (content (device w1)) used1 vf1 D" "startChunkIndex vf1 \<noteq> invalidFileIndex"
      "advance ok content 4 (used, eof, vf, w) (used1, eof1, vf1, w1)"
      "vf1 = vf\<lparr>startChunkIndex := startChunkIndex vf1\<rparr>" .
  have f1: "tailBuffer vf1 = tailBuffer vf" "chunkBufferFlushNeeded vf1 = chunkBufferFlushNeeded vf"
    "chunkMap vf1 = chunkMap vf" "currentChunk vf1 = currentChunk vf" "chunkBuffer vf1 = chunkBuffer vf"
    using arg_cong [OF s(5), of tailBuffer] arg_cong [OF s(5), of chunkBufferFlushNeeded] arg_cong [OF s(5), of chunkMap]
      arg_cong [OF s(5), of currentChunk] arg_cong [OF s(5), of chunkBuffer] by simp_all
  note p1 = buffer_cong(1) [OF f1(4,5,2,3), of D]
  from s(4) have a1: "ok (device w1)" "in_space content used1 eof1 w1" "eof1 \<le> eof + 4" by (simp_all add: advance_def)
  have t1: "contents (tailBuffer vf1) = t" using f1(1) by (simp add: t_def)
  have r1: "eof1 + length t + count + 128 < 134217728" "length D + length t + count < 281474976710656"
    using a1(3) room lt D(3) h(2) by simp_all
  from append_loop_law [OF a1(1,2) r1(1) s(2) t1 r1(2) x s(3)] obtain n used2 eof2 vf2 w2 off2 count2 where
    l: "append_loop K caller NoStatus off count vf1 w1 = Some (NoStatus, off2, count2, vf2, w2)"
      "off2 + count2 = off + count" "count2 < rb_available (tailBuffer vf2)" "n \<le> length t + count"
      "holds_stored (content (device w2)) used2 vf2 (D @ take n (t @ ?x))"
      "contents (tailBuffer vf2) @ take count2 (drop off2 caller) = drop n (t @ ?x)"
      "patched vf2 (D @ take n (t @ ?x)) = patched vf1 D @ take n (t @ ?x)"
      "advance ok content n (used1, eof1, vf1, w1) (used2, eof2, vf2, w2)"
      "vf2 = vf1\<lparr>chunkMap := chunkMap vf2, tailBuffer := tailBuffer vf2\<rparr>" by (elim exE conjE)
  have l2: "off2 + count2 \<le> length caller" using l(2) x(1) by simp
  have tok2: "tail_ok (tailBuffer vf2)" using l(5) by (simp add: holds_stored_def)
  obtain rb where rb: "(if count2 > 0 then append_tail caller off2 count2 vf2 else Some vf2) = Some (vf2\<lparr>tailBuffer := rb\<rparr>)"
    "tail_ok rb" "contents rb = contents (tailBuffer vf2) @ take count2 (drop off2 caller)"
  proof (cases "count2 > 0")
    case True
    from append_tail_law [OF tok2 l2 True l(3)] that True show thesis by auto
  next
    case False
    have "(if count2 > 0 then append_tail caller off2 count2 vf2 else Some vf2) = Some (vf2\<lparr>tailBuffer := tailBuffer vf2\<rparr>)"
      using False by (cases vf2) simp
    from that [OF this tok2] False show thesis by simp
  qed
  note ht = holds_tail [OF l(5) rb(2)]
  have all: "take n (t @ ?x) @ contents rb = t @ ?x" unfolding rb(3) l(6) by (rule append_take_drop_id)
  have data: "data @ ?x = patched vf2 (D @ take n (t @ ?x)) @ contents rb"
    unfolding l(7) p1 append_assoc all by (simp add: D(2))
  let ?vf = "vf2\<lparr>tailBuffer := rb\<rparr>"
  have ld: "length (data @ ?x) < 281474976710656" using h(2) lx by simp
  have a2: "ok (device w2)" "in_space content used2 eof2 w2" using l(8) by (simp_all add: advance_def)
  have hv: "holds_stored (content (device w2)) used2 ?vf (D @ take n (t @ ?x))" using ht by blast
  have len: "length (D @ take n (t @ ?x)) + rb_count rb = length data + count"
  proof -
    have "length (take n (t @ ?x)) + length (contents rb) = length (t @ ?x)"
      using arg_cong [OF all, of length] by (simp only: length_append)
    then show ?thesis using D(3) lt lx by simp
  qed
  have sz: "vf_size scan ?vf w2 = Some (int (length data + count), ?vf, w2)"
    using vf_size_holds [where w = w2, OF hv a2(2)] len h(2) by simp
  have sc: "startChunkIndex vf2 = startChunkIndex vf1"
    using arg_cong [OF l(9), of startChunkIndex] by simp
  let ?vf' = "vf2\<lparr>tailBuffer := rb, currentPosition := length data + count\<rparr>"
  have op: "vf_append K scan caller off count vf w =
      Some (WriteSuccessful count, ?vf', setLastStatus (WriteSuccessful count) w2)"
  proof -
    have c: "currentContainer vf1" "currentContainer ?vf" using currentContainer_holds s(2) hv by blast+
    have u: "unsigned_64 (int (length data + count)) = length data + count"
      using h(2) by (simp add: unsigned_64_def)
    show ?thesis
      unfolding vf_append_def s(1) in_space_scan [OF a1(2)] bind.bind_lunit prod.case if_P [OF c(1)] l(1)
      using rb(1) sz u c(2) by (simp add: set_last_def)
  qed
  have "holds (content (device w2)) used2 ?vf (data @ ?x)"
    using holdsI [OF hv _ ld] data ht by simp
  then have "holds (content (device (setLastStatus (WriteSuccessful count) w2))) used2 ?vf' (data @ ?x)" by simp
  moreover have "advance ok content (rb_count (tailBuffer vf) + count + 4) (used, eof, vf, w)
      (used2, eof2, ?vf', setLastStatus (WriteSuccessful count) w2)"
    by (rule advance_tail_position, rule advance_mono [OF advance_trans [OF s(4) l(8)]])
      (use l(4) lt in simp)
  moreover have "eof2 + rb_count rb \<le> eof + rb_count (tailBuffer vf) + count + 4"
  proof -
    have "eof2 \<le> eof1 + n" using l(8) by (simp add: advance_def)
    moreover have "n + rb_count rb = length t + count"
      using arg_cong [OF all, of length] l(4) lx by simp
    ultimately show ?thesis using a1(3) lt by simp
  qed
  ultimately show ?thesis using op s(3) sc
    by (intro exI [of _ used2] exI [of _ eof2] exI [of _ ?vf']
        exI [of _ "setLastStatus (WriteSuccessful count) w2"] conjI) simp_all
qed

end

end
