(* ===== verification/Stream_Read.thy ===== *)
theory Stream_Read
  imports Stream_Append
begin

text \<open>
  \<open>read\<close> as a whole: the caller's buffer gets the bytes from the position on, as far as there
  are any, and the file stands for what it stood for before. The first part serves \<open>write\<close> too.
\<close>

subsection \<open>The chunk at a position\<close>

lemma stored_cover:
  assumes "stored bytes sid off m D" "off \<le> pos" "pos < off + length D"
  obtains l k d r where "m = l @ (k, d) # r" "k \<le> pos" "pos < k + chunkPayloadSize d"
proof -
  from assms have "\<exists>l k d r. m = l @ (k, d) # r \<and> k \<le> pos \<and> pos < k + chunkPayloadSize d"
  proof (induction bytes sid off m D rule: stored.induct)
    case (2 bytes sid off k d m D)
    show ?case
    proof (cases "pos < k + chunkPayloadSize d")
      case True
      with "2.prems" have "(k, d) # m = [] @ (k, d) # m \<and> k \<le> pos \<and> pos < k + chunkPayloadSize d" by simp
      then show ?thesis by blast
    next
      case False
      from "2.prems" have "stored bytes sid (off + chunkPayloadSize d) m (drop (chunkPayloadSize d) D)"
        "k = off" "chunkPayloadSize d \<le> length D" by simp_all
      moreover from this False "2.prems"(3) have "off + chunkPayloadSize d \<le> pos"
        "pos < off + chunkPayloadSize d + length (drop (chunkPayloadSize d) D)" by simp_all
      ultimately obtain l k' d' r where "m = l @ (k', d') # r \<and> k' \<le> pos \<and> pos < k' + chunkPayloadSize d'"
        using "2.IH" by blast
      then have "(k, d) # m = ((k, d) # l) @ (k', d') # r \<and> k' \<le> pos \<and> pos < k' + chunkPayloadSize d'" by simp
      then show ?thesis by blast
    qed
  qed simp
  then show thesis using that by blast
qed

lemma chunk_at_position:
  assumes "stored bytes sid 0 m D" "pos < length D"
  obtains k d where "om_prev (om_upper_bound pos m) m = Some k" "om_find k m = Some d" "k \<le> pos"
    "pos < k + chunkPayloadSize d"
proof -
  from assms obtain l k d r where m: "m = l @ (k, d) # r" "k \<le> pos" "pos < k + chunkPayloadSize d"
    by (auto elim: stored_cover)
  have s: "om_sorted m" using assms(1) by (rule stored_sorted)
  have st: "stored bytes sid (k + chunkPayloadSize d) r (drop (payload_total l + chunkPayloadSize d) D)"
    using assms(1) stored_mid(1) [OF assms(1) [unfolded m(1)]] unfolding m(1) stored_append by (simp add: add.commute)
  have keys: "\<forall>a \<in> om_keys (l @ [(k, d)]). a \<le> pos" "\<forall>b \<in> om_keys r. pos < b"
  proof -
    have "\<forall>a \<in> om_keys l. a < k" using s unfolding m(1) om_sorted_mid by blast
    then show "\<forall>a \<in> om_keys (l @ [(k, d)]). a \<le> pos" using m(2) by auto
    show "\<forall>b \<in> om_keys r. pos < b" using stored_keys [OF st] m(3) by (meson less_le_trans)
  qed
  have nk: "k \<notin> om_keys l" using s unfolding m(1) om_sorted_mid by blast
  have ub: "om_upper_bound pos m = om_begin r" using om_upper_bound_mid [OF keys] by (simp add: m(1))
  have "om_prev (om_begin r) m = Some k"
  proof (cases r)
    case Nil
    then show ?thesis by (simp add: om_begin_def om_prev_def m(1))
  next
    case (Cons p r')
    obtain k2 v where p: "p = (k2, v)" by (cases p)
    have "om_sorted ((l @ [(k, d)]) @ (k2, v) # r')" using s m(1) Cons p by simp
    then have n2: "k2 \<notin> om_keys (l @ [(k, d)])" "k2 \<notin> om_keys r'" unfolding om_sorted_mid by blast+
    have "m = (l @ [(k, d)]) @ (k2, v) # r'" using m(1) Cons p by simp
    then show ?thesis using om_before_mid [OF n2, of v] Cons p by (simp add: om_begin_def om_prev_def)
  qed
  with ub have "om_prev (om_upper_bound pos m) m = Some k" by simp
  moreover have "om_find k m = Some d" using om_find_mid [OF nk] by (simp add: m(1))
  ultimately show thesis using m(2,3) that by blast
qed

text \<open>Without its buffer a file stands for what is in its chunks.\<close>

abbreviation without_chunk :: "virtual_file \<Rightarrow> virtual_file" where
  "without_chunk vf \<equiv> vf\<lparr>currentChunk := None, chunkBufferFlushNeeded := False\<rparr>"

lemma patched_without_chunk [simp]: "patched (without_chunk vf) D = D"
  by (simp add: patched_def)

lemma holds_without_chunk:
  assumes "holds_stored bytes used vf D"
  shows "holds_stored bytes used (without_chunk vf) D"
proof -
  have "buffer_ok (without_chunk vf) D"
    using assms by (simp add: holds_stored_def buffer_ok_def)
  then show ?thesis using assms by (simp add: holds_stored_def file_cells_def)
qed

lemma clean_patched: "\<not> chunkBufferFlushNeeded vf \<Longrightarrow> patched vf D = D"
  by (simp add: patched_def split: option.splits)

lemma file_cells_without_chunk [simp]: "file_cells (without_chunk vf) = file_cells vf"
  by (simp add: file_cells_def start_cells_def)

lemma advance_other_fields:
  "advance ok content n st (used, eof, vf, w) \<Longrightarrow> startChunkIndex vf' = startChunkIndex vf \<Longrightarrow>
   chunkMap vf' = chunkMap vf \<Longrightarrow> currentName vf' = currentName vf \<Longrightarrow>
   currentStreamIdentifier vf' = currentStreamIdentifier vf \<Longrightarrow> advance ok content n st (used, eof, vf', w)"
  using in_order_cong [of vf' vf] by (auto simp: advance_def split: prod.splits)

text \<open>When the buffer's chunk covers a position, the buffer has its bytes.\<close>

lemma buffer_bytes:
  assumes "buffer_ok vf D" "stored bytes sid 0 (chunkMap vf) D" "currentChunk vf = Some k"
    "om_find k (chunkMap vf) = Some d"
  obtains cb where "chunkBuffer vf = Some cb" "length cb = 4096"
    "take (chunkPayloadSize d) cb = take (chunkPayloadSize d) (drop k (patched vf D))"
proof -
  from assms obtain cb where cb: "chunkBuffer vf = Some cb" "length cb = 4096"
    "\<not> chunkBufferFlushNeeded vf \<longrightarrow> take (chunkPayloadSize d) cb = take (chunkPayloadSize d) (drop k D)"
    by (auto simp: buffer_ok_def)
  note b = found_chunk_bounds [OF assms(2,4)]
  have "take (chunkPayloadSize d) cb = take (chunkPayloadSize d) (drop k (patched vf D))"
  proof (cases "chunkBufferFlushNeeded vf")
    case True
    have "length (take (chunkPayloadSize d) cb) = chunkPayloadSize d" using b(2) cb(2) by simp
    moreover have "k \<le> length D" using b(1) by simp
    ultimately show ?thesis
      using True cb(1) assms take_drop_overlay [of k D "take (chunkPayloadSize d) cb"] by (simp add: patched_def)
  qed (use cb(3) clean_patched in simp)
  with that cb show thesis by blast
qed

context storage
begin

lemma locateChunk_law:
  assumes w: "ok (device w)" "in_space content used eof w" "eof < 134217728"
    and h: "holds_stored (content (device w)) used vf D" "length D < 281474976710656"
    and pos: "currentPosition vf < length D"
  obtains (loaded) k d where "locateChunk K vf w = Some (NoStatus, True, vf, w)" "currentChunk vf = Some k"
      "om_find k (chunkMap vf) = Some d" "k \<le> currentPosition vf" "currentPosition vf < k + chunkPayloadSize d"
  | (other) k d w' where "locateChunk K vf w = Some (NoStatus, False, (without_chunk vf)\<lparr>currentChunk := Some k\<rparr>, w')"
      "om_find k (chunkMap vf) = Some d" "k \<le> currentPosition vf" "currentPosition vf < k + chunkPayloadSize d"
      "holds_stored (content (device w')) used (without_chunk vf) (patched vf D)"
      "advance ok content 0 (used, eof, vf, w) (used, eof, without_chunk vf, w')"
proof -
  have st: "stored (content (device w)) (currentStreamIdentifier vf) 0 (chunkMap vf) D" and b: "buffer_ok vf D"
    using h(1) by (simp_all add: holds_stored_def)
  from chunk_at_position [OF st pos] obtain k d where
    k: "om_prev (om_upper_bound (currentPosition vf) (chunkMap vf)) (chunkMap vf) = Some k"
      "om_find k (chunkMap vf) = Some d" "k \<le> currentPosition vf" "currentPosition vf < k + chunkPayloadSize d" .
  have "\<exists>w'. (if chunkBufferFlushNeeded vf then do {
            assertion (currentChunk vf \<noteq> None);
            assertion (chunkBuffer vf \<noteq> None);
            flushChunkBuffer K vf w
          } else Some (NoStatus, vf, w)) = Some (NoStatus, vf\<lparr>chunkBufferFlushNeeded := False\<rparr>, w') \<and>
      holds_stored (content (device w')) used (vf\<lparr>chunkBufferFlushNeeded := False\<rparr>) (patched vf D) \<and>
      advance ok content 0 (used, eof, vf, w) (used, eof, vf\<lparr>chunkBufferFlushNeeded := False\<rparr>, w')"
  proof (cases "chunkBufferFlushNeeded vf")
    case True
    with b have "currentChunk vf \<noteq> None" "chunkBuffer vf \<noteq> None" by (auto simp: buffer_ok_def split: option.splits)
    with flushChunkBuffer_law [OF w h True] True show ?thesis by (auto simp: assertion_def)
  next
    case False
    then have id: "vf\<lparr>chunkBufferFlushNeeded := False\<rparr> = vf" by (cases vf) simp
    show ?thesis unfolding id using False h(1) w by (simp add: clean_patched advance_refl)
  qed
  then obtain w' where f: "(if chunkBufferFlushNeeded vf then do {
            assertion (currentChunk vf \<noteq> None);
            assertion (chunkBuffer vf \<noteq> None);
            flushChunkBuffer K vf w
          } else Some (NoStatus, vf, w)) = Some (NoStatus, vf\<lparr>chunkBufferFlushNeeded := False\<rparr>, w')"
      "holds_stored (content (device w')) used (vf\<lparr>chunkBufferFlushNeeded := False\<rparr>) (patched vf D)"
      "advance ok content 0 (used, eof, vf, w) (used, eof, vf\<lparr>chunkBufferFlushNeeded := False\<rparr>, w')" by blast
  have n: "(without_chunk vf)\<lparr>currentChunk := Some k\<rparr> = vf\<lparr>chunkBufferFlushNeeded := False, currentChunk := Some k\<rparr>"
    "without_chunk (vf\<lparr>chunkBufferFlushNeeded := False\<rparr>) = without_chunk vf" by simp_all
  have h2: "holds_stored (content (device w')) used (without_chunk vf) (patched vf D)"
    using holds_without_chunk [OF f(2)] unfolding n(2) .
  have a2: "advance ok content 0 (used, eof, vf, w) (used, eof, without_chunk vf, w')"
    by (rule advance_other_fields [OF f(3)]) (simp_all add: file_cells_def start_cells_def)
  show thesis
  proof (cases "currentChunk vf")
    case None
    then have "locateChunk K vf w = Some (NoStatus, False, (without_chunk vf)\<lparr>currentChunk := Some k\<rparr>, w')"
      unfolding locateChunk_def f(1) n(1) using k(1) by simp
    with other k h2 a2 show ?thesis by blast
  next
    case (Some k0)
    with b obtain d0 where d0: "om_find k0 (chunkMap vf) = Some d0" by (auto simp: buffer_ok_def)
    have u: "u64 (k0 + chunkPayloadSize d0) = k0 + chunkPayloadSize d0"
      using found_chunk_bounds(1) [OF st d0] h(2) by (simp add: u64_id)
    show ?thesis
    proof (cases "k0 \<le> currentPosition vf \<and> currentPosition vf < k0 + chunkPayloadSize d0")
      case True
      then have "locateChunk K vf w = Some (NoStatus, True, vf, w)"
        using Some d0 u by (simp add: locateChunk_def)
      with loaded Some d0 True show ?thesis by blast
    next
      case False
      then have "currentPosition vf < k0 \<or> k0 + chunkPayloadSize d0 \<le> currentPosition vf" by linarith
      then have "locateChunk K vf w = Some (NoStatus, False, (without_chunk vf)\<lparr>currentChunk := Some k\<rparr>, w')"
        unfolding locateChunk_def f(1) n(1) using k(1) Some d0 u by simp
      with other k h2 a2 show ?thesis by blast
    qed
  qed
qed

text \<open>A chunk of the stream is loaded into whatever the segments point at.\<close>

lemma load_chunk_law:
  assumes w: "ok (device w)" "in_space content used eof w" "eof < 134217728"
    and h: "holds_stored (content (device w)) used vf D" "length D < 281474976710656"
    and d: "om_find k (chunkMap vf) = Some d"
    and new: "StreamDataChunk (junk w) (chunkStartingIndex d) (currentStreamIdentifier vf) k = Some c0"
      "setChunkSize maximumChunkSize c0 = (best, c)"
    and dst: "chunkPayloadSize d \<le> total_length ss"
      "scatter mem ss (take (chunkPayloadSize d) (drop k D)) = Some mem'"
  obtains c' dv where "StreamDataChunk_load K True (c\<lparr>scatterGatherList := ss,
      currentScatterGatherListByteCount := tot\<rparr>) mem w = Some (NoStatus, c', mem', w\<lparr>device := dv\<rparr>)"
    "ok dv" "content dv = content (device w)" "streamIdentifier c' = currentStreamIdentifier vf" "chunkOffset c' = k"
    "scatterGatherList c' = processed (chunkPayloadSize d) ss"
proof -
  have st: "stored (content (device w)) (currentStreamIdentifier vf) 0 (chunkMap vf) D"
    using h(1) by (simp add: holds_stored_def)
  from found_chunk [OF st d] obtain l r where m: "chunkMap vf = l @ (k, d) # r" "k = payload_total l"
    "k + chunkPayloadSize d \<le> length D" "chunkPayloadSize d \<le> 4082" .
  let ?p = "take (chunkPayloadSize d) (drop k D)"
  have lp: "length ?p = chunkPayloadSize d" using m(3) by simp
  have at: "data_chunk_at (content (device w)) (chunkStartingIndex d) (currentStreamIdentifier vf) k ?p"
    using stored_mid(5) [OF st [unfolded m(1)]] m(2) by simp
  from StreamDataChunk_establishes [where uninit = "junk w" and index = "chunkStartingIndex d"
      and sid = "currentStreamIdentifier vf" and offset = k] new(1) have
    c0: "length (header c0) = 14" "currentFileIndex c0 = chunkStartingIndex d" by (metis option.inject)+
  have "maximumChunkSize < 4294967296" by simp
  note c = setChunkSize_fields [OF c0(1) this new(2)]
  let ?c = "c\<lparr>scatterGatherList := ss, currentScatterGatherListByteCount := tot\<rparr>"
  have lim: "length (content (device w)) \<le> storage_limit"
    using w(2,3) space_limit by (simp add: in_space_def)
  have pre: "length (header ?c) = 14" "data_chunk_at (content (device w)) (currentFileIndex ?c) (currentStreamIdentifier vf) k ?p"
    "scatterGatherList ?c = [] \<and> mem' = mem \<or> length ?p \<le> total_length (scatterGatherList ?c) \<and>
      scatter mem (scatterGatherList ?c) ?p = Some mem'"
    using c c0 at dst lp by simp_all
  from StreamDataChunk_load_law [OF w(1) lim pre] obtain dv where
    l: "StreamDataChunk_load K True ?c mem w = Some (NoStatus,
        ?c\<lparr>header := take 14 (drop (32 * currentFileIndex ?c) (content (device w))),
          scatterGatherList := processed (length ?p) (scatterGatherList ?c)\<rparr>, mem', w\<lparr>device := dv\<rparr>)"
      "ok dv" "content dv = content (device w)" .
  let ?c' = "?c\<lparr>header := take 14 (drop (32 * currentFileIndex ?c) (content (device w))),
          scatterGatherList := processed (length ?p) (scatterGatherList ?c)\<rparr>"
  have "header ?c' = header (stored_header 14 (content (device w)) (currentFileIndex ?c))"
    by (simp add: stored_header_def)
  note f = fields_of_header [OF this]
  have "streamIdentifier ?c' = currentStreamIdentifier vf" "chunkOffset ?c' = k"
    using pre(2) unfolding f data_chunk_at_def Let_def by blast+
  then show thesis using that [OF l] lp by simp
qed

end

context storage
begin

lemma loadChunkIntoBuffer_law:
  fixes vf0 :: virtual_file
  defines "vf \<equiv> without_chunk vf0"
  assumes w: "ok (device w)" "in_space content used eof w" "eof < 134217728"
    and h: "holds_stored (content (device w)) used vf D" "length D < 281474976710656"
    and d: "om_find k (chunkMap vf) = Some d"
  obtains cb dv where "loadChunkIntoBuffer K (vf\<lparr>currentChunk := Some k\<rparr>) w =
      Some (NoStatus, vf\<lparr>currentChunk := Some k, chunkBuffer := Some cb\<rparr>, w\<lparr>device := dv\<rparr>)"
    "ok dv" "content dv = content (device w)" "length cb = 4096"
    "take (chunkPayloadSize d) cb = take (chunkPayloadSize d) (drop k D)"
    "holds_stored (content dv) used (vf\<lparr>currentChunk := Some k, chunkBuffer := Some cb\<rparr>) D"
proof -
  have st: "stored (content (device w)) (currentStreamIdentifier vf) 0 (chunkMap vf) D" and b: "buffer_ok vf D"
    and cont: "currentContainer vf" using h(1) by (simp_all add: holds_stored_def)
  let ?n = "chunkPayloadSize d"
  let ?p = "take ?n (drop k D)"
  note fb = found_chunk_bounds [OF st d]
  have lp: "length ?p = ?n" using fb(1) by simp
  define cb0 where "cb0 = (case chunkBuffer vf of None \<Rightarrow> new_array (junk w) 4096 | Some cb \<Rightarrow> cb)"
  have l0: "length cb0 = 4096"
    using b by (auto simp: cb0_def buffer_ok_def new_array_def split: option.splits)
  let ?vf1 = "vf\<lparr>currentChunk := Some k, chunkBuffer := Some cb0\<rparr>"
  have vf1: "(if chunkBuffer (vf\<lparr>currentChunk := Some k\<rparr>) = None
      then vf\<lparr>currentChunk := Some k, chunkBuffer := Some (new_array (junk w) chunkBufferSize)\<rparr>
      else vf\<lparr>currentChunk := Some k\<rparr>) = ?vf1"
    by (cases "chunkBuffer vf"; cases vf) (simp_all add: cb0_def)
  let ?cb = "overlay cb0 0 ?p"
  let ?mem = "(vf_memory [] ?vf1)(ChunkBuffer := ?cb)"
  have ne: "?p \<noteq> []" using lp fb(3) by fastforce
  have sc: "scatter (vf_memory [] ?vf1) [seg (Ptr ChunkBuffer 0) ?n] ?p = Some ?mem"
    using ne lp l0 fb(2) by (simp add: store_bytes_def vf_memory_def)
  from StreamDataChunk_establishes [where uninit = "junk w" and index = "chunkStartingIndex d"
      and sid = "currentStreamIdentifier vf" and offset = k] obtain c0 where
    c0: "StreamDataChunk (junk w) (chunkStartingIndex d) (currentStreamIdentifier vf) k = Some c0"
      "length (header c0) = 14" "scatterGatherList c0 = []" "currentScatterGatherListByteCount c0 = 0" .
  obtain best c where set: "setChunkSize maximumChunkSize c0 = (best, c)" by (metis surj_pair)
  have "maximumChunkSize < 4294967296" by simp
  note c = setChunkSize_fields [OF c0(2) this set]
  have tot: "?n \<le> total_length [seg (Ptr ChunkBuffer 0) ?n]" by simp
  from load_chunk_law [OF w h d c0(1) set tot sc, where tot = ?n] obtain c' dv where
    l: "StreamDataChunk_load K True (c\<lparr>scatterGatherList := [seg (Ptr ChunkBuffer 0) ?n],
        currentScatterGatherListByteCount := ?n\<rparr>) (vf_memory [] ?vf1) w = Some (NoStatus, c', ?mem, w\<lparr>device := dv\<rparr>)"
      "ok dv" "content dv = content (device w)" "streamIdentifier c' = currentStreamIdentifier vf" "chunkOffset c' = k"
      "scatterGatherList c' = processed ?n [seg (Ptr ChunkBuffer 0) ?n]" .
  have cnt: "currentProcessedCount (scatterGatherListSegment 0 c') = ?n"
    using fb(3) by (simp add: scatterGatherListSegment_def l(6))
  have op: "loadChunkIntoBuffer K (vf\<lparr>currentChunk := Some k\<rparr>) w =
      Some (NoStatus, vf\<lparr>currentChunk := Some k, chunkBuffer := Some ?cb\<rparr>, w\<lparr>device := dv\<rparr>)"
    unfolding loadChunkIntoBuffer_def Let_def vf1
    using d c0 set c(7,8) l cnt cont fb(2) by (simp add: add_segment u32_id vf1)
  have lcb: "length ?cb = 4096" "take ?n ?cb = ?p" using l0 lp fb(2) by (simp_all add: overlay_def min_def)
  have "holds_stored (content dv) used (vf\<lparr>currentChunk := Some k, chunkBuffer := Some ?cb\<rparr>) D"
  proof -
    have nf: "\<not> chunkBufferFlushNeeded vf" by (simp add: vf_def)
    have "buffer_ok (vf\<lparr>currentChunk := Some k, chunkBuffer := Some ?cb\<rparr>) D"
      using lcb d by (simp add: buffer_ok_def)
    then show ?thesis using h(1) unfolding l(3) by (simp add: holds_stored_def file_cells_def)
  qed
  with that [OF op l(2,3) lcb] show thesis by simp
qed

lemma read_direct_law:
  fixes vf0 :: virtual_file
  defines "vf \<equiv> without_chunk vf0"
  assumes w: "ok (device w)" "in_space content used eof w" "eof < 134217728"
    and h: "holds_stored (content (device w)) used vf D" "length D < 281474976710656"
    and d: "om_find k (chunkMap vf) = Some d" "k \<le> currentPosition vf" "currentPosition vf < k + chunkPayloadSize d"
    and n: "n = k + chunkPayloadSize d - currentPosition vf" "off + n \<le> length caller"
  obtains vf' dv where "read_direct K k d off caller (vf\<lparr>currentChunk := Some k\<rparr>) w =
      Some (NoStatus, n, overlay caller off (take n (drop (currentPosition vf) D)), vf', w\<lparr>device := dv\<rparr>)"
    "ok dv" "content dv = content (device w)" "holds_stored (content dv) used vf' D"
    "\<exists>cb. vf' = vf\<lparr>chunkBuffer := cb\<rparr>"
proof -
  have st: "stored (content (device w)) (currentStreamIdentifier vf) 0 (chunkMap vf) D" and b: "buffer_ok vf D"
    and cont: "currentContainer vf" using h(1) by (simp_all add: holds_stored_def)
  let ?n = "chunkPayloadSize d" and ?pos = "currentPosition vf"
  let ?p = "take ?n (drop k D)" and ?x = "take n (drop ?pos D)"
  note fb = found_chunk_bounds [OF st d(1)]
  have lp: "length ?p = ?n" using fb(1) by simp
  have nz: "0 < n" "n \<le> ?n" "?pos - k + n = ?n" using d n by simp_all
  have dx: "drop (?pos - k) ?p = ?x"
  proof -
    have "?n - (?pos - k) = n" "?pos - k + k = ?pos" using d(2) nz(3) by simp_all
    then show ?thesis by (simp only: drop_take drop_drop)
  qed
  have u: "u64 (k + ?n) = k + ?n" "sub64 (k + ?n) ?pos = n" "u32 n = n" "sub64 ?pos k = ?pos - k"
    "u32 (?pos - k) = ?pos - k" "u32 ?n = ?n"
    using fb h(2) d n nz by (simp_all add: u64_id sub64_id u32_id)
  from StreamDataChunk_establishes [where uninit = "junk w" and index = "chunkStartingIndex d"
      and sid = "currentStreamIdentifier vf" and offset = k] obtain c0 where
    c0: "StreamDataChunk (junk w) (chunkStartingIndex d) (currentStreamIdentifier vf) k = Some c0"
      "length (header c0) = 14" "scatterGatherList c0 = []" "currentScatterGatherListByteCount c0 = 0" .
  obtain best c where set: "setChunkSize maximumChunkSize c0 = (best, c)" by (metis surj_pair)
  have "maximumChunkSize < 4294967296" by simp
  note c = setChunkSize_fields [OF c0(2) this set]
  have nf: "vf\<lparr>currentChunk := None\<rparr> = vf" "vf\<lparr>chunkBuffer := cb, currentChunk := None\<rparr> = vf\<lparr>chunkBuffer := cb\<rparr>" for cb
    by (cases vf0; simp add: vf_def)+
  have keep: "holds_stored (content dv) used (vf\<lparr>chunkBuffer := cb\<rparr>) D"
    if "content dv = content (device w)" "\<And>bs. cb = Some bs \<Longrightarrow> length bs = 4096" for dv cb
  proof -
    have "buffer_ok (vf\<lparr>chunkBuffer := cb\<rparr>) D" using that(2) by (simp add: buffer_ok_def vf_def)
    then show ?thesis using h(1) unfolding that(1) by (simp add: holds_stored_def file_cells_def)
  qed
  show thesis
  proof (cases "?pos = k")
    case True
    then have nn: "n = ?n" "?x = ?p" using nz(3) by simp_all
    have ne: "?p \<noteq> []" using lp fb(3) by fastforce
    let ?caller = "overlay caller off ?p"
    let ?mem = "(vf_memory caller (vf\<lparr>currentChunk := Some k\<rparr>))(CallerBuffer := ?caller)"
    have sc: "scatter (vf_memory caller (vf\<lparr>currentChunk := Some k\<rparr>)) [seg (Ptr CallerBuffer off) ?n] ?p = Some ?mem"
      using ne lp n(2) nn by (simp add: store_bytes_def vf_memory_def)
    have tot: "?n \<le> total_length [seg (Ptr CallerBuffer off) ?n]" by simp
    from load_chunk_law [OF w h d(1) c0(1) set tot sc, where tot = ?n] obtain c' dv where
      l: "StreamDataChunk_load K True (c\<lparr>scatterGatherList := [seg (Ptr CallerBuffer off) ?n],
          currentScatterGatherListByteCount := ?n\<rparr>) (vf_memory caller (vf\<lparr>currentChunk := Some k\<rparr>)) w =
          Some (NoStatus, c', ?mem, w\<lparr>device := dv\<rparr>)"
        "ok dv" "content dv = content (device w)" "streamIdentifier c' = currentStreamIdentifier vf" "chunkOffset c' = k"
        "scatterGatherList c' = processed ?n [seg (Ptr CallerBuffer off) ?n]" .
    have cnt: "u32 (sum_list (map currentProcessedCount (scatterGatherList c'))) = ?n"
      using fb(3) u(6) by (simp add: l(6))
    have id: "chunkBuffer vf = None \<Longrightarrow> vf\<lparr>chunkBuffer := None\<rparr> = vf"
      "chunkBuffer vf = Some cb \<Longrightarrow> vf\<lparr>chunkBuffer := Some cb\<rparr> = vf" for cb by (cases vf; simp)+
    have same: "(if chunkBuffer vf = None then vf\<lparr>currentChunk := Some k\<rparr>
        else vf\<lparr>currentChunk := Some k, chunkBuffer := Some (?mem ChunkBuffer)\<rparr>) = vf\<lparr>currentChunk := Some k\<rparr>"
      by (cases "chunkBuffer vf"; cases vf) (simp_all add: vf_memory_def)
    have "read_direct K k d off caller (vf\<lparr>currentChunk := Some k\<rparr>) w =
        Some (NoStatus, n, overlay caller off ?x, vf\<lparr>chunkBuffer := chunkBuffer vf\<rparr>, w\<lparr>device := dv\<rparr>)"
      using c0 set c(7,8) l cnt cont u True nn nf same by (simp add: read_direct_def add_segment Let_def)
    moreover have "holds_stored (content dv) used (vf\<lparr>chunkBuffer := chunkBuffer vf\<rparr>) D"
      by (rule keep [OF l(3)]) (use b in \<open>simp add: buffer_ok_def\<close>)
    ultimately show ?thesis using that l(2,3) by blast
  next
    case False
    then have kp: "0 < ?pos - k" using d(2) by simp
    define cb0 where "cb0 = (case chunkBuffer vf of None \<Rightarrow> new_array (junk w) 4096 | Some cb \<Rightarrow> cb)"
    have l0: "length cb0 = 4096"
      using b by (auto simp: cb0_def buffer_ok_def new_array_def split: option.splits)
    let ?vf1 = "vf\<lparr>currentChunk := Some k, chunkBuffer := Some cb0\<rparr>"
    have vf1: "(if chunkBuffer (vf\<lparr>currentChunk := Some k\<rparr>) = None
        then vf\<lparr>currentChunk := Some k, chunkBuffer := Some (new_array (junk w) chunkBufferSize)\<rparr>
        else vf\<lparr>currentChunk := Some k\<rparr>) = ?vf1"
      by (cases "chunkBuffer vf"; cases vf) (simp_all add: cb0_def)
    let ?a = "take (?pos - k) ?p"
    let ?cb = "overlay cb0 0 ?a" and ?caller = "overlay caller off ?x"
    let ?mem = "(vf_memory caller ?vf1)(ChunkBuffer := ?cb, CallerBuffer := ?caller)"
    let ?ss = "[seg (Ptr ChunkBuffer 0) (?pos - k), seg (Ptr CallerBuffer off) n]"
    have la: "length ?a = ?pos - k" "length ?x = n" using nz fb(1) d by simp_all
    have ne: "?p \<noteq> []" "?a \<noteq> []" "?x \<noteq> []" using lp fb(3) la kp nz(1) by force+
    have small: "?pos - k \<le> 4096" "(?n = 0) = False" using fb(2,3) nz by simp_all
    have sc: "scatter (vf_memory caller ?vf1) ?ss ?p = Some ?mem"
      using ne la l0 n(2) dx small by (simp add: min.coboundedI2 store_bytes_def vf_memory_def fun_upd_twist)
    have tot: "?n \<le> total_length ?ss" using nz by simp
    from load_chunk_law [OF w h d(1) c0(1) set tot sc, where tot = ?n] obtain c' dv where
      l: "StreamDataChunk_load K True (c\<lparr>scatterGatherList := ?ss,
          currentScatterGatherListByteCount := ?n\<rparr>) (vf_memory caller ?vf1) w =
          Some (NoStatus, c', ?mem, w\<lparr>device := dv\<rparr>)"
        "ok dv" "content dv = content (device w)" "streamIdentifier c' = currentStreamIdentifier vf" "chunkOffset c' = k"
        "scatterGatherList c' = processed ?n ?ss" .
    have "sum_list (map currentProcessedCount (processed ?n ?ss)) = ?n"
      by (rule processed_counts [OF tot]) simp
    then have cnt: "u32 (sum_list (map currentProcessedCount (scatterGatherList c'))) = ?n"
      using u(6) by (simp only: l(6))
    have lcb: "length ?cb = 4096" using l0 la fb(2) nz by simp
    have "read_direct K k d off caller (vf\<lparr>currentChunk := Some k\<rparr>) w =
        Some (NoStatus, n, overlay caller off ?x, vf\<lparr>chunkBuffer := Some ?cb\<rparr>, w\<lparr>device := dv\<rparr>)"
      using c0 set c(7,8) l cnt cont u False nz nf vf1 by (simp add: read_direct_def add_segment Let_def)
    moreover have "holds_stored (content dv) used (vf\<lparr>chunkBuffer := Some ?cb\<rparr>) D"
      by (rule keep [OF l(3)]) (metis lcb option.inject)
    ultimately show ?thesis using that l(2,3) by blast
  qed
qed

end


lemma file_cells_position [simp]: "file_cells (vf\<lparr>currentPosition := p\<rparr>) = file_cells vf"
  by (simp add: file_cells_def)

text \<open>A part of a chunk that is in the buffer.\<close>

lemma part_of_chunk:
  assumes "take m cb = take m (drop k P)" "k \<le> pos" "pos + n \<le> k + m"
  shows "take n (drop (pos - k) cb) = take n (drop pos P)"
proof -
  have "take n (drop (pos - k) (take m cb)) = take n (drop (pos - k) (take m (drop k P)))"
    by (simp only: assms(1))
  moreover have "n \<le> m - (pos - k)" "pos - k + k = pos" using assms(2,3) by simp_all
  ultimately show ?thesis by (simp add: drop_take min_absorb1)
qed

lemma copy_from_chunk_buffer_eq:
  fixes vf :: virtual_file
  assumes "chunkBuffer vf = Some cb" "length cb = 4096" "take m cb = take m (drop k P)" "m \<le> 4082" "k + m \<le> length P"
    and "length P < 281474976710656"
    and "k \<le> currentPosition vf" "currentPosition vf + n \<le> k + m" "0 < n" "off + n \<le> length caller"
  shows "copy_from_chunk_buffer k off n caller vf = Some (overlay caller off (take n (drop (currentPosition vf) P)))"
proof -
  let ?x = "take n (drop (currentPosition vf) P)"
  have x: "take n (drop (currentPosition vf - k) cb) = ?x" by (rule part_of_chunk [OF assms(3,7,8)])
  have "sub64 (currentPosition vf) k = currentPosition vf - k" using assms by (intro sub64_id) simp_all
  moreover have "length ?x = n" using assms by simp
  moreover from this have "?x \<noteq> []" using assms(9) by fastforce
  ultimately show ?thesis
    using assms(1,2,4,7-10) x by (simp add: copy_from_chunk_buffer_def load_bytes_def store_bytes_def vf_memory_def)
qed

lemma holds_seek:
  "holds_stored bytes used vf D \<Longrightarrow> patched vf D = P \<Longrightarrow>
   holds_stored bytes used (vf\<lparr>currentPosition := p\<rparr>) D \<and> patched (vf\<lparr>currentPosition := p\<rparr>) D = P"
  by simp

lemma advance_content:
  assumes "advance ok content n st (used, eof, vf, w)" "ok dv" "content dv = content (device w)"
  shows "advance ok content n st (used, eof, vf, w\<lparr>device := dv\<rparr>)"
  by (rule advance_world [OF assms(1) same_container_updates(3)]) (use assms in simp_all)

context storage
begin

lemma read_step_law:
  assumes w: "ok (device w)" "in_space content used eof w" "eof < 134217728"
    and h: "holds_stored (content (device w)) used vf D" "length D < 281474976710656"
    and pos: "currentPosition vf < length D" "currentPosition vf + m < 281474976710656"
    and m: "0 < m" "m < 4294967295" "off + m \<le> length caller"
  shows "\<exists>n D' vf' w'. read_step K (currentPosition vf + m) off m caller vf w =
      Some (NoStatus, off + n, m - n, overlay caller off (take n (drop (currentPosition vf) (patched vf D))), vf', w') \<and>
    0 < n \<and> n \<le> m \<and> currentPosition vf + n \<le> length D \<and>
    holds_stored (content (device w')) used vf' D' \<and> patched vf' D' = patched vf D \<and>
    currentPosition vf' = currentPosition vf + n \<and> tailBuffer vf' = tailBuffer vf \<and>
    advance ok content 0 (used, eof, vf, w) (used, eof, vf', w')"
proof -
  let ?pos = "currentPosition vf" and ?P = "patched vf D"
  have st: "stored (content (device w)) (currentStreamIdentifier vf) 0 (chunkMap vf) D" and b: "buffer_ok vf D"
    using h(1) by (simp_all add: holds_stored_def)
  have lP: "length ?P = length D" by (rule length_patched [OF st b])
  have ids: "u64 (k + chunkPayloadSize d) = k + chunkPayloadSize d"
      "u32 (sub64 (k + chunkPayloadSize d) ?pos) = k + chunkPayloadSize d - ?pos"
    if "om_find k (chunkMap vf) = Some d" "k \<le> ?pos" "?pos < k + chunkPayloadSize d" for k d
    using found_chunk_bounds [OF st that(1)] that h(2) by (simp_all add: u64_id sub64_id u32_id)
  show ?thesis
  proof (cases rule: locateChunk_law [OF w h pos(1), case_names loaded other])
    case (loaded k d)
    note fb = found_chunk_bounds [OF st loaded(3)]
    from buffer_bytes [OF b st loaded(2,3)] obtain cb where cb: "chunkBuffer vf = Some cb" "length cb = 4096"
      "take (chunkPayloadSize d) cb = take (chunkPayloadSize d) (drop k ?P)" .
    define n where "n = min m (k + chunkPayloadSize d - ?pos)"
    let ?vf = "vf\<lparr>currentPosition := ?pos + n\<rparr>"
    have n: "0 < n" "?pos + n \<le> k + chunkPayloadSize d" "off + n \<le> length caller" "n \<le> m"
      "?pos + n \<le> length D" using m loaded(4,5) fb(1) by (simp_all add: n_def)
    have kl: "k + chunkPayloadSize d \<le> length ?P" "length ?P < 281474976710656" using fb(1) lP h(2) by simp_all
    note cp = copy_from_chunk_buffer_eq [OF cb fb(2) kl loaded(4) n(2,1,3)]
    have "read_step K (?pos + m) off m caller vf w =
        Some (NoStatus, off + n, m - n, overlay caller off (take n (drop ?pos ?P)), ?vf, w)"
    proof -
      have "m < k + chunkPayloadSize d - ?pos \<Longrightarrow> n = m" "\<not> m < k + chunkPayloadSize d - ?pos \<Longrightarrow> n = k + chunkPayloadSize d - ?pos"
        by (simp_all add: n_def)
      moreover have "n \<noteq> 4294967295" "sub32 m n = m - n" "u64 (?pos + n) = ?pos + n"
        using m(2) n(4,5) h(2) by (simp_all add: sub32_id u64_id)
      ultimately show ?thesis
        using loaded ids [OF loaded(3-5)] cp
        by (cases "m < k + chunkPayloadSize d - ?pos") (simp_all add: read_step_def Let_def)
    qed
    moreover have "advance ok content 0 (used, eof, vf, w) (used, eof, ?vf, w)"
      by (rule advance_other_fields [OF advance_refl [of ok w content used eof 0 vf]])
        (use w in simp_all)
    ultimately show ?thesis using holds_seek [OF h(1) refl] n
      by (intro exI [of _ n] exI [of _ D] exI [of _ ?vf] exI [of _ w] conjI) simp_all
  next
    case (other k d w1)
    let ?v = "without_chunk vf"
    from other(6) have a: "ok (device w1)" "in_space content used eof w1" by (simp_all add: advance_def)
    have st1: "stored (content (device w1)) (currentStreamIdentifier vf) 0 (chunkMap vf) ?P"
      using other(5) by (simp add: holds_stored_def)
    have lP': "length ?P < 281474976710656" using lP h(2) by simp
    have d1: "om_find k (chunkMap ?v) = Some d" "k \<le> currentPosition ?v" "currentPosition ?v < k + chunkPayloadSize d"
      using other(2-4) by simp_all
    note fb = found_chunk_bounds [OF st other(2)]
    show ?thesis
    proof (cases "?pos + m > k + chunkPayloadSize d")
      case True
      let ?n = "k + chunkPayloadSize d - ?pos"
      have n: "0 < ?n" "off + ?n \<le> length caller" "?n \<le> m" "?pos + ?n \<le> length D"
        using m True other(3,4) fb(1) by simp_all
      have n2: "?n = k + chunkPayloadSize d - currentPosition ?v" by simp
      from read_direct_law [OF a w(3) other(5) lP' d1 n2 n(2)] obtain v' dv where
        r: "read_direct K k d off caller (?v\<lparr>currentChunk := Some k\<rparr>) w1 =
          Some (NoStatus, ?n, overlay caller off (take ?n (drop ?pos ?P)), v', w1\<lparr>device := dv\<rparr>)"
          "ok dv" "content dv = content (device w1)" "holds_stored (content dv) used v' ?P"
          "\<exists>cb. v' = ?v\<lparr>chunkBuffer := cb\<rparr>" by auto
      from r(5) obtain cb where v': "v' = ?v\<lparr>chunkBuffer := cb\<rparr>" by blast
      have vf: "currentPosition v' = ?pos" "tailBuffer v' = tailBuffer vf" "patched v' ?P = ?P" "startChunkIndex v' = startChunkIndex vf"
        "currentName v' = currentName vf" "currentStreamIdentifier v' = currentStreamIdentifier vf" "chunkMap v' = chunkMap vf"
        by (simp_all add: v' patched_def file_cells_def start_cells_def)
      let ?vf = "v'\<lparr>currentPosition := ?pos + ?n\<rparr>" and ?w = "w1\<lparr>device := dv\<rparr>"
      have "read_step K (?pos + m) off m caller vf w =
          Some (NoStatus, off + ?n, m - ?n, overlay caller off (take ?n (drop ?pos ?P)), ?vf, ?w)"
      proof -
        have "?n \<noteq> 4294967295" "sub32 m ?n = m - ?n" "u64 (?pos + ?n) = ?pos + ?n"
          using m(2) n(3,4) h(2) by (simp_all add: sub32_id u64_id)
        then show ?thesis
          using other(1,2) ids(1) [OF other(2-4)] True r(1) vf(1) by (simp add: read_step_def Let_def)
      qed
      moreover have "advance ok content 0 (used, eof, vf, w) (used, eof, ?vf, ?w)"
        by (rule advance_other_fields [OF advance_content [OF other(6) r(2,3)]])
          (use vf in simp_all)
      ultimately show ?thesis using holds_seek [OF r(4) vf(3)] n vf r(4)
        by (intro exI [of _ ?n] exI [of _ ?P] exI [of _ ?vf] exI [of _ ?w] conjI) simp_all
    next
      case False
      from loadChunkIntoBuffer_law [OF a w(3) other(5) lP' d1(1)] obtain cb dv where
        l: "loadChunkIntoBuffer K (?v\<lparr>currentChunk := Some k\<rparr>) w1 =
            Some (NoStatus, ?v\<lparr>currentChunk := Some k, chunkBuffer := Some cb\<rparr>, w1\<lparr>device := dv\<rparr>)"
          "ok dv" "content dv = content (device w1)" "length cb = 4096"
          "take (chunkPayloadSize d) cb = take (chunkPayloadSize d) (drop k ?P)"
          "holds_stored (content dv) used (?v\<lparr>currentChunk := Some k, chunkBuffer := Some cb\<rparr>) ?P" .
      define v' where "v' = ?v\<lparr>currentChunk := Some k, chunkBuffer := Some cb\<rparr>"
      have vf: "currentPosition v' = ?pos" "tailBuffer v' = tailBuffer vf" "patched v' ?P = ?P" "startChunkIndex v' = startChunkIndex vf"
        "currentName v' = currentName vf" "currentStreamIdentifier v' = currentStreamIdentifier vf" "chunkBuffer v' = Some cb"
        "chunkMap v' = chunkMap vf"
        by (simp_all add: v'_def patched_def file_cells_def start_cells_def)
      let ?vf = "v'\<lparr>currentPosition := ?pos + m\<rparr>" and ?w = "w1\<lparr>device := dv\<rparr>"
      have n: "?pos + m \<le> length D" using False fb(1) by simp
      have kl: "k + chunkPayloadSize d \<le> length ?P" "k \<le> currentPosition v'" "currentPosition v' + m \<le> k + chunkPayloadSize d"
        using fb(1) lP vf(1) other(3) False by simp_all
      note cp = copy_from_chunk_buffer_eq [OF vf(7) l(4,5) fb(2) kl(1) lP' kl(2,3) m(1,3), unfolded vf(1)]
      have "read_step K (?pos + m) off m caller vf w =
          Some (NoStatus, off + m, m - m, overlay caller off (take m (drop ?pos ?P)), ?vf, ?w)"
      proof -
        have "m \<noteq> 4294967295" "sub32 m m = 0" "u64 (?pos + m) = ?pos + m"
          "\<not> m < k + chunkPayloadSize d - ?pos \<Longrightarrow> k + chunkPayloadSize d - ?pos = m"
          using m(2) n h(2) False other(3) by (auto simp: sub32_id u64_id)
        then show ?thesis
          using other(1,2) ids [OF other(2-4)] False l(1) [folded v'_def] vf(1) cp
          by (cases "m < k + chunkPayloadSize d - ?pos") (simp_all add: read_step_def Let_def)
      qed
      moreover have "advance ok content 0 (used, eof, vf, w) (used, eof, ?vf, ?w)"
        by (rule advance_other_fields [OF advance_content [OF other(6) l(2,3)]])
          (use vf in simp_all)
      ultimately show ?thesis using holds_seek [OF l(6) [folded v'_def] vf(3)] n vf m(1) l(6) [folded v'_def]
        by (intro exI [of _ m] exI [of _ ?P] exI [of _ ?vf] exI [of _ ?w] conjI) simp_all
    qed
  qed
qed

end


text \<open>Two parts next to each other are one.\<close>

lemma take_take_drop: "take n (drop i xs) @ take m (drop (i + n) xs) = take (n + m) (drop i xs)"
  unfolding take_add drop_drop by (simp only: add.commute)

lemma overlay_next:
  assumes "off \<le> length caller" "i + n \<le> length P"
  shows "overlay (overlay caller off (take n (drop i P))) (off + n) (take m (drop (i + n) P)) =
    overlay caller off (take (n + m) (drop i P))"
proof -
  have "length (take n (drop i P)) = n" using assms(2) by simp
  then show ?thesis
    using overlay_overlay_adjacent [OF assms(1), of "take n (drop i P)" "take m (drop (i + n) P)"]
    by (simp only: take_take_drop)
qed

context storage
begin

lemma read_loop_law:
  assumes "ok (device w)" "in_space content used eof w" "eof < 134217728"
    and "holds_stored (content (device w)) used vf D" "length D < 281474976710656"
    and "currentPosition vf \<le> length D" "currentPosition vf + m < 281474976710656"
    and "m < 4294967295" "off + m \<le> length caller"
  shows "\<exists>n D' vf' w'. read_loop K (currentPosition vf + m) (length D) NoStatus off m caller vf w =
      Some (NoStatus, off + n, m - n, overlay caller off (take n (drop (currentPosition vf) (patched vf D))), vf', w') \<and>
    n = min m (length D - currentPosition vf) \<and>
    holds_stored (content (device w')) used vf' D' \<and> patched vf' D' = patched vf D \<and>
    currentPosition vf' = currentPosition vf + n \<and> tailBuffer vf' = tailBuffer vf \<and>
    advance ok content 0 (used, eof, vf, w) (used, eof, vf', w')"
  using assms
proof (induction m arbitrary: vf w D off caller rule: less_induct)
  case (less m)
  let ?pos = "currentPosition vf" and ?P = "patched vf D"
  show ?case
  proof (cases "0 < m \<and> ?pos < length D")
    case False
    then have "read_loop K (?pos + m) (length D) NoStatus off m caller vf w = Some (NoStatus, off, m, caller, vf, w)"
      by (subst read_loop.simps) auto
    moreover have "0 = min m (length D - ?pos)" using False by auto
    ultimately show ?thesis
      using less.prems by (intro exI [of _ 0] exI [of _ D] exI [of _ vf] exI [of _ w] conjI) (simp_all add: advance_refl)
  next
    case True
    then have pos: "?pos < length D" and m: "0 < m" by simp_all
    from read_step_law [OF less.prems(1-5) pos less.prems(7) m less.prems(8,9)] obtain n D1 vf1 w1 where
      s: "read_step K (?pos + m) off m caller vf w =
          Some (NoStatus, off + n, m - n, overlay caller off (take n (drop ?pos ?P)), vf1, w1)"
        "0 < n" "n \<le> m" "?pos + n \<le> length D" "holds_stored (content (device w1)) used vf1 D1" "patched vf1 D1 = ?P"
        "currentPosition vf1 = ?pos + n" "tailBuffer vf1 = tailBuffer vf"
        "advance ok content 0 (used, eof, vf, w) (used, eof, vf1, w1)" by (elim exE conjE)
    have b: "stored (content (device w)) (currentStreamIdentifier vf) 0 (chunkMap vf) D" "buffer_ok vf D"
      "stored (content (device w1)) (currentStreamIdentifier vf1) 0 (chunkMap vf1) D1" "buffer_ok vf1 D1"
      using less.prems(4) s(5) by (simp_all add: holds_stored_def)
    have lP: "length ?P = length D" by (rule length_patched [OF b(1,2)])
    have l1: "length D1 = length D" using length_patched [OF b(3,4)] s(6) lP by simp
    let ?caller = "overlay caller off (take n (drop ?pos ?P))"
    have "length (take n (drop ?pos ?P)) = n" using s(4) lP by simp
    then have lc: "length ?caller = length caller" using less.prems(9) s(3) by simp
    from s(9) have a: "ok (device w1)" "in_space content used eof w1" by (simp_all add: advance_def)
    have d: "m - n < m" "length D1 < 281474976710656" "currentPosition vf1 \<le> length D1"
      "currentPosition vf1 + (m - n) < 281474976710656" "m - n < 4294967295" "off + n + (m - n) \<le> length ?caller"
      using s(2-4,7) m l1 less.prems(5,7,8,9) lc by simp_all
    have e: "currentPosition vf1 + (m - n) = ?pos + m" "off + n + k = off + (n + k)" for k using s(3,7) by simp_all
    from less.IH [OF d(1) a less.prems(3) s(5) d(2-6), unfolded e(1) l1] obtain k D' vf' w' where
      r: "read_loop K (?pos + m) (length D) NoStatus (off + n) (m - n) ?caller vf1 w1 =
          Some (NoStatus, off + n + k, m - n - k,
            overlay ?caller (off + n) (take k (drop (currentPosition vf1) (patched vf1 D1))), vf', w')"
        "k = min (m - n) (length D - currentPosition vf1)"
        "holds_stored (content (device w')) used vf' D'" "patched vf' D' = patched vf1 D1"
        "currentPosition vf' = currentPosition vf1 + k" "tailBuffer vf' = tailBuffer vf1"
        "advance ok content 0 (used, eof, vf1, w1) (used, eof, vf', w')" by (elim exE conjE)
    have ov: "overlay ?caller (off + n) (take k (drop (?pos + n) ?P)) = overlay caller off (take (n + k) (drop ?pos ?P))"
      by (rule overlay_next) (use less.prems(9) s(4) lP in simp_all)
    have "read_loop K (?pos + m) (length D) NoStatus off m caller vf w =
        Some (NoStatus, off + (n + k), m - (n + k), overlay caller off (take (n + k) (drop ?pos ?P)), vf', w')"
      using True s(1) r(1) ov s(6,7) by (subst read_loop.simps) (simp add: add.assoc)
    moreover have "n + k = min m (length D - ?pos)" using r(2) s(3,4,7) by simp
    moreover have "advance ok content 0 (used, eof, vf, w) (used, eof, vf', w')"
      using advance_trans [OF s(9) r(7)] by simp
    ultimately show ?thesis using r(3-6) s(6-8)
      by (intro exI [of _ "n + k"] exI [of _ D'] exI [of _ vf'] exI [of _ w'] conjI) simp_all
  qed
qed

lemma vf_read_law:
  assumes w: "ok (device w)" "in_space content used eof w" "eof < 134217728"
    and h: "holds (content (device w)) used vf data"
    and pos: "currentPosition vf \<le> length data" "count < 4294967295"
    and m: "m = min count (length data - currentPosition vf)" "m \<le> length caller"
  shows "\<exists>vf' w'. vf_read K scan count caller vf w =
      Some (ReadSuccessful m, overlay caller 0 (take m (drop (currentPosition vf) data)), vf', w') \<and>
    holds (content (device w')) used vf' data \<and> currentPosition vf' = currentPosition vf + m \<and>
    tailBuffer vf' = tailBuffer vf \<and>
    advance ok content 0 (used, eof, vf, w) (used, eof, vf', w') \<and> lastReportedStatus w' = ReadSuccessful m"
proof -
  let ?pos = "currentPosition vf" and ?t = "contents (tailBuffer vf)"
  from holds_cases [OF h] obtain D where D: "holds_stored (content (device w)) used vf D"
    "data = patched vf D @ ?t" "length D + rb_count (tailBuffer vf) = length data" "length data < 281474976710656" .
  let ?P = "patched vf D"
  have st: "stored (content (device w)) (currentStreamIdentifier vf) 0 (chunkMap vf) D" "buffer_ok vf D"
    and tok: "tail_ok (tailBuffer vf)" using D(1) by (simp_all add: holds_stored_def)
  have lP: "length ?P = length D" by (rule length_patched [OF st])
  have lD: "length D < 281474976710656" "length D + rb_count (tailBuffer vf) < 281474976710656" using D(3,4) by simp_all
  note size = vf_size_holds [OF D(1) w(2) lD(2), unfolded D(3), of scan]
  note cont = currentContainer_holds [OF D(1)]
  have base: "currentStoredSize vf = length D" by (rule currentStoredSize_stored [OF st(1) lD(1)])
  have dist: "sub64 (unsigned_64 (int (length data))) ?pos = length data - ?pos"
    using D(4) pos(1) by (simp add: unsigned_64_def sub64_id)
  have cnt: "(if count < length data - ?pos then count else u32 (length data - ?pos)) = m"
    using pos(2) m(1) by (simp add: u32_id)
  have m4: "m < 4294967295" "?pos + m \<le> length data" using m(1) pos by simp_all
  have ends: "u64 (?pos + m) = ?pos + m" "?pos + m < 281474976710656" using m4 D(4) by (simp_all add: u64_id)
  define n where "n = (if ?pos \<le> length D then min m (length D - ?pos) else 0)"
  have "\<exists>D' vf' w'. read_loop K (?pos + m) (length D) NoStatus 0 m caller vf w =
      Some (NoStatus, n, m - n, overlay caller 0 (take n (drop ?pos ?P)), vf', w') \<and>
    holds_stored (content (device w')) used vf' D' \<and> patched vf' D' = ?P \<and>
    currentPosition vf' = ?pos + n \<and> tailBuffer vf' = tailBuffer vf \<and>
    advance ok content 0 (used, eof, vf, w) (used, eof, vf', w')"
  proof (cases "?pos \<le> length D")
    case True
    have "0 + m \<le> length caller" using m(2) by simp
    from read_loop_law [OF w D(1) lD(1) True ends(2) m4(1) this] True show ?thesis by (auto simp: n_def)
  next
    case False
    then have "read_loop K (?pos + m) (length D) NoStatus 0 m caller vf w = Some (NoStatus, 0, m, caller, vf, w)"
      by (subst read_loop.simps) simp
    with False D(1) w show ?thesis
      by (intro exI [of _ D] exI [of _ vf] exI [of _ w] conjI) (simp_all add: n_def advance_refl)
  qed
  then obtain D' vf1 w1 where l: "read_loop K (?pos + m) (length D) NoStatus 0 m caller vf w =
      Some (NoStatus, n, m - n, overlay caller 0 (take n (drop ?pos ?P)), vf1, w1)"
    "holds_stored (content (device w1)) used vf1 D'" "patched vf1 D' = ?P"
    "currentPosition vf1 = ?pos + n" "tailBuffer vf1 = tailBuffer vf"
    "advance ok content 0 (used, eof, vf, w) (used, eof, vf1, w1)" by blast
  have hd: "holds (content (device w1)) used vf1 data" using l(2,3,5) D(2,4) by (auto intro: holdsI)
  have cont1: "currentContainer vf1" by (rule currentContainer_holds [OF l(2)])
  let ?caller = "overlay caller 0 (take n (drop ?pos ?P))"
  show ?thesis
  proof (cases "m - n = 0")
    case True
    have "n \<le> m" by (simp add: n_def)
    with True have nm: "n = m" by simp
    have "take n (drop ?pos ?P) = take m (drop ?pos data)"
    proof -
      have "m = 0 \<or> ?pos + m \<le> length ?P" using nm lP unfolding n_def by (auto split: if_splits)
      then show ?thesis using nm D(2) by auto
    qed
    then have "vf_read K scan count caller vf w =
        Some (ReadSuccessful m, overlay caller 0 (take m (drop ?pos data)), vf1, setLastStatus (ReadSuccessful m) w1)"
      unfolding vf_read_def size bind.bind_lunit prod.case Let_def dist cnt in_space_scan [OF w(2)] if_P [OF cont]
        base ends(1) l(1)
      using True cont1 by (simp add: set_last_def)
    with hd l(4-6) nm show ?thesis
      by (intro exI [of _ vf1] exI [of _ "setLastStatus (ReadSuccessful m) w1"] conjI)
        (simp_all add: advance_setLastStatus)
  next
    case False
    let ?o = "?pos + n - length D" and ?r = "m - n"
    have o: "length D \<le> ?pos + n" "?o + ?r \<le> length ?t" "n \<le> m"
      using False m4(2) D(3) lP unfolding n_def by (auto split: if_splits)
    have "?o \<le> 4096" using o(2) tail_count [OF tok] by simp
    then have "u32 ?o = ?o" by (simp add: u32_id)
    then have ids: "u32 (sub64 (?pos + n) (length D)) = ?o" "sub32 (rb_count (tailBuffer vf)) ?o = length ?t - ?o"
      "u64 (?pos + n + ?r) = ?pos + m"
      using o m4(2) D(3,4) tail_count [OF tok] by (simp_all add: sub64_id sub32_id u64_id)
    have rbo: "rb_ok (tailBuffer vf)" using tok by (simp add: tail_ok_def)
    have snoop: "map (\<lambda>i. rb_snoop (u32 (?o + i)) (tailBuffer vf)) [0..<?r] = take ?r (drop ?o ?t)"
    proof (rule nth_equalityI)
      show "length (map (\<lambda>i. rb_snoop (u32 (?o + i)) (tailBuffer vf)) [0..<?r]) = length (take ?r (drop ?o ?t))"
        using o(2) by simp
      fix i assume "i < length (map (\<lambda>i. rb_snoop (u32 (?o + i)) (tailBuffer vf)) [0..<?r])"
      then have i: "i < ?r" "?o + i < rb_count (tailBuffer vf)" using o(2) by simp_all
      then have "u32 (?o + i) = ?o + i" using tail_count [OF tok] by (simp add: u32_id)
      then show "map (\<lambda>i. rb_snoop (u32 (?o + i)) (tailBuffer vf)) [0..<?r] ! i = take ?r (drop ?o ?t) ! i"
        using rb_snoop_ok(1) [OF rbo i(2)] i o(2) by simp
    qed
    have ls: "length (take ?r (drop ?o ?t)) = ?r" using o(2) by simp
    then have ne: "take ?r (drop ?o ?t) \<noteq> []" using False by fastforce
    have lx: "length (take n (drop ?pos ?P)) = n" using lP unfolding n_def by (simp add: min_def)
    then have lc: "length ?caller = length caller" using o(3) m(2) by simp
    have all: "take n (drop ?pos ?P) @ take ?r (drop ?o ?t) = take m (drop ?pos data)"
    proof -
      have "drop (?pos + n) data = drop ?o ?t" using o(1) lP D(2) by simp
      moreover have "take n (drop ?pos ?P) = take n (drop ?pos data)"
        using lx D(2) by simp
      ultimately have "take n (drop ?pos ?P) @ take ?r (drop ?o ?t) = take (n + ?r) (drop ?pos data)"
        using take_take_drop [of n ?pos data ?r] by simp
      then show ?thesis using o(3) by simp
    qed
    have store: "store_bytes (vf_memory ?caller vf1) (Ptr CallerBuffer n) (take ?r (drop ?o ?t)) =
        Some ((vf_memory ?caller vf1)(CallerBuffer := overlay ?caller n (take ?r (drop ?o ?t))))"
      using ne ls lc m(2) o(3) by (simp add: store_bytes_def vf_memory_def)
    have ov: "overlay ?caller n (take ?r (drop ?o ?t)) = overlay caller 0 (take m (drop ?pos data))"
      using overlay_overlay_adjacent [of 0 caller "take n (drop ?pos ?P)" "take ?r (drop ?o ?t)"] lx all by simp
    let ?vf = "vf1\<lparr>currentPosition := ?pos + m\<rparr>"
    have "vf_read K scan count caller vf w =
        Some (ReadSuccessful m, overlay caller 0 (take m (drop ?pos data)), ?vf, setLastStatus (ReadSuccessful m) w1)"
    proof -
      have g: "0 < m - n" "?r \<le> length ?t - ?o" using False o(2) by simp_all
      show ?thesis
        unfolding vf_read_def size bind.bind_lunit prod.case Let_def dist cnt in_space_scan [OF w(2)] if_P [OF cont]
          base ends(1) l(1) l(4) l(5) ids(1,2) snoop store
        using g o(1) ids(3) ov cont1 by (simp add: set_last_def)
    qed
    with hd l(4-6) show ?thesis
      by (intro exI [of _ ?vf] exI [of _ "setLastStatus (ReadSuccessful m) w1"] conjI)
        (simp_all add: advance_setLastStatus advance_other_fields)
  qed
qed

end


end
