(* ===== verification/Stream_Write.thy ===== *)
theory Stream_Write
  imports Stream_Read
begin

text \<open>
  \<open>write\<close> as a whole: the caller's bytes take the place of those from the position on, and
  what is beyond the end is appended.
\<close>

subsection \<open>Bytes inside one chunk\<close>

lemma overlay_in_chunk:
  assumes "take k P = take k D" "drop (k + m) P = drop (k + m) D" "length P = length D" "k + m \<le> length D"
    and "k \<le> pos" "pos + length x \<le> k + m"
  shows "overlay D k (overlay (take m (drop k P)) (pos - k) x) = overlay P pos x"
proof -
  let ?q = "overlay (take m (drop k P)) (pos - k) x"
  have lq: "length ?q = m" using assms by simp
  have "?q = take (pos - k) (drop k P) @ x @ drop (pos - k + length x) (take m (drop k P))"
    using assms(5,6) by (simp add: overlay_def min_absorb1)
  moreover have "drop (pos - k + length x) (take m (drop k P)) = take (k + m - (pos + length x)) (drop (pos + length x) P)"
  proof -
    have "m - (pos - k + length x) = k + m - (pos + length x)" "pos - k + length x + k = pos + length x"
      using assms(5,6) by simp_all
    then show ?thesis by (simp only: drop_take drop_drop)
  qed
  moreover have "take k P @ take (pos - k) (drop k P) = take pos P"
    using assms(5) take_add [of k "pos - k" P] by simp
  moreover have "take (k + m - (pos + length x)) (drop (pos + length x) P) @ drop (k + m) P = drop (pos + length x) P"
    using assms(6) append_take_drop_id [of "k + m - (pos + length x)" "drop (pos + length x) P"] by simp
  ultimately show ?thesis
    unfolding overlay_def [of D] overlay_def [of P] lq assms(1) [symmetric] assms(2) [symmetric]
    by (metis append.assoc)
qed

lemma take_overlay_inside:
  "i + length x \<le> m \<Longrightarrow> m \<le> length cb \<Longrightarrow> take m (overlay cb i x) = overlay (take m cb) i x"
  by (simp add: overlay_def drop_take min_absorb1)

text \<open>The buffer's changes are inside its chunk.\<close>

lemma patched_outside:
  assumes "buffer_ok vf D" "stored bytes sid 0 (chunkMap vf) D" "om_find k (chunkMap vf) = Some d"
    and "chunkBufferFlushNeeded vf \<longrightarrow> currentChunk vf = Some k"
  shows "take k (patched vf D) = take k D" "drop (k + chunkPayloadSize d) (patched vf D) = drop (k + chunkPayloadSize d) D"
proof -
  note fb = found_chunk_bounds [OF assms(2,3)]
  have "take k (patched vf D) = take k D \<and> drop (k + chunkPayloadSize d) (patched vf D) = drop (k + chunkPayloadSize d) D"
  proof (cases "chunkBufferFlushNeeded vf")
    case True
    with assms(1,4) obtain cb where "chunkBuffer vf = Some cb" "length cb = 4096" by (auto simp: buffer_ok_def)
    with True assms(3,4) fb show ?thesis by (simp add: patched_def overlay_def)
  qed (simp add: clean_patched)
  then show "take k (patched vf D) = take k D"
    "drop (k + chunkPayloadSize d) (patched vf D) = drop (k + chunkPayloadSize d) D" by blast+
qed

context storage
begin

text \<open>The chunk is saved with a part of it replaced, straight from the caller.\<close>

lemma save_part_law:
  assumes w: "ok (device w)" "in_space content used eof w" "eof < 134217728"
    and h: "holds_stored (content (device w)) used vf D" "length D < 281474976710656"
    and d: "om_find k (chunkMap vf) = Some d" "chunkBufferFlushNeeded vf \<longrightarrow> currentChunk vf = Some k"
    and x: "k \<le> pos" "pos + length x = k + chunkPayloadSize d"
    and src: "gather mem ss = Some (take (pos - k) (drop k (patched vf D)) @ x)"
    and new: "StreamDataChunk (junk w) (chunkStartingIndex d) (currentStreamIdentifier vf) k = Some c0"
      "setChunkSize maximumChunkSize c0 = (best, c)"
  obtains c' w' where "StreamDataChunk_save K True (c\<lparr>scatterGatherList := ss,
      currentScatterGatherListByteCount := chunkPayloadSize d\<rparr>) mem w = Some (NoStatus, c', w')"
    "holds_stored (content (device w')) used (without_chunk vf) (overlay (patched vf D) pos x)"
    "advance ok content 0 (used, eof, vf, w) (used, eof, without_chunk vf, w')"
proof -
  have st: "stored (content (device w)) (currentStreamIdentifier vf) 0 (chunkMap vf) D" and b: "buffer_ok vf D"
    using h(1) by (simp_all add: holds_stored_def)
  let ?P = "patched vf D" and ?p = "take (pos - k) (drop k (patched vf D)) @ x"
  note fb = found_chunk_bounds [OF st d(1)]
  have lP: "length ?P = length D" by (rule length_patched [OF st b])
  have lp: "length ?p = chunkPayloadSize d" using x fb(1) lP by simp
  have "overlay (take (chunkPayloadSize d) (drop k ?P)) (pos - k) x = ?p"
    using x by (simp add: overlay_def min_absorb1)
  then have ov: "overlay D k ?p = overlay ?P pos x"
    using overlay_in_chunk [OF patched_outside [OF b st d] lP fb(1) x(1), of x] x(2) by simp
  from rewrite_chunk_law [OF w h d(1) src lp new] obtain c' w' where
    r: "StreamDataChunk_save K True (c\<lparr>scatterGatherList := ss, currentScatterGatherListByteCount := length ?p\<rparr>) mem w =
        Some (NoStatus, c', w')"
      "stored (content (device w')) (currentStreamIdentifier vf) 0 (chunkMap vf) (overlay D k ?p)"
      "keeps (start_cells vf) (content (device w)) (content (device w'))"
      "\<And>vf'. startChunkIndex vf' = startChunkIndex vf \<Longrightarrow> chunkMap vf' = chunkMap vf \<Longrightarrow>
        currentName vf' = currentName vf \<Longrightarrow> currentStreamIdentifier vf' = currentStreamIdentifier vf \<Longrightarrow>
        advance ok content 0 (used, eof, vf, w) (used, eof, vf', w')" by blast
  have "buffer_ok (without_chunk vf) (overlay D k ?p)" using b by (simp add: buffer_ok_def)
  then have "holds_stored (content (device w')) used (without_chunk vf) (overlay ?P pos x)"
    using holds_stored_update [OF h(1) r(3,2), where vf' = "without_chunk vf" and cc = None and cb = "chunkBuffer vf" and f = False
        and p = "currentPosition vf"]
    unfolding ov by simp
  then show thesis using that r(1) r(4) [of "without_chunk vf"] lp by simp
qed

text \<open>The changed bytes stay in the chunk buffer.\<close>

lemma buffer_part_law:
  assumes h: "holds_stored bytes used vf D" "currentChunk vf = Some k"
    and d: "om_find k (chunkMap vf) = Some d"
    and cb: "chunkBuffer vf = Some cb" "length cb = 4096"
      "take (chunkPayloadSize d) cb = take (chunkPayloadSize d) (drop k (patched vf D))"
    and x: "k \<le> pos" "pos + length x \<le> k + chunkPayloadSize d"
  defines "vf' \<equiv> vf\<lparr>chunkBuffer := Some (overlay cb (pos - k) x), chunkBufferFlushNeeded := True\<rparr>"
  shows "holds_stored bytes used vf' D" "patched vf' D = overlay (patched vf D) pos x"
proof -
  have st: "stored bytes (currentStreamIdentifier vf) 0 (chunkMap vf) D" and b: "buffer_ok vf D"
    using h(1) by (simp_all add: holds_stored_def)
  let ?P = "patched vf D" and ?n = "chunkPayloadSize d"
  note fb = found_chunk_bounds [OF st d]
  have lP: "length ?P = length D" by (rule length_patched [OF st b])
  have i: "pos - k + length x \<le> ?n" "?n \<le> length cb" using x fb(2) cb(2) by simp_all
  have bo: "buffer_ok vf' D" using i cb d h(2) by (simp add: vf'_def buffer_ok_def)
  then show "holds_stored bytes used vf' D"
    using h(1) by (simp add: vf'_def holds_stored_def file_cells_def)
  have out: "chunkBufferFlushNeeded vf \<longrightarrow> currentChunk vf = Some k" using h(2) by simp
  have "patched vf' D = overlay D k (take ?n (overlay cb (pos - k) x))"
    using h(2) d by (simp add: patched_def vf'_def)
  also have "\<dots> = overlay ?P pos x"
    unfolding take_overlay_inside [OF i] cb(3)
    by (rule overlay_in_chunk [OF patched_outside [OF b st d out] lP fb(1) x])
  finally show "patched vf' D = overlay ?P pos x" .
qed

end

text \<open>
  A round has a file \<open>v\<close> that holds bytes \<open>P\<close>; unless its buffer has the chunk at \<open>k\<close>, the
  round works on \<open>v\<close> with \<open>k\<close> as current chunk and a buffer that is still to be loaded.
\<close>

definition at_chunk :: "bool \<Rightarrow> nat \<Rightarrow> virtual_file \<Rightarrow> virtual_file \<Rightarrow> bool" where
  "at_chunk chunkLoaded k v vf \<longleftrightarrow>
     (if chunkLoaded then vf = v \<and> currentChunk v = Some k
      else (\<exists>v0. v = without_chunk v0) \<and> vf = v\<lparr>currentChunk := Some k\<rparr>)"

lemma at_chunk_fields:
  assumes "at_chunk chunkLoaded k v vf"
  shows "currentChunk vf = Some k" "chunkMap vf = chunkMap v" "currentPosition vf = currentPosition v"
    "tailBuffer vf = tailBuffer v" "currentStreamIdentifier vf = currentStreamIdentifier v"
    "currentContainer vf = currentContainer v" "without_chunk vf = without_chunk v"
    "chunkBufferFlushNeeded v \<longrightarrow> currentChunk v = Some k"
  using assms by (auto simp: at_chunk_def split: if_splits)

context storage
begin

lemma ready_chunk_law:
  assumes w: "ok (device w)" "in_space content used eof w" "eof < 134217728"
    and h: "holds_stored (content (device w)) used v D" "length D < 281474976710656"
    and at: "at_chunk chunkLoaded k v vf" and d: "om_find k (chunkMap v) = Some d"
  obtains vf' dv D' cb where
    "(if chunkLoaded then Some (NoStatus, vf, w) else loadChunkIntoBuffer K vf w) = Some (NoStatus, vf', w\<lparr>device := dv\<rparr>)"
    "ok dv" "content dv = content (device w)" "holds_stored (content dv) used vf' D'" "patched vf' D' = patched v D"
    "length D' = length D" "chunkBuffer vf' = Some cb" "length cb = 4096"
    "take (chunkPayloadSize d) cb = take (chunkPayloadSize d) (drop k (patched v D))"
    "at_chunk True k vf' vf'" "chunkMap vf' = chunkMap v" "currentPosition vf' = currentPosition v"
    "tailBuffer vf' = tailBuffer v" "startChunkIndex vf' = startChunkIndex v" "currentName vf' = currentName v"
    "currentStreamIdentifier vf' = currentStreamIdentifier v"
proof (cases chunkLoaded)
  case True
  with at have a: "vf = v" "currentChunk v = Some k" by (simp_all add: at_chunk_def)
  have b: "buffer_ok v D" "stored (content (device w)) (currentStreamIdentifier v) 0 (chunkMap v) D"
    using h(1) by (simp_all add: holds_stored_def)
  from buffer_bytes [OF b a(2) d] obtain cb where "chunkBuffer v = Some cb" "length cb = 4096"
    "take (chunkPayloadSize d) cb = take (chunkPayloadSize d) (drop k (patched v D))" .
  then show thesis using that [of v "device w" D cb] True a w(1) h(1) by (simp add: at_chunk_def)
next
  case False
  with at obtain v0 where a: "v = without_chunk v0" "vf = v\<lparr>currentChunk := Some k\<rparr>" by (auto simp: at_chunk_def)
  from loadChunkIntoBuffer_law [OF w h(1) [unfolded a(1)] h(2) d [unfolded a(1)]] obtain cb dv where
    l: "loadChunkIntoBuffer K vf w = Some (NoStatus, v\<lparr>currentChunk := Some k, chunkBuffer := Some cb\<rparr>, w\<lparr>device := dv\<rparr>)"
      "ok dv" "content dv = content (device w)" "length cb = 4096"
      "take (chunkPayloadSize d) cb = take (chunkPayloadSize d) (drop k D)"
      "holds_stored (content dv) used (v\<lparr>currentChunk := Some k, chunkBuffer := Some cb\<rparr>) D"
    unfolding a by metis
  have nf: "\<not> chunkBufferFlushNeeded v" by (simp add: a(1))
  show thesis
    by (rule that [OF _ l(2,3,6) _ refl _ l(4)])
      (use False l(1,5) nf in \<open>simp_all add: clean_patched at_chunk_def file_cells_def start_cells_def\<close>)
qed

lemma write_direct_law:
  assumes w: "ok (device w)" "in_space content used eof w" "eof < 134217728"
    and h: "holds_stored (content (device w)) used v D" "length D < 281474976710656"
    and at: "at_chunk chunkLoaded k v vf" and d: "om_find k (chunkMap v) = Some d"
    and x: "k \<le> currentPosition v" "currentPosition v < k + chunkPayloadSize d"
      "n = k + chunkPayloadSize d - currentPosition v" "off + n \<le> length caller"
  obtains vf' w' where "write_direct K chunkLoaded k d caller off vf w = Some (NoStatus, n, vf', w')"
    "holds_stored (content (device w')) used vf'
      (overlay (patched v D) (currentPosition v) (take n (drop off caller)))"
    "\<not> chunkBufferFlushNeeded vf'" "currentPosition vf' = currentPosition v" "tailBuffer vf' = tailBuffer v"
    "advance ok content 0 (used, eof, v, w) (used, eof, vf', w')"
proof -
  have st: "stored (content (device w)) (currentStreamIdentifier v) 0 (chunkMap v) D" and b: "buffer_ok v D"
    and cont: "currentContainer v" using h(1) by (simp_all add: holds_stored_def)
  let ?n = "chunkPayloadSize d" and ?pos = "currentPosition v" and ?P = "patched v D"
  let ?x = "take n (drop off caller)"
  note fb = found_chunk_bounds [OF st d]
  have lP: "length ?P = length D" by (rule length_patched [OF st b])
  have nz: "0 < n" "n \<le> ?n" "?pos - k + n = ?n" "?pos + n = k + ?n" using x by simp_all
  have lx: "length ?x = n" using x(4) by simp
  have px: "?pos + length ?x = k + ?n" using nz(4) lx by simp
  have u: "u64 (k + ?n) = k + ?n" "sub64 (k + ?n) ?pos = n" "u32 n = n" "sub64 ?pos k = ?pos - k"
    "u32 (?pos - k) = ?pos - k" "u32 ?n = ?n"
    using fb h(2) x nz by (simp_all add: u64_id sub64_id u32_id)
  have ldx: "load_bytes (vf_memory caller f) (Ptr CallerBuffer off) n = Some ?x" for f
    using x(4) by (simp add: load_bytes_def vf_memory_def)
  from StreamDataChunk_establishes [where uninit = "junk w" and index = "chunkStartingIndex d"
      and sid = "currentStreamIdentifier v" and offset = k] obtain c0 where
    c0: "StreamDataChunk (junk w) (chunkStartingIndex d) (currentStreamIdentifier v) k = Some c0"
      "length (header c0) = 14" "scatterGatherList c0 = []" "currentScatterGatherListByteCount c0 = 0" .
  obtain best c where set: "setChunkSize maximumChunkSize c0 = (best, c)" by (metis surj_pair)
  have "maximumChunkSize < 4294967296" by simp
  note c = setChunkSize_fields [OF c0(2) this set]
  note at_f = at_chunk_fields [OF at]
  have clean: "\<not> chunkBufferFlushNeeded (without_chunk f)" "currentPosition (without_chunk f) = currentPosition f"
    "tailBuffer (without_chunk f) = tailBuffer f" for f by simp_all
  show thesis
  proof (cases "?pos = k")
    case True
    have nn: "n = ?n" using nz True by simp
    have "gather (vf_memory caller vf) [seg (Ptr CallerBuffer off) n] = Some (take (?pos - k) (drop k ?P) @ ?x)"
      using ldx True by simp
    from save_part_law [OF w h d at_f(8) x(1) px this c0(1) set] obtain c' w' where
      s: "StreamDataChunk_save K True (c\<lparr>scatterGatherList := [seg (Ptr CallerBuffer off) n],
          currentScatterGatherListByteCount := ?n\<rparr>) (vf_memory caller vf) w = Some (NoStatus, c', w')"
        "holds_stored (content (device w')) used (without_chunk v) (overlay ?P ?pos ?x)"
        "advance ok content 0 (used, eof, v, w) (used, eof, without_chunk v, w')" .
    have "write_direct K chunkLoaded k d caller off vf w = Some (NoStatus, n, without_chunk v, w')"
      using c0 set c(7,8) s(1) cont u True nn at_f by (simp add: write_direct_def add_segment Let_def)
    with s that clean show ?thesis by blast
  next
    case False
    from ready_chunk_law [OF w h at d] obtain v1 dv D1 cb where
      r: "(if chunkLoaded then Some (NoStatus, vf, w) else loadChunkIntoBuffer K vf w) = Some (NoStatus, v1, w\<lparr>device := dv\<rparr>)"
        "ok dv" "content dv = content (device w)" "holds_stored (content dv) used v1 D1" "patched v1 D1 = ?P"
        "length D1 = length D" "chunkBuffer v1 = Some cb" "length cb = 4096"
        "take ?n cb = take ?n (drop k ?P)" "at_chunk True k v1 v1" "chunkMap v1 = chunkMap v" "currentPosition v1 = ?pos"
        "tailBuffer v1 = tailBuffer v" "startChunkIndex v1 = startChunkIndex v" "currentName v1 = currentName v"
        "currentStreamIdentifier v1 = currentStreamIdentifier v" .
    let ?w = "w\<lparr>device := dv\<rparr>" and ?ss = "[seg (Ptr ChunkBuffer 0) (?pos - k), seg (Ptr CallerBuffer off) n]"
    have "take (?pos - k) (drop (k - k) cb) = take (?pos - k) (drop k ?P)"
      by (rule part_of_chunk [OF r(9)]) (use nz in simp_all)
    moreover have "?pos - k \<le> length cb" using r(8) fb(2) nz by simp
    ultimately have g: "gather (vf_memory caller v1) ?ss = Some (take (?pos - k) (drop k (patched v1 D1)) @ ?x)"
      using ldx r(5,7) by (simp add: load_bytes_def vf_memory_def)
    have pre: "ok (device ?w)" "in_space content used eof ?w" "holds_stored (content (device ?w)) used v1 D1"
      "length D1 < 281474976710656" "om_find k (chunkMap v1) = Some d"
      "chunkBufferFlushNeeded v1 \<longrightarrow> currentChunk v1 = Some k"
      "StreamDataChunk (junk ?w) (chunkStartingIndex d) (currentStreamIdentifier v1) k = Some c0"
      using r w(2) h(2) d c0(1) at_chunk_fields(8) [OF r(10)] by (simp_all add: in_space_def)
    from save_part_law [OF pre(1,2) w(3) pre(3-6) x(1) px g pre(7) set] obtain c' w' where
      s: "StreamDataChunk_save K True (c\<lparr>scatterGatherList := ?ss, currentScatterGatherListByteCount := ?n\<rparr>)
          (vf_memory caller v1) ?w = Some (NoStatus, c', w')"
        "holds_stored (content (device w')) used (without_chunk v1) (overlay (patched v1 D1) ?pos ?x)"
        "advance ok content 0 (used, eof, v1, ?w) (used, eof, without_chunk v1, w')" .
    have cont1: "currentContainer v1" by (rule currentContainer_holds [OF r(4)])
    have "write_direct K chunkLoaded k d caller off vf w = Some (NoStatus, n, without_chunk v1, w')"
      unfolding write_direct_def Let_def r(1)
      using c0 set c(7,8) s(1) cont1 u False nz(3) at_f r(12,16) by (simp add: add_segment)
    moreover have "advance ok content 0 (used, eof, v, w) (used, eof, v1, ?w)"
      by (rule advance_other_fields [OF advance_content [OF advance_refl [where ok = ok and content = content and n = 0 and vf = v, OF w(1,2)] r(2,3)] r(14,11,15,16)])
    then have "advance ok content 0 (used, eof, v, w) (used, eof, without_chunk v1, w')"
      using advance_trans [OF _ s(3)] by force
    ultimately show ?thesis using that s(2) r(5,12,13) clean by metis
  qed
qed

end


context storage
begin

lemma write_buffered_law:
  assumes w: "ok (device w)" "in_space content used eof w" "eof < 134217728"
    and h: "holds_stored (content (device w)) used v D" "length D < 281474976710656"
    and at: "at_chunk chunkLoaded k v vf" and d: "om_find k (chunkMap v) = Some d"
    and x: "k \<le> currentPosition v" "currentPosition v + n \<le> k + chunkPayloadSize d" "0 < n" "off + n \<le> length caller"
  obtains vf' D' w' where "write_buffered K chunkLoaded k caller off n vf w = Some (NoStatus, n, vf', w')"
    "holds_stored (content (device w')) used vf' D'"
    "patched vf' D' = overlay (patched v D) (currentPosition v) (take n (drop off caller))"
    "currentPosition vf' = currentPosition v" "tailBuffer vf' = tailBuffer v"
    "advance ok content 0 (used, eof, v, w) (used, eof, vf', w')"
proof -
  have st: "stored (content (device w)) (currentStreamIdentifier v) 0 (chunkMap v) D"
    using h(1) by (simp add: holds_stored_def)
  let ?n = "chunkPayloadSize d" and ?pos = "currentPosition v" and ?x = "take n (drop off caller)"
  note fb = found_chunk_bounds [OF st d]
  have lx: "length ?x = n" using x(4) by simp
  then have ne: "?x \<noteq> []" using x(3) by fastforce
  have u: "sub64 ?pos k = ?pos - k" using x(1,2) fb(1) h(2) by (simp add: sub64_id)
  from ready_chunk_law [OF w h at d] obtain v1 dv D1 cb where
    r: "(if chunkLoaded then Some (NoStatus, vf, w) else loadChunkIntoBuffer K vf w) = Some (NoStatus, v1, w\<lparr>device := dv\<rparr>)"
      "ok dv" "content dv = content (device w)" "holds_stored (content dv) used v1 D1" "patched v1 D1 = patched v D"
      "length D1 = length D" "chunkBuffer v1 = Some cb" "length cb = 4096"
      "take ?n cb = take ?n (drop k (patched v D))" "at_chunk True k v1 v1" "chunkMap v1 = chunkMap v"
      "currentPosition v1 = ?pos"
      "tailBuffer v1 = tailBuffer v" "startChunkIndex v1 = startChunkIndex v" "currentName v1 = currentName v"
      "currentStreamIdentifier v1 = currentStreamIdentifier v" .
  let ?w = "w\<lparr>device := dv\<rparr>"
  let ?vf = "v1\<lparr>chunkBuffer := Some (overlay cb (?pos - k) ?x), chunkBufferFlushNeeded := True\<rparr>"
  have pre: "currentChunk v1 = Some k" "om_find k (chunkMap v1) = Some d"
    "take ?n cb = take ?n (drop k (patched v1 D1))" "?pos + length ?x \<le> k + ?n"
    using at_chunk_fields(1) [OF r(10)] r(5,9,11) d lx x(2) by simp_all
  note b = buffer_part_law [OF r(4) pre(1,2) r(7,8) pre(3) x(1) pre(4), unfolded r(5)]
  have "write_buffered K chunkLoaded k caller off n vf w = Some (NoStatus, n, ?vf, ?w)"
    unfolding write_buffered_def r(1)
    using ne lx x fb(2) r(7,8,12) u by (simp add: load_bytes_def store_bytes_def vf_memory_def)
  moreover have "advance ok content 0 (used, eof, v, w) (used, eof, ?vf, ?w)"
    by (rule advance_other_fields [OF advance_content [OF advance_refl [where ok = ok and content = content and n = 0
      and vf = v, OF w(1,2)] r(2,3)]]) (use r(11,14-16) in simp_all)
  ultimately show thesis using that [of ?vf ?w D1] b r(12,13) by simp
qed

lemma write_round_law:
  assumes w: "ok (device w)" "in_space content used eof w" "eof < 134217728"
    and h: "holds_stored (content (device w)) used v D" "length D < 281474976710656"
    and at: "at_chunk chunkLoaded k v vf" and d: "om_find k (chunkMap v) = Some d"
    and x: "k \<le> currentPosition v" "currentPosition v < k + chunkPayloadSize d" "0 < m" "off + m \<le> length caller"
    and n: "n = min m (k + chunkPayloadSize d - currentPosition v)"
  obtains vf' D' w' where "(if currentPosition v + m > u64 (k + chunkPayloadSize d)
      then write_direct K chunkLoaded k d caller off vf w
      else write_buffered K chunkLoaded k caller off m vf w) = Some (NoStatus, n, vf', w')"
    "holds_stored (content (device w')) used vf' D'"
    "patched vf' D' = overlay (patched v D) (currentPosition v) (take n (drop off caller))"
    "currentPosition vf' = currentPosition v" "tailBuffer vf' = tailBuffer v"
    "advance ok content 0 (used, eof, v, w) (used, eof, vf', w')"
proof -
  have "stored (content (device w)) (currentStreamIdentifier v) 0 (chunkMap v) D"
    using h(1) by (simp add: holds_stored_def)
  note fb = found_chunk_bounds [OF this d]
  have u: "u64 (k + chunkPayloadSize d) = k + chunkPayloadSize d" using fb(1) h(2) by (simp add: u64_id)
  show thesis
  proof (cases "currentPosition v + m > k + chunkPayloadSize d")
    case True
    then have n': "n = k + chunkPayloadSize d - currentPosition v" "off + n \<le> length caller" using n x(4) by simp_all
    from write_direct_law [OF w h at d x(1,2) n'] obtain vf' w' where
      "write_direct K chunkLoaded k d caller off vf w = Some (NoStatus, n, vf', w')"
      "holds_stored (content (device w')) used vf'
        (overlay (patched v D) (currentPosition v) (take n (drop off caller)))"
      "\<not> chunkBufferFlushNeeded vf'" "currentPosition vf' = currentPosition v" "tailBuffer vf' = tailBuffer v"
      "advance ok content 0 (used, eof, v, w) (used, eof, vf', w')" .
    then show ?thesis using that True u by (simp add: clean_patched)
  next
    case False
    then have n': "n = m" "currentPosition v + m \<le> k + chunkPayloadSize d" using n x(2) by simp_all
    from write_buffered_law [OF w h at d x(1) n'(2) x(3,4)] obtain vf' D' w' where
      "write_buffered K chunkLoaded k caller off m vf w = Some (NoStatus, m, vf', w')"
      "holds_stored (content (device w')) used vf' D'"
      "patched vf' D' = overlay (patched v D) (currentPosition v) (take m (drop off caller))"
      "currentPosition vf' = currentPosition v" "tailBuffer vf' = tailBuffer v"
      "advance ok content 0 (used, eof, v, w) (used, eof, vf', w')" .
    then show ?thesis using that [of vf' w' D'] False u n'(1) by simp
  qed
qed

lemma write_step_law:
  assumes w: "ok (device w)" "in_space content used eof w" "eof < 134217728"
    and h: "holds_stored (content (device w)) used vf D" "length D < 281474976710656"
    and pos: "currentPosition vf < length D"
    and m: "0 < m" "m < 4294967295" "off + m \<le> length caller"
  shows "\<exists>n D' vf' w'. write_step K (currentPosition vf + m) caller off m vf w =
      Some (NoStatus, off + n, m - n, vf', w') \<and>
    0 < n \<and> n \<le> m \<and> currentPosition vf + n \<le> length D \<and>
    holds_stored (content (device w')) used vf' D' \<and>
    patched vf' D' = overlay (patched vf D) (currentPosition vf) (take n (drop off caller)) \<and>
    currentPosition vf' = currentPosition vf + n \<and> tailBuffer vf' = tailBuffer vf \<and>
    advance ok content 0 (used, eof, vf, w) (used, eof, vf', w')"
proof -
  let ?pos = "currentPosition vf" and ?P = "patched vf D"
  have st: "stored (content (device w)) (currentStreamIdentifier vf) 0 (chunkMap vf) D" and b: "buffer_ok vf D"
    using h(1) by (simp_all add: holds_stored_def)
  have lP: "length ?P = length D" by (rule length_patched [OF st b])
  obtain chunkLoaded k d v vf1 w1 D1 where l: "locateChunk K vf w = Some (NoStatus, chunkLoaded, vf1, w1)"
    "at_chunk chunkLoaded k v vf1" "om_find k (chunkMap v) = Some d" "k \<le> currentPosition v"
    "currentPosition v < k + chunkPayloadSize d" "holds_stored (content (device w1)) used v D1"
    "patched v D1 = ?P" "length D1 = length D" "advance ok content 0 (used, eof, vf, w) (used, eof, v, w1)"
    "currentPosition v = ?pos" "tailBuffer v = tailBuffer vf"
  proof (cases rule: locateChunk_law [OF w h pos, case_names loaded other])
    case (loaded k d)
    then show thesis
      using that [of True vf w k vf d D] h(1) w by (simp add: at_chunk_def advance_refl)
  next
    case (other k d w1)
    have "at_chunk False k (without_chunk vf) ((without_chunk vf)\<lparr>currentChunk := Some k\<rparr>)"
      unfolding at_chunk_def by auto
    from that [OF other(1) this _ _ _ other(5) _ lP other(6)] other(2-4) show thesis by simp
  qed
  from l(9) have a: "ok (device w1)" "in_space content used eof w1" by (simp_all add: advance_def)
  have lD1: "length D1 < 281474976710656" using l(8) h(2) by simp
  define n where "n = min m (k + chunkPayloadSize d - currentPosition v)"
  have st1: "stored (content (device w1)) (currentStreamIdentifier v) 0 (chunkMap v) D1"
    using l(6) by (simp add: holds_stored_def)
  note fb = found_chunk_bounds [OF st1 l(3)]
  have n: "0 < n" "n \<le> m" "?pos + n \<le> length D" using m(1) l(4,5,8,10) fb(1) by (simp_all add: n_def)
  from write_round_law [OF a w(3) l(6) lD1 l(2-5) m(1,3) n_def] obtain vf2 D2 w2 where
    r: "(if currentPosition v + m > u64 (k + chunkPayloadSize d)
        then write_direct K chunkLoaded k d caller off vf1 w1
        else write_buffered K chunkLoaded k caller off m vf1 w1) = Some (NoStatus, n, vf2, w2)"
      "holds_stored (content (device w2)) used vf2 D2"
      "patched vf2 D2 = overlay (patched v D1) (currentPosition v) (take n (drop off caller))"
      "currentPosition vf2 = currentPosition v" "tailBuffer vf2 = tailBuffer v"
      "advance ok content 0 (used, eof, v, w1) (used, eof, vf2, w2)" .
  let ?vf = "vf2\<lparr>currentPosition := ?pos + n\<rparr>"
  have "sub32 m n = m - n" "u64 (?pos + n) = ?pos + n" using n m(2) h(2) by (simp_all add: sub32_id u64_id)
  moreover have "currentChunk vf1 = Some k" "om_find k (chunkMap vf1) = Some d" using at_chunk_fields [OF l(2)] l(3) by simp_all
  ultimately have "write_step K (?pos + m) caller off m vf w = Some (NoStatus, off + n, m - n, ?vf, w2)"
    using l(1) r(1,4) l(10) unfolding write_step_def by simp
  moreover have "advance ok content 0 (used, eof, vf, w) (used, eof, ?vf, w2)"
    using advance_other_fields [OF advance_trans [OF l(9) r(6)], of ?vf] by simp
  ultimately show ?thesis using n r(2,3,5) l(7,10,11)
    by (intro exI [of _ n] exI [of _ D2] exI [of _ ?vf] exI [of _ w2] conjI) simp_all
qed

lemma write_loop_law:
  assumes "ok (device w)" "in_space content used eof w" "eof < 134217728"
    and "holds_stored (content (device w)) used vf D" "length D < 281474976710656"
    and "currentPosition vf \<le> length D"
    and "m < 4294967295" "off + m \<le> length caller"
  shows "\<exists>n D' vf' w'. write_loop K (currentPosition vf + m) (length D) caller NoStatus off m vf w =
      Some (NoStatus, off + n, m - n, vf', w') \<and>
    n = min m (length D - currentPosition vf) \<and>
    holds_stored (content (device w')) used vf' D' \<and>
    patched vf' D' = overlay (patched vf D) (currentPosition vf) (take n (drop off caller)) \<and>
    currentPosition vf' = currentPosition vf + n \<and> tailBuffer vf' = tailBuffer vf \<and>
    advance ok content 0 (used, eof, vf, w) (used, eof, vf', w')"
  using assms
proof (induction m arbitrary: vf w D off rule: less_induct)
  case (less m)
  let ?pos = "currentPosition vf" and ?P = "patched vf D"
  show ?case
  proof (cases "0 < m \<and> ?pos < length D")
    case False
    then have "write_loop K (?pos + m) (length D) caller NoStatus off m vf w = Some (NoStatus, off, m, vf, w)"
      by (subst write_loop.simps) auto
    moreover have "0 = min m (length D - ?pos)" using False by auto
    ultimately show ?thesis
      using less.prems by (intro exI [of _ 0] exI [of _ D] exI [of _ vf] exI [of _ w] conjI) (simp_all add: advance_refl)
  next
    case True
    then have pos: "?pos < length D" and m: "0 < m" by simp_all
    from write_step_law [OF less.prems(1-5) pos m less.prems(7,8)] obtain n D1 vf1 w1 where
      s: "write_step K (?pos + m) caller off m vf w = Some (NoStatus, off + n, m - n, vf1, w1)"
        "0 < n" "n \<le> m" "?pos + n \<le> length D" "holds_stored (content (device w1)) used vf1 D1"
        "patched vf1 D1 = overlay ?P ?pos (take n (drop off caller))"
        "currentPosition vf1 = ?pos + n" "tailBuffer vf1 = tailBuffer vf"
        "advance ok content 0 (used, eof, vf, w) (used, eof, vf1, w1)" by (elim exE conjE)
    have b: "stored (content (device w)) (currentStreamIdentifier vf) 0 (chunkMap vf) D" "buffer_ok vf D"
      "stored (content (device w1)) (currentStreamIdentifier vf1) 0 (chunkMap vf1) D1" "buffer_ok vf1 D1"
      using less.prems(4) s(5) by (simp_all add: holds_stored_def)
    have lP: "length ?P = length D" by (rule length_patched [OF b(1,2)])
    have lx: "length (take n (drop off caller)) = n" using s(3) less.prems(8) by simp
    have l1: "length D1 = length D" using length_patched [OF b(3,4)] s(4,6) lP lx by simp
    from s(9) have a: "ok (device w1)" "in_space content used eof w1" by (simp_all add: advance_def)
    have d: "m - n < m" "length D1 < 281474976710656" "currentPosition vf1 \<le> length D1"
      "m - n < 4294967295" "off + n + (m - n) \<le> length caller"
      using s(2-4,7) m l1 less.prems(5,7,8) by simp_all
    have e: "currentPosition vf1 + (m - n) = ?pos + m" using s(3,7) by simp
    from less.IH [OF d(1) a less.prems(3) s(5) d(2-5), unfolded e(1) l1] obtain k D' vf' w' where
      r: "write_loop K (?pos + m) (length D) caller NoStatus (off + n) (m - n) vf1 w1 =
          Some (NoStatus, off + n + k, m - n - k, vf', w')"
        "k = min (m - n) (length D - currentPosition vf1)"
        "holds_stored (content (device w')) used vf' D'"
        "patched vf' D' = overlay (patched vf1 D1) (currentPosition vf1) (take k (drop (off + n) caller))"
        "currentPosition vf' = currentPosition vf1 + k" "tailBuffer vf' = tailBuffer vf1"
        "advance ok content 0 (used, eof, vf1, w1) (used, eof, vf', w')" by (elim exE conjE)
    have "overlay (overlay ?P ?pos (take n (drop off caller))) (?pos + n) (take k (drop (off + n) caller)) =
        overlay ?P ?pos (take (n + k) (drop off caller))"
      using overlay_overlay_adjacent [of ?pos ?P "take n (drop off caller)" "take k (drop (off + n) caller)"] lx lP pos
      by (simp add: take_take_drop)
    then have ov: "patched vf' D' = overlay ?P ?pos (take (n + k) (drop off caller))" using r(4) s(6,7) by simp
    have "write_loop K (?pos + m) (length D) caller NoStatus off m vf w =
        Some (NoStatus, off + (n + k), m - (n + k), vf', w')"
      using True s(1) r(1) by (subst write_loop.simps) (simp add: add.assoc)
    moreover have "n + k = min m (length D - ?pos)" using r(2) s(3,4,7) by simp
    moreover have "advance ok content 0 (used, eof, vf, w) (used, eof, vf', w')"
      using advance_trans [OF s(9) r(7)] by simp
    ultimately show ?thesis using r(3,5,6) s(7,8) ov
      by (intro exI [of _ "n + k"] exI [of _ D'] exI [of _ vf'] exI [of _ w'] conjI) simp_all
  qed
qed

end


subsection \<open>Behind the chunks\<close>

lemma snoop_assign_all_ok:
  assumes "rb_ok rb" "off + length bs \<le> rb_count rb" "rb_count rb \<le> 4096"
  shows "rb_ok (snoop_assign_all off bs rb)" "contents (snoop_assign_all off bs rb) = overlay (contents rb) off bs"
    "bufferLength (snoop_assign_all off bs rb) = bufferLength rb"
proof -
  from assms have "rb_ok (snoop_assign_all off bs rb) \<and>
      contents (snoop_assign_all off bs rb) = overlay (contents rb) off bs \<and>
      bufferLength (snoop_assign_all off bs rb) = bufferLength rb"
  proof (induction off bs rb rule: snoop_assign_all.induct)
    case (2 off b bs rb)
    have i: "off < rb_count rb" using "2.prems"(2) by simp
    let ?rb = "rb_snoop_assign off b rb"
    note s = rb_snoop_ok(2-4) [OF "2.prems"(1) i, of b]
    have c: "rb_count ?rb = rb_count rb" using arg_cong [OF s(2), of length] by simp
    have u: "u32 (off + 1) = off + 1" using i "2.prems"(3) by (simp add: u32_id)
    have "overlay ((contents rb)[off := b]) (off + 1) bs = overlay (contents rb) off (b # bs)"
      using i by (simp add: overlay_def take_Suc_conv_app_nth take_update_cancel)
    with "2.IH" s c u "2.prems" show ?case by simp
  qed simp
  then show "rb_ok (snoop_assign_all off bs rb)" "contents (snoop_assign_all off bs rb) = overlay (contents rb) off bs"
    "bufferLength (snoop_assign_all off bs rb) = bufferLength rb" by blast+
qed

lemma write_tail_law:
  fixes vf :: virtual_file
  assumes tok: "tail_ok (tailBuffer vf)" and t: "t = contents (tailBuffer vf)" "base + length t < 281474976710656"
    and pos: "base \<le> currentPosition vf" "currentPosition vf \<le> base + length t"
    and r: "0 < r" "off + r \<le> length caller"
  obtains te off2 r2 rb pos2 where "write_tail base (base + length t) caller off r vf =
      Some (te, off2, r2, vf\<lparr>tailBuffer := rb, currentPosition := pos2\<rparr>)" "tail_ok rb"
    "off2 + r2 = off + r" "r2 \<le> r" "rb_count rb \<le> length t"
    "contents rb @ take r2 (drop off2 caller) = overlay t (currentPosition vf - base) (take r (drop off caller))"
    "0 < r2 \<longrightarrow> pos2 = te \<and> base + length t \<le> currentPosition vf + r" "r2 = 0 \<longrightarrow> pos2 = currentPosition vf + r"
proof -
  let ?rb = "tailBuffer vf" and ?o = "currentPosition vf - base" and ?x = "take r (drop off caller)"
  have rbo: "rb_ok ?rb" using tok by (simp add: tail_ok_def)
  have lt: "rb_count ?rb = length t" "length t \<le> 4096" using tail_count [OF tok] by (simp_all add: t(1))
  have lx: "length ?x = r" using r(2) by simp
  show thesis
  proof (cases "currentPosition vf = base \<and> rb_count ?rb \<le> r")
    case True
    have "bufferLength (rb_clear ?rb) = bufferLength ?rb" by (simp add: rb_clear_def)
    then have c: "tail_ok (rb_clear ?rb)" "contents (rb_clear ?rb) = []"
      using rb_clear_ok [OF rbo] tok by (simp_all add: tail_ok_def)
    have "rb_count (rb_clear ?rb) = 0" using arg_cong [OF c(2), of length] by simp
    moreover have "overlay t 0 ?x = ?x" using True lt(1) lx by (simp add: overlay_def)
    moreover have "write_tail base (base + length t) caller off r vf =
        Some (base, off, r, vf\<lparr>tailBuffer := rb_clear ?rb, currentPosition := base\<rparr>)"
      using True by (cases vf) (simp add: write_tail_def)
    ultimately show ?thesis using that [OF _ c(1), of base off r base] True lt(1) c(2) r(1) by simp
  next
    case False
    define e where "e = min r (length t - ?o)"
    let ?b = "take e (drop off caller)"
    have e: "?o + e \<le> length t" "off + e \<le> length caller" "e \<le> r" using pos r(2) by (auto simp: e_def)
    have u: "u32 (sub64 (currentPosition vf) base) = ?o" "sub32 (length t) ?o = length t - ?o"
      "u64 (currentPosition vf + e) = currentPosition vf + e"
      using pos t(2) lt(2) e(1) by (simp_all add: sub64_id u32_id sub32_id u64_id)
    have if_e: "(if r < length t - ?o then r else length t - ?o) = e" by (simp add: e_def)
    have ld: "load_bytes (vf_memory caller vf) (Ptr CallerBuffer off) e = Some ?b"
      using e(2) by (simp add: load_bytes_def vf_memory_def)
    have lb: "length ?b = e" using e(2) by simp
    let ?rb' = "snoop_assign_all ?o ?b ?rb"
    have pre: "?o + length ?b \<le> rb_count ?rb" "rb_count ?rb \<le> 4096" using e lb lt by simp_all
    note s = snoop_assign_all_ok [OF rbo pre]
    have c: "tail_ok ?rb'" "contents ?rb' = overlay t ?o ?b" using s tok t(1) by (simp_all add: tail_ok_def)
    have cnt: "rb_count ?rb' = length t" using arg_cong [OF c(2), of length] e(1) lb by simp
    have wt: "write_tail base (base + length t) caller off r vf =
        Some (base + length t, off + e, r - e, vf\<lparr>tailBuffer := ?rb', currentPosition := currentPosition vf + e\<rparr>)"
      unfolding write_tail_def Let_def lt(1) u(1,2) if_e ld
      using False pos(1) u(3) lt(1) by auto
    have ov: "contents ?rb' @ take (r - e) (drop (off + e) caller) = overlay t ?o ?x"
    proof (cases "r \<le> length t - ?o")
      case True
      then have "e = r" by (simp add: e_def)
      then show ?thesis using c(2) by simp
    next
      case F: False
      have "?x = ?b @ take (r - e) (drop (off + e) caller)" using take_take_drop [of e off caller "r - e"] e(3) by simp
      moreover have "?o + length ?b = length t" using F lb pos(2) by (simp add: e_def)
      ultimately show ?thesis unfolding c(2) using pos(2) by (simp add: overlay_def)
    qed
    have f: "0 < r - e \<longrightarrow> currentPosition vf + e = base + length t \<and> base + length t \<le> currentPosition vf + r"
      "r - e = 0 \<longrightarrow> currentPosition vf + e = currentPosition vf + r" using pos by (auto simp: e_def)
    have g: "off + e + (r - e) = off + r" "r - e \<le> r" "rb_count ?rb' \<le> length t" using e(3) cnt by simp_all
    show ?thesis by (rule that [OF wt c(1) g ov f])
  qed
qed

lemma overlay_two:
  assumes "length P \<le> pos + length a" "a = [] \<or> pos + length a = length P"
  shows "overlay (P @ t) pos (a @ b) = overlay P pos a @ overlay t (pos + length a - length P) b"
proof (cases "a = []")
  case True
  then have "length P \<le> pos" using assms(1) by simp
  then show ?thesis using True by (simp add: overlay_def)
next
  case False
  then have "pos + length a = length P" using assms(2) by simp
  then have "pos + (length a + length b) - length P = length b" "pos + length a = length P" by simp_all
  then show ?thesis by (simp add: overlay_def)
qed

context storage
begin

lemma vf_write_law:
  assumes w: "ok (device w)" "in_space content used eof w"
    and room: "eof + rb_count (tailBuffer vf) + count + 132 < 134217728"
    and h: "holds (content (device w)) used vf data" "length data + count < 281474976710656"
    and name: "c_string (currentName vf)" "length (currentName vf) \<le> 118"
    and pos: "currentPosition vf \<le> length data"
    and x: "count \<le> length caller" "count < 4294963200"
  shows "\<exists>used' eof' vf' w'. vf_write K scan caller count vf w = Some (WriteSuccessful count, vf', w') \<and>
    holds (content (device w')) used' vf' (overlay data (currentPosition vf) (take count caller)) \<and>
    currentPosition vf' = currentPosition vf + count \<and>
    advance ok content (rb_count (tailBuffer vf) + count + 4) (used, eof, vf, w) (used', eof', vf', w') \<and>
    eof' + rb_count (tailBuffer vf') \<le> eof + rb_count (tailBuffer vf) + count + 4 \<and>
    lastReportedStatus w' = WriteSuccessful count"
proof -
  let ?pos = "currentPosition vf" and ?S = "WriteSuccessful count"
  define t where "t = contents (tailBuffer vf)"
  have lt: "length t = rb_count (tailBuffer vf)" by (simp add: t_def)
  from holds_cases [OF h(1)] obtain D where D: "holds_stored (content (device w)) used vf D"
    "data = patched vf D @ t" "length D + length t = length data" "length data < 281474976710656"
    unfolding lt unfolding t_def by metis
  let ?P = "patched vf D" and ?X = "overlay data (currentPosition vf) (take count caller)"
  have st: "stored (content (device w)) (currentStreamIdentifier vf) 0 (chunkMap vf) D" "buffer_ok vf D"
    using D(1) by (simp_all add: holds_stored_def)
  have lP: "length ?P = length D" by (rule length_patched [OF st])
  have lD: "length D < 281474976710656" "eof < 134217728" using D(3,4) room by simp_all
  note base = currentStoredSize_stored [OF st(1) lD(1)]
  note cont = currentContainer_holds [OF D(1)]
  have ends: "u64 (?pos + count) = ?pos + count" "u64 (length D + rb_count (tailBuffer vf)) = length D + length t"
    using pos h(2) D(3,4) lt by (simp_all add: u64_id)
  have lc: "length (take count caller) = count" using x(1) by simp
  define n where "n = (if ?pos \<le> length D then min count (length D - ?pos) else 0)"
  have "\<exists>D1 vf1 w1. write_loop K (?pos + count) (length D) caller NoStatus 0 count vf w = Some (NoStatus, n, count - n, vf1, w1) \<and>
    holds_stored (content (device w1)) used vf1 D1 \<and> patched vf1 D1 = overlay ?P ?pos (take n caller) \<and>
    currentPosition vf1 = ?pos + n \<and> tailBuffer vf1 = tailBuffer vf \<and>
    advance ok content 0 (used, eof, vf, w) (used, eof, vf1, w1)"
  proof (cases "?pos \<le> length D")
    case True
    have "0 + count \<le> length caller" "count < 4294967295" using x by simp_all
    from write_loop_law [OF w lD(2) D(1) lD(1) True this(2,1)] True show ?thesis by (auto simp: n_def)
  next
    case False
    then have "write_loop K (?pos + count) (length D) caller NoStatus 0 count vf w = Some (NoStatus, 0, count, vf, w)"
      by (subst write_loop.simps) simp
    with False D(1) w show ?thesis
      by (intro exI [of _ D] exI [of _ vf] exI [of _ w] conjI) (simp_all add: n_def advance_refl)
  qed
  then obtain D1 vf1 w1 where l: "write_loop K (?pos + count) (length D) caller NoStatus 0 count vf w =
      Some (NoStatus, n, count - n, vf1, w1)"
    "holds_stored (content (device w1)) used vf1 D1" "patched vf1 D1 = overlay ?P ?pos (take n caller)"
    "currentPosition vf1 = ?pos + n" "tailBuffer vf1 = tailBuffer vf"
    "advance ok content 0 (used, eof, vf, w) (used, eof, vf1, w1)" by blast
  from l(6) have a: "ok (device w1)" "in_space content used eof w1" by (simp_all add: advance_def)
  note cont1 = currentContainer_holds [OF l(2)]
  have lX: "length ?X = max (length data) (?pos + count)" using lc pos by (simp add: length_overlay)
  have ldX: "length ?X < 281474976710656" using lX h(2) pos D(4) by simp
  have start: "vf_write K scan caller count vf w = (do {
      (te, off2, r2, vf2) \<leftarrow> (if 0 < count - n then write_tail (length D) (length D + length t) caller n (count - n) vf1
        else Some (length D + length t, n, count - n, vf1));
      (status, vf, w) \<leftarrow> (if 0 < r2 then do {
          assertion (currentPosition vf2 = te);
          (status, vf, w) \<leftarrow> vf_append K scan caller off2 r2 vf2 w1;
          status \<leftarrow> completed_write status r2;
          Some (status, vf, w)
        } else Some (NoStatus, vf2, w1));
      let status = (if \<not> has_info status then ?S else status);
      Some (status, vf, set_last status vf w) })"
    unfolding vf_write_def in_space_scan [OF w(2)] if_P [OF cont] bind.bind_lunit prod.case Let_def base ends l(1)
    by simp
  have nm: "n \<le> count" by (simp add: n_def)
  have len_n: "length (take n caller) = n" using nm x(1) by simp
  show ?thesis
  proof (cases "0 < count - n")
    case False
    then have n: "n = count" using nm by simp
    have inP: "count = 0 \<or> ?pos + count \<le> length ?P" using n lP unfolding n_def by (auto split: if_splits)
    then have X: "?X = overlay ?P ?pos (take count caller) @ t"
      using lc unfolding D(2) by (auto simp: overlay_append)
    have "holds (content (device w1)) used vf1 ?X"
      by (rule holdsI [OF l(2) _ ldX]) (simp add: X l(3,5) n t_def)
    moreover have "vf_write K scan caller count vf w = Some (?S, vf1, setLastStatus ?S w1)"
      unfolding start using False cont1 by (simp add: set_last_def Let_def)
    moreover have "advance ok content (rb_count (tailBuffer vf) + count + 4) (used, eof, vf, w) (used, eof, vf1, setLastStatus ?S w1)"
      by (rule advance_setLastStatus [OF advance_mono [OF l(6)]]) simp
    ultimately show ?thesis using l(4,5) n
      by (intro exI [of _ used] exI [of _ eof] exI [of _ vf1] exI [of _ "setLastStatus ?S w1"] conjI) simp_all
  next
    case True
    let ?r = "count - n"
    have at: "length D \<le> ?pos + n" "n = 0 \<or> ?pos + n = length D" using True by (auto simp: n_def split: if_splits)
    have bd: "length D \<le> currentPosition vf1" "currentPosition vf1 \<le> length D + length t"
      "length D + length t < 281474976710656" "n + ?r \<le> length caller"
      using at pos l(4) D(3,4) nm x(1) by auto
    have tok1: "tail_ok (tailBuffer vf1)" using l(2) by (simp add: holds_stored_def)
    have t1: "t = contents (tailBuffer vf1)" by (simp add: t_def l(5))
    from write_tail_law [OF tok1 t1 bd(3,1,2) True bd(4)] obtain te off2 r2 rb pos2 where
      wt: "write_tail (length D) (length D + length t) caller n ?r vf1 =
          Some (te, off2, r2, vf1\<lparr>tailBuffer := rb, currentPosition := pos2\<rparr>)" "tail_ok rb"
        "off2 + r2 = n + ?r" "r2 \<le> ?r" "rb_count rb \<le> length t"
        "contents rb @ take r2 (drop off2 caller) =
          overlay t (currentPosition vf1 - length D) (take ?r (drop n caller))"
        "0 < r2 \<longrightarrow> pos2 = te \<and> length D + length t \<le> currentPosition vf1 + ?r"
        "r2 = 0 \<longrightarrow> pos2 = currentPosition vf1 + ?r" .
    let ?vf2 = "vf1\<lparr>tailBuffer := rb, currentPosition := pos2\<rparr>"
    note ht = holds_tail [OF l(2) wt(2)]
    have hs2: "holds_stored (content (device w1)) used ?vf2 D1" "patched ?vf2 D1 = overlay ?P ?pos (take n caller)"
      using ht l(3) by simp_all
    have X: "?X = overlay ?P ?pos (take n caller) @ contents rb @ take r2 (drop off2 caller)"
    proof -
      have "take count caller = take n caller @ take ?r (drop n caller)" using nm take_add [of n ?r caller] by simp
      moreover have "take n caller = [] \<or> ?pos + length (take n caller) = length ?P" using at(2) lP len_n by auto
      ultimately show ?thesis
        unfolding D(2) wt(6) l(4) using overlay_two [of ?P ?pos "take n caller" t "take ?r (drop n caller)"] at(1) lP len_n by simp
    qed
    let ?data = "overlay ?P ?pos (take n caller) @ contents rb"
    have lr: "length (take r2 (drop off2 caller)) = r2" using wt(3) bd(4) by simp
    have lX2: "length ?data + r2 = length ?X" unfolding X using lr by (simp only: length_append)
    have hd: "holds (content (device w1)) used ?vf2 ?data"
      by (rule holdsI [OF hs2(1)]) (use hs2(2) lX2 ldX in simp_all)
    have op: "vf_write K scan caller count vf w = (do {
      (status, vf, w) \<leftarrow> (if 0 < r2 then do {
          assertion (currentPosition ?vf2 = te);
          (status, vf, w) \<leftarrow> vf_append K scan caller off2 r2 ?vf2 w1;
          status \<leftarrow> completed_write status r2;
          Some (status, vf, w)
        } else Some (NoStatus, ?vf2, w1));
      let status = (if \<not> has_info status then ?S else status);
      Some (status, vf, set_last status vf w) })"
      unfolding start if_P [OF True] wt(1) bind.bind_lunit prod.case ..
    have adv2: "advance ok content 0 (used, eof, vf, w) (used, eof, ?vf2, w1)"
      by (rule advance_other_fields [OF l(6)]) (simp_all add: file_cells_def start_cells_def)
    show ?thesis
    proof (cases "0 < r2")
      case False
      then have r0: "r2 = 0" by simp
      have "vf_write K scan caller count vf w = Some (?S, ?vf2, setLastStatus ?S w1)"
        unfolding op using False cont1 by (simp add: set_last_def Let_def)
      moreover have "advance ok content (rb_count (tailBuffer vf) + count + 4) (used, eof, vf, w) (used, eof, ?vf2, setLastStatus ?S w1)"
        by (rule advance_setLastStatus [OF advance_mono [OF adv2]]) simp
      moreover have "holds (content (device w1)) used ?vf2 ?X" using hd r0 X by simp
      moreover have "pos2 = ?pos + count" using wt(8) r0 l(4) nm by simp
      ultimately show ?thesis using wt(5) lt
        by (intro exI [of _ used] exI [of _ eof] exI [of _ ?vf2] exI [of _ "setLastStatus ?S w1"] conjI) simp_all
    next
      case R: True
      have names: "currentName ?vf2 = currentName vf" using l(6) by (simp add: advance_def)
      have pre: "eof + rb_count (tailBuffer ?vf2) + r2 + 132 < 134217728" "length ?data + r2 < 281474976710656"
        "c_string (currentName ?vf2)" "length (currentName ?vf2) \<le> 118" "off2 + r2 \<le> length caller" "r2 < 4294963200"
        using room wt(3-5) lt lX2 ldX name names bd(4) x(2) by simp_all
      from vf_append_law [OF a pre(1) hd pre(2-6), of scan] obtain used' eof' vf' w' where
        ap: "vf_append K scan caller off2 r2 ?vf2 w1 = Some (WriteSuccessful r2, vf', w')"
          "holds (content (device w')) used' vf' (?data @ take r2 (drop off2 caller))"
          "startChunkIndex vf' \<noteq> invalidFileIndex" "currentPosition vf' = length ?data + r2"
          "advance ok content (rb_count (tailBuffer ?vf2) + r2 + 4) (used, eof, ?vf2, w1) (used', eof', vf', w')"
          "eof' + rb_count (tailBuffer vf') \<le> eof + rb_count (tailBuffer ?vf2) + r2 + 4"
        by (elim exE conjE)
      have "holds (content (device w')) used' vf' ?X" using ap(2) unfolding X append_assoc .
      moreover have "currentPosition vf' = ?pos + count"
        using ap(4) lX2 lX wt(7) R l(4) nm D(3) by simp
      moreover have "vf_write K scan caller count vf w = Some (?S, vf', setLastStatus ?S w')"
      proof -
        obtain D' where "holds_stored (content (device w')) used' vf' D'" by (rule holds_cases [OF ap(2)])
        note cont' = currentContainer_holds [OF this]
        have c: "completed_write (WriteSuccessful r2) r2 = Some NoStatus"
          by (simp add: completed_write_def WriteSuccessful_bytesWritten_def)
        have p: "currentPosition ?vf2 = te" using wt(7) R by simp
        show ?thesis unfolding op if_P [OF R] ap(1) using p c cont' by (simp add: set_last_def Let_def)
      qed
      moreover have "advance ok content (rb_count (tailBuffer vf) + count + 4) (used, eof, vf, w) (used', eof', vf', setLastStatus ?S w')"
        by (rule advance_setLastStatus [OF advance_mono [OF advance_trans [OF adv2 ap(5)]]]) (use wt(4,5) lt in simp)
      moreover have "eof' + rb_count (tailBuffer vf') \<le> eof + rb_count (tailBuffer vf) + count + 4"
        using ap(6) wt(4,5) lt by simp
      ultimately show ?thesis
        by (intro exI [of _ used'] exI [of _ eof'] exI [of _ vf'] exI [of _ "setLastStatus ?S w'"] conjI) simp_all
    qed
  qed
qed

end


end
