(* ===== verification/Container_Opening.thy ===== *)
theory Container_Opening
  imports Byte_Stream
begin

text \<open>
  Opening a container on a medium without faults: a fresh container gets a file header chunk
  and is in the state the writers of files need (\<open>in_space\<close>); an existing one is recognised
  by that chunk, and refused when it belongs to another application.
\<close>

definition file_header_at :: "byte list \<Rightarrow> string \<Rightarrow> bool" where
  "file_header_at bytes s \<longleftrightarrow>
     (let h = stored_header (length s + 8) bytes 0 in
      fit_size (length s + 8) \<le> length bytes \<and> length s \<le> 4088 \<and> numberValidBytes h = length s + 4 \<and>
      chunkSize h = fit_size (length s + 8) \<and> file_identifier h = Some s \<and> majorVersion h = Some containerMajorVersion \<and>
      minorVersion h = Some containerMinorVersion \<and> Chunk_checkCrc h)"

lemma file_header_at_keeps:
  assumes "file_header_at bytes s" "keeps {..< fit_size (length s + 8) div 32} bytes bytes'"
  shows "file_header_at bytes' s"
proof -
  let ?n = "fit_size (length s + 8)"
  have len: "?n \<le> length bytes" "length s \<le> 4088" using assms(1) by (simp_all add: file_header_at_def Let_def)
  have n: "32 * (?n div 32) = ?n" by (rule fit_size_cells)
  have "{0 ..< 0 + ?n div 32} \<subseteq> {..< ?n div 32}" by auto
  from keeps_area [OF assms(2) this] len n have "take ?n bytes' = take ?n bytes" by simp
  then have "take (length s + 8) (take ?n bytes') = take (length s + 8) (take ?n bytes)" by simp
  moreover have "length s + 8 \<le> ?n" using fit_size_bounds(3) [of "length s + 8"] len(2) by simp
  ultimately have "take (length s + 8) bytes' = take (length s + 8) bytes" by (simp add: min_absorb1)
  then show ?thesis using assms(1) keeps_length [OF assms(2)] by (simp add: file_header_at_def stored_header_def Let_def)
qed

context storage
begin

lemma container_open_new_law:
  assumes w: "ok (device w)" "content (device w) = []" and s: "length (currentFileIdentifier w) \<le> 4088"
  defines "h \<equiv> fit_size (length (currentFileIdentifier w) + 8) div 32"
  obtains w' where "container_open K w = Some (NoStatus, w')" "ok (device w')"
    "length (content (device w')) = 32 * h" "file_header_at (content (device w')) (currentFileIdentifier w)"
    "in_space content {..< h} h w'" "startingFileIndex w' = h" "currentMinorVersion w' = containerMinorVersion"
    "filesByIdentifier w' = []" "fileApisByName w' = []" "filesByName w' = []" "lastReportedStatus w' = NoStatus"
    "currentFileIdentifier w' = currentFileIdentifier w" "container.more w' = container.more w"
proof -
  let ?s = "currentFileIdentifier w"
  have lim: "length (content (device w)) \<le> storage_limit" "0 \<le> length (content (device w))" using w(2) by simp_all
  from container_setPosition_law [OF w(1) lim(2,1)] obtain d0 where
    d0: "container_setPosition K 0 w = Some (NoStatus, w\<lparr>device := d0\<rparr>)" "ok d0" "content d0 = []" "cursor d0 = 0"
    using w(2) by auto
  have r: "length (content d0) \<le> storage_limit" "(4 :: nat) < 4294967296" "0 = min 4 (length (content d0) - cursor d0)"
    using d0(3) by simp_all
  from read_law [OF d0(2) r] obtain d1 where
    d1: "op_read K 4 d0 = Some (ReadSuccessful 0, [], d1)" "ok d1" "content d1 = []" using d0(3) by auto
  let ?w = "w\<lparr>device := d1\<rparr>"
  have sz: "container_size K ?w = Some 0" using size_law [OF d1(2)] d1(3) by (simp add: container_size_def)
  from FileHeaderChunk_establishes [OF s, where uninit = "junk w" and index = 0] obtain c where
    c: "FileHeaderChunk (junk w) 0 ?s = Some c" "length (header c) = length ?s + 8"
      "header_type c = FILE_HEADER_CHUNK" "numberValidBytes c = length ?s + 4"
      "chunkSize c = fit_size (length ?s + 8)" "currentFileIndex c = 0" "majorVersion c = Some 1" "minorVersion c = Some 0"
      "file_identifier c = Some ?s" .
  have fs: "length ?s + 8 \<le> fit_size (length ?s + 8)" "fit_size (length ?s + 8) \<le> 4096"
    using fit_size_bounds [of "length ?s + 8"] s by simp_all
  have l4: "4 \<le> length (header c)" "length (header c) \<le> chunkSize c"
    "32 * currentFileIndex c \<le> length (content (device ?w))" "32 * currentFileIndex c + chunkSize c \<le> storage_limit"
    "ok (device ?w)" "length (content (device ?w)) \<le> storage_limit"
    using c fs d1 by (simp_all add: storage_limit_def)
  note u = Chunk_updateCrc_fields [OF l4(1)]
  let ?c = "Chunk_updateCrc c"
  from save_plain_law [OF l4(5,6,1-4)] obtain d seed pad where
    d: "Chunk_save K (\<lambda>c. Some (Chunk_updateCrc c)) True c ?w =
      Some (NoStatus, ?c, ?w\<lparr>device := d, randomSeed := seed\<rparr>)" "ok d"
    "content d = overlay (content (device ?w)) (32 * currentFileIndex c) (header ?c @ pad)"
    "length (header ?c @ pad) = chunkSize c" .
  have cd: "content d = header ?c @ pad" using d(3) c(6) d1(3) by (simp add: overlay_def)
  have ld: "length (content d) = fit_size (length ?s + 8)" using cd d(4) c(5) by simp
  have lc: "length (header ?c) = length ?s + 8" using u c(2) by simp
  have "header (stored_header (length ?s + 8) (content d) 0) = header ?c"
    using cd lc by (simp add: stored_header_def)
  note same = plain_fields_of_header [OF this] fields_of_header [OF this]
  have fh: "file_identifier ?c = Some ?s" "majorVersion ?c = Some 1" "minorVersion ?c = Some 0"
  proof -
    have "file_identifier ?c = file_identifier c" "majorVersion ?c = majorVersion c" "minorVersion ?c = minorVersion c"
      using u lc c(2) by (simp_all add: file_identifier_def majorVersion_def minorVersion_def additionalHeader_def Let_def)
    then show "file_identifier ?c = Some ?s" "majorVersion ?c = Some 1" "minorVersion ?c = Some 0" using c by simp_all
  qed
  have at: "file_header_at (content d) ?s"
    using same u c fh ld s by (simp add: file_header_at_def Let_def)
  define w' where "w' = ?w\<lparr>device := d, randomSeed := seed, currentMinorVersion := 0, startingFileIndex := h,
    fileMapsPopulated := True, filesByIdentifier := [], fileApisByName := [], filesByName := [],
    spaceTracker := clearFreeSpace (spaceTracker w), lastReportedStatus := NoStatus\<rparr>"
  have h: "toFileIndex (chunkSize ?c) = h" using u c(5) fs(2) by (simp add: toFileIndex_def h_def u32_id)
  have "open_new K ?w = Some (NoStatus, ?w\<lparr>device := d, randomSeed := seed, currentMinorVersion := 0,
      startingFileIndex := h, fileMapsPopulated := True\<rparr>)"
    using c(1) d(1) fh(3) h by (simp add: open_new_def)
  then have op: "container_open K w = Some (NoStatus, w')"
    using d0 d1(1) sz
    by (simp add: container_open_def container_read_def w'_def)
  have "fit_size (length ?s + 8) = 32 * h" using fit_size_cells [of "length ?s + 8"] by (simp add: h_def)
  then have len: "length (content (device w')) = 32 * h" using ld by (simp add: w'_def)
  have "tracker.ledger (spaceTracker w') {..< h} h"
    by (simp add: w'_def clearFreeSpace_def tracker.ledger_def cells_simps)
  then have sp: "in_space content {..< h} h w'" using len by (simp add: in_space_def w'_def)
  show thesis
    by (rule that [OF op _ len _ sp]) (use d(2) at in \<open>simp_all add: w'_def\<close>)
qed


text \<open>A container that starts with a file header chunk is recognised.\<close>

lemma container_open_existing_law:
  assumes w: "ok (device w)" "length (content (device w)) \<le> storage_limit" "ignoreIdentifierOnOpen w \<longrightarrow> s = currentFileIdentifier w"
    and h: "file_header_at (content (device w)) s"
  obtains w' where "container_open K w = Some (if s = currentFileIdentifier w then NoStatus else HeaderIdentifierInvalid, w')"
    "ok (device w')" "content (device w') = content (device w)"
    "lastReportedStatus w' = (if s = currentFileIdentifier w then NoStatus else HeaderIdentifierInvalid)"
    "filesByIdentifier w' = []" "fileApisByName w' = []" "filesByName w' = []"
    "currentFileIdentifier w' = currentFileIdentifier w"
    "s = currentFileIdentifier w \<longrightarrow> startingFileIndex w' = fit_size (length s + 8) div 32 \<and>
      currentMinorVersion w' = containerMinorVersion \<and>
      fileMapsPopulated w' = (length (content (device w)) = fit_size (length s + 8) div 32)"
    "s \<noteq> currentFileIdentifier w \<longrightarrow> startingFileIndex w' = invalidFileIndex \<and> currentMinorVersion w' = 255 \<and>
      \<not> fileMapsPopulated w'"
    "spaceTracker w' = clearFreeSpace (spaceTracker w)" "container.more w' = container.more w"
proof -
  let ?b = "content (device w)" and ?n = "length s + 8"
  let ?h = "stored_header ?n ?b 0"
  have at: "fit_size ?n \<le> length ?b" "length s \<le> 4088" "numberValidBytes ?h = length s + 4"
    "chunkSize ?h = fit_size ?n" "file_identifier ?h = Some s" "majorVersion ?h = Some 1" "minorVersion ?h = Some 0"
    "Chunk_checkCrc ?h" using h by (simp_all add: file_header_at_def Let_def)
  have fs: "?n \<le> fit_size ?n" "fit_size ?n \<le> 4096" using fit_size_bounds [of ?n] at(2) by simp_all
  then have n: "?n \<le> length ?b" using at(1) by simp
  have z: "0 \<le> length ?b" by simp
  from container_setPosition_law [OF w(1) z w(2)] obtain d0 where
    d0: "container_setPosition K 0 w = Some (NoStatus, w\<lparr>device := d0\<rparr>)" "ok d0" "content d0 = ?b" "cursor d0 = 0" .
  let ?w0 = "w\<lparr>device := d0\<rparr>"
  have r: "ok (device ?w0)" "cursor (device ?w0) + 4 \<le> length (content (device ?w0))"
    "length (content (device ?w0)) \<le> storage_limit" "(4 :: nat) < 4294967296" using d0 n w(2) by simp_all
  from container_read_law [OF r] obtain d1 where
    d1: "container_read K 4 ?w0 = Some (ReadSuccessful 4, take 4 ?b, w\<lparr>device := d1\<rparr>)" "ok d1" "content d1 = ?b"
    using d0(3,4) by auto
  let ?w = "w\<lparr>device := d1\<rparr>"
  let ?c4 = "take 4 ?b"
  have "header \<lparr>header = ?c4\<rparr> = take 4 (header ?h)" by (simp add: stored_header_def min_absorb1)
  moreover have "length (header ?h) = ?n" using n by (simp add: stored_header_def)
  ultimately have nv: "numberValidBytes \<lparr>header = ?c4\<rparr> = length s + 4"
    using header_common_cong(3) [of "\<lparr>header = ?c4\<rparr>" ?h] at(3) n by simp
  have "length ?c4 = 4" "numberValidBytes \<lparr>header = ?c4\<rparr> \<le> 4092" using nv n at(2) by simp_all
  from FileHeaderChunk_common_establishes [OF this, where uninit = "junk w" and index = 0, unfolded nv] obtain l where
    l: "FileHeaderChunk_common (junk w) 0 ?c4 = Some l" "length (header l) = length s + 4 + 4"
      "take 4 (header l) = ?c4" "currentFileIndex l = 0" .
  have pre: "ok (device ?w)" "length (content (device ?w)) \<le> storage_limit" "currentFileIndex l < 134217728"
    "32 * currentFileIndex l + length (header l) \<le> length (content (device ?w))" "4 \<le> length (header l)"
    "length (header l) < 65536" using d1 w(2) l n at(2) by simp_all
  from Chunk_load_additional_law [OF pre] obtain d2 where
    d2: "Chunk_load K False l ?w = Some (NoStatus, l\<lparr>header := take 4 (header l) @
        take (length (header l) - 4) (drop (32 * currentFileIndex l + 4) (content (device ?w)))\<rparr>, ?w\<lparr>device := d2\<rparr>)"
      "ok d2" "content d2 = ?b" using d1(3) by auto
  define f where "f = l\<lparr>header := take 4 (header l) @
        take (length (header l) - 4) (drop (32 * currentFileIndex l + 4) (content (device ?w)))\<rparr>"
  have "take 4 ?b @ take (4 + length s) (drop 4 ?b) = take ?n ?b"
    using take_add [of 4 "length s + 4" ?b] by (simp add: add.commute add.left_commute)
  then have "header f = header ?h" using l d1(3) by (simp add: f_def stored_header_def)
  note same = plain_fields_of_header [OF this]
  have f: "file_identifier f = Some s" "majorVersion f = Some 1" "minorVersion f = Some 0" "Chunk_checkCrc f"
    "chunkSize f = fit_size ?n" using same at by simp_all
  have idx: "toFileIndex (fit_size ?n) = fit_size ?n div 32" using fs(2) by (simp add: toFileIndex_def u32_id)
  have sz: "container_size K (w\<lparr>device := d2, currentMinorVersion := v, startingFileIndex := i\<rparr>) = Some (int (length ?b))" for v i
    using size_law [OF d2(2)] d2(3) w(2) by (simp add: container_size_def)
  have ov: "overlay (new_array (junk w) 4) 0 ?c4 = ?c4" using n by (simp add: overlay_def new_array_def)
  note d2' = d2(1) [folded f_def]
  show thesis
  proof (cases "s = currentFileIdentifier w")
    case True
    have "check_identifier (currentFileIdentifier w) f NoStatus = Some NoStatus"
      using f True by (simp add: check_identifier_def)
    then have "open_existing K ?c4 ?w = Some (NoStatus, w\<lparr>device := d2, currentMinorVersion := 0,
        startingFileIndex := fit_size ?n div 32,
        fileMapsPopulated := (int (length ?b) = int (fit_size ?n div 32))\<rparr>)"
      using l(1) d2' f idx sz by (simp add: open_existing_def)
    then have "container_open K w = Some (NoStatus, w\<lparr>device := d2, currentMinorVersion := 0,
        startingFileIndex := fit_size ?n div 32, fileMapsPopulated := (int (length ?b) = int (fit_size ?n div 32)),
        filesByIdentifier := [], fileApisByName := [], filesByName := [],
        spaceTracker := clearFreeSpace (spaceTracker w), lastReportedStatus := NoStatus\<rparr>)"
      using d0(1) d1(1) ov n by (simp add: container_open_def)
    with that True d2(2,3) show ?thesis by simp
  next
    case False
    have "check_identifier (currentFileIdentifier w) f NoStatus = Some HeaderIdentifierInvalid"
      using f False by (simp add: check_identifier_def)
    moreover have "\<not> ignoreIdentifierOnOpen w" using w(3) False by blast
    ultimately have "\<exists>b. open_existing K ?c4 ?w = Some (HeaderIdentifierInvalid, w\<lparr>device := d2, fileMapsPopulated := b\<rparr>)"
      using l(1) d2' size_law [OF d2(2)] d2(3) w(2)
      by (intro exI [of _ "length (content (device w)) = startingFileIndex w"])
        (simp add: open_existing_def container_size_def)
    then obtain b where "open_existing K ?c4 ?w = Some (HeaderIdentifierInvalid, w\<lparr>device := d2, fileMapsPopulated := b\<rparr>)" ..
    then have "container_open K w = Some (HeaderIdentifierInvalid, w\<lparr>device := d2, currentMinorVersion := 255,
        startingFileIndex := invalidFileIndex, fileMapsPopulated := False,
        filesByIdentifier := [], fileApisByName := [], filesByName := [],
        spaceTracker := clearFreeSpace (spaceTracker w), lastReportedStatus := HeaderIdentifierInvalid\<rparr>)"
      using d0(1) d1(1) ov n by (simp add: container_open_def)
    with that False d2(2,3) show ?thesis by simp
  qed
qed

end

end
