(* ===== verification/File_Operations.thy ===== *)
theory File_Operations
  imports Library Stream_Write Container_Opening
begin

text \<open>
  The public operations of \<open>Container::Container\<close> and \<open>Container::VirtualFile\<close> as a whole: any
  sequence of them, on any number of files that share one container, does what it would do on
  independent arrays of bytes with a position each (\<open>abs_op\<close>).
\<close>

subsection \<open>New files\<close>

lemma search_identifier_least:
  assumes "k \<notin> om_keys m" "\<forall>j. i \<le> j \<and> j < k \<longrightarrow> j \<in> om_keys m" "i \<le> k" "k < 2147483648"
  shows "search_identifier i m = Some k"
  using assms
proof (induction "k - i" arbitrary: i)
  case 0
  then have "i = k" by simp
  then show ?case using 0 by (subst search_identifier.simps) simp
next
  case (Suc n)
  then have i: "i < k" "i \<in> om_keys m" by simp_all
  then have u: "u32 (i + 1) = i + 1" "i + 1 \<noteq> invalidStreamIdentifier" using Suc.prems(4) by (simp_all add: u32_id)
  have "search_identifier (i + 1) m = Some k"
    by (rule Suc.hyps(1)) (use Suc i in simp_all)
  then show ?case using i(2) u by (subst search_identifier.simps) simp
qed

lemma unused_identifier:
  obtains k :: nat where "k \<notin> om_keys m" "\<forall>j < k. j \<in> om_keys m" "k \<le> length m"
proof -
  have fin: "finite (om_keys m)" by simp
  then have "\<exists>k. k \<notin> om_keys m" by (metis ex_new_if_finite infinite_UNIV_nat)
  then obtain i where i: "i \<notin> om_keys m" ..
  define k where "k = (LEAST k. k \<notin> om_keys m)"
  have k: "k \<notin> om_keys m" unfolding k_def by (rule LeastI [of "\<lambda>k. k \<notin> om_keys m", OF i])
  moreover have "\<forall>j < k. j \<in> om_keys m" unfolding k_def using not_less_Least by blast
  ultimately have k: "k \<notin> om_keys m" "\<forall>j < k. j \<in> om_keys m" by blast+
  then have "card {..< k} \<le> card (om_keys m)" using fin by (intro card_mono) auto
  also have "\<dots> \<le> length m" using card_image_le [of "set m" fst] card_length [of m] by simp
  finally show thesis using that k by simp
qed

lemma search_identifier_fresh:
  assumes "length m < 2147483648"
  obtains k where "search_identifier 0 m = Some k" "k \<notin> om_keys m" "k \<le> length m"
proof -
  obtain k where "k \<notin> om_keys m" "\<forall>j < k. j \<in> om_keys m" "k \<le> length m" by (rule unused_identifier)
  with assms that search_identifier_least [of k m 0] show thesis by simp
qed

lemma newVirtualFile_law:
  fixes h :: "('d, 'z) library_scheme"
  assumes h: "fileMapsPopulated h" "length (filesByIdentifier h) < 2147483648"
    and name: "name \<notin> om_keys (fileApisByName h)" "name \<notin> om_keys (filesByName h)"
  obtains sid where "sid \<notin> om_keys (filesByIdentifier h)" "sid \<le> length (filesByIdentifier h)"
    "newVirtualFile traverse name h = Some (length (virtualFiles h), h\<lparr>
      virtualFiles := virtualFiles h @ [VirtualFileImpl (junk h) name sid],
      fileApisByName := om_insert name (length (virtualFiles h)) (fileApisByName h),
      filesByName := om_insert name (length (virtualFiles h)) (filesByName h),
      filesByIdentifier := om_insert sid (length (virtualFiles h)) (filesByIdentifier h)\<rparr>)"
proof -
  from search_identifier_fresh [OF h(2)] obtain sid where
    s: "search_identifier 0 (filesByIdentifier h) = Some sid" "sid \<notin> om_keys (filesByIdentifier h)"
      "sid \<le> length (filesByIdentifier h)" .
  have n: "om_find name (fileApisByName h) = None" "om_find name (filesByName h) = None" using name by simp_all
  let ?f = "VirtualFileImpl (junk h) name sid" and ?r = "length (virtualFiles h)"
  have "newStreamIdentifier traverse h = Some (sid, True, h)"
    using h(1) s(1) by (simp add: newStreamIdentifier_def)
  then have "impl_newVirtualFile traverse name h = Some (Some ?r,
      h\<lparr>virtualFiles := virtualFiles h @ [?f], fileApisByName := om_insert name ?r (fileApisByName h)\<rparr>)"
    using h(1) n(1) by (simp add: impl_newVirtualFile_def createFile_def)
  moreover have "currentName ?f = name" "currentStreamIdentifier ?f = sid" by (simp_all add: VirtualFileImpl_def)
  ultimately have "newVirtualFile traverse name h = Some (?r, h\<lparr>
      virtualFiles := virtualFiles h @ [?f],
      fileApisByName := om_insert name ?r (fileApisByName h),
      filesByName := om_insert name ?r (filesByName h),
      filesByIdentifier := om_insert sid ?r (filesByIdentifier h)\<rparr>)"
    using n(2) by (simp add: newVirtualFile_def file_at_def registerFileImplementation_def)
  with s that show thesis by blast
qed

lemma new_file_holds:
  assumes "sid < 2147483648"
  shows "holds bytes used (VirtualFileImpl uninit name sid) []" "file_cells (VirtualFileImpl uninit name sid) = {}"
    "currentPosition (VirtualFileImpl uninit name sid) = 0" "currentName (VirtualFileImpl uninit name sid) = name"
    "rb_count (tailBuffer (VirtualFileImpl uninit name sid)) = 0"
proof -
  let ?f = "VirtualFileImpl uninit name sid"
  have "tail_ok (tailBuffer ?f)" "contents (tailBuffer ?f) = []"
    by (simp_all add: VirtualFileImpl_def tail_ok_def RingBuffer_def rb_ok_def wrap_def new_array_def contents_def)
  moreover have "file_cells ?f = {}" "start_cells ?f = {}"
    by (simp_all add: VirtualFileImpl_def file_cells_def start_cells_def)
  ultimately show "holds bytes used ?f []" "file_cells ?f = {}"
    using assms by (auto simp: holds_def holds_stored_def VirtualFileImpl_def patched_def buffer_ok_def)
  show "currentPosition ?f = 0" "currentName ?f = name" "rb_count (tailBuffer ?f) = 0"
    by (simp_all add: VirtualFileImpl_def RingBuffer_def rb_count_def)
qed

subsection \<open>Files as arrays of bytes\<close>

record byte_file =
  fileName :: string
  fileBytes :: "byte list"
  filePosition :: nat

datatype operation =
    Create string
  | Append nat "byte list"
  | Write nat "byte list"
  | Read nat nat "byte list"
  | SetPosition nat nat
  | SetPositionLast nat
  | Flush nat
  | Size nat

datatype outcome = Handle nat | Result status | Bytes status "byte list" | Count int

text \<open>What an operation does to the arrays, and what it returns.\<close>

fun abs_op :: "operation \<Rightarrow> byte_file list \<Rightarrow> outcome \<times> byte_file list" where
  "abs_op (Create name) fs = (Handle (length fs), fs @ [\<lparr>fileName = name, fileBytes = [], filePosition = 0\<rparr>])"
| "abs_op (Append r bs) fs =
     (Result (WriteSuccessful (length bs)),
      fs[r := (fs ! r)\<lparr>fileBytes := fileBytes (fs ! r) @ bs, filePosition := length (fileBytes (fs ! r)) + length bs\<rparr>])"
| "abs_op (Write r bs) fs =
     (Result (WriteSuccessful (length bs)),
      fs[r := (fs ! r)\<lparr>fileBytes := overlay (fileBytes (fs ! r)) (filePosition (fs ! r)) bs,
                       filePosition := filePosition (fs ! r) + length bs\<rparr>])"
| "abs_op (Read r n caller) fs =
     (let f = fs ! r; m = min n (length (fileBytes f) - filePosition f) in
      (Bytes (ReadSuccessful m) (overlay caller 0 (take m (drop (filePosition f) (fileBytes f)))),
       fs[r := f\<lparr>filePosition := filePosition f + m\<rparr>]))"
| "abs_op (SetPosition r p) fs =
     (if p \<le> length (fileBytes (fs ! r)) then (Result NoStatus, fs[r := (fs ! r)\<lparr>filePosition := p\<rparr>])
      else (Result (SeekError p (length (fileBytes (fs ! r)))), fs))"
| "abs_op (SetPositionLast r) fs =
     (Result NoStatus, fs[r := (fs ! r)\<lparr>filePosition := length (fileBytes (fs ! r))\<rparr>])"
| "abs_op (Flush r) fs = (Result NoStatus, fs)"
| "abs_op (Size r) fs = (Count (int (length (fileBytes (fs ! r)))), fs)"

text \<open>The same operations of the library.\<close>

fun run_op :: "'d container_ops \<Rightarrow> operation \<Rightarrow> 'd library \<Rightarrow> (outcome \<times> 'd library) option" where
  "run_op K (Create name) h = map_option (\<lambda>(r, h). (Handle r, h)) (create_file K name h)"
| "run_op K (Append r bs) h = map_option (\<lambda>(s, h). (Result s, h)) (file_append K r bs h)"
| "run_op K (Write r bs) h = map_option (\<lambda>(s, h). (Result s, h)) (file_write K r bs h)"
| "run_op K (Read r n caller) h = map_option (\<lambda>((s, bs), h). (Bytes s bs, h)) (file_read K r n caller h)"
| "run_op K (SetPosition r p) h = map_option (\<lambda>(s, h). (Result s, h)) (file_setPosition K r p h)"
| "run_op K (SetPositionLast r) h = map_option (\<lambda>(s, h). (Result s, h)) (file_setPositionLast K r h)"
| "run_op K (Flush r) h = map_option (\<lambda>(s, h). (Result s, h)) (file_flush K r h)"
| "run_op K (Size r) h = map_option (\<lambda>(n, h). (Count n, h)) (file_size K r h)"

text \<open>When the operation may be called, and how many cells of the container it may take up at most.\<close>

fun callable :: "operation \<Rightarrow> byte_file list \<Rightarrow> bool" where
  "callable (Create name) fs \<longleftrightarrow> c_string name \<and> length name \<le> 118 \<and> name \<notin> fileName ` set fs"
| "callable (Append r bs) fs \<longleftrightarrow> r < length fs"
| "callable (Write r bs) fs \<longleftrightarrow> r < length fs"
| "callable (Read r n caller) fs \<longleftrightarrow> r < length fs \<and> n < 4294967295 \<and> n \<le> length caller"
| "callable (SetPosition r p) fs \<longleftrightarrow> r < length fs"
| "callable (SetPositionLast r) fs \<longleftrightarrow> r < length fs"
| "callable (Flush r) fs \<longleftrightarrow> r < length fs"
| "callable (Size r) fs \<longleftrightarrow> r < length fs"

fun op_cells :: "operation \<Rightarrow> nat" where
  "op_cells (Create name) = 4"
| "op_cells (Append r bs) = length bs + 4"
| "op_cells (Write r bs) = length bs + 4"
| "op_cells (Flush r) = 4"
| "op_cells _ = 0"

fun run_ops :: "'d container_ops \<Rightarrow> operation list \<Rightarrow> 'd library \<Rightarrow> (outcome list \<times> 'd library) option" where
  "run_ops K [] h = Some ([], h)"
| "run_ops K (x # xs) h = do {
     (r, h) \<leftarrow> run_op K x h;
     (rs, h) \<leftarrow> run_ops K xs h;
     Some (r # rs, h)
   }"

fun abs_ops :: "operation list \<Rightarrow> byte_file list \<Rightarrow> outcome list \<times> byte_file list" where
  "abs_ops [] fs = ([], fs)"
| "abs_ops (x # xs) fs = (let (r, fs) = abs_op x fs; (rs, fs) = abs_ops xs fs in (r # rs, fs))"

fun all_callable :: "operation list \<Rightarrow> byte_file list \<Rightarrow> bool" where
  "all_callable [] fs \<longleftrightarrow> True"
| "all_callable (x # xs) fs \<longleftrightarrow> callable x fs \<and> all_callable xs (snd (abs_op x fs))"

subsection \<open>The simulation\<close>

definition file_like :: "byte list \<Rightarrow> nat set \<Rightarrow> virtual_file \<Rightarrow> byte_file \<Rightarrow> bool" where
  "file_like bytes used vf f \<longleftrightarrow>
     holds bytes used vf (fileBytes f) \<and> currentPosition vf = filePosition f \<and> filePosition f \<le> length (fileBytes f) \<and>
     currentName vf = fileName f \<and> c_string (fileName f) \<and> length (fileName f) \<le> 118"

definition pending :: "virtual_file list \<Rightarrow> nat" where
  "pending vfs = sum_list (map (\<lambda>vf. rb_count (tailBuffer vf)) vfs)"

text \<open>
  \<open>spent\<close> cells of the container have been taken up at most, counting those of bytes in tail
  buffers, in addition to the 128 a file header chunk may have.
\<close>

text \<open>
  How the container is laid out: its cells are those of the file header and those of the files,
  all in use; every file is in order; names and stream identifiers tell the files apart, and
  the map of names leads to the files of these names.
\<close>

definition laid_out :: "('d \<Rightarrow> byte list) \<Rightarrow> nat set \<Rightarrow> nat \<Rightarrow> 'd library \<Rightarrow> bool" where
  "laid_out content used eof h \<longleftrightarrow>
     used = {..< eof} \<and> used = {..< startingFileIndex h} \<union> (\<Union>vf \<in> set (virtualFiles h). file_cells vf) \<and>
     file_header_at (content (device h)) (currentFileIdentifier h) \<and>
     startingFileIndex h = fit_size (length (currentFileIdentifier h) + 8) div 32 \<and>
     (\<forall>vf \<in> set (virtualFiles h). in_order vf \<and> file_cells vf \<inter> {..< startingFileIndex h} = {} \<and>
        currentStreamIdentifier vf \<in> om_keys (filesByIdentifier h)) \<and>
     distinct (map currentStreamIdentifier (virtualFiles h)) \<and> distinct (map currentName (virtualFiles h)) \<and>
     (\<forall>p \<in> set (filesByName h). snd p < length (virtualFiles h) \<and> currentName (virtualFiles h ! snd p) = fst p)"

lemma laid_outD:
  assumes "laid_out content used eof h"
  shows "used = {..< eof}" "used = {..< startingFileIndex h} \<union> (\<Union>vf \<in> set (virtualFiles h). file_cells vf)"
    "file_header_at (content (device h)) (currentFileIdentifier h)"
    "startingFileIndex h = fit_size (length (currentFileIdentifier h) + 8) div 32"
    "vf \<in> set (virtualFiles h) \<Longrightarrow> in_order vf" "vf \<in> set (virtualFiles h) \<Longrightarrow> file_cells vf \<inter> {..< startingFileIndex h} = {}"
    "vf \<in> set (virtualFiles h) \<Longrightarrow> currentStreamIdentifier vf \<in> om_keys (filesByIdentifier h)"
    "distinct (map currentStreamIdentifier (virtualFiles h))" "distinct (map currentName (virtualFiles h))"
    "p \<in> set (filesByName h) \<Longrightarrow> snd p < length (virtualFiles h) \<and> currentName (virtualFiles h ! snd p) = fst p"
  using assms unfolding laid_out_def by blast+

lemma laid_outI:
  assumes "used = {..< eof}" "used = {..< startingFileIndex h} \<union> (\<Union>vf \<in> set (virtualFiles h). file_cells vf)"
    "file_header_at (content (device h)) (currentFileIdentifier h)"
    "startingFileIndex h = fit_size (length (currentFileIdentifier h) + 8) div 32"
    "\<And>vf. vf \<in> set (virtualFiles h) \<Longrightarrow> in_order vf \<and> file_cells vf \<inter> {..< startingFileIndex h} = {} \<and>
      currentStreamIdentifier vf \<in> om_keys (filesByIdentifier h)"
    "distinct (map currentStreamIdentifier (virtualFiles h))" "distinct (map currentName (virtualFiles h))"
    "\<And>p. p \<in> set (filesByName h) \<Longrightarrow> snd p < length (virtualFiles h) \<and> currentName (virtualFiles h ! snd p) = fst p"
  shows "laid_out content used eof h"
  unfolding laid_out_def using assms by blast

definition files_like ::
  "('d \<Rightarrow> bool) \<Rightarrow> ('d \<Rightarrow> byte list) \<Rightarrow> nat set \<Rightarrow> nat \<Rightarrow> nat \<Rightarrow> byte_file list \<Rightarrow> 'd library \<Rightarrow> bool" where
  "files_like ok content used eof spent fs h \<longleftrightarrow>
     ok (device h) \<and> in_space content used eof h \<and> eof + pending (virtualFiles h) \<le> 128 + spent \<and>
     length (virtualFiles h) = length fs \<and>
     (\<forall>i < length fs. file_like (content (device h)) used (virtualFiles h ! i) (fs ! i) \<and> length (fileBytes (fs ! i)) \<le> spent) \<and>
     (\<forall>i < length fs. \<forall>j < length fs. i \<noteq> j \<longrightarrow> file_cells (virtualFiles h ! i) \<inter> file_cells (virtualFiles h ! j) = {}) \<and>
     om_keys (fileApisByName h) = fileName ` set fs \<and> om_keys (filesByName h) = fileName ` set fs \<and>
     length (filesByIdentifier h) \<le> length fs \<and> length (filesByName h) \<le> length fs \<and> length fs \<le> spent \<and> laid_out content used eof h"

lemma pending_update:
  "r < length vfs \<Longrightarrow> pending (vfs[r := vf]) + rb_count (tailBuffer (vfs ! r)) = pending vfs + rb_count (tailBuffer vf)"
proof (induction vfs arbitrary: r)
  case (Cons v vfs)
  then show ?case by (cases r) (simp_all add: pending_def)
qed simp

lemma pending_member: "r < length vfs \<Longrightarrow> rb_count (tailBuffer (vfs ! r)) \<le> pending vfs"
  unfolding pending_def by (metis elem_le_sum_list length_map nth_map)

lemma same_container_virtualFiles:
  fixes h h' :: "('d, 'z) library_scheme"
  shows "same_container h h' \<Longrightarrow> virtualFiles h' = virtualFiles h"
  by (auto simp: same_container_def)

lemma put_file_simps [simp]:
  "device (put_file r vf h) = device h" "virtualFiles (put_file r vf h) = (virtualFiles h)[r := vf]"
  "fileApisByName (put_file r vf h) = fileApisByName h" "filesByName (put_file r vf h) = filesByName h"
  "filesByIdentifier (put_file r vf h) = filesByIdentifier h" "fileMapsPopulated (put_file r vf h) = fileMapsPopulated h"
  "spaceTracker (put_file r vf h) = spaceTracker h"
  by (simp_all add: put_file_def)

lemma in_space_put_file [simp]: "in_space content used eof (put_file r vf h) = in_space content used eof h"
  by (simp add: in_space_def)

lemma fileNames_update: "r < length fs \<Longrightarrow> fileName f = fileName (fs ! r) \<Longrightarrow> fileName ` set (fs[r := f]) = fileName ` set fs"
  by (metis list.set_map list_update_id map_update)

lemma put_file_fields [simp]:
  "startingFileIndex (put_file r vf h) = startingFileIndex h"
  "currentFileIdentifier (put_file r vf h) = currentFileIdentifier h" "junk (put_file r vf h) = junk h"
  "lastReportedStatus (put_file r vf h) = lastReportedStatus h"
  by (simp_all add: put_file_def)

lemma laid_out_advance:
  fixes h :: "'d library"
  assumes h: "laid_out content used eof h" "r < length (virtualFiles h)"
    and a: "advance ok content n (used, eof, virtualFiles h ! r, h) (used', eof', vf', h')"
  shows "laid_out content used' eof' (put_file r vf' h')"
proof -
  let ?vf = "virtualFiles h ! r" and ?n = "startingFileIndex h"
  have m: "?vf \<in> set (virtualFiles h)" using h(2) by simp
  note l = laid_outD [OF h(1)]
  from a have b: "used \<subseteq> used'" "file_cells vf' = file_cells ?vf \<union> (used' - used)"
    "keeps (used - file_cells ?vf) (content (device h)) (content (device h'))" "same_container h h'"
    "currentName vf' = currentName ?vf" "currentStreamIdentifier vf' = currentStreamIdentifier ?vf"
    "used = {..< eof} \<and> in_order ?vf \<longrightarrow> used' = {..< eof'} \<and> in_order vf'" by (simp_all add: advance_def)
  have o: "used' = {..< eof'}" "in_order vf'" using b(7) l(1) l(5) [OF m] by blast+
  have vfs: "virtualFiles h' = virtualFiles h" by (rule same_container_virtualFiles [OF b(4)])
  note sc = same_container_fields [OF b(4)]
  let ?vfs = "(virtualFiles h)[r := vf']"
  have "{..< ?n} \<subseteq> used - file_cells ?vf" using l(2) l(6) [OF m] by blast
  then have hd: "file_header_at (content (device h')) (currentFileIdentifier h)"
    using file_header_at_keeps [OF l(3)] keeps_mono [OF b(3)] l(4) by simp
  have sub: "vf \<in> set ?vfs \<Longrightarrow> vf = vf' \<or> vf \<in> set (virtualFiles h)" for vf
    using set_update_subset_insert by fastforce
  have cov: "(\<Union>vf \<in> set ?vfs. file_cells vf) \<union> file_cells ?vf = (\<Union>vf \<in> set (virtualFiles h). file_cells vf) \<union> file_cells vf'"
  proof -
    have "(\<Union>vf \<in> set vs. file_cells vf) = (\<Union>i < length vs. file_cells (vs ! i))" for vs :: "virtual_file list"
      by (force simp: in_set_conv_nth)
    then show ?thesis using h(2) by (auto simp: nth_list_update split: if_splits)
  qed
  have "vf' \<in> set ?vfs" using h(2) by (rule set_update_memI)
  then have parts: "file_cells vf' \<subseteq> (\<Union>vf \<in> set ?vfs. file_cells vf)" "file_cells ?vf \<subseteq> (\<Union>vf \<in> set (virtualFiles h). file_cells vf)"
    using m by blast+
  have rule: "A \<union> c = B \<union> v \<Longrightarrow> v = c \<union> d \<Longrightarrow> v \<subseteq> A \<Longrightarrow> c \<subseteq> B \<Longrightarrow> A = B \<union> d" for A B c d v :: "nat set" by blast
  have cells: "(\<Union>vf \<in> set ?vfs. file_cells vf) = (\<Union>vf \<in> set (virtualFiles h). file_cells vf) \<union> (used' - used)"
    by (rule rule [OF cov b(2) parts])
  have "{..< ?n} \<subseteq> used" using l(2) by blast
  then have "used' = {..< ?n} \<union> (\<Union>vf \<in> set ?vfs. file_cells vf)" "file_cells vf' \<inter> {..< ?n} = {}"
    unfolding cells using l(2) b(1,2) l(6) [OF m] by blast+
  moreover have "map currentStreamIdentifier ?vfs = map currentStreamIdentifier (virtualFiles h)"
    "map currentName ?vfs = map currentName (virtualFiles h)"
    using b(5,6) h(2) by (simp_all add: map_update) (metis list_update_id nth_map)+
  moreover have "currentName (?vfs ! i) = currentName (virtualFiles h ! i)" for i
    using b(5) h(2) by (simp add: nth_list_update)
  moreover have "in_order vf \<and> file_cells vf \<inter> {..< ?n} = {} \<and> currentStreamIdentifier vf \<in> om_keys (filesByIdentifier h)"
    if "vf \<in> set ?vfs" for vf
    using sub [OF that] l(5-7) o(2) calculation(2) b(6) m by metis
  ultimately show ?thesis
    by (intro laid_outI) (use o(1) hd l(4,8-10) sc vfs in simp_all)
qed

text \<open>An operation of one file that advances it leaves the others alone.\<close>

lemma with_file_law:
  fixes h :: "'d library"
  assumes h: "files_like ok content used eof spent fs h" "r < length fs"
    and op: "op (virtualFiles h ! r) h = Some (x, vf', h')"
      "advance ok content n (used, eof, virtualFiles h ! r, h) (used', eof', vf', h')"
      "eof' + rb_count (tailBuffer vf') \<le> eof + rb_count (tailBuffer (virtualFiles h ! r)) + c"
    and f: "file_like (content (device h')) used' vf' f" "fileName f = fileName (fs ! r)"
      "length (fileBytes f) \<le> spent + c"
  shows "with_file r op h = Some (x, put_file r vf' h')"
    "files_like ok content used' eof' (spent + c) (fs[r := f]) (put_file r vf' h')"
    "currentFileIdentifier (put_file r vf' h') = currentFileIdentifier h"
proof -
  let ?vf = "virtualFiles h ! r"
  have len: "length (virtualFiles h) = length fs" using h(1) by (simp add: files_like_def)
  then show "with_file r op h = Some (x, put_file r vf' h')"
    using h(2) op(1) by (simp add: with_file_def file_at_def)
  from op(2) have a: "ok (device h')" "in_space content used' eof' h'" "same_container h h'" by (simp_all add: advance_def)
  have vfs: "virtualFiles h' = virtualFiles h" by (rule same_container_virtualFiles [OF a(3)])
  note sc = same_container_fields [OF a(3)]
  have other: "file_like (content (device h')) used' (virtualFiles h ! i) (fs ! i)"
    "file_cells (virtualFiles h ! i) \<inter> file_cells vf' = {}"
    if i: "i < length fs" "i \<noteq> r" for i
  proof -
    have "file_cells (virtualFiles h ! i) \<inter> file_cells ?vf = {}" using h i by (simp add: files_like_def)
    moreover have l: "file_like (content (device h)) used (virtualFiles h ! i) (fs ! i)" using h i by (simp add: files_like_def)
    ultimately have "holds (content (device h')) used' (virtualFiles h ! i) (fileBytes (fs ! i))"
      "file_cells (virtualFiles h ! i) \<inter> file_cells vf' = {}"
      using advance_other [OF op(2)] unfolding file_like_def by blast+
    with l show "file_like (content (device h')) used' (virtualFiles h ! i) (fs ! i)"
      "file_cells (virtualFiles h ! i) \<inter> file_cells vf' = {}" unfolding file_like_def by blast+
  qed
  have "eof' + pending ((virtualFiles h)[r := vf']) \<le> 128 + (spent + c)"
    using op(3) h pending_update [of r "virtualFiles h" vf'] by (simp add: files_like_def)
  moreover have "file_like (content (device h')) used' ((virtualFiles h)[r := vf'] ! i) (fs[r := f] ! i) \<and>
      length (fileBytes (fs[r := f] ! i)) \<le> spent + c" if "i < length fs" for i
  proof (cases "i = r")
    case True
    then show ?thesis using f h(2) len by simp
  next
    case False
    then have "length (fileBytes (fs ! i)) \<le> spent" using h(1) that by (simp add: files_like_def)
    then show ?thesis using other(1) [OF that] False by simp
  qed
  moreover have "file_cells ((virtualFiles h)[r := vf'] ! i) \<inter> file_cells ((virtualFiles h)[r := vf'] ! j) = {}"
    if "i < length fs" "j < length fs" "i \<noteq> j" for i j
    using that other(2) h len by (auto simp: files_like_def nth_list_update)
  moreover have "laid_out content used' eof' (put_file r vf' h')"
    by (rule laid_out_advance [OF _ _ op(2)]) (use h len in \<open>simp_all add: files_like_def\<close>)
  ultimately show "files_like ok content used' eof' (spent + c) (fs[r := f]) (put_file r vf' h')"
    using h a sc vfs f(2) by (simp add: files_like_def fileNames_update)
  show "currentFileIdentifier (put_file r vf' h') = currentFileIdentifier h" using sc by simp
qed


lemma unsigned_long_long: "n < 281474976710656 \<Longrightarrow> unsigned_64 (int n) = n"
  by (simp add: unsigned_64_def)

text \<open>Operations that only move the position.\<close>

lemma file_moves:
  fixes h :: "'d library"
  assumes h: "files_like ok content used eof spent fs h" "r < length fs" "spent \<le> 134217000"
    and p: "p \<le> length (fileBytes (fs ! r))"
    and op: "op (virtualFiles h ! r) h = Some (x, (virtualFiles h ! r)\<lparr>currentPosition := p\<rparr>, h')" "h' = h \<or> h' = setLastStatus s h"
  shows "with_file r op h = Some (x, put_file r ((virtualFiles h ! r)\<lparr>currentPosition := p\<rparr>) h')"
    "files_like ok content used eof spent (fs[r := (fs ! r)\<lparr>filePosition := p\<rparr>]) (put_file r ((virtualFiles h ! r)\<lparr>currentPosition := p\<rparr>) h')"
    "currentFileIdentifier (put_file r ((virtualFiles h ! r)\<lparr>currentPosition := p\<rparr>) h') = currentFileIdentifier h"
proof -
  let ?vf = "virtualFiles h ! r"
  have f: "ok (device h)" "in_space content used eof h" "file_like (content (device h)) used ?vf (fs ! r)"
    "length (fileBytes (fs ! r)) \<le> spent"
    using h by (simp_all add: files_like_def)
  have "advance ok content 0 (used, eof, ?vf, h) (used, eof, ?vf\<lparr>currentPosition := p\<rparr>, h')"
    using op(2) advance_other_fields [OF advance_refl [where ok = ok and content = content and n = 0 and vf = ?vf, OF f(1,2)],
      of "?vf\<lparr>currentPosition := p\<rparr>"] advance_setLastStatus by auto
  note law = with_file_law [where op = op, OF h(1,2) op(1) this, of 0 "(fs ! r)\<lparr>filePosition := p\<rparr>"]
  have "file_like (content (device h')) used (?vf\<lparr>currentPosition := p\<rparr>) ((fs ! r)\<lparr>filePosition := p\<rparr>)"
    using f(3) p op(2) by (auto simp: file_like_def)
  with law f(4) show "with_file r op h = Some (x, put_file r (?vf\<lparr>currentPosition := p\<rparr>) h')"
    "files_like ok content used eof spent (fs[r := (fs ! r)\<lparr>filePosition := p\<rparr>]) (put_file r (?vf\<lparr>currentPosition := p\<rparr>) h')"
    "currentFileIdentifier (put_file r (?vf\<lparr>currentPosition := p\<rparr>) h') = currentFileIdentifier h"
    by simp_all
qed

context storage
begin

lemma files_like_file:
  assumes "files_like ok content used eof spent fs h" "r < length fs" "spent + c \<le> 134217000" "k \<le> c"
  obtains D where "ok (device h)" "in_space content used eof h" "eof < 134217728"
    "eof + rb_count (tailBuffer (virtualFiles h ! r)) + k + 132 < 134217728"
    "holds (content (device h)) used (virtualFiles h ! r) (fileBytes (fs ! r))"
    "length (fileBytes (fs ! r)) + k < 281474976710656" "length (fileBytes (fs ! r)) \<le> spent"
    "currentPosition (virtualFiles h ! r) = filePosition (fs ! r)" "filePosition (fs ! r) \<le> length (fileBytes (fs ! r))"
    "currentName (virtualFiles h ! r) = fileName (fs ! r)" "c_string (fileName (fs ! r))" "length (fileName (fs ! r)) \<le> 118"
    "holds_stored (content (device h)) used (virtualFiles h ! r) D"
    "length D + rb_count (tailBuffer (virtualFiles h ! r)) = length (fileBytes (fs ! r))"
proof -
  have f: "file_like (content (device h)) used (virtualFiles h ! r) (fs ! r)" "length (fileBytes (fs ! r)) \<le> spent"
    "ok (device h)" "in_space content used eof h" "eof + pending (virtualFiles h) \<le> 128 + spent" "r < length (virtualFiles h)"
    using assms(1,2) by (simp_all add: files_like_def)
  have "rb_count (tailBuffer (virtualFiles h ! r)) \<le> pending (virtualFiles h)" by (rule pending_member [OF f(6)])
  moreover have "holds (content (device h)) used (virtualFiles h ! r) (fileBytes (fs ! r))" using f(1) by (simp add: file_like_def)
  moreover from this obtain D where "holds_stored (content (device h)) used (virtualFiles h ! r) D"
    "length D + rb_count (tailBuffer (virtualFiles h ! r)) = length (fileBytes (fs ! r))" by (rule holds_cases)
  ultimately show thesis
    by (intro that [of D]) (use f assms(3,4) in \<open>simp_all add: file_like_def\<close>)
qed

end


lemma holds_stored_cells: "holds_stored bytes used vf D \<Longrightarrow> file_cells vf \<subseteq> used"
  by (simp add: holds_stored_def)

lemma files_like_snoc:
  fixes h :: "'d library"
  assumes h: "files_like ok content used eof spent fs h" and vf: "file_like (content (device h)) used vf f"
    "file_cells vf = {}" "fileBytes f = []" "rb_count (tailBuffer vf) = 0" "chunkMap vf = []"
    and name: "om_keys m1 = insert (fileName f) (om_keys (fileApisByName h))" "om_keys m2 = insert (fileName f) (om_keys (filesByName h))"
    "length m3 \<le> length (filesByIdentifier h) + 1" "length m2 \<le> length (filesByName h) + 1"
    and fresh: "fileName f \<notin> fileName ` set fs" "currentStreamIdentifier vf \<notin> om_keys (filesByIdentifier h)"
    and maps: "set m2 \<subseteq> insert (fileName f, length (virtualFiles h)) (set (filesByName h))"
      "om_keys m3 = insert (currentStreamIdentifier vf) (om_keys (filesByIdentifier h))"
  shows "files_like ok content used eof (spent + 4) (fs @ [f])
    (h\<lparr>virtualFiles := virtualFiles h @ [vf], fileApisByName := m1, filesByName := m2, filesByIdentifier := m3\<rparr>)"
proof -
  have len: "length (virtualFiles h) = length fs" using h by (simp add: files_like_def)
  have "pending (virtualFiles h @ [vf]) = pending (virtualFiles h)" using vf(4) by (simp add: pending_def)
  moreover have "file_like (content (device h)) used ((virtualFiles h @ [vf]) ! i) ((fs @ [f]) ! i) \<and>
      length (fileBytes ((fs @ [f]) ! i)) \<le> spent + 4" if "i < length (fs @ [f])" for i
  proof (cases "i < length fs")
    case True
    then have "length (fileBytes (fs ! i)) \<le> spent" "file_like (content (device h)) used (virtualFiles h ! i) (fs ! i)"
      using h by (simp_all add: files_like_def)
    then show ?thesis using True len by (simp add: nth_append)
  next
    case False
    then have "i = length fs" using that by simp
    then show ?thesis using vf len by (simp add: nth_append)
  qed
  moreover have "file_cells ((virtualFiles h @ [vf]) ! i) \<inter> file_cells ((virtualFiles h @ [vf]) ! j) = {}"
    if "i < length (fs @ [f])" "j < length (fs @ [f])" "i \<noteq> j" for i j
    using that h vf(2) len by (auto simp: nth_append files_like_def)
  moreover have "laid_out content used eof
    (h\<lparr>virtualFiles := virtualFiles h @ [vf], fileApisByName := m1, filesByName := m2, filesByIdentifier := m3\<rparr>)"
  proof -
    have l: "laid_out content used eof h" using h by (simp add: files_like_def)
    have nm: "currentName vf = fileName f" using vf(1) by (simp add: file_like_def)
    have names: "currentName w \<in> fileName ` set fs" if "w \<in> set (virtualFiles h)" for w
    proof -
      from that obtain i where "i < length fs" "w = virtualFiles h ! i" using len by (auto simp: in_set_conv_nth)
      then show ?thesis using h by (auto simp: files_like_def file_like_def)
    qed
    have "currentName vf \<notin> currentName ` set (virtualFiles h)"
    proof
      assume "currentName vf \<in> currentName ` set (virtualFiles h)"
      then obtain w where "w \<in> set (virtualFiles h)" "currentName w = fileName f" unfolding nm by (auto dest: sym)
      with names fresh(1) show False by metis
    qed
    moreover have "currentStreamIdentifier vf \<notin> currentStreamIdentifier ` set (virtualFiles h)"
      using l fresh(2) by (auto simp: laid_out_def)
    moreover have "snd p < length (virtualFiles h @ [vf]) \<and> currentName ((virtualFiles h @ [vf]) ! snd p) = fst p"
      if "p \<in> set m2" for p
    proof (cases "p \<in> set (filesByName h)")
      case True
      then show ?thesis using l by (auto simp: laid_out_def nth_append less_SucI)
    next
      case False
      then have "p = (fileName f, length (virtualFiles h))" using that maps(1) by blast
      then show ?thesis using nm by simp
    qed
    moreover have "in_order vf" using vf(5) by (simp add: in_order_def)
    moreover have "in_order v \<and> file_cells v \<inter> {..< startingFileIndex h} = {} \<and> currentStreamIdentifier v \<in> om_keys m3"
      if "v \<in> set (virtualFiles h @ [vf])" for v
      using that laid_outD(5-7) [OF l] calculation(4) vf(2) maps(2) by (cases "v = vf") simp_all
    ultimately show ?thesis
      by (intro laid_outI) (use laid_outD(1-4,8-9) [OF l] vf(2) in simp_all)
  qed
  ultimately show ?thesis
    using h name by (simp add: files_like_def in_space_def)
qed

lemma set_om_insert: "set (om_insert k v m) \<subseteq> insert (k, v) (set m)"
  by (induction k v m rule: om_insert.induct) auto

lemma length_om_insert: "length (om_insert k v m) \<le> length m + 1"
  by (induction k v m rule: om_insert.induct) auto

context storage
begin

lemma run_create_law:
  fixes h :: "'d library"
  assumes h: "files_like ok content used eof spent fs h" "spent + 4 \<le> 134217000" and x: "callable (Create name) fs"
  obtains h' where "run_op K (Create name) h = Some (Handle (length fs), h')"
    "files_like ok content used eof (spent + 4) (snd (abs_op (Create name) fs)) h'"
    "currentFileIdentifier h' = currentFileIdentifier h"
proof -
  have l: "fileMapsPopulated h" "length (filesByIdentifier h) < 2147483648" "name \<notin> om_keys (fileApisByName h)"
    "name \<notin> om_keys (filesByName h)" "length (virtualFiles h) = length fs" "length (filesByIdentifier h) \<le> length fs"
    "length fs \<le> spent"
    using h x by (simp_all add: files_like_def in_space_def)
  from newVirtualFile_law [where traverse = "build_maps K", OF l(1-4)] obtain sid where
    c: "sid \<notin> om_keys (filesByIdentifier h)" "sid \<le> length (filesByIdentifier h)"
      "newVirtualFile (build_maps K) name h = Some (length (virtualFiles h), h\<lparr>
      virtualFiles := virtualFiles h @ [VirtualFileImpl (junk h) name sid],
      fileApisByName := om_insert name (length (virtualFiles h)) (fileApisByName h),
      filesByName := om_insert name (length (virtualFiles h)) (filesByName h),
      filesByIdentifier := om_insert sid (length (virtualFiles h)) (filesByIdentifier h)\<rparr>)" .
  have sid: "sid < 2147483648" using c(2) l(2) by simp
  note n = new_file_holds [where uninit = "junk h" and name = name, OF sid]
  let ?f = "\<lparr>fileName = name, fileBytes = [], filePosition = 0\<rparr>"
  have fl: "file_like (content (device h)) used (VirtualFileImpl (junk h) name sid) ?f"
    using n x by (simp add: file_like_def)
  let ?m = "\<lambda>m. om_insert name (length (virtualFiles h)) m" and ?i = "om_insert sid (length (virtualFiles h)) (filesByIdentifier h)"
  have m: "om_keys (?m (fileApisByName h)) = insert (fileName ?f) (om_keys (fileApisByName h))"
    "om_keys (?m (filesByName h)) = insert (fileName ?f) (om_keys (filesByName h))"
    "length ?i \<le> length (filesByIdentifier h) + 1" "length (?m (filesByName h)) \<le> length (filesByName h) + 1" "fileBytes ?f = []"
    by (simp, simp, rule length_om_insert, rule length_om_insert, simp)
  have fresh: "fileName ?f \<notin> fileName ` set fs"
    "currentStreamIdentifier (VirtualFileImpl (junk h) name sid) \<notin> om_keys (filesByIdentifier h)"
    "set (?m (filesByName h)) \<subseteq> insert (fileName ?f, length (virtualFiles h)) (set (filesByName h))"
    "om_keys ?i = insert (currentStreamIdentifier (VirtualFileImpl (junk h) name sid)) (om_keys (filesByIdentifier h))"
    "chunkMap (VirtualFileImpl (junk h) name sid) = []"
    using x c(1) set_om_insert by (simp_all add: VirtualFileImpl_def)
  have run: "run_op K (Create name) h = Some (Handle (length fs), h\<lparr>
      virtualFiles := virtualFiles h @ [VirtualFileImpl (junk h) name sid],
      fileApisByName := ?m (fileApisByName h), filesByName := ?m (filesByName h), filesByIdentifier := ?i\<rparr>)"
    using c(3) l(5) by (simp add: create_file_def)
  have "snd (abs_op (Create name) fs) = fs @ [?f]" by simp
  then show thesis using that [OF run] files_like_snoc [OF h(1) fl n(2) m(5) n(5) fresh(5) m(1-4) fresh(1-4)] by simp
qed

lemma run_file_law:
  fixes h :: "'d library"
  assumes h: "files_like ok content used eof spent fs h" "spent + op_cells x \<le> 134217000" and x: "callable x fs"
    and nc: "\<And>name. x \<noteq> Create name"
  shows "\<exists>used' eof' h'. run_op K x h = Some (fst (abs_op x fs), h') \<and>
    files_like ok content used' eof' (spent + op_cells x) (snd (abs_op x fs)) h' \<and>
    currentFileIdentifier h' = currentFileIdentifier h"
proof (cases x)
  case (Create name)
  with nc show ?thesis by metis
next
  case (Append r bs)
  let ?f = "fs ! r" and ?k = "length bs" and ?vf = "virtualFiles h ! r"
  have r: "r < length fs" "spent + (?k + 4) \<le> 134217000" "?k \<le> ?k + 4" using x h(2) Append by simp_all
  from files_like_file [OF h(1) r] have f: "ok (device h)" "in_space content used eof h"
    "eof + rb_count (tailBuffer ?vf) + ?k + 132 < 134217728" "holds (content (device h)) used ?vf (fileBytes ?f)"
    "length (fileBytes ?f) + ?k < 281474976710656" "c_string (currentName ?vf)" "length (currentName ?vf) \<le> 118"
    "0 + ?k \<le> length bs" "?k < 4294963200" "length (fileBytes ?f) \<le> spent" "currentName ?vf = fileName ?f"
    using r(2) by (metis | simp)+
  from vf_append_law [OF f(1-9), of "scan_from K r"] obtain used' eof' vf' w' where
    a: "vf_append K (scan_from K r) bs 0 ?k ?vf h = Some (WriteSuccessful ?k, vf', w')"
      "holds (content (device w')) used' vf' (fileBytes ?f @ take ?k (drop 0 bs))"
      "currentPosition vf' = length (fileBytes ?f) + ?k"
      "advance ok content (rb_count (tailBuffer ?vf) + ?k + 4) (used, eof, ?vf, h) (used', eof', vf', w')"
      "eof' + rb_count (tailBuffer vf') \<le> eof + rb_count (tailBuffer ?vf) + ?k + 4" by (elim exE conjE)
  let ?f' = "?f\<lparr>fileBytes := fileBytes ?f @ bs, filePosition := length (fileBytes ?f) + ?k\<rparr>"
  have nm: "currentName vf' = fileName ?f" using a(4) f(11) by (simp add: advance_def)
  have fl: "file_like (content (device w')) used' vf' ?f'" "fileName ?f' = fileName ?f"
    "length (fileBytes ?f') \<le> spent + (?k + 4)" "eof' + rb_count (tailBuffer vf') \<le> eof + rb_count (tailBuffer ?vf) + (?k + 4)"
    using a nm f(6,7,10,11) by (simp_all add: file_like_def)
  note law = with_file_law [where op = "vf_append K (scan_from K r) bs 0 ?k", OF h(1) r(1) a(1,4) fl(4) fl(1-3)]
  then show ?thesis using Append by (auto simp: file_append_def)
next
  case (Write r bs)
  let ?f = "fs ! r" and ?k = "length bs" and ?vf = "virtualFiles h ! r"
  have r: "r < length fs" "spent + (?k + 4) \<le> 134217000" "?k \<le> ?k + 4" using x h(2) Write by simp_all
  from files_like_file [OF h(1) r] have f: "ok (device h)" "in_space content used eof h"
    "eof + rb_count (tailBuffer ?vf) + ?k + 132 < 134217728" "holds (content (device h)) used ?vf (fileBytes ?f)"
    "length (fileBytes ?f) + ?k < 281474976710656" "c_string (currentName ?vf)" "length (currentName ?vf) \<le> 118"
    "currentPosition ?vf \<le> length (fileBytes ?f)"
    "?k \<le> length bs" "?k < 4294963200" "length (fileBytes ?f) \<le> spent" "currentName ?vf = fileName ?f"
    "currentPosition ?vf = filePosition ?f"
    using r(2) by (metis | simp)+
  from vf_write_law [OF f(1-10), of "scan_from K r"] obtain used' eof' vf' w' where
    a: "vf_write K (scan_from K r) bs ?k ?vf h = Some (WriteSuccessful ?k, vf', w')"
      "holds (content (device w')) used' vf' (overlay (fileBytes ?f) (currentPosition ?vf) (take ?k bs))"
      "currentPosition vf' = currentPosition ?vf + ?k"
      "advance ok content (rb_count (tailBuffer ?vf) + ?k + 4) (used, eof, ?vf, h) (used', eof', vf', w')"
      "eof' + rb_count (tailBuffer vf') \<le> eof + rb_count (tailBuffer ?vf) + ?k + 4" by (elim exE conjE)
  let ?f' = "?f\<lparr>fileBytes := overlay (fileBytes ?f) (filePosition ?f) bs, filePosition := filePosition ?f + ?k\<rparr>"
  have nm: "currentName vf' = fileName ?f" using a(4) f(12) by (simp add: advance_def)
  have fl: "file_like (content (device w')) used' vf' ?f'" "fileName ?f' = fileName ?f"
    "length (fileBytes ?f') \<le> spent + (?k + 4)" "eof' + rb_count (tailBuffer vf') \<le> eof + rb_count (tailBuffer ?vf) + (?k + 4)"
    using a nm f by (simp_all add: file_like_def length_overlay)
  note law = with_file_law [where op = "vf_write K (scan_from K r) bs ?k", OF h(1) r(1) a(1,4) fl(4) fl(1-3)]
  then show ?thesis using Write by (auto simp: file_write_def)
next
  case (Read r n caller)
  let ?f = "fs ! r" and ?vf = "virtualFiles h ! r"
  let ?m = "min n (length (fileBytes ?f) - filePosition ?f)"
  have r: "r < length fs" "spent + 0 \<le> 134217000" "0 \<le> (0 :: nat)" "n < 4294967295" "n \<le> length caller"
    using x h(2) Read by simp_all
  from files_like_file [OF h(1) r(1-3)] have f: "ok (device h)" "in_space content used eof h" "eof < 134217728"
    "holds (content (device h)) used ?vf (fileBytes ?f)" "currentPosition ?vf \<le> length (fileBytes ?f)"
    "length (fileBytes ?f) \<le> spent" "currentName ?vf = fileName ?f" "currentPosition ?vf = filePosition ?f"
    "c_string (fileName ?f)" "length (fileName ?f) \<le> 118" by (metis | simp)+
  have m: "?m = min n (length (fileBytes ?f) - currentPosition ?vf)" "?m \<le> length caller" using f(8) r(5) by simp_all
  from vf_read_law [OF f(1-5) r(4) m, of "scan_from K r"] obtain vf' w' where
    a: "vf_read K (scan_from K r) n caller ?vf h =
        Some (ReadSuccessful ?m, overlay caller 0 (take ?m (drop (currentPosition ?vf) (fileBytes ?f))), vf', w')"
      "holds (content (device w')) used vf' (fileBytes ?f)" "currentPosition vf' = currentPosition ?vf + ?m"
      "tailBuffer vf' = tailBuffer ?vf" "advance ok content 0 (used, eof, ?vf, h) (used, eof, vf', w')" by (elim exE conjE)
  let ?f' = "?f\<lparr>filePosition := filePosition ?f + ?m\<rparr>"
  let ?op = "\<lambda>vf h. map_option (\<lambda>(status, caller, vf, h). ((status, caller), vf, h)) (vf_read K (scan_from K r) n caller vf h)"
  have nm: "currentName vf' = fileName ?f" using a(5) f(7) by (simp add: advance_def)
  have fl: "file_like (content (device w')) used vf' ?f'" "fileName ?f' = fileName ?f"
    "length (fileBytes ?f') \<le> spent + 0" "eof + rb_count (tailBuffer vf') \<le> eof + rb_count (tailBuffer ?vf) + 0"
    using a nm f by (simp_all add: file_like_def)
  have "?op ?vf h = Some ((ReadSuccessful ?m, overlay caller 0 (take ?m (drop (filePosition ?f) (fileBytes ?f)))), vf', w')"
    using a(1) f(8) by simp
  note law = with_file_law [where op = ?op, OF h(1) r(1) this a(5) fl(4) fl(1-3)]
  then show ?thesis using Read by (auto simp: file_read_def Let_def)
next
  case (SetPosition r p)
  let ?f = "fs ! r" and ?vf = "virtualFiles h ! r"
  have r: "r < length fs" "spent + 0 \<le> 134217000" "0 \<le> (0 :: nat)" "spent \<le> 134217000"
    using x h(2) SetPosition by simp_all
  from files_like_file [OF h(1) r(1-3)] obtain D where f: "in_space content used eof h"
    "length (fileBytes ?f) + 0 < 281474976710656" "currentPosition ?vf = filePosition ?f"
    "filePosition ?f \<le> length (fileBytes ?f)"
    "holds_stored (content (device h)) used ?vf D" "length D + rb_count (tailBuffer ?vf) = length (fileBytes ?f)" .
  have lD: "length D + rb_count (tailBuffer ?vf) < 281474976710656" using f(2,6) by simp
  note sz = vf_size_holds [OF f(5,1) lD, unfolded f(6), of "scan_from K r"]
  have u: "unsigned_64 (int (length (fileBytes ?f))) = length (fileBytes ?f)" using f(2) unsigned_long_long by simp
  note cont = currentContainer_holds [OF f(5)]
  show ?thesis
  proof (cases "p \<le> length (fileBytes ?f)")
    case True
    have "vf_setPosition (scan_from K r) p ?vf h = Some (NoStatus, ?vf\<lparr>currentPosition := p\<rparr>, setLastStatus NoStatus h)"
      using sz u cont True by (simp add: vf_setPosition_def set_last_def Let_def)
    note law = file_moves [where op = "vf_setPosition (scan_from K r) p" and s = NoStatus, OF h(1) r(1,4) True this disjI2 [OF refl]]
    then show ?thesis using SetPosition True by (auto simp: file_setPosition_def)
  next
    case False
    let ?s = "SeekError p (length (fileBytes ?f))"
    have id: "?vf\<lparr>currentPosition := filePosition ?f\<rparr> = ?vf" "fs[r := ?f\<lparr>filePosition := filePosition ?f\<rparr>] = fs"
      using f(3) by (cases ?vf; simp) (metis (full_types) byte_file.surjective byte_file.update_convs(3) list_update_id)
    have "vf_setPosition (scan_from K r) p ?vf h = Some (?s, ?vf\<lparr>currentPosition := filePosition ?f\<rparr>, setLastStatus ?s h)"
      unfolding id using sz u cont False by (simp add: vf_setPosition_def set_last_def Let_def)
    note law = file_moves [where op = "vf_setPosition (scan_from K r) p" and s = ?s, OF h(1) r(1,4) f(4) this disjI2 [OF refl],
      unfolded id]
    then show ?thesis using SetPosition False by (auto simp: file_setPosition_def)
  qed
next
  case (SetPositionLast r)
  let ?f = "fs ! r" and ?vf = "virtualFiles h ! r"
  have r: "r < length fs" "spent + 0 \<le> 134217000" "0 \<le> (0 :: nat)" "spent \<le> 134217000"
    using x h(2) SetPositionLast by simp_all
  from files_like_file [OF h(1) r(1-3)] obtain D where f: "in_space content used eof h"
    "length (fileBytes ?f) + 0 < 281474976710656"
    "holds_stored (content (device h)) used ?vf D" "length D + rb_count (tailBuffer ?vf) = length (fileBytes ?f)" .
  have lD: "length D + rb_count (tailBuffer ?vf) < 281474976710656" using f(2,4) by simp
  note sz = vf_size_holds [OF f(3,1) lD, unfolded f(4), of "scan_from K r"]
  have u: "unsigned_64 (int (length (fileBytes ?f))) = length (fileBytes ?f)" using f(2) unsigned_long_long by simp
  have "vf_setPositionLast (scan_from K r) ?vf h =
      Some (NoStatus, ?vf\<lparr>currentPosition := length (fileBytes ?f)\<rparr>, setLastStatus NoStatus h)"
    using sz u currentContainer_holds [OF f(3)] by (simp add: vf_setPositionLast_def)
  note law = file_moves [where op = "vf_setPositionLast (scan_from K r)" and s = NoStatus, OF h(1) r(1,4) order.refl this
    disjI2 [OF refl]]
  then show ?thesis using SetPositionLast by (auto simp: file_setPositionLast_def)
next
  case (Flush r)
  let ?f = "fs ! r" and ?vf = "virtualFiles h ! r"
  have r: "r < length fs" "spent + 4 \<le> 134217000" "0 \<le> (4 :: nat)" using x h(2) Flush by simp_all
  from files_like_file [OF h(1) r] have f: "ok (device h)" "in_space content used eof h"
    "eof + rb_count (tailBuffer ?vf) + 132 < 134217728" "holds (content (device h)) used ?vf (fileBytes ?f)"
    "c_string (currentName ?vf)" "length (currentName ?vf) \<le> 118" "length (fileBytes ?f) \<le> spent" "currentName ?vf = fileName ?f"
    "currentPosition ?vf = filePosition ?f" "filePosition ?f \<le> length (fileBytes ?f)"
    "length (fileBytes ?f) + 0 < 281474976710656"
    by (metis add_0_right | simp)+
  from vf_flush_law [OF f(1-6)] obtain used' eof' vf' w' where
    a: "vf_flush K ?vf h = Some (NoStatus, vf', w')" "holds_stored (content (device w')) used' vf' (fileBytes ?f)"
      "rb_count (tailBuffer vf') = 0" "\<not> chunkBufferFlushNeeded vf'" "currentPosition vf' = currentPosition ?vf"
      "advance ok content (rb_count (tailBuffer ?vf) + 4) (used, eof, ?vf, h) (used', eof', vf', w')" by (elim exE conjE)
  have "contents (tailBuffer vf') = []" using a(3) by (metis length_0_conv length_contents)
  then have hd: "holds (content (device w')) used' vf' (fileBytes ?f)"
    using a(2,4) f(11) by (intro holdsI [OF a(2)]) (simp_all add: clean_patched)
  have nm: "currentName vf' = fileName ?f" "eof' \<le> eof + (rb_count (tailBuffer ?vf) + 4)"
    using a(6) f(8) by (simp_all add: advance_def)
  have fl: "file_like (content (device w')) used' vf' ?f" "fileName ?f = fileName ?f"
    "length (fileBytes ?f) \<le> spent + 4" "eof' + rb_count (tailBuffer vf') \<le> eof + rb_count (tailBuffer ?vf) + 4"
    using a hd nm f by (simp_all add: file_like_def)
  note law = with_file_law [where op = "vf_flush K", OF h(1) r(1) a(1,6) fl(4) fl(1-3)]
  then show ?thesis using Flush by (auto simp: file_flush_def)
next
  case (Size r)
  let ?f = "fs ! r" and ?vf = "virtualFiles h ! r"
  have r: "r < length fs" "spent + 0 \<le> 134217000" "0 \<le> (0 :: nat)" "spent \<le> 134217000"
    using x h(2) Size by simp_all
  from files_like_file [OF h(1) r(1-3)] obtain D where f: "in_space content used eof h"
    "length (fileBytes ?f) + 0 < 281474976710656" "currentPosition ?vf = filePosition ?f"
    "filePosition ?f \<le> length (fileBytes ?f)"
    "holds_stored (content (device h)) used ?vf D" "length D + rb_count (tailBuffer ?vf) = length (fileBytes ?f)" .
  have lD: "length D + rb_count (tailBuffer ?vf) < 281474976710656" using f(2,6) by simp
  note sz = vf_size_holds [OF f(5,1) lD, unfolded f(6), of "scan_from K r"]
  have id: "?vf\<lparr>currentPosition := filePosition ?f\<rparr> = ?vf" "fs[r := ?f\<lparr>filePosition := filePosition ?f\<rparr>] = fs"
    using f(3) by (cases ?vf; simp) (metis (full_types) byte_file.surjective byte_file.update_convs(3) list_update_id)
  have "vf_size (scan_from K r) ?vf h = Some (int (length (fileBytes ?f)), ?vf\<lparr>currentPosition := filePosition ?f\<rparr>, h)"
    unfolding id by (rule sz)
  note law = file_moves [where op = "vf_size (scan_from K r)" and s = NoStatus, OF h(1) r(1,4) f(4) this disjI1 [OF refl], unfolded id]
  then show ?thesis using Size by (auto simp: file_size_def)
qed

end


context storage
begin

lemma run_op_law:
  fixes h :: "'d library"
  assumes h: "files_like ok content used eof spent fs h" "spent + op_cells x \<le> 134217000" and x: "callable x fs"
  shows "\<exists>used' eof' h'. run_op K x h = Some (fst (abs_op x fs), h') \<and>
    files_like ok content used' eof' (spent + op_cells x) (snd (abs_op x fs)) h' \<and>
    currentFileIdentifier h' = currentFileIdentifier h"
proof (cases x)
  case (Create name)
  with h x run_create_law [of used eof spent fs h name] show ?thesis
    by (metis abs_op.simps(1) fst_conv op_cells.simps(1))
next
  case (Append r bs)
  then show ?thesis by (intro run_file_law [OF h x]) simp
qed (intro run_file_law [OF h x]; simp)+

lemma run_ops_law:
  fixes h :: "'d library"
  assumes "files_like ok content used eof spent fs h" "spent + sum_list (map op_cells xs) \<le> 134217000" "all_callable xs fs"
  shows "\<exists>used' eof' h'. run_ops K xs h = Some (fst (abs_ops xs fs), h') \<and>
    files_like ok content used' eof' (spent + sum_list (map op_cells xs)) (snd (abs_ops xs fs)) h' \<and>
    currentFileIdentifier h' = currentFileIdentifier h"
  using assms
proof (induction xs arbitrary: used eof spent fs h)
  case Nil
  then show ?case by auto
next
  case (Cons x xs)
  have x: "spent + op_cells x \<le> 134217000" "callable x fs" using Cons.prems by simp_all
  from run_op_law [OF Cons.prems(1) x] obtain used1 eof1 h1 where
    s: "run_op K x h = Some (fst (abs_op x fs), h1)"
      "files_like ok content used1 eof1 (spent + op_cells x) (snd (abs_op x fs)) h1"
      "currentFileIdentifier h1 = currentFileIdentifier h" by blast
  have "spent + op_cells x + sum_list (map op_cells xs) \<le> 134217000" "all_callable xs (snd (abs_op x fs))"
    using Cons.prems by simp_all
  from Cons.IH [OF s(2) this] obtain used' eof' h' where
    r: "run_ops K xs h1 = Some (fst (abs_ops xs (snd (abs_op x fs))), h')"
      "files_like ok content used' eof' (spent + op_cells x + sum_list (map op_cells xs))
        (snd (abs_ops xs (snd (abs_op x fs)))) h'" "currentFileIdentifier h' = currentFileIdentifier h1" by blast
  show ?case
    using s(1,3) r by (intro exI [of _ used'] exI [of _ eof'] exI [of _ h']) (simp add: case_prod_beta Let_def add.assoc)
qed

text \<open>A container that was just opened on an empty medium has no files.\<close>

lemma open_files_like:
  fixes h :: "'d library"
  assumes "ok (device h)" "content (device h) = []" "length (currentFileIdentifier h) \<le> 4088" "virtualFiles h = []"
  obtains h' n where "container_open K h = Some (NoStatus, h')" "files_like ok content {..< n} n 0 [] h'"
    "file_header_at (content (device h')) (currentFileIdentifier h)" "currentFileIdentifier h' = currentFileIdentifier h"
    "n = fit_size (length (currentFileIdentifier h) + 8) div 32"
proof -
  from container_open_new_law [OF assms(1-3)] obtain h' where
    w: "container_open K h = Some (NoStatus, h')" "ok (device h')"
      "file_header_at (content (device h')) (currentFileIdentifier h)"
      "in_space content {..< fit_size (length (currentFileIdentifier h) + 8) div 32}
        (fit_size (length (currentFileIdentifier h) + 8) div 32) h'"
      "startingFileIndex h' = fit_size (length (currentFileIdentifier h) + 8) div 32"
      "filesByIdentifier h' = []" "fileApisByName h' = []" "filesByName h' = []"
      "currentFileIdentifier h' = currentFileIdentifier h" "container.more h' = container.more h" .
  have "virtualFiles h' = []" using assms(4) w(10) by (cases h; cases h') simp
  then have "files_like ok content {..< fit_size (length (currentFileIdentifier h) + 8) div 32}
      (fit_size (length (currentFileIdentifier h) + 8) div 32) 0 [] h'"
    using w fit_size_cells_bounds(2) [of "length (currentFileIdentifier h) + 8"] by (simp add: files_like_def pending_def laid_out_def)
  with w that show thesis by blast
qed

end


end
