(* ===== verification/Container_Traversal.thy ===== *)
theory Container_Traversal
  imports File_Operations
begin

text \<open>
  The traversal of a container (\<open>traverseContainer\<close>), which fills in the maps of files when a
  container is opened that exists already, or hands the bytes of all files to an application:
  what it does at one chunk, and that from any state whose files are flushed it finds every
  file again.
\<close>

subsection \<open>One chunk\<close>

lemma toFileIndex_cell: "i < 134217728 \<Longrightarrow> toFileIndex (32 * i) = i"
  by (simp add: toFileIndex_def u32_id)

lemma file_at_put [simp]:
  "r < length (virtualFiles h) \<Longrightarrow> file_at r (put_file r vf h) = Some vf"
  "r < length (virtualFiles h) \<Longrightarrow> file_at r (h\<lparr>device := d\<rparr>) = Some (virtualFiles h ! r)"
  by (simp_all add: file_at_def)

lemma put_file_twice [simp]: "put_file r vf (put_file r vf' h) = put_file r vf h"
  by (simp add: put_file_def)

context storage
begin

text \<open>The loop reads the common header of the next chunk.\<close>

lemma traverse_step_law:
  fixes h :: "('d, 'z) library_scheme"
  assumes w: "ok (device h)" "length (content (device h)) \<le> storage_limit"
    and p: "pos < fileSize" "pos + 4 \<le> length (content (device h))"
  obtains d where "ok d" "content d = content (device h)"
    "traverse_loop K app b fileSize NoStatus pos h = do {
       (status, n, h) \<leftarrow> traverse_chunk K app b (take 4 (drop pos (content (device h)))) pos (h\<lparr>device := d\<rparr>);
       traverse_loop K app b fileSize status (if \<not> has_info status then u64 (pos + n) else pos) h
     }"
proof -
  have p1: "pos \<le> length (content (device h))" using p by simp
  from container_setPosition_law [OF w(1) p1 w(2)] obtain d0 where
    d0: "container_setPosition K pos h = Some (NoStatus, h\<lparr>device := d0\<rparr>)" "ok d0"
      "content d0 = content (device h)" "cursor d0 = pos" .
  let ?h = "h\<lparr>device := d0\<rparr>"
  have r: "ok (device ?h)" "cursor (device ?h) + 4 \<le> length (content (device ?h))"
    "length (content (device ?h)) \<le> storage_limit" "(4 :: nat) < 4294967296" using d0 p w(2) by simp_all
  from container_read_law [OF r] obtain d where
    d: "container_read K 4 ?h = Some (ReadSuccessful 4, take 4 (drop pos (content (device h))), h\<lparr>device := d\<rparr>)"
      "ok d" "content d = content (device h)" using d0(3,4) by auto
  have "overlay (new_array (junk h) 4) 0 (take 4 (drop pos (content (device h)))) =
      take 4 (drop pos (content (device h)))"
    using p by (simp add: overlay_def new_array_def)
  then have "traverse_loop K app b fileSize NoStatus pos h = do {
      (status, n, h) \<leftarrow> traverse_chunk K app b (take 4 (drop pos (content (device h)))) pos (h\<lparr>device := d\<rparr>);
      traverse_loop K app b fileSize status (if \<not> has_info status then u64 (pos + n) else pos) h
    }"
    using d0(1) d(1) p(1) by (subst traverse_loop.simps) (simp add: completed_read_def)
  with that [OF d(2,3)] show thesis .
qed

text \<open>A stream start chunk makes a file of its name, with the stored identifier.\<close>

lemma traverse_start_law:
  fixes h :: "('d, 'z) library_scheme"
  assumes w: "ok (device h)" "length (content (device h)) \<le> storage_limit" "fileMapsPopulated h"
    and at: "start_chunk_at (content (device h)) i sid name"
    and maps: "length (filesByIdentifier h) < 2147483648" "om_sorted (filesByIdentifier h)" "om_sorted (filesByName h)"
      "name \<notin> om_keys (fileApisByName h)" "name \<notin> om_keys (filesByName h)" "sid \<notin> om_keys (filesByIdentifier h)"
  obtains d ids where "ok d" "content d = content (device h)"
    "traverse_start K (take 4 (drop (32 * i) (content (device h)))) (32 * i) h =
      Some (NoStatus, h\<lparr>device := d,
        virtualFiles := virtualFiles h @ [(VirtualFileImpl (junk h) name sid)\<lparr>startChunkIndex := i\<rparr>],
        fileApisByName := om_insert name (length (virtualFiles h)) (fileApisByName h),
        filesByName := om_insert name (length (virtualFiles h)) (filesByName h), filesByIdentifier := ids\<rparr>)"
    "set ids = insert (sid, length (virtualFiles h)) (set (filesByIdentifier h))" "om_sorted ids"
proof -
  let ?b = "content (device h)" and ?r = "length (virtualFiles h)" and ?ids = "filesByIdentifier h"
  have a: "32 * i + 128 \<le> length ?b" "streamIdentifier (stored_header 128 ?b i) = sid"
    "virtualFilename (stored_header 128 ?b i) = Some name"
    using at by (simp_all add: start_chunk_at_def Let_def)
  have i: "toFileIndex (32 * i) = i" using a(1) w(2) by (intro toFileIndex_cell) (simp add: storage_limit_def)
  from stream_start_load_law [OF w(1,2) a(1) refl, where uninit = "junk h"] obtain l d l' where
    l: "StreamStartChunk_common (junk h) i (take 4 (take 128 (drop (32 * i) ?b))) = Some l"
      "Chunk_load K False l h = Some (NoStatus, l', h\<lparr>device := d\<rparr>)"
      "header l' = take 128 (drop (32 * i) ?b)" "currentFileIndex l' = i" "ok d" "content d = ?b" .
  have "header l' = header (stored_header 128 ?b i)" using l(3) by (simp add: stored_header_def)
  note f = fields_of_header [OF this]
  have vn: "virtualFilename l' = Some name" "streamIdentifier l' = sid"
    using a(2,3) f unfolding virtualFilename_def stream_additionalHeader_def by simp_all
  have pre: "fileMapsPopulated (h\<lparr>device := d\<rparr>)" "length (filesByIdentifier (h\<lparr>device := d\<rparr>)) < 2147483648"
    "name \<notin> om_keys (fileApisByName (h\<lparr>device := d\<rparr>))" "name \<notin> om_keys (filesByName (h\<lparr>device := d\<rparr>))"
    using w(3) maps by simp_all
  from newVirtualFile_law [where traverse = "\<lambda>_. None", OF pre] obtain g where
    g: "g \<notin> om_keys ?ids" "newVirtualFile (\<lambda>_. None) name (h\<lparr>device := d\<rparr>) = Some (?r, h\<lparr>device := d,
      virtualFiles := virtualFiles h @ [VirtualFileImpl (junk h) name g],
      fileApisByName := om_insert name ?r (fileApisByName h), filesByName := om_insert name ?r (filesByName h),
      filesByIdentifier := om_insert g ?r ?ids\<rparr>)" by auto
  have fn: "om_find name (filesByName h) = None" "om_find name (om_insert name ?r (filesByName h)) = Some ?r"
    using maps(3,5) by (simp_all add: om_find_insert)
  have vf: "currentStreamIdentifier (VirtualFileImpl (junk h) name g) = g"
    "vf_setStreamStartIndex i (vf_setStreamIdentifier sid (VirtualFileImpl (junk h) name g)) =
      (VirtualFileImpl (junk h) name sid)\<lparr>startChunkIndex := i\<rparr>"
    "vf_setStreamStartIndex i (VirtualFileImpl (junk h) name g) = (VirtualFileImpl (junk h) name g)\<lparr>startChunkIndex := i\<rparr>"
    by (simp_all add: VirtualFileImpl_def vf_setStreamIdentifier_def vf_setStreamStartIndex_def)
  define ids where "ids = (if g = sid then om_insert g ?r ?ids else om_erase g (om_insert sid ?r (om_insert g ?r ?ids)))"
  have s: "om_sorted (om_insert g ?r ?ids)" "om_find g (om_insert g ?r ?ids) = Some ?r"
    using maps(2) g(1) by (simp_all add: om_sorted_insert om_find_insert)
  have ids: "set ids = insert (sid, ?r) (set ?ids)" "om_sorted ids"
  proof -
    have "{p \<in> insert (sid, ?r) (insert (g, ?r) (set ?ids)). fst p \<noteq> g} = insert (sid, ?r) (set ?ids)" if "g \<noteq> sid"
      using g(1) that by force
    then show "set ids = insert (sid, ?r) (set ?ids)"
      using maps(2,6) g(1) s(1) by (simp add: ids_def om_set_insert set_om_erase om_sorted_insert)
    show "om_sorted ids" using maps(2) by (simp add: ids_def om_sorted_insert om_sorted_erase)
  qed
  have "traverse_start K (take 4 (drop (32 * i) ?b)) (32 * i) h =
      Some (NoStatus, h\<lparr>device := d,
        virtualFiles := virtualFiles h @ [(VirtualFileImpl (junk h) name sid)\<lparr>startChunkIndex := i\<rparr>],
        fileApisByName := om_insert name ?r (fileApisByName h), filesByName := om_insert name ?r (filesByName h),
        filesByIdentifier := ids\<rparr>)"
  proof (cases "g = sid")
    case True
    then show ?thesis
      using l(1,2,4) i vn fn g(2) vf(1,3)
      by (simp add: traverse_start_def Let_def file_at_def put_file_def ids_def fileIndex_def)
  next
    case False
    then show ?thesis
      using l(1,2,4) i vn fn g(2) vf(1,2) s(2)
      by (simp add: traverse_start_def Let_def file_at_def put_file_def ids_def fileIndex_def)
  qed
  with ids l(5,6) that show thesis by blast
qed

text \<open>A data chunk is entered in the file of its stream; the application gets its payload when it asked for it.\<close>

lemma traverse_data_law:
  fixes h :: "('d, 'z) library_scheme"
  assumes w: "ok (device h)" "length (content (device h)) \<le> storage_limit"
    and at: "data_chunk_at (content (device h)) i sid off payload"
    and r: "om_find sid (filesByIdentifier h) = Some r" "r < length (virtualFiles h)"
  obtains d where "ok d" "content d = content (device h)"
    "traverse_data K app b (take 4 (drop (32 * i) (content (device h)))) (32 * i) h =
      (if b then Some (NoStatus, put_file r (addChunkLocation i off (length payload) (virtualFiles h ! r)) (h\<lparr>device := d\<rparr>))
       else receivedData app r payload (put_file r (addChunkLocation i off (length payload) (virtualFiles h ! r)) (h\<lparr>device := d\<rparr>)))"
proof -
  let ?b = "content (device h)" and ?n = "length payload"
  have a: "32 * i + fit_size (?n + 14) \<le> length ?b" "?n \<le> 4082" "streamIdentifier (stored_header 14 ?b i) = sid"
    "chunkOffset (stored_header 14 ?b i) = off" "numberValidBytes (stored_header 14 ?b i) = ?n + 10"
    using at by (simp_all add: data_chunk_at_def Let_def)
  have len: "32 * i + 14 \<le> length ?b" using a(1,2) fit_size_bounds(3) [of "?n + 14"] by simp
  then have i: "toFileIndex (32 * i) = i" using w(2) by (intro toFileIndex_cell) (simp add: storage_limit_def)
  have "length (take 4 (drop (32 * i) ?b)) = 4" using len by simp
  from StreamDataChunk_common_establishes [OF this, where uninit = "junk h" and index = i] obtain c where
    c: "StreamDataChunk_common (junk h) i (take 4 (drop (32 * i) ?b)) = Some c" "length (header c) = 14"
      "take 4 (header c) = take 4 (drop (32 * i) ?b)" "currentFileIndex c = i" "scatterGatherList c = []"
      "currentScatterGatherListByteCount c = 0" .
  have f: "streamIdentifier c' = sid" "chunkOffset c' = off" "payloadSize c' = ?n"
    if "header c' = take 14 (drop (32 * i) ?b)" for c' :: stream_data_chunk
  proof -
    have "header c' = header (stored_header 14 ?b i)" using that by (simp add: stored_header_def)
    note g = fields_of_header [OF this]
    show "streamIdentifier c' = sid" "chunkOffset c' = off" using g a by simp_all
    show "payloadSize c' = ?n"
      using g(3) a(2,5) that len by (simp add: payloadSize_def additionalHeaderSizeBytes_def sub32_id)
  qed
  show thesis
  proof (cases b)
    case True
    have "loadHeader K False c h = Some (NoStatus, c\<lparr>header := take 14 (drop (32 * i) ?b)\<rparr>, h\<lparr>device := d\<rparr>) \<Longrightarrow>
        traverse_data K app b (take 4 (drop (32 * i) ?b)) (32 * i) h =
          Some (NoStatus, put_file r (addChunkLocation i off ?n (virtualFiles h ! r)) (h\<lparr>device := d\<rparr>))" for d
      using c(1,4) i r f [of "c\<lparr>header := take 14 (drop (32 * i) ?b)\<rparr>"] True by (simp add: traverse_data_def fileIndex_def)
    with loadHeader_law [where c = c and inc = False, OF w c(2)] c(3,4) len that True show ?thesis by auto
  next
    case False
    let ?s = "seg (Ptr LocalBuffer 0) 4096" and ?arr = "new_array (junk h) 4096"
    let ?c = "c\<lparr>scatterGatherList := [?s], currentScatterGatherListByteCount := 4096\<rparr>"
    let ?mem = "(\<lambda>_. [])(LocalBuffer := ?arr)" and ?mem' = "(\<lambda>_. [])(LocalBuffer := overlay ?arr 0 payload)"
    have "scatter ?mem [?s] payload = Some ?mem'" if "payload \<noteq> []"
      using a(2) that by (simp add: store_bytes_def new_array_def)
    moreover have "scatter ?mem [?s] payload = Some ?mem'" if "payload = []" using that by (simp add: overlay_def)
    ultimately have sc: "scatter ?mem [?s] payload = Some ?mem'" by blast
    have pre: "length (header ?c) = 14" "data_chunk_at ?b (currentFileIndex ?c) sid off payload"
      "False \<or> take 4 (header ?c) = take 4 (drop (32 * currentFileIndex ?c) ?b)"
      "scatterGatherList ?c = [] \<and> ?mem' = ?mem \<or>
        ?n \<le> total_length (scatterGatherList ?c) \<and> scatter ?mem (scatterGatherList ?c) payload = Some ?mem'"
      using c at a(2) sc by simp_all
    from StreamDataChunk_load_any_law [OF w pre] obtain d where
      d: "StreamDataChunk_load K False ?c ?mem h = Some (NoStatus, ?c\<lparr>header := take 14 (drop (32 * i) ?b),
          scatterGatherList := processed ?n [?s]\<rparr>, ?mem', h\<lparr>device := d\<rparr>)" "ok d" "content d = ?b"
      using c(4) by auto
    let ?c' = "?c\<lparr>header := take 14 (drop (32 * i) ?b), scatterGatherList := processed ?n [?s]\<rparr>"
    have "currentProcessedCount (scatterGatherListSegment 0 ?c') = ?n"
      using a(2) by (simp add: scatterGatherListSegment_def)
    moreover have "take ?n (overlay ?arr 0 payload) = payload" by (simp add: overlay_def)
    ultimately have "traverse_data K app b (take 4 (drop (32 * i) ?b)) (32 * i) h =
        receivedData app r payload (put_file r (addChunkLocation i off ?n (virtualFiles h ! r)) (h\<lparr>device := d\<rparr>))"
      using c(1,4-6) i r f [of ?c'] False d(1) by (simp add: traverse_data_def fileIndex_def add_segment u32_id)
    with d(2,3) that False show ?thesis by simp
  qed
qed

text \<open>The kind of a chunk decides what is done, and its size where the next one is.\<close>

lemma traverse_chunk_law:
  fixes h :: "('d, 'z) library_scheme"
  assumes "32 * i + 4 \<le> length bytes" "numberValidBytes (stored_header n bytes i) \<le> 4092" "4 \<le> n"
    "32 * i + n \<le> length bytes"
  shows "traverse_chunk K app b (take 4 (drop (32 * i) bytes)) pos h = do {
      (status, h) \<leftarrow>
        (case header_type (stored_header n bytes i) of
           FILL_CHUNK \<Rightarrow> map_option (Pair NoStatus)
             (container_newFreeSpaceArea (toFileIndex pos) (toFileIndex (chunkSize (stored_header n bytes i))) False h)
         | STREAM_START_CHUNK \<Rightarrow> traverse_start K (take 4 (drop (32 * i) bytes)) pos h
         | STREAM_DATA_CHUNK \<Rightarrow> traverse_data K app b (take 4 (drop (32 * i) bytes)) pos h
         | FILE_HEADER_CHUNK \<Rightarrow> Some (ContainerDataError pos, h));
      Some (status, chunkSize (stored_header n bytes i), h)
    }"
proof -
  let ?c = "take 4 (drop (32 * i) bytes)" and ?s = "stored_header n bytes i"
  have l: "length ?c = 4" "length (header ?s) = n" using assms by (simp_all add: stored_header_def)
  have "take 4 (header \<lparr>header = ?c\<rparr>) = take 4 (header ?s)" using assms(3) by (simp add: stored_header_def min_def)
  note e = header_common_cong [OF this, unfolded l(2), OF _ assms(3)]
  have v: "numberValidBytes \<lparr>header = ?c\<rparr> \<le> 4092" using e(3) l assms(2) by simp
  note ch = ChunkHeader_sized_establishes [OF l(1) v, where uninit = "junk h"]
  let ?h = "\<lparr>header = ?c @ drop 4 (new_array (junk h) (numberValidBytes \<lparr>header = ?c\<rparr> + 4))\<rparr>"
  have "take 4 (header ?h) = take 4 (header ?s)" using assms(3) l(1) by (simp add: stored_header_def min_def)
  note f = header_common_cong [OF this, unfolded l(2), OF _ assms(3)]
  have hs: "header_type ?h = header_type ?s" "chunkSize ?h = chunkSize ?s" using f(1,2) l(1) by simp_all
  show ?thesis unfolding traverse_chunk_def ch bind.bind_lunit Let_def hs by (rule refl)
qed

end

subsection \<open>The pieces of a container\<close>

text \<open>Where the chunks of a file lie, and how many cells each takes.\<close>

definition pieces :: "virtual_file \<Rightarrow> (nat \<times> nat) set" where
  "pieces v = insert (startChunkIndex v, 4)
     ((\<lambda>p. (chunkStartingIndex (snd p), fit_size (chunkPayloadSize (snd p) + 14) div 32)) ` set (chunkMap v))"

text \<open>The files \<open>V\<close> lie on the medium with nothing in their caches, and behind the \<open>n\<close> cells of the file header fill it.\<close>

definition on_medium :: "byte list \<Rightarrow> nat \<Rightarrow> nat \<Rightarrow> virtual_file set \<Rightarrow> bool" where
  "on_medium bytes n eof V \<longleftrightarrow>
     {..< eof} = {..< n} \<union> (\<Union>v \<in> V. file_cells v) \<and> n \<le> eof \<and>
     (\<forall>v \<in> V. (\<exists>D. holds_stored bytes {..< eof} v D) \<and> startChunkIndex v \<noteq> invalidFileIndex \<and> in_order v \<and>
        file_cells v \<inter> {..< n} = {}) \<and>
     (\<forall>u \<in> V. \<forall>v \<in> V. u \<noteq> v \<longrightarrow> file_cells u \<inter> file_cells v = {}) \<and>
     inj_on currentName V \<and> inj_on currentStreamIdentifier V"

lemma pieces_cells:
  "startChunkIndex v \<noteq> invalidFileIndex \<Longrightarrow> file_cells v = (\<Union>(a, m) \<in> pieces v. {a ..< a + m})"
  by (auto simp: file_cells_def start_cells_def pieces_def map_cells_def chunk_cells_def cells_of_def)

lemma piece_positive: "(a, m) \<in> pieces v \<Longrightarrow> 0 < m"
  using fit_size_cells_bounds(1) by (auto simp: pieces_def)

lemma chunks_apart_pair:
  "chunks_apart m \<Longrightarrow> p \<in> set m \<Longrightarrow> q \<in> set m \<Longrightarrow> p \<noteq> q \<Longrightarrow> chunk_cells (snd p) \<inter> chunk_cells (snd q) = {}"
proof (induction m rule: chunks_apart.induct)
  case (2 k d m)
  have "r \<in> set m \<Longrightarrow> chunk_cells (snd r) \<subseteq> map_cells m" for r by (auto simp: map_cells_def)
  with 2 show ?case by fastforce
qed simp

lemma pieces_apart:
  assumes "holds_stored bytes used v D" "startChunkIndex v \<noteq> invalidFileIndex"
    and "(a, m) \<in> pieces v" "(b, k) \<in> pieces v" "(a, m) \<noteq> (b, k)"
  shows "{a ..< a + m} \<inter> {b ..< b + k} = {}"
proof -
  have h: "start_cells v \<inter> map_cells (chunkMap v) = {}" "chunks_apart (chunkMap v)"
    using assms(1) by (simp_all add: holds_stored_def)
  have s: "start_cells v = {startChunkIndex v ..< startChunkIndex v + 4}" using assms(2) by (simp add: start_cells_def)
  have c: "{chunkStartingIndex (snd p) ..< chunkStartingIndex (snd p) + fit_size (chunkPayloadSize (snd p) + 14) div 32} =
      chunk_cells (snd p)" for p :: "nat \<times> chunk_map_data" by (simp add: chunk_cells_def cells_of_def)
  have m: "p \<in> set (chunkMap v) \<Longrightarrow> chunk_cells (snd p) \<subseteq> map_cells (chunkMap v)" for p by (auto simp: map_cells_def)
  show ?thesis
    using assms(3-5) h s c m chunks_apart_pair [OF h(2)] unfolding pieces_def by (elim insertE imageE; clarsimp; blast)
qed

text \<open>No piece lies across the cell \<open>c\<close>.\<close>

definition boundary :: "nat \<Rightarrow> virtual_file set \<Rightarrow> bool" where
  "boundary c V \<longleftrightarrow> (\<forall>v \<in> V. \<forall>(a, m) \<in> pieces v. a + m \<le> c \<or> c \<le> a)"

lemma on_mediumD:
  assumes "on_medium bytes n eof V"
  shows "v \<in> V \<Longrightarrow> startChunkIndex v \<noteq> invalidFileIndex" "v \<in> V \<Longrightarrow> in_order v"
    "v \<in> V \<Longrightarrow> \<exists>D. holds_stored bytes {..< eof} v D" "v \<in> V \<Longrightarrow> file_cells v \<inter> {..< n} = {}"
    "u \<in> V \<Longrightarrow> v \<in> V \<Longrightarrow> u \<noteq> v \<Longrightarrow> file_cells u \<inter> file_cells v = {}"
    "{..< eof} = {..< n} \<union> (\<Union>v \<in> V. file_cells v)" "n \<le> eof" "inj_on currentName V" "inj_on currentStreamIdentifier V"
  using assms unfolding on_medium_def by blast+

lemma piece_in_file:
  "on_medium bytes n eof V \<Longrightarrow> v \<in> V \<Longrightarrow> (a, k) \<in> pieces v \<Longrightarrow> {a ..< a + k} \<subseteq> file_cells v"
  using pieces_cells [OF on_mediumD(1)] by fastforce

lemma pieces_disjoint:
  assumes "on_medium bytes n eof V" "u \<in> V" "v \<in> V" "(a, m) \<in> pieces u" "(b, k) \<in> pieces v" "(u, a, m) \<noteq> (v, b, k)"
  shows "{a ..< a + m} \<inter> {b ..< b + k} = {}"
proof (cases "u = v")
  case True
  with assms on_mediumD(1,3) [OF assms(1,2)] show ?thesis using pieces_apart by blast
next
  case False
  then show ?thesis
    using on_mediumD(5) [OF assms(1-3)] piece_in_file [OF assms(1,2,4)] piece_in_file [OF assms(1,3,5)] by blast
qed

lemma interval_apart:
  "{a ..< a + m} \<inter> {b ..< b + k} = {} \<Longrightarrow> 0 < m \<Longrightarrow> 0 < k \<Longrightarrow> a + m \<le> b \<or> b + k \<le> (a :: nat)"
proof (rule ccontr)
  assume "{a ..< a + m} \<inter> {b ..< b + k} = {}" "0 < m" "0 < k" "\<not> (a + m \<le> b \<or> b + k \<le> a)"
  then have "max a b \<in> {a ..< a + m} \<inter> {b ..< b + k}" by auto
  with \<open>{a ..< a + m} \<inter> {b ..< b + k} = {}\<close> show False by blast
qed

lemma piece_before:
  assumes "on_medium bytes n eof V" "boundary c V" "u \<in> V" "v \<in> V" "(a, m) \<in> pieces u" "(c, k) \<in> pieces v"
    and "(u, a, m) \<noteq> (v, c, k)"
  shows "a < c + k \<longleftrightarrow> a + m \<le> c" "a < c \<longleftrightarrow> a + m \<le> c" "a + m \<le> c + k \<or> c + k \<le> a"
proof -
  have d: "a + m \<le> c \<or> c + k \<le> a" "0 < m" "0 < k"
    using interval_apart [OF pieces_disjoint [OF assms(1,3-7)]] piece_positive assms(5,6) by blast+
  then show "a < c + k \<longleftrightarrow> a + m \<le> c" "a < c \<longleftrightarrow> a + m \<le> c" "a + m \<le> c + k \<or> c + k \<le> a" by auto
qed

lemma boundary_first:
  assumes "on_medium bytes n eof V"
  shows "boundary n V"
  unfolding boundary_def
proof (intro ballI, clarify)
  fix v a m assume v: "v \<in> V" "(a, m) \<in> pieces v" "\<not> n \<le> a"
  then have "a \<in> {a ..< a + m}" using piece_positive by simp
  then have "a \<in> file_cells v" using piece_in_file [OF assms v(1,2)] by blast
  with on_mediumD(4) [OF assms v(1)] v(3) show "a + m \<le> n" by auto
qed

lemma boundary_piece:
  assumes m: "on_medium bytes n eof V" and c: "boundary c V" "n \<le> c" "c < eof"
  obtains v k where "v \<in> V" "(c, k) \<in> pieces v"
proof -
  have "c \<in> {..< n} \<union> (\<Union>v \<in> V. file_cells v)" using c(3) on_mediumD(6) [OF m] by blast
  then obtain v where v: "v \<in> V" "c \<in> file_cells v" using c(2) by auto
  then obtain a k where a: "(a, k) \<in> pieces v" "a \<le> c" "c < a + k"
    using pieces_cells [OF on_mediumD(1) [OF m v(1)]] by auto
  then have "a + k \<le> c \<or> c \<le> a" using c(1) v(1) unfolding boundary_def by fast
  with a have "a = c" by simp
  with a v that show thesis by blast
qed

lemma boundary_next:
  assumes m: "on_medium bytes n eof V" and c: "boundary c V" and v: "v \<in> V" "(c, k) \<in> pieces v"
  shows "boundary (c + k) V" "c + k \<le> eof" "c < c + k"
proof -
  show "boundary (c + k) V"
    unfolding boundary_def
  proof (intro ballI, clarify)
    fix u a m' assume u: "u \<in> V" "(a, m') \<in> pieces u" "\<not> c + k \<le> a"
    show "a + m' \<le> c + k"
    proof (cases "(u, a, m') = (v, c, k)")
      case False
      then show ?thesis using piece_before(3) [OF m c u(1) v(1) u(2) v(2)] u(3) by blast
    qed simp
  qed
  have "{c ..< c + k} \<subseteq> {..< eof}" using piece_in_file [OF m v] on_mediumD(6) [OF m] v(1) by blast
  moreover show "c < c + k" using piece_positive [OF v(2)] by simp
  ultimately have "c + k - 1 \<in> {..< eof}" by (simp only: subset_eq) simp
  then show "c + k \<le> eof" by simp
qed

subsection \<open>What has been found so far\<close>

text \<open>The object of a file after the cells below \<open>c\<close> were seen.\<close>

definition chunks_below :: "nat \<Rightarrow> virtual_file \<Rightarrow> (nat, chunk_map_data) omap" where
  "chunks_below c v = filter (\<lambda>p. chunkStartingIndex (snd p) < c) (chunkMap v)"

definition recovered :: "(nat \<Rightarrow> byte) \<Rightarrow> nat \<Rightarrow> virtual_file \<Rightarrow> virtual_file" where
  "recovered uninit c v = (VirtualFileImpl uninit (currentName v) (currentStreamIdentifier v))
     \<lparr>startChunkIndex := startChunkIndex v, chunkMap := chunks_below c v\<rparr>"

definition handles :: "'k list \<Rightarrow> ('k \<times> nat) set" where
  "handles ks = set (zip ks [0..<length ks])"

definition traversed :: "virtual_file set \<Rightarrow> nat \<Rightarrow> virtual_file list \<Rightarrow> ('d, 'z) library_scheme \<Rightarrow> bool" where
  "traversed V c vs h \<longleftrightarrow>
     fileMapsPopulated h \<and> distinct vs \<and> set vs = {v \<in> V. startChunkIndex v < c} \<and>
     virtualFiles h = map (recovered (junk h) c) vs \<and>
     om_sorted (fileApisByName h) \<and> set (fileApisByName h) = handles (map currentName vs) \<and>
     om_sorted (filesByName h) \<and> set (filesByName h) = handles (map currentName vs) \<and>
     om_sorted (filesByIdentifier h) \<and> set (filesByIdentifier h) = handles (map currentStreamIdentifier vs)"

definition same_settings :: "('d, 'z) library_scheme \<Rightarrow> ('d, 'z) library_scheme \<Rightarrow> bool" where
  "same_settings h h' \<longleftrightarrow>
     startingFileIndex h' = startingFileIndex h \<and> currentFileIdentifier h' = currentFileIdentifier h \<and>
     spaceTracker h' = spaceTracker h \<and> junk h' = junk h"

lemma handles_snoc: "handles (ks @ [k]) = insert (k, length ks) (handles ks)"
proof -
  have "zip (ks @ [k]) [0..<length (ks @ [k])] = zip ks [0..<length ks] @ [(k, length ks)]"
    by (simp add: zip_append1)
  then show ?thesis by (simp add: handles_def)
qed

lemma handles_keys: "fst ` handles ks = set ks"
  by (simp add: handles_def) (metis length_map length_upt map_fst_zip minus_nat.diff_0 set_map)

lemma handles_nth: "(k, r) \<in> handles ks \<longleftrightarrow> r < length ks \<and> ks ! r = k"
  by (auto simp: handles_def in_set_zip)

lemma found_handle: "om_sorted m \<Longrightarrow> set m = handles ks \<Longrightarrow> r < length ks \<Longrightarrow> om_find (ks ! r) m = Some r"
  by (simp add: om_find_Some_iff handles_nth)

lemma piece_of_chunk:
  "p \<in> set (chunkMap v) \<Longrightarrow>
   (chunkStartingIndex (snd p), fit_size (chunkPayloadSize (snd p) + 14) div 32) \<in> pieces v"
  by (auto simp: pieces_def)

text \<open>The chunks that a further piece brings to a file: one when it is a data chunk of that file, else none.\<close>

lemma chunks_below_other:
  assumes m: "on_medium bytes n eof V" "boundary c V" and v: "v \<in> V" "(c, k) \<in> pieces v" and u: "u \<in> V"
    and other: "u = v \<Longrightarrow> c = startChunkIndex v"
  shows "chunks_below (c + k) u = chunks_below c u"
  unfolding chunks_below_def
proof (rule filter_cong [OF refl])
  fix p assume p: "p \<in> set (chunkMap u)"
  let ?a = "chunkStartingIndex (snd p)" and ?m = "fit_size (chunkPayloadSize (snd p) + 14) div 32"
  have "(u, ?a, ?m) \<noteq> (v, c, k)"
    using other in_order_chunk [OF on_mediumD(2) [OF m(1) u] p] by auto
  from piece_before(1,2) [OF m u v(1) piece_of_chunk [OF p] v(2) this]
  show "?a < c + k \<longleftrightarrow> ?a < c" by simp
qed

lemma chunks_below_data:
  assumes m: "on_medium bytes n eof V" "boundary c V" and v: "v \<in> V" "(off, d) \<in> set (chunkMap v)"
    and c: "chunkStartingIndex d = c" "k = fit_size (chunkPayloadSize d + 14) div 32"
  shows "chunks_below (c + k) v = chunks_below c v @ [(off, d)]"
    "chunks_below c v @ [(off, d)] @ filter (\<lambda>p. c < chunkStartingIndex (snd p)) (chunkMap v) = chunkMap v"
proof -
  from v(2) obtain l r where lr: "chunkMap v = l @ (off, d) # r" by (auto dest: split_list)
  have "sorted_wrt (<) (map (\<lambda>p. chunkStartingIndex (snd p)) (chunkMap v))"
    using on_mediumD(2) [OF m(1) v(1)] by (simp add: in_order_def)
  then have o: "\<forall>p \<in> set l. chunkStartingIndex (snd p) < c" "\<forall>p \<in> set r. c < chunkStartingIndex (snd p)"
    unfolding lr using c(1) by (simp_all add: sorted_wrt_append)
  have k: "(c, k) \<in> pieces v" "0 < k"
    using piece_of_chunk [OF v(2)] c fit_size_cells_bounds(1) by simp_all
  have far: "\<not> chunkStartingIndex (snd p) < c + k" if "p \<in> set r" for p
  proof -
    have p: "p \<in> set (chunkMap v)" "c < chunkStartingIndex (snd p)" using that lr o(2) by simp_all
    then have "(v, chunkStartingIndex (snd p), fit_size (chunkPayloadSize (snd p) + 14) div 32) \<noteq> (v, c, k)" by simp
    from piece_before(1) [OF m v(1,1) piece_of_chunk [OF p(1)] k(1) this] p(2) show ?thesis by linarith
  qed
  have near: "\<forall>p \<in> set l. chunkStartingIndex (snd p) < c + k" using o(1) by auto
  have "filter (\<lambda>p. chunkStartingIndex (snd p) < c) r = []" "filter (\<lambda>p. chunkStartingIndex (snd p) < c + k) r = []"
    "filter (\<lambda>p. c < chunkStartingIndex (snd p)) l = []"
    using o far by (auto simp: filter_empty_conv)
  moreover have "filter (\<lambda>p. c < chunkStartingIndex (snd p)) r = r" using o(2) by (simp add: filter_id_conv)
  ultimately show "chunks_below (c + k) v = chunks_below c v @ [(off, d)]"
    "chunks_below c v @ [(off, d)] @ filter (\<lambda>p. c < chunkStartingIndex (snd p)) (chunkMap v) = chunkMap v"
    unfolding chunks_below_def lr using o(1) near k(2) c(1) by (simp_all add: filter_id_conv)
qed

lemma recovered_data:
  assumes m: "on_medium bytes n eof V" "boundary c V" and v: "v \<in> V" "(off, d) \<in> set (chunkMap v)"
    and c: "chunkStartingIndex d = c" "k = fit_size (chunkPayloadSize d + 14) div 32"
  shows "recovered uninit (c + k) v = addChunkLocation c off (chunkPayloadSize d) (recovered uninit c v)"
proof -
  note b = chunks_below_data [OF assms]
  from on_mediumD(3) [OF m(1) v(1)] obtain D where "holds_stored bytes {..< eof} v D" ..
  then have "om_sorted (chunkMap v)" using stored_sorted by (auto simp: holds_stored_def)
  then have "om_sorted (chunks_below c v @ [(off, d)])" by (subst (asm) b(2) [symmetric]) (auto simp: sorted_wrt_append)
  then have l: "om_sorted (chunks_below c v @ [])" "\<forall>a \<in> om_keys (chunks_below c v). a < off"
    by (auto simp: sorted_wrt_append)
  have "om_insert off (ChunkMapData c (chunkPayloadSize d)) (chunks_below c v @ []) =
      chunks_below c v @ [(off, ChunkMapData c (chunkPayloadSize d))]"
    by (rule om_insert_mid [OF l]) simp
  moreover have "ChunkMapData c (chunkPayloadSize d) = d" using c(1) by (cases d) (simp add: ChunkMapData_def)
  moreover have "off \<notin> om_keys (chunks_below c v)" using l(2) by blast
  ultimately show ?thesis by (simp add: recovered_def b(1) addChunkLocation_def)
qed

text \<open>The files whose stream start chunk has been seen.\<close>

lemma starts_below:
  assumes m: "on_medium bytes n eof V" "boundary c V" and v: "v \<in> V" "(c, k) \<in> pieces v"
  shows "c \<noteq> startChunkIndex v \<Longrightarrow> {u \<in> V. startChunkIndex u < c + k} = {u \<in> V. startChunkIndex u < c}"
    "c = startChunkIndex v \<Longrightarrow> {u \<in> V. startChunkIndex u < c + k} = insert v {u \<in> V. startChunkIndex u < c}"
proof -
  have b: "startChunkIndex u < c + k \<longleftrightarrow> startChunkIndex u < c" if "u \<in> V" "(u, startChunkIndex u) \<noteq> (v, c)" for u
  proof -
    have p: "(startChunkIndex u, 4) \<in> pieces u" by (simp add: pieces_def)
    have "(u, startChunkIndex u, 4) \<noteq> (v, c, k)" using that(2) by auto
    from piece_before(1,2) [OF m that(1) v(1) p v(2) this] show ?thesis by simp
  qed
  have "0 < k" using piece_positive [OF v(2)] .
  show "{u \<in> V. startChunkIndex u < c + k} = {u \<in> V. startChunkIndex u < c}" if "c \<noteq> startChunkIndex v"
    using b that by force
  show "{u \<in> V. startChunkIndex u < c + k} = insert v {u \<in> V. startChunkIndex u < c}" if "c = startChunkIndex v"
  proof (intro set_eqI)
    fix u show "u \<in> {u \<in> V. startChunkIndex u < c + k} \<longleftrightarrow> u \<in> insert v {u \<in> V. startChunkIndex u < c}"
      using b [of u] that \<open>0 < k\<close> v(1) by (cases "u = v") auto
  qed
qed

subsection \<open>From piece to piece\<close>

text \<open>The payloads of the chunks below \<open>c\<close>, as the medium has them.\<close>

definition delivered :: "byte list \<Rightarrow> nat \<Rightarrow> virtual_file \<Rightarrow> byte list" where
  "delivered bytes c v =
     concat (map (\<lambda>p. take (chunkPayloadSize (snd p)) (drop (32 * chunkStartingIndex (snd p) + 14) bytes)) (chunks_below c v))"

text \<open>
  The application either is not asked, or takes what it is given and notes it: \<open>seen\<close> is the
  bytes it has of every file.
\<close>

definition hands_over ::
  "bool \<Rightarrow> ('d, 'z) library_scheme callbacks \<Rightarrow> (nat \<Rightarrow> byte list \<Rightarrow> 'z \<Rightarrow> 'z) \<Rightarrow> ('z \<Rightarrow> nat \<Rightarrow> byte list) \<Rightarrow> bool" where
  "hands_over b app note seen \<longleftrightarrow>
     (if b then \<forall>r p z. note r p z = z
      else (\<forall>r p h. receivedData app r p h = Some (NoStatus, library.more_update (note r p) h)) \<and>
        (\<forall>r p z q. seen (note r p z) q = (if q = r then seen z q @ p else seen z q)))"

definition noted :: "bool \<Rightarrow> byte list \<Rightarrow> ('z \<Rightarrow> nat \<Rightarrow> byte list) \<Rightarrow> nat \<Rightarrow> virtual_file list \<Rightarrow> 'z \<Rightarrow> bool" where
  "noted b bytes seen c vs z \<longleftrightarrow>
     b \<or> (\<forall>r. seen z r = (if r < length vs then delivered bytes c (vs ! r) else []))"

lemma sorted_distinct: "om_sorted m \<Longrightarrow> distinct m"
  by (simp add: strict_sorted_iff distinct_map)

lemma length_handles:
  assumes "om_sorted m" "set m = handles ks"
  shows "length m = length ks"
proof -
  have "length m = card (set m)" using sorted_distinct [OF assms(1)] by (simp add: distinct_card)
  also have "\<dots> = card (set (zip ks [0..<length ks]))" by (simp add: assms(2) handles_def)
  also have "\<dots> = length ks" by (simp add: distinct_card distinct_zipI2)
  finally show ?thesis .
qed

lemma count_found:
  assumes m: "on_medium bytes n eof V" and vs: "distinct vs" "set vs = {v \<in> V. startChunkIndex v < c}"
  shows "length vs \<le> c"
proof -
  have "inj_on startChunkIndex (set vs)"
  proof (rule inj_onI)
    fix u v assume u: "u \<in> set vs" "v \<in> set vs" "startChunkIndex u = startChunkIndex v"
    have "startChunkIndex w \<in> file_cells w" if "w \<in> V" for w
      using on_mediumD(1) [OF m that] by (simp add: file_cells_def start_cells_def)
    with u vs(2) have "startChunkIndex u \<in> file_cells u \<inter> file_cells v" by force
    with u vs(2) on_mediumD(5) [OF m, of u v] show "u = v" by blast
  qed
  then have "length vs = card (startChunkIndex ` set vs)" using vs(1) by (simp add: card_image distinct_card)
  also have "\<dots> \<le> card {..< c}" using vs(2) by (intro card_mono) auto
  finally show ?thesis by simp
qed

lemma traversedD:
  assumes "traversed V c vs h"
  shows "fileMapsPopulated h" "distinct vs" "set vs = {v \<in> V. startChunkIndex v < c}"
    "virtualFiles h = map (recovered (junk h) c) vs"
    "om_sorted (fileApisByName h)" "set (fileApisByName h) = handles (map currentName vs)"
    "om_sorted (filesByName h)" "set (filesByName h) = handles (map currentName vs)"
    "om_sorted (filesByIdentifier h)" "set (filesByIdentifier h) = handles (map currentStreamIdentifier vs)"
  using assms unfolding traversed_def by blast+

lemma data_piece:
  assumes m: "on_medium bytes n eof V" and v: "v \<in> V" "(off, d) \<in> set (chunkMap v)"
  obtains payload where "data_chunk_at bytes (chunkStartingIndex d) (currentStreamIdentifier v) off payload"
    "length payload = chunkPayloadSize d"
proof -
  from on_mediumD(3) [OF m v(1)] obtain D where "holds_stored bytes {..< eof} v D" ..
  then have s: "stored bytes (currentStreamIdentifier v) 0 (chunkMap v) D" by (simp add: holds_stored_def)
  from v(2) obtain l r where lr: "chunkMap v = l @ (off, d) # r" by (auto dest: split_list)
  note mid = stored_mid [OF s [unfolded lr]]
  show thesis by (rule that [OF mid(5)]) (use mid(3) in simp)
qed

lemma library_more_id [simp]: "library.more_update (\<lambda>z. z) h = h"
  by (cases h) simp

context storage
begin

lemma traverse_start_piece:
  fixes h :: "('d, 'z) library_scheme"
  assumes m: "on_medium bytes n eof V" "boundary c V" and size: "length bytes = 32 * eof" "eof < 134217728" "c < eof"
    and h: "ok (device h)" "content (device h) = bytes" "traversed V c vs h"
    and v: "v \<in> V" "startChunkIndex v = c"
  shows "\<exists>h'. traverse_chunk K app b (take 4 (drop (32 * c) bytes)) (32 * c) h = Some (NoStatus, 128, h') \<and>
    ok (device h') \<and> content (device h') = bytes \<and> traversed V (c + 4) (vs @ [v]) h' \<and>
    same_settings h h' \<and> library.more h' = library.more h"
proof -
  note t = traversedD [OF h(3)]
  let ?J = "junk h" and ?nm = "currentName v" and ?sid = "currentStreamIdentifier v"
  from on_mediumD(3) [OF m(1) v(1)] obtain D where D: "holds_stored bytes {..< eof} v D" ..
  have p: "(c, 4) \<in> pieces v" using v(2) by (simp add: pieces_def)
  have at: "start_chunk_at bytes c ?sid ?nm" using D on_mediumD(1) [OF m(1) v(1)] v(2) by (simp add: holds_stored_def)
  then have a: "32 * c + 128 \<le> length bytes" "header_type (stored_header 128 bytes c) = STREAM_START_CHUNK"
    "chunkSize (stored_header 128 bytes c) = 128" "numberValidBytes (stored_header 128 bytes c) = 124"
    by (simp_all add: start_chunk_at_def Let_def)
  have nin: "v \<notin> set vs" using t(3) v(2) by simp
  have sub: "set vs \<subseteq> V" using t(3) by blast
  have fresh: "?nm \<notin> currentName ` set vs" "?sid \<notin> currentStreamIdentifier ` set vs"
    using nin sub v(1) on_mediumD(8,9) [OF m(1)] by (auto dest: inj_onD)
  have keys: "om_keys (fileApisByName h) = currentName ` set vs" "om_keys (filesByName h) = currentName ` set vs"
    "om_keys (filesByIdentifier h) = currentStreamIdentifier ` set vs"
    unfolding t(6,8,10) handles_keys by simp_all
  have len: "length (filesByIdentifier h) < 2147483648"
    using length_handles [OF t(9,10)] count_found [OF m(1) t(2,3)] size(2,3) by simp
  have lim: "length (content (device h)) \<le> storage_limit" using size(1,2) h(2) space_limit by simp
  from traverse_start_law [OF h(1) lim t(1) at [folded h(2)] len t(9,7)] fresh keys obtain d ids where
    s: "ok d" "content d = bytes" "traverse_start K (take 4 (drop (32 * c) bytes)) (32 * c) h = Some (NoStatus, h\<lparr>device := d,
        virtualFiles := virtualFiles h @ [(VirtualFileImpl ?J ?nm ?sid)\<lparr>startChunkIndex := c\<rparr>],
        fileApisByName := om_insert ?nm (length (virtualFiles h)) (fileApisByName h),
        filesByName := om_insert ?nm (length (virtualFiles h)) (filesByName h), filesByIdentifier := ids\<rparr>)"
      "set ids = insert (?sid, length (virtualFiles h)) (set (filesByIdentifier h))" "om_sorted ids"
    unfolding h(2) by metis
  define h' where "h' = h\<lparr>device := d, virtualFiles := virtualFiles h @ [(VirtualFileImpl ?J ?nm ?sid)\<lparr>startChunkIndex := c\<rparr>],
        fileApisByName := om_insert ?nm (length (virtualFiles h)) (fileApisByName h),
        filesByName := om_insert ?nm (length (virtualFiles h)) (filesByName h), filesByIdentifier := ids\<rparr>"
  have lv: "length (virtualFiles h) = length vs" using t(4) by simp
  have "filter (\<lambda>p. chunkStartingIndex (snd p) < c) (chunkMap v) = []"
    using in_order_chunk [OF on_mediumD(2) [OF m(1) v(1)]] v(2) by (fastforce simp: filter_empty_conv)
  then have "recovered ?J (c + 4) v = (VirtualFileImpl ?J ?nm ?sid)\<lparr>startChunkIndex := c\<rparr>"
    using chunks_below_other [OF m v(1) p v(1)] v(2)
    by (simp add: recovered_def chunks_below_def) (simp add: VirtualFileImpl_def)
  moreover have "chunks_below (c + 4) u = chunks_below c u" if "u \<in> set vs" for u
    using chunks_below_other [OF m v(1) p] that sub nin by blast
  then have "recovered ?J (c + 4) u = recovered ?J c u" if "u \<in> set vs" for u
    using that by (simp add: recovered_def)
  ultimately have "virtualFiles h' = map (recovered (junk h') (c + 4)) (vs @ [v])"
    by (simp add: h'_def t(4))
  moreover have "set (vs @ [v]) = {v \<in> V. startChunkIndex v < c + 4}"
    using starts_below(2) [OF m v(1) p] v(2) t(3) by simp
  moreover have "set (fileApisByName h') = handles (map currentName (vs @ [v]))"
    "set (filesByName h') = handles (map currentName (vs @ [v]))"
    using fresh(1) keys t(5-8) lv by (simp_all add: h'_def om_set_insert handles_snoc)
  moreover have "set (filesByIdentifier h') = handles (map currentStreamIdentifier (vs @ [v]))"
    using s(4) t(10) lv by (simp add: h'_def handles_snoc)
  ultimately have "traversed V (c + 4) (vs @ [v]) h'"
    unfolding traversed_def using t(1,2,5,7) nin s(5) by (simp add: h'_def om_sorted_insert)
  moreover have "traverse_chunk K app b (take 4 (drop (32 * c) bytes)) (32 * c) h = Some (NoStatus, 128, h')"
    using traverse_chunk_law [of c bytes 128 app b "32 * c" h] a s(3) by (simp add: h'_def)
  ultimately show ?thesis
    using s(1,2) by (intro exI [of _ h']) (simp add: h'_def same_settings_def)
qed

lemma traverse_data_piece:
  fixes h :: "('d, 'z) library_scheme"
  assumes m: "on_medium bytes n eof V" "boundary c V" and size: "length bytes = 32 * eof" "eof < 134217728" "c < eof"
    and h: "ok (device h)" "content (device h) = bytes" "traversed V c vs h"
    and v: "v \<in> V" "(off, d) \<in> set (chunkMap v)" "chunkStartingIndex d = c" "k = fit_size (chunkPayloadSize d + 14) div 32"
    and app: "hands_over b app note seen" "noted b bytes seen c vs (library.more h)"
  shows "\<exists>h'. traverse_chunk K app b (take 4 (drop (32 * c) bytes)) (32 * c) h = Some (NoStatus, 32 * k, h') \<and>
    ok (device h') \<and> content (device h') = bytes \<and> traversed V (c + k) vs h' \<and>
    same_settings h h' \<and> noted b bytes seen (c + k) vs (library.more h') \<and> (b \<longrightarrow> library.more h' = library.more h)"
proof -
  note t = traversedD [OF h(3)]
  let ?J = "junk h" and ?sid = "currentStreamIdentifier v"
  from data_piece [OF m(1) v(1,2)] v(3) obtain payload where
    at: "data_chunk_at bytes c ?sid off payload" "length payload = chunkPayloadSize d" by auto
  let ?n = "chunkPayloadSize d"
  have a: "32 * c + fit_size (?n + 14) \<le> length bytes" "?n \<le> 4082" "header_type (stored_header 14 bytes c) = STREAM_DATA_CHUNK"
    "numberValidBytes (stored_header 14 bytes c) = ?n + 10" "chunkSize (stored_header 14 bytes c) = 32 * k"
    "take ?n (drop (32 * c + 14) bytes) = payload"
    using at v(4) fit_size_cells by (simp_all add: data_chunk_at_def Let_def)
  have len: "32 * c + 14 \<le> length bytes" using a(1,2) fit_size_bounds(3) [of "?n + 14"] by simp
  have pc: "(c, k) \<in> pieces v" "startChunkIndex v < c"
    using piece_of_chunk [OF v(2)] v(3,4) in_order_chunk [OF on_mediumD(2) [OF m(1) v(1)] v(2)] by simp_all
  then have "v \<in> set vs" using t(3) v(1) by simp
  then obtain r where r: "r < length vs" "vs ! r = v" by (auto simp: in_set_conv_nth)
  have fnd: "om_find ?sid (filesByIdentifier h) = Some r" "r < length (virtualFiles h)" "virtualFiles h ! r = recovered ?J c v"
    using found_handle [OF t(9,10), of r] r t(4) by simp_all
  have lim: "length (content (device h)) \<le> storage_limit" using size(1,2) h(2) space_limit by simp
  from traverse_data_law [OF h(1) lim at(1) [folded h(2)] fnd(1,2)] obtain dv where
    d: "ok dv" "content dv = bytes" "traverse_data K app b (take 4 (drop (32 * c) bytes)) (32 * c) h =
      (if b then Some (NoStatus, put_file r (addChunkLocation c off ?n (recovered ?J c v)) (h\<lparr>device := dv\<rparr>))
       else receivedData app r payload (put_file r (addChunkLocation c off ?n (recovered ?J c v)) (h\<lparr>device := dv\<rparr>)))"
    unfolding h(2) fnd(3) at(2) by metis
  let ?vf = "recovered ?J (c + k) v"
  note rec = recovered_data [OF m v, of ?J]
  define h' where "h' = library.more_update (note r payload) (put_file r ?vf (h\<lparr>device := dv\<rparr>))"
  have "library.more_update (note r payload) g = g" if b for g :: "('d, 'z) library_scheme"
    using app(1) that by (cases g) (simp add: hands_over_def)
  then have "traverse_data K app b (take 4 (drop (32 * c) bytes)) (32 * c) h = Some (NoStatus, h')"
    using d(3) app(1) unfolding rec [symmetric] h'_def by (simp add: hands_over_def)
  then have tc: "traverse_chunk K app b (take 4 (drop (32 * c) bytes)) (32 * c) h = Some (NoStatus, 32 * k, h')"
    using traverse_chunk_law [of c bytes 14 app b "32 * c" h] a len by simp
  have flds: "device h' = dv" "virtualFiles h' = (virtualFiles h)[r := ?vf]" "fileApisByName h' = fileApisByName h"
    "filesByName h' = filesByName h" "filesByIdentifier h' = filesByIdentifier h" "fileMapsPopulated h' = fileMapsPopulated h"
    "junk h' = ?J" "library.more h' = note r payload (library.more h)" "same_settings h h'"
    by (simp_all add: h'_def put_file_def same_settings_def)
  have other: "chunks_below (c + k) u = chunks_below c u" if "u \<in> V" "u \<noteq> v" for u
    using chunks_below_other [OF m v(1) pc(1) that(1)] that(2) by blast
  have sub: "set vs \<subseteq> V" using t(3) by blast
  have "(map (recovered ?J c) vs)[r := ?vf] = map (recovered ?J (c + k)) vs"
  proof (rule nth_equalityI)
    fix i assume "i < length ((map (recovered ?J c) vs)[r := ?vf])"
    then have i: "i < length vs" by simp
    show "(map (recovered ?J c) vs)[r := ?vf] ! i = map (recovered ?J (c + k)) vs ! i"
    proof (cases "i = r")
      case False
      then have "vs ! i \<in> V" "vs ! i \<noteq> v" using sub i r t(2) by (auto simp: nth_eq_iff_index_eq)
      with False i other show ?thesis by (simp add: recovered_def)
    qed (use r in simp)
  qed simp
  then have tr: "traversed V (c + k) vs h'"
    unfolding traversed_def flds using t starts_below(1) [OF m v(1) pc(1)] pc(2) by simp
  have del: "delivered bytes (c + k) v = delivered bytes c v @ payload"
    using chunks_below_data(1) [OF m v] a(6) v(3) by (simp add: delivered_def)
  have "noted b bytes seen (c + k) vs (library.more h')"
  proof (cases b)
    case False
    then have sn: "seen (library.more h') q = (if q = r then seen (library.more h) q @ payload else seen (library.more h) q)" for q
      using app(1) by (simp add: hands_over_def flds(8))
    have "seen (library.more h) q = (if q < length vs then delivered bytes c (vs ! q) else [])" for q
      using app(2) False by (simp add: noted_def)
    moreover have "delivered bytes (c + k) (vs ! q) = delivered bytes c (vs ! q)" if "q < length vs" "q \<noteq> r" for q
    proof -
      have "vs ! q \<in> V" "vs ! q \<noteq> v" using sub that r t(2) by (auto simp: nth_eq_iff_index_eq)
      then show ?thesis using other by (simp add: delivered_def)
    qed
    ultimately show ?thesis using r del by (simp add: noted_def sn)
  qed (simp add: noted_def)
  moreover have "b \<longrightarrow> library.more h' = library.more h" using app(1) flds(8) by (simp add: hands_over_def)
  ultimately show ?thesis using tc tr flds(1,9) d(1,2) by (intro exI [of _ h']) simp
qed

end

subsection \<open>The whole container\<close>

lemma same_settings_trans: "same_settings h h' \<Longrightarrow> same_settings h' h'' \<Longrightarrow> same_settings h h''"
  by (simp add: same_settings_def)

context storage
begin

lemma traverse_loop_law:
  fixes h :: "('d, 'z) library_scheme"
  assumes m: "on_medium bytes n eof V" and size: "length bytes = 32 * eof" "eof < 134217728"
    and app: "hands_over b app note seen"
    and c: "boundary c V" "n \<le> c" "c \<le> eof"
    and h: "ok (device h)" "content (device h) = bytes" "traversed V c vs h" "noted b bytes seen c vs (library.more h)"
  shows "\<exists>vs' h'. traverse_loop K app b (32 * eof) NoStatus (32 * c) h = Some (NoStatus, h') \<and>
    ok (device h') \<and> content (device h') = bytes \<and> traversed V eof vs' h' \<and> same_settings h h' \<and>
    noted b bytes seen eof vs' (library.more h') \<and> (b \<longrightarrow> library.more h' = library.more h)"
  using c h
proof (induction "eof - c" arbitrary: c vs h rule: less_induct)
  case less
  show ?case
  proof (cases "c = eof")
    case True
    then have "traverse_loop K app b (32 * eof) NoStatus (32 * c) h = Some (NoStatus, h)"
      by (subst traverse_loop.simps) simp
    then show ?thesis using less.prems True by (intro exI [of _ vs] exI [of _ h]) (simp add: same_settings_def)
  next
    case False
    then have ce: "c < eof" using less.prems(3) by simp
    from boundary_piece [OF m less.prems(1,2) ce] obtain v k where v: "v \<in> V" "(c, k) \<in> pieces v" .
    note next_c = boundary_next [OF m less.prems(1) v]
    have lim: "length (content (device h)) \<le> storage_limit" using size less.prems(5) space_limit by simp
    have pos: "32 * c < 32 * eof" "32 * c + 4 \<le> length (content (device h))" using ce size(1) less.prems(5) by simp_all
    from traverse_step_law [OF less.prems(4) lim pos, where app = app and b = b] obtain d where
      d: "ok d" "content d = bytes" "traverse_loop K app b (32 * eof) NoStatus (32 * c) h = do {
         (status, n, h) \<leftarrow> traverse_chunk K app b (take 4 (drop (32 * c) bytes)) (32 * c) (h\<lparr>device := d\<rparr>);
         traverse_loop K app b (32 * eof) status (if \<not> has_info status then u64 (32 * c + n) else 32 * c) h
       }" unfolding less.prems(5) .
    let ?h = "h\<lparr>device := d\<rparr>"
    have g: "ok (device ?h)" "content (device ?h) = bytes" "traversed V c vs ?h" "noted b bytes seen c vs (library.more ?h)"
      "same_settings h ?h"
      using d less.prems(6,7) by (simp_all add: traversed_def same_settings_def)
    have "\<exists>vs' h'. traverse_chunk K app b (take 4 (drop (32 * c) bytes)) (32 * c) ?h = Some (NoStatus, 32 * k, h') \<and>
      ok (device h') \<and> content (device h') = bytes \<and> traversed V (c + k) vs' h' \<and> same_settings ?h h' \<and>
      noted b bytes seen (c + k) vs' (library.more h') \<and> (b \<longrightarrow> library.more h' = library.more ?h)"
    proof (cases "c = startChunkIndex v")
      case True
      then have k: "k = 4"
        using v(2) in_order_chunk [OF on_mediumD(2) [OF m v(1)]] by (fastforce simp: pieces_def)
      from traverse_start_piece [OF m less.prems(1) size ce g(1-3) v(1) True [symmetric], where app = app and b = b] obtain h' where
        h': "traverse_chunk K app b (take 4 (drop (32 * c) bytes)) (32 * c) ?h = Some (NoStatus, 128, h')"
          "ok (device h')" "content (device h') = bytes" "traversed V (c + 4) (vs @ [v]) h'" "same_settings ?h h'"
          "library.more h' = library.more ?h" by blast
      have "noted b bytes seen (c + 4) (vs @ [v]) (library.more h')"
      proof (cases b)
        case False
        have sn: "seen (library.more h) q = (if q < length vs then delivered bytes c (vs ! q) else [])" for q
          using g(4) False by (simp add: noted_def)
        note t = traversedD [OF less.prems(6)]
        have "delivered bytes (c + 4) (vs ! q) = delivered bytes c (vs ! q)" if "q < length vs" for q
        proof -
          have "vs ! q \<in> V" "vs ! q \<noteq> v" using that t(3) True nth_mem [OF that] by auto
          then have "chunks_below (c + 4) (vs ! q) = chunks_below c (vs ! q)"
            by (intro chunks_below_other [OF m less.prems(1) v(1) v(2) [unfolded k]]) simp_all
          then show ?thesis by (simp add: delivered_def)
        qed
        moreover have "delivered bytes (c + 4) v = []"
        proof -
          have "chunks_below c v = []"
            using in_order_chunk [OF on_mediumD(2) [OF m v(1)]] True by (fastforce simp: chunks_below_def filter_empty_conv)
          then show ?thesis
            using chunks_below_other [OF m less.prems(1) v(1) v(2) [unfolded k] v(1) True] by (simp add: delivered_def)
        qed
        ultimately show ?thesis by (simp add: noted_def h'(6) sn nth_append)
      qed (simp add: noted_def)
      with h' k show ?thesis by (intro exI [of _ "vs @ [v]"] exI [of _ h']) simp
    next
      case False
      then obtain off d' where od: "(off, d') \<in> set (chunkMap v)" "chunkStartingIndex d' = c"
        "k = fit_size (chunkPayloadSize d' + 14) div 32" using v(2) by (auto simp: pieces_def)
      from traverse_data_piece [OF m less.prems(1) size ce g(1-3) v(1) od app g(4)] show ?thesis by blast
    qed
    then obtain vs1 h1 where
      s: "traverse_chunk K app b (take 4 (drop (32 * c) bytes)) (32 * c) ?h = Some (NoStatus, 32 * k, h1)"
        "ok (device h1)" "content (device h1) = bytes" "traversed V (c + k) vs1 h1" "same_settings ?h h1"
        "noted b bytes seen (c + k) vs1 (library.more h1)" "b \<longrightarrow> library.more h1 = library.more ?h" by blast
    have "n \<le> c + k" "eof - (c + k) < eof - c" using less.prems(2) next_c(3) ce by simp_all
    from less.hyps [OF this(2) next_c(1) this(1) next_c(2) s(2,3,4,6)] obtain vs' h' where
      r: "traverse_loop K app b (32 * eof) NoStatus (32 * (c + k)) h1 = Some (NoStatus, h')"
        "ok (device h')" "content (device h') = bytes" "traversed V eof vs' h'" "same_settings h1 h'"
        "noted b bytes seen eof vs' (library.more h')" "b \<longrightarrow> library.more h' = library.more h1" by blast
    have u: "u64 (32 * c + 32 * k) = 32 * (c + k)" using next_c(2) size(2) by (simp add: u64_id)
    have "traverse_loop K app b (32 * eof) NoStatus (32 * c) h = Some (NoStatus, h')"
      using d(3) s(1) r(1) u by simp
    moreover have "same_settings h h'" using same_settings_trans [OF same_settings_trans [OF g(5) s(5)] r(5)] .
    ultimately show ?thesis using r s(7) by (intro exI [of _ vs'] exI [of _ h']) simp
  qed
qed

end

end
