(* ===== verification/Container_Persistence.thy ===== *)
theory Container_Persistence
  imports Container_Traversal "HOL-Library.Multiset"
begin

text \<open>
  Closing a container and opening it again: a flush brings all bytes of its file to the medium,
  \<open>close\<close> those of all files, and a new container object on that medium finds all of them with
  the bytes they had.
\<close>

subsection \<open>Closing\<close>

text \<open>A file that has nothing in its buffers that the medium does not have.\<close>

definition clean :: "virtual_file \<Rightarrow> bool" where
  "clean vf \<longleftrightarrow> rb_count (tailBuffer vf) = 0 \<and> \<not> chunkBufferFlushNeeded vf \<and> startChunkIndex vf \<noteq> invalidFileIndex"

lemma clean_stored:
  assumes "clean vf" "holds bytes used vf data"
  shows "holds_stored bytes used vf data" "startChunkIndex vf \<noteq> invalidFileIndex"
proof -
  have "contents (tailBuffer vf) = []" using assms(1) by (metis clean_def length_0_conv length_contents)
  then show "holds_stored bytes used vf data" using assms by (auto simp: holds_def clean_def clean_patched)
  show "startChunkIndex vf \<noteq> invalidFileIndex" using assms(1) by (simp add: clean_def)
qed

lemma files_like_names:
  fixes h :: "'d library"
  assumes "files_like ok content used eof spent fs h"
  shows "snd ` set (filesByName h) = {..< length fs}"
proof -
  have l: "length (virtualFiles h) = length fs" "om_keys (filesByName h) = fileName ` set fs" "laid_out content used eof h"
    "\<forall>i < length fs. file_like (content (device h)) used (virtualFiles h ! i) (fs ! i)"
    using assms by (simp_all add: files_like_def)
  have nm: "currentName (virtualFiles h ! i) = fileName (fs ! i)" if "i < length fs" for i
    using l(4) that by (simp add: file_like_def)
  have p: "snd p < length fs" "currentName (virtualFiles h ! snd p) = fst p" if "p \<in> set (filesByName h)" for p
    using laid_outD(10) [OF l(3) that] l(1) by simp_all
  have "i \<in> snd ` set (filesByName h)" if i: "i < length fs" for i
  proof -
    have "fileName (fs ! i) \<in> om_keys (filesByName h)" using l(2) i by simp
    then obtain q where q: "q \<in> set (filesByName h)" "fst q = fileName (fs ! i)" by auto
    have "map currentName (virtualFiles h) ! snd q = map currentName (virtualFiles h) ! i"
      using p [OF q(1)] q(2) nm [OF i] i l(1) by simp
    then have "snd q = i"
      using laid_outD(9) [OF l(3)] p(1) [OF q(1)] i l(1) by (simp add: nth_eq_iff_index_eq del: nth_map)
    with q(1) show ?thesis by blast
  qed
  with p(1) show ?thesis by auto
qed

lemma files_like_mono:
  fixes h :: "'d library"
  assumes "files_like ok content used eof spent fs h" "spent \<le> spent'"
  shows "files_like ok content used eof spent' fs h"
proof -
  have "length (fileBytes (fs ! i)) \<le> spent" if "i < length fs" for i
    using assms(1) that by (simp add: files_like_def)
  then have "length (fileBytes (fs ! i)) \<le> spent'" if "i < length fs" for i
    using assms(2) that le_trans by blast
  then show ?thesis using assms by (simp add: files_like_def)
qed

lemma files_like_status:
  fixes h :: "'d library"
  shows "files_like ok content used eof spent fs (h\<lparr>lastReportedStatus := s\<rparr>) = files_like ok content used eof spent fs h"
proof -
  have "laid_out content used eof (h\<lparr>lastReportedStatus := s\<rparr>) = laid_out content used eof h" by (simp add: laid_out_def)
  then show ?thesis by (simp add: files_like_def in_space_def)
qed

lemma full_tracker:
  assumes "tracker.ledger t used eof" "used = {..< eof}"
  shows "freeMap t = []"
proof (rule ccontr)
  assume "freeMap t \<noteq> []"
  then obtain p m where p: "freeMap t = p # m" by (cases "freeMap t") simp_all
  have t: "fm_ok (freeMap t)" "reserved_regions (freeMap t) = {}" "available_cells (freeMap t) = {}"
    using assms by (auto simp: tracker.ledger_def)
  then have "region_ok p" "region_cells p = {}"
    unfolding p by (auto simp: fm_ok_Cons cells_simps split: if_splits)
  then show False by (simp add: region_ok_def region_cells_def)
qed

context storage
begin

lemma file_flush_law:
  fixes h :: "'d library"
  assumes h: "files_like ok content used eof spent fs h" "spent + 4 \<le> 134217000" and r: "r < length fs"
  shows "\<exists>used' eof' h'. with_file r (vf_flush K) h = Some (NoStatus, h') \<and>
    files_like ok content used' eof' (spent + 4) fs h' \<and> clean (virtualFiles h' ! r) \<and>
    (\<forall>i < length fs. clean (virtualFiles h ! i) \<longrightarrow> clean (virtualFiles h' ! i)) \<and> filesByName h' = filesByName h \<and>
    currentFileIdentifier h' = currentFileIdentifier h"
proof -
  let ?f = "fs ! r" and ?vf = "virtualFiles h ! r"
  have len: "length (virtualFiles h) = length fs" using h(1) by (simp add: files_like_def)
  have z: "0 \<le> (4 :: nat)" by simp
  from files_like_file [OF h(1) r h(2) z] have f: "ok (device h)" "in_space content used eof h"
    "eof + rb_count (tailBuffer ?vf) + 132 < 134217728" "holds (content (device h)) used ?vf (fileBytes ?f)"
    "c_string (currentName ?vf)" "length (currentName ?vf) \<le> 118" "length (fileBytes ?f) \<le> spent" "currentName ?vf = fileName ?f"
    "currentPosition ?vf = filePosition ?f" "filePosition ?f \<le> length (fileBytes ?f)"
    "length (fileBytes ?f) + 0 < 281474976710656"
    by (metis add_0_right | simp)+
  from vf_flush_law [OF f(1-6)] obtain used' eof' vf' w' where
    a: "vf_flush K ?vf h = Some (NoStatus, vf', w')" "holds_stored (content (device w')) used' vf' (fileBytes ?f)"
      "rb_count (tailBuffer vf') = 0" "\<not> chunkBufferFlushNeeded vf'" "startChunkIndex vf' \<noteq> invalidFileIndex"
      "currentPosition vf' = currentPosition ?vf"
      "advance ok content (rb_count (tailBuffer ?vf) + 4) (used, eof, ?vf, h) (used', eof', vf', w')" by (elim exE conjE)
  have "contents (tailBuffer vf') = []" using a(3) by (metis length_0_conv length_contents)
  then have hd: "holds (content (device w')) used' vf' (fileBytes ?f)"
    using a(2,4) f(11) by (intro holdsI [OF a(2)]) (simp_all add: clean_patched)
  have nm: "currentName vf' = fileName ?f" "eof' \<le> eof + (rb_count (tailBuffer ?vf) + 4)" and sc: "same_container h w'"
    using a(7) f(8) by (simp_all add: advance_def)
  have fl: "file_like (content (device w')) used' vf' ?f" "fileName ?f = fileName ?f"
    "length (fileBytes ?f) \<le> spent + 4" "eof' + rb_count (tailBuffer vf') \<le> eof + rb_count (tailBuffer ?vf) + 4"
    using a hd nm f by (simp_all add: file_like_def)
  note law = with_file_law [where op = "vf_flush K", OF h(1) r a(1,7) fl(4) fl(1-3)]
  have "clean vf'" using a(3-5) by (simp add: clean_def)
  then show ?thesis
    using law len r same_container_fields [OF sc] same_container_virtualFiles [OF sc]
    by (intro exI [of _ used'] exI [of _ eof'] exI [of _ "put_file r vf' w'"]) (simp add: nth_list_update)
qed

lemma flush_files_law:
  fixes h :: "'d library"
  assumes "files_like ok content used eof spent fs h" "spent + 4 * length m \<le> 134217000" "snd ` set m \<subseteq> {..< length fs}"
  shows "\<exists>used' eof' h'. flush_files K m NoStatus h = Some (NoStatus, h') \<and>
    files_like ok content used' eof' (spent + 4 * length m) fs h' \<and>
    (\<forall>i < length fs. i \<in> snd ` set m \<or> clean (virtualFiles h ! i) \<longrightarrow> clean (virtualFiles h' ! i)) \<and>
    currentFileIdentifier h' = currentFileIdentifier h"
  using assms
proof (induction m arbitrary: used eof spent h)
  case Nil
  then show ?case by (intro exI [of _ used] exI [of _ eof] exI [of _ h]) simp
next
  case (Cons p m)
  obtain name r where p: "p = (name, r)" by fastforce
  have r: "r < length fs" "spent + 4 \<le> 134217000" using Cons.prems p by simp_all
  from file_flush_law [OF Cons.prems(1) r(2,1)] obtain used1 eof1 h1 where
    s: "with_file r (vf_flush K) h = Some (NoStatus, h1)" "files_like ok content used1 eof1 (spent + 4) fs h1"
      "clean (virtualFiles h1 ! r)" "\<forall>i < length fs. clean (virtualFiles h ! i) \<longrightarrow> clean (virtualFiles h1 ! i)"
      "currentFileIdentifier h1 = currentFileIdentifier h" by blast
  have "spent + 4 + 4 * length m \<le> 134217000" "snd ` set m \<subseteq> {..< length fs}" using Cons.prems by simp_all
  from Cons.IH [OF s(2) this] obtain used' eof' h' where
    i: "flush_files K m NoStatus h1 = Some (NoStatus, h')"
      "files_like ok content used' eof' (spent + 4 + 4 * length m) fs h'"
      "\<forall>i < length fs. i \<in> snd ` set m \<or> clean (virtualFiles h1 ! i) \<longrightarrow> clean (virtualFiles h' ! i)"
      "currentFileIdentifier h' = currentFileIdentifier h1" by blast
  show ?case
    using s i p by (intro exI [of _ used'] exI [of _ eof'] exI [of _ h']) (auto simp: add.assoc)
qed

text \<open>\<open>close\<close> finds no free space to flush, since all cells are in use, and flushes all files.\<close>

lemma container_close_law:
  fixes h :: "'d library"
  assumes h: "files_like ok content used eof spent fs h" "spent + 4 * length fs \<le> 134217000"
  shows "\<exists>used' eof' h'. container_close K h = Some (NoStatus, h') \<and>
    files_like ok content used' eof' (spent + 4 * length fs) fs h' \<and> (\<forall>i < length fs. clean (virtualFiles h' ! i)) \<and>
    currentFileIdentifier h' = currentFileIdentifier h"
proof -
  have l: "laid_out content used eof h" "in_space content used eof h" "length (filesByName h) \<le> length fs"
    using h(1) by (simp_all add: files_like_def)
  have "freeMap (spaceTracker h) = []"
    by (rule full_tracker) (use l(2) laid_outD(1) [OF l(1)] in \<open>auto simp: in_space_def\<close>)
  then have f: "container_flushFreeSpace K False h = Some (True, h)"
    by (simp add: container_flushFreeSpace_def flushFreeSpace_def)
  have "spent + 4 * length (filesByName h) \<le> 134217000" "snd ` set (filesByName h) \<subseteq> {..< length fs}"
    using h(2) l(3) files_like_names [OF h(1)] by simp_all
  from flush_files_law [OF h(1) this] obtain used' eof' h' where
    s: "flush_files K (filesByName h) NoStatus h = Some (NoStatus, h')"
      "files_like ok content used' eof' (spent + 4 * length (filesByName h)) fs h'"
      "\<forall>i < length fs. i \<in> snd ` set (filesByName h) \<or> clean (virtualFiles h ! i) \<longrightarrow> clean (virtualFiles h' ! i)"
      "currentFileIdentifier h' = currentFileIdentifier h" by blast
  have names: "i \<in> snd ` set (filesByName h)" if "i < length fs" for i
    using files_like_names [OF h(1)] that by blast
  have "files_like ok content used' eof' (spent + 4 * length fs) fs h'"
    by (rule files_like_mono [OF s(2)]) (use l(3) in simp)
  then have "files_like ok content used' eof' (spent + 4 * length fs) fs (h'\<lparr>lastReportedStatus := NoStatus\<rparr>)"
    by (simp only: files_like_status)
  moreover have "container_close K h = Some (NoStatus, h'\<lparr>lastReportedStatus := NoStatus\<rparr>)"
    using f s(1) by (simp add: container_close_def)
  ultimately show ?thesis
    using s(3,4) names by (intro exI [of _ used'] exI [of _ eof'] exI [of _ "h'\<lparr>lastReportedStatus := NoStatus\<rparr>"]) simp
qed

end

subsection \<open>What is on the medium then\<close>

lemma on_mediumI:
  assumes "{..< eof} = {..< n} \<union> (\<Union>v \<in> V. file_cells v)" "n \<le> eof"
    "\<And>v. v \<in> V \<Longrightarrow> (\<exists>D. holds_stored bytes {..< eof} v D) \<and> startChunkIndex v \<noteq> invalidFileIndex \<and> in_order v \<and>
      file_cells v \<inter> {..< n} = {}"
    "\<And>u v. u \<in> V \<Longrightarrow> v \<in> V \<Longrightarrow> u \<noteq> v \<Longrightarrow> file_cells u \<inter> file_cells v = {}"
    "inj_on currentName V" "inj_on currentStreamIdentifier V"
  shows "on_medium bytes n eof V"
  unfolding on_medium_def by (intro conjI ballI impI assms(1,2,4-6) assms(3) [unfolded conj_assoc]) (simp_all add: assms)

lemma files_like_on_medium:
  fixes h :: "'d library"
  assumes h: "files_like ok content used eof spent fs h" "\<forall>i < length fs. clean (virtualFiles h ! i)"
  shows "on_medium (content (device h)) (startingFileIndex h) eof (set (virtualFiles h))"
    "length (content (device h)) = 32 * eof" "file_header_at (content (device h)) (currentFileIdentifier h)"
    "startingFileIndex h = fit_size (length (currentFileIdentifier h) + 8) div 32" "used = {..< eof}"
    "distinct (virtualFiles h)" "eof \<le> 128 + spent" "length (virtualFiles h) = length fs"
    "i < length fs \<Longrightarrow> holds_stored (content (device h)) {..< eof} (virtualFiles h ! i) (fileBytes (fs ! i))"
proof -
  let ?b = "content (device h)"
  have f: "laid_out content used eof h" "length (virtualFiles h) = length fs" "length ?b = 32 * eof"
    "eof \<le> 128 + spent" using h(1) by (simp_all add: files_like_def in_space_def)
  have apart: "file_cells (virtualFiles h ! i) \<inter> file_cells (virtualFiles h ! j) = {}"
    if "i < length fs" "j < length fs" "i \<noteq> j" for i j
    using h(1) that by (simp add: files_like_def)
  have st: "holds_stored ?b {..< eof} (virtualFiles h ! i) (fileBytes (fs ! i))"
    "startChunkIndex (virtualFiles h ! i) \<noteq> invalidFileIndex" if "i < length fs" for i
  proof -
    have "holds ?b used (virtualFiles h ! i) (fileBytes (fs ! i))" using h(1) that by (simp add: files_like_def file_like_def)
    from clean_stored [OF _ this] h(2) that laid_outD(1) [OF f(1)]
    show "holds_stored ?b {..< eof} (virtualFiles h ! i) (fileBytes (fs ! i))"
      "startChunkIndex (virtualFiles h ! i) \<noteq> invalidFileIndex" by blast+
  qed
  have cov: "{..< eof} = {..< startingFileIndex h} \<union> (\<Union>vf \<in> set (virtualFiles h). file_cells vf)"
    by (rule trans [OF laid_outD(1) [OF f(1), symmetric] laid_outD(2) [OF f(1)]])
  have "{..< startingFileIndex h} \<subseteq> {..< eof}" by (rule ord_le_eq_trans [OF Un_upper1 cov [symmetric]])
  then have le: "startingFileIndex h \<le> eof" by simp
  have each: "(\<exists>D. holds_stored ?b {..< eof} v D) \<and> startChunkIndex v \<noteq> invalidFileIndex \<and> in_order v \<and>
      file_cells v \<inter> {..< startingFileIndex h} = {}" if v: "v \<in> set (virtualFiles h)" for v
  proof -
    from v obtain i where "i < length fs" "v = virtualFiles h ! i" using f(2) by (auto simp: in_set_conv_nth)
    with st laid_outD(5,6) [OF f(1) v] show ?thesis by blast
  qed
  have two: "file_cells u \<inter> file_cells v = {}" if "u \<in> set (virtualFiles h)" "v \<in> set (virtualFiles h)" "u \<noteq> v" for u v
  proof -
    from that(1,2) obtain i j where "i < length fs" "u = virtualFiles h ! i" "j < length fs" "v = virtualFiles h ! j"
      using f(2) by (auto simp: in_set_conv_nth)
    with that(3) apart show ?thesis by metis
  qed
  have inj: "inj_on currentName (set (virtualFiles h))" "inj_on currentStreamIdentifier (set (virtualFiles h))"
    using laid_outD(8,9) [OF f(1)] by (simp_all add: distinct_map)
  show "on_medium ?b (startingFileIndex h) eof (set (virtualFiles h))"
    by (rule on_mediumI [OF cov le each two inj])
  show "length ?b = 32 * eof" "file_header_at ?b (currentFileIdentifier h)"
    "startingFileIndex h = fit_size (length (currentFileIdentifier h) + 8) div 32" "used = {..< eof}"
    "eof \<le> 128 + spent" "length (virtualFiles h) = length fs"
    using f laid_outD(1,3,4) [OF f(1)] by blast+
  show "distinct (virtualFiles h)" using laid_outD(9) [OF f(1)] by (simp add: distinct_map)
  show "i < length fs \<Longrightarrow> holds_stored ?b {..< eof} (virtualFiles h ! i) (fileBytes (fs ! i))" using st(1) .
qed

subsection \<open>Opening it again\<close>

context storage
begin

lemma reopen_law:
  fixes h :: "('d, 'z) library_scheme"
  assumes m: "on_medium bytes n eof V" and size: "length bytes = 32 * eof" "eof < 134217728"
    and hd: "file_header_at bytes (currentFileIdentifier h)" "n = fit_size (length (currentFileIdentifier h) + 8) div 32"
    and h: "ok (device h)" "content (device h) = bytes" "virtualFiles h = []"
  shows "\<exists>h'. container_open K h = Some (NoStatus, h') \<and> ok (device h') \<and> content (device h') = bytes \<and>
    traversed V n [] (h'\<lparr>fileMapsPopulated := True\<rparr>) \<and> \<not> fileMapsPopulated h' \<and> startingFileIndex h' = n \<and>
    freeMap (spaceTracker h') = [] \<and> currentFileIdentifier h' = currentFileIdentifier h \<and> library.more h' = library.more h"
proof -
  have lim: "length (content (device h)) \<le> storage_limit" using size h(2) space_limit by simp
  from container_open_existing_law [OF h(1) lim _ hd(1) [folded h(2)]] obtain h' where
    o: "container_open K h = Some (NoStatus, h')" "ok (device h')" "content (device h') = bytes"
      "filesByIdentifier h' = []" "fileApisByName h' = []" "filesByName h' = []"
      "currentFileIdentifier h' = currentFileIdentifier h" "startingFileIndex h' = n"
      "fileMapsPopulated h' = (length (content (device h)) = n)"
      "spaceTracker h' = clearFreeSpace (spaceTracker h)" "container.more h' = container.more h"
    using h(2) hd(2) by auto
  have "0 < n" using fit_size_cells_bounds(1) hd(2) by simp
  moreover have "n \<le> eof" using on_mediumD(7) [OF m] .
  ultimately have "\<not> fileMapsPopulated h'" using o(9) h(2) size(1) by simp
  moreover have vf: "virtualFiles h' = []" "library.more h' = library.more h"
    using o(11) h(3) by (cases h; cases h'; simp)+
  moreover have "{v \<in> V. startChunkIndex v < n} = {}"
  proof -
    have "startChunkIndex v \<in> file_cells v" if "v \<in> V" for v
      using on_mediumD(1) [OF m that] by (simp add: file_cells_def start_cells_def)
    with on_mediumD(4) [OF m] show ?thesis by blast
  qed
  then have "traversed V n [] (h'\<lparr>fileMapsPopulated := True\<rparr>)"
    using o(4-6) vf(1) by (simp add: traversed_def handles_def)
  ultimately show ?thesis using o by (intro exI [of _ h']) (simp add: clearFreeSpace_def)
qed

lemma traverseContainer_law:
  fixes h :: "('d, 'z) library_scheme"
  assumes m: "on_medium bytes n eof V" and size: "length bytes = 32 * eof" "eof < 134217728"
    and app: "hands_over b app note seen" "b \<or> (\<forall>r. seen (library.more h) r = [])"
    and h: "ok (device h)" "content (device h) = bytes" "traversed V n [] (h\<lparr>fileMapsPopulated := True\<rparr>)" "startingFileIndex h = n"
  shows "\<exists>vs h'. traverseContainer K app b h = Some (NoStatus, h') \<and>
    ok (device h') \<and> content (device h') = bytes \<and> traversed V eof vs h' \<and> set vs = V \<and> same_settings h h' \<and>
    noted b bytes seen eof vs (library.more h') \<and> (b \<longrightarrow> library.more h' = library.more h)"
proof -
  let ?h = "h\<lparr>fileMapsPopulated := True\<rparr>"
  have n: "n \<le> eof" using on_mediumD(7) [OF m] .
  have pre: "ok (device ?h)" "content (device ?h) = bytes" "noted b bytes seen n [] (library.more ?h)"
    using h app(2) by (auto simp: noted_def)
  from traverse_loop_law [OF m size app(1) boundary_first [OF m] order.refl n pre(1,2) h(3) pre(3)] obtain vs h' where
    t: "traverse_loop K app b (32 * eof) NoStatus (32 * n) ?h = Some (NoStatus, h')" "ok (device h')" "content (device h') = bytes"
      "traversed V eof vs h'" "same_settings ?h h'" "noted b bytes seen eof vs (library.more h')"
      "b \<longrightarrow> library.more h' = library.more ?h" by blast
  have sz: "container_size K ?h = Some (32 * int eof)"
    using size_law [OF h(1)] h(2) size space_limit by (simp add: container_size_def)
  have "unsigned_64 (32 * int eof) = 32 * eof" using size(2) unsigned_long_long [of "32 * eof"] by simp
  moreover have "toPosition n = 32 * n" using n size(2) by (simp add: toPosition_id)
  ultimately have "traverseContainer K app b h = Some (NoStatus, h')"
    using t(1) h(4) sz by (simp add: traverseContainer_def)
  moreover have "set vs = V"
  proof -
    have "startChunkIndex v < eof" if "v \<in> V" for v
    proof -
      have "startChunkIndex v \<in> file_cells v"
        using on_mediumD(1) [OF m that] by (simp add: file_cells_def start_cells_def)
      with on_mediumD(6) [OF m] that show ?thesis by blast
    qed
    then show ?thesis using traversedD(3) [OF t(4)] by blast
  qed
  ultimately show ?thesis using t by (intro exI [of _ vs] exI [of _ h']) (simp add: same_settings_def)
qed

end

subsection \<open>The files as they were\<close>

lemma found_names:
  "om_sorted m \<Longrightarrow> set m = handles (map fileName fs) \<Longrightarrow>
   om_find name m = Some r \<longleftrightarrow> r < length fs \<and> fileName (fs ! r) = name"
  by (auto simp: om_find_Some_iff handles_nth)

definition rewound :: "byte_file \<Rightarrow> byte_file" where
  "rewound f = f\<lparr>filePosition := 0\<rparr>"

lemma recovered_whole:
  assumes m: "on_medium bytes n eof V" and v: "v \<in> V"
  shows "chunks_below eof v = chunkMap v"
  unfolding chunks_below_def
proof (rule filter_True, intro ballI)
  fix p assume p: "p \<in> set (chunkMap v)"
  note q = piece_of_chunk [OF p]
  have "chunkStartingIndex (snd p) \<in> file_cells v" using piece_in_file [OF m v q] piece_positive [OF q] by auto
  then have "chunkStartingIndex (snd p) \<in> {..< eof}" using on_mediumD(6) [OF m] v by blast
  then show "chunkStartingIndex (snd p) < eof" by simp
qed

lemma stored_payloads:
  "stored bytes sid off m D \<Longrightarrow>
   concat (map (\<lambda>p. take (chunkPayloadSize (snd p)) (drop (32 * chunkStartingIndex (snd p) + 14) bytes)) m) = D"
proof (induction m arbitrary: off D)
  case (Cons p m)
  then show ?case by (cases p) (auto simp: data_chunk_at_def Let_def)
qed simp

lemma delivered_whole:
  assumes "on_medium bytes n eof V" "v \<in> V" "holds_stored bytes {..< eof} v D"
  shows "delivered bytes eof v = D"
  unfolding delivered_def recovered_whole [OF assms(1,2)] by (rule stored_payloads [of bytes "currentStreamIdentifier v" 0]) (use assms(3) in \<open>simp add: holds_stored_def\<close>)

lemma recovered_holds:
  assumes m: "on_medium bytes n eof V" and v: "v \<in> V"
    and D: "holds_stored bytes {..< eof} v D" "length D < 281474976710656"
  shows "holds bytes {..< eof} (recovered uninit eof v) D" "file_cells (recovered uninit eof v) = file_cells v"
    "in_order (recovered uninit eof v)" "currentPosition (recovered uninit eof v) = 0"
    "currentName (recovered uninit eof v) = currentName v"
    "currentStreamIdentifier (recovered uninit eof v) = currentStreamIdentifier v"
    "rb_count (tailBuffer (recovered uninit eof v)) = 0"
proof -
  let ?r = "recovered uninit eof v" and ?f = "VirtualFileImpl uninit (currentName v) (currentStreamIdentifier v)"
  have f: "startChunkIndex ?r = startChunkIndex v" "chunkMap ?r = chunkMap v" "currentStreamIdentifier ?r = currentStreamIdentifier v"
    "currentName ?r = currentName v" "tailBuffer ?r = tailBuffer ?f" "currentContainer ?r = currentContainer ?f"
    "currentChunk ?r = None" "chunkBuffer ?r = chunkBuffer ?f" "chunkBufferFlushNeeded ?r = False" "currentPosition ?r = 0"
    using recovered_whole [OF m v] by (simp_all add: recovered_def VirtualFileImpl_def)
  have sid: "currentStreamIdentifier v < 2147483648" using D(1) by (simp add: holds_stored_def)
  note new = new_file_holds(1) [OF sid, of bytes "{..< eof}" uninit "currentName v"]
  then have t: "tail_ok (tailBuffer ?r)" "currentContainer ?r" "contents (tailBuffer ?r) = []"
    "\<forall>cb. chunkBuffer ?r = Some cb \<longrightarrow> length cb = 4096"
    using f by (auto simp: holds_def holds_stored_def buffer_ok_def)
  show c: "file_cells ?r = file_cells v" "in_order ?r" using in_order_cong [of ?r v] f(1,2) on_mediumD(2) [OF m v] by simp_all
  have "start_cells ?r = start_cells v" using f(1) by (simp add: start_cells_def)
  then have "holds_stored bytes {..< eof} ?r D"
    using D(1) f t c(1) by (simp add: holds_stored_def buffer_ok_def)
  then show "holds bytes {..< eof} ?r D" by (rule holdsI) (use f t D(2) in \<open>simp_all add: clean_patched\<close>)
  show "currentPosition ?r = 0" "currentName ?r = currentName v" "currentStreamIdentifier ?r = currentStreamIdentifier v"
    "rb_count (tailBuffer ?r) = 0"
    using f new_file_holds(5) [OF sid] by simp_all
qed

text \<open>The arrays of bytes in the order the files were found.\<close>

lemma files_behind:
  fixes h :: "'d library"
  assumes h: "files_like ok content used eof spent fs h" "\<forall>i < length fs. clean (virtualFiles h ! i)"
    and vs: "distinct vs" "set vs = set (virtualFiles h)"
  obtains g where "\<And>i. i < length fs \<Longrightarrow> g (virtualFiles h ! i) = rewound (fs ! i)" "mset (map g vs) = mset (map rewound fs)"
proof -
  note md = files_like_on_medium [OF h]
  define g where "g v = the (map_of (zip (virtualFiles h) (map rewound fs)) v)" for v
  have g: "g (virtualFiles h ! i) = rewound (fs ! i)" if "i < length fs" for i
    using that md(6,8) by (simp add: g_def map_of_zip_nth)
  have "map g (virtualFiles h) = map rewound fs" using g md(8) by (intro nth_equalityI) simp_all
  moreover have "mset vs = mset (virtualFiles h)" using set_eq_iff_mset_eq_distinct [OF vs(1) md(6)] vs(2) by simp
  ultimately have "mset (map g vs) = mset (map rewound fs)" by (metis mset_map)
  with g that show thesis by blast
qed

lemma traversed_files_like:
  fixes h :: "'d library" and h' :: "'d library"
  assumes h: "files_like ok content used eof spent fs h" "\<forall>i < length fs. clean (virtualFiles h ! i)"
    and t: "traversed (set (virtualFiles h)) eof vs h'" "set vs = set (virtualFiles h)"
    and h': "ok (device h')" "content (device h') = content (device h)" "startingFileIndex h' = startingFileIndex h"
      "currentFileIdentifier h' = currentFileIdentifier h" "freeMap (spaceTracker h') = []"
  obtains fs' where "mset fs' = mset (map rewound fs)" "files_like ok content {..< eof} eof spent fs' h'"
    "set (fileApisByName h') = handles (map fileName fs')"
proof -
  let ?b = "content (device h)" and ?V = "set (virtualFiles h)" and ?J = "junk h'"
  note md = files_like_on_medium [OF h]
  note td = traversedD [OF t(1)]
  from files_behind [OF h td(2) t(2)] obtain g where
    g: "\<And>i. i < length fs \<Longrightarrow> g (virtualFiles h ! i) = rewound (fs ! i)"
    and mg: "mset (map g vs) = mset (map rewound fs)" by blast
  define fs' where "fs' = map g vs"
  have ms: "mset fs' = mset (map rewound fs)" using mg by (simp add: fs'_def)
  have len: "length fs' = length vs" "length fs' = length fs"
    using mset_eq_length [OF ms] by (simp_all add: fs'_def)
  have at: "file_like ?b {..< eof} (recovered ?J eof v) (g v)" "length (fileBytes (g v)) \<le> spent"
    "fileName (g v) = currentName v" "file_cells (recovered ?J eof v) = file_cells v" "in_order (recovered ?J eof v)"
    "currentName (recovered ?J eof v) = currentName v"
    "currentStreamIdentifier (recovered ?J eof v) = currentStreamIdentifier v"
    "rb_count (tailBuffer (recovered ?J eof v)) = 0" if v: "v \<in> set vs" for v
  proof -
    from v obtain i where i: "i < length fs" "v = virtualFiles h ! i" using t(2) md(8) by (auto simp: in_set_conv_nth)
    have fl: "file_like ?b used v (fs ! i)" "length (fileBytes (fs ! i)) \<le> spent" using h(1) i by (simp_all add: files_like_def)
    then have D: "length (fileBytes (fs ! i)) < 281474976710656" by (simp add: file_like_def holds_def)
    have vV: "v \<in> ?V" using v t(2) by simp
    note rec = recovered_holds [OF md(1) vV md(9) [OF i(1), folded i(2)] D, of ?J]
    show "file_like ?b {..< eof} (recovered ?J eof v) (g v)" "length (fileBytes (g v)) \<le> spent"
      "fileName (g v) = currentName v"
      using rec fl g [OF i(1)] i(2) by (simp_all add: file_like_def rewound_def)
    show "file_cells (recovered ?J eof v) = file_cells v" "in_order (recovered ?J eof v)"
      "currentName (recovered ?J eof v) = currentName v"
      "currentStreamIdentifier (recovered ?J eof v) = currentStreamIdentifier v"
      "rb_count (tailBuffer (recovered ?J eof v)) = 0" using rec by blast+
  qed
  have names: "map fileName fs' = map currentName vs" using at(3) by (simp add: fs'_def)
  have vfs: "virtualFiles h' = map (recovered ?J eof) vs" by (rule td(4))
  have "fileName ` set fs' = currentName ` set vs" using names by (metis list.set_map)
  then have keys: "om_keys (fileApisByName h') = fileName ` set fs'" "om_keys (filesByName h') = fileName ` set fs'"
    unfolding td(6,8) handles_keys by simp_all
  have lens: "length (filesByIdentifier h') = length fs'" "length (filesByName h') = length fs'"
    using length_handles [OF td(9,10)] length_handles [OF td(7,8)] len(1) by simp_all
  have sid: "currentStreamIdentifier v \<in> om_keys (filesByIdentifier h')" if "v \<in> set vs" for v
    using that unfolding td(10) handles_keys by simp
  have "laid_out content {..< eof} eof h'"
  proof (rule laid_outI)
    have "(\<Union>vf \<in> set (virtualFiles h'). file_cells vf) = (\<Union>v \<in> ?V. file_cells v)"
      unfolding vfs using at(4) t(2) by simp
    then show "{..< eof} = {..< startingFileIndex h'} \<union> (\<Union>vf \<in> set (virtualFiles h'). file_cells vf)"
      using on_mediumD(6) [OF md(1)] h'(3) by simp
    show "file_header_at (content (device h')) (currentFileIdentifier h')"
      "startingFileIndex h' = fit_size (length (currentFileIdentifier h') + 8) div 32"
      using md(3,4) h'(2-4) by simp_all
    show "in_order vf \<and> file_cells vf \<inter> {..< startingFileIndex h'} = {} \<and>
        currentStreamIdentifier vf \<in> om_keys (filesByIdentifier h')" if "vf \<in> set (virtualFiles h')" for vf
    proof -
      from that obtain v where v: "v \<in> set vs" "vf = recovered ?J eof v" unfolding vfs by auto
      then have "file_cells v \<inter> {..< startingFileIndex h} = {}" using on_mediumD(4) [OF md(1)] t(2) by blast
      then show ?thesis using at(4,5,7) [OF v(1)] sid [OF v(1)] v(2) h'(3) by simp
    qed
    have "map currentStreamIdentifier (virtualFiles h') = map currentStreamIdentifier vs"
      "map currentName (virtualFiles h') = map currentName vs" unfolding vfs using at(6,7) by simp_all
    then show "distinct (map currentStreamIdentifier (virtualFiles h'))" "distinct (map currentName (virtualFiles h'))"
      using td(2) on_mediumD(8,9) [OF md(1)] t(2) by (simp_all add: distinct_map)
    show "snd p < length (virtualFiles h') \<and> currentName (virtualFiles h' ! snd p) = fst p" if "p \<in> set (filesByName h')" for p
    proof -
      have "snd p < length vs" "map currentName vs ! snd p = fst p"
        using that td(8) handles_nth [of "fst p" "snd p" "map currentName vs"] by simp_all
      then show ?thesis using at(6) by (simp add: vfs)
    qed
  qed simp
  moreover have "pending (virtualFiles h') = 0" unfolding vfs pending_def using at(8) by (simp add: sum_list_eq_0_iff)
  moreover have "in_space content {..< eof} eof h'"
    using md(2) h'(2,5) td(1) by (simp add: in_space_def tracker.ledger_def cells_simps)
  moreover have "length fs \<le> spent" using h(1) by (simp add: files_like_def)
  moreover have "file_like ?b {..< eof} (virtualFiles h' ! i) (fs' ! i) \<and> length (fileBytes (fs' ! i)) \<le> spent"
    if "i < length fs'" for i
    using that at(1,2) len(1) by (simp add: vfs fs'_def)
  moreover have "file_cells (virtualFiles h' ! i) \<inter> file_cells (virtualFiles h' ! j) = {}"
    if "i < length fs'" "j < length fs'" "i \<noteq> j" for i j
  proof -
    have i: "i < length vs" "j < length vs" "vs ! i \<noteq> vs ! j" using that len(1) td(2) by (simp_all add: nth_eq_iff_index_eq)
    then have "vs ! i \<in> ?V" "vs ! j \<in> ?V" using t(2) nth_mem by blast+
    with on_mediumD(5) [OF md(1)] i(3) have "file_cells (vs ! i) \<inter> file_cells (vs ! j) = {}" by blast
    then show ?thesis using i at(4) by (simp add: vfs)
  qed
  ultimately have "files_like ok content {..< eof} eof spent fs' h'"
    using h'(1,2) md(7) keys lens len vfs by (simp add: files_like_def)
  moreover have "set (fileApisByName h') = handles (map fileName fs')" using td(6) names by simp
  ultimately show thesis using that ms by blast
qed

subsection \<open>From one container object to the next\<close>

context storage
begin

text \<open>A session: a container is opened on an empty medium, used, and closed.\<close>

lemma session_law:
  fixes h :: "'d library"
  assumes h: "ok (device h)" "content (device h) = []" "length (currentFileIdentifier h) \<le> 4088" "virtualFiles h = []"
    and xs: "all_callable xs []" "sum_list (map op_cells xs) + 4 * length (snd (abs_ops xs [])) \<le> 134217000"
  shows "\<exists>h1 h2 h3 used eof. container_open K h = Some (NoStatus, h1) \<and>
    run_ops K xs h1 = Some (fst (abs_ops xs []), h2) \<and> container_close K h2 = Some (NoStatus, h3) \<and>
    files_like ok content used eof (sum_list (map op_cells xs) + 4 * length (snd (abs_ops xs []))) (snd (abs_ops xs [])) h3 \<and>
    (\<forall>i < length (snd (abs_ops xs [])). clean (virtualFiles h3 ! i)) \<and> currentFileIdentifier h3 = currentFileIdentifier h"
proof -
  from open_files_like [OF h] obtain h1 n where
    o: "container_open K h = Some (NoStatus, h1)" "files_like ok content {..< n} n 0 [] h1"
      "currentFileIdentifier h1 = currentFileIdentifier h" .
  have "0 + sum_list (map op_cells xs) \<le> 134217000" using xs(2) by simp
  from run_ops_law [OF o(2) this xs(1)] obtain used2 eof2 h2 where
    r: "run_ops K xs h1 = Some (fst (abs_ops xs []), h2)"
      "files_like ok content used2 eof2 (sum_list (map op_cells xs)) (snd (abs_ops xs [])) h2"
      "currentFileIdentifier h2 = currentFileIdentifier h1" by auto
  from container_close_law [OF r(2) xs(2)] obtain used3 eof3 h3 where
    c: "container_close K h2 = Some (NoStatus, h3)"
      "files_like ok content used3 eof3 (sum_list (map op_cells xs) + 4 * length (snd (abs_ops xs []))) (snd (abs_ops xs [])) h3"
      "\<forall>i < length (snd (abs_ops xs [])). clean (virtualFiles h3 ! i)" "currentFileIdentifier h3 = currentFileIdentifier h2"
    by blast
  show ?thesis using o(1,3) r(1,3) c by (intro exI [of _ h1] exI [of _ h2] exI [of _ h3] exI [of _ used3] exI [of _ eof3]) simp
qed

text \<open>A new container object on the medium of a container that was closed.\<close>

lemma new_object_law:
  fixes h3 :: "'d library" and h :: "('d, 'z) library_scheme"
  assumes f: "files_like ok content used eof spent fs h3" "\<forall>i < length fs. clean (virtualFiles h3 ! i)" "spent \<le> 134217000"
    and h: "device h = device h3" "currentFileIdentifier h = currentFileIdentifier h3" "virtualFiles h = []"
    and app: "hands_over b app note seen" "b \<or> (\<forall>r. seen (library.more h) r = [])"
  shows "\<exists>h4 vs h5. container_open K h = Some (NoStatus, h4) \<and> \<not> fileMapsPopulated h4 \<and>
    traverseContainer K app b h4 = Some (NoStatus, h5) \<and> ok (device h5) \<and> content (device h5) = content (device h3) \<and>
    traversed (set (virtualFiles h3)) eof vs h5 \<and> set vs = set (virtualFiles h3) \<and>
    startingFileIndex h5 = startingFileIndex h3 \<and> currentFileIdentifier h5 = currentFileIdentifier h3 \<and>
    freeMap (spaceTracker h5) = [] \<and> noted b (content (device h3)) seen eof vs (library.more h5) \<and>
    (b \<longrightarrow> library.more h5 = library.more h)"
proof -
  note md = files_like_on_medium [OF f(1,2)]
  have dev: "ok (device h)" "content (device h) = content (device h3)" "eof < 134217728"
    using f h(1) md(7) by (simp_all add: files_like_def)
  from reopen_law [OF md(1,2) dev(3) md(3,4) [folded h(2)] dev(1,2) h(3)] obtain h4 where
    o: "container_open K h = Some (NoStatus, h4)" "ok (device h4)" "content (device h4) = content (device h3)"
      "traversed (set (virtualFiles h3)) (startingFileIndex h3) [] (h4\<lparr>fileMapsPopulated := True\<rparr>)"
      "\<not> fileMapsPopulated h4" "startingFileIndex h4 = startingFileIndex h3" "freeMap (spaceTracker h4) = []"
      "currentFileIdentifier h4 = currentFileIdentifier h" "library.more h4 = library.more h" by blast
  have app4: "b \<or> (\<forall>r. seen (library.more h4) r = [])" using app(2) o(9) by simp
  from traverseContainer_law [OF md(1,2) dev(3) app(1) app4 o(2-4,6)] obtain vs h5 where
    t: "traverseContainer K app b h4 = Some (NoStatus, h5)" "ok (device h5)" "content (device h5) = content (device h3)"
      "traversed (set (virtualFiles h3)) eof vs h5" "set vs = set (virtualFiles h3)" "same_settings h4 h5"
      "noted b (content (device h3)) seen eof vs (library.more h5)" "b \<longrightarrow> library.more h5 = library.more h4" by blast
  have "startingFileIndex h5 = startingFileIndex h3" "currentFileIdentifier h5 = currentFileIdentifier h3"
    "freeMap (spaceTracker h5) = []" using t(6) o(6-8) h(2) by (simp_all add: same_settings_def)
  then show ?thesis using o(1,5,9) t by (intro exI [of _ h4] exI [of _ vs] exI [of _ h5]) simp
qed

text \<open>The directory of the new object leads to the files, and they have the bytes they had.\<close>

lemma reopened_directory_law:
  fixes h3 :: "'d library" and h :: "'d library"
  assumes f: "files_like ok content used eof spent fs h3" "\<forall>i < length fs. clean (virtualFiles h3 ! i)" "spent \<le> 134217000"
    and h: "device h = device h3" "currentFileIdentifier h = currentFileIdentifier h3" "virtualFiles h = []"
  shows "\<exists>h4 dir h5 fs'. container_open K h = Some (NoStatus, h4) \<and> directory K h4 = Some (dir, h5) \<and>
    lastStatus h5 = NoStatus \<and> mset fs' = mset (map rewound fs) \<and>
    (\<forall>name r. om_find name dir = Some r \<longleftrightarrow> r < length fs' \<and> fileName (fs' ! r) = name) \<and> om_sorted dir \<and>
    files_like ok content {..< eof} eof spent fs' h5 \<and> currentFileIdentifier h5 = currentFileIdentifier h3"
proof -
  have app: "hands_over True (default_callbacks :: ('d, unit) library_scheme callbacks) (\<lambda>_ _ z. z) (\<lambda>_ _. [])"
    "True \<or> (\<forall>r. (\<lambda>_ _. []) (library.more h) r = ([] :: byte list))"
    unfolding hands_over_def if_True by (intro allI refl, intro disjI1 TrueI)
  from new_object_law [OF f h app] obtain h4 vs h5 where
    n: "container_open K h = Some (NoStatus, h4)" "\<not> fileMapsPopulated h4" "traverseContainer K default_callbacks True h4 = Some (NoStatus, h5)"
      "ok (device h5)" "content (device h5) = content (device h3)" "traversed (set (virtualFiles h3)) eof vs h5"
      "set vs = set (virtualFiles h3)" "startingFileIndex h5 = startingFileIndex h3"
      "currentFileIdentifier h5 = currentFileIdentifier h3" "freeMap (spaceTracker h5) = []" by blast
  from traversed_files_like [OF f(1,2) n(6,7,4,5,8-10)] obtain fs' where
    s: "mset fs' = mset (map rewound fs)" "files_like ok content {..< eof} eof spent fs' h5"
      "set (fileApisByName h5) = handles (map fileName fs')" by blast
  let ?h = "h5\<lparr>lastReportedStatus := NoStatus\<rparr>"
  have "directory K h4 = Some (fileApisByName h5, ?h)"
    using n(2,3) by (simp add: directory_def build_maps_def)
  moreover have "om_find name (fileApisByName h5) = Some r \<longleftrightarrow> r < length fs' \<and> fileName (fs' ! r) = name" for name r
    by (rule found_names [OF traversedD(5) [OF n(6)] s(3)])
  moreover have "files_like ok content {..< eof} eof spent fs' ?h" using s(2) by (simp only: files_like_status)
  ultimately show ?thesis
    using n(1,9) s(1) traversedD(5) [OF n(6)]
    by (intro exI [of _ h4] exI [of _ "fileApisByName h5"] exI [of _ ?h] exI [of _ fs']) (simp add: lastStatus_def)
qed

text \<open>\<open>streamRead\<close> gives an application that takes everything the bytes of all files, and then their ends.\<close>

lemma end_of_files_law:
  fixes h :: "('d, 'z) library_scheme"
  assumes "\<forall>r h. endOfFile app r h = Some (NoStatus, library.more_update (finish r) h)"
  shows "end_of_files app m NoStatus h = Some (NoStatus, library.more_update (fold finish (map snd m)) h)"
proof (induction m arbitrary: h)
  case Nil
  then show ?case by (simp add: id_def)
next
  case (Cons p m)
  have "library.more_update f (library.more_update g h) = library.more_update (f \<circ> g) h" for f g by simp
  with Cons assms show ?case by (cases p) simp
qed

lemma streamRead_law:
  fixes h3 :: "'d library" and h :: "('d, 'z) library_scheme"
  assumes f: "files_like ok content used eof spent fs h3" "\<forall>i < length fs. clean (virtualFiles h3 ! i)" "spent \<le> 134217000"
    and h: "device h = device h3" "currentFileIdentifier h = currentFileIdentifier h3" "virtualFiles h = []"
    and app: "hands_over False app note seen" "\<forall>r. seen (library.more h) r = []"
      "\<forall>r h. endOfFile app r h = Some (NoStatus, library.more_update (finish r) h)"
  shows "\<exists>h4 h5 fs' z. container_open K h = Some (NoStatus, h4) \<and> streamRead K app h4 = Some (NoStatus, h5) \<and>
    mset fs' = mset (map rewound fs) \<and>
    om_sorted (filesByName h5) \<and>
    (\<forall>name r. om_find name (filesByName h5) = Some r \<longleftrightarrow> r < length fs' \<and> fileName (fs' ! r) = name) \<and>
    (\<forall>r. seen z r = (if r < length fs' then fileBytes (fs' ! r) else [])) \<and>
    library.more h5 = fold finish (map snd (filesByName h5)) z"
proof -
  have app': "False \<or> (\<forall>r. seen (library.more h) r = [])" using app(2) by simp
  note md = files_like_on_medium [OF f(1,2)]
  from new_object_law [OF f h app(1) app'] obtain h4 vs h5 where
    n: "container_open K h = Some (NoStatus, h4)" "traverseContainer K app False h4 = Some (NoStatus, h5)"
      "traversed (set (virtualFiles h3)) eof vs h5" "set vs = set (virtualFiles h3)"
      "noted False (content (device h3)) seen eof vs (library.more h5)" by blast
  note td = traversedD [OF n(3)]
  from files_behind [OF f(1,2) td(2) n(4)] obtain g where
    g: "\<And>i. i < length fs \<Longrightarrow> g (virtualFiles h3 ! i) = rewound (fs ! i)"
    and mg: "mset (map g vs) = mset (map rewound fs)" by blast
  have at: "fileName (g v) = currentName v" "fileBytes (g v) = delivered (content (device h3)) eof v" if v: "v \<in> set vs" for v
  proof -
    from v obtain i where i: "i < length fs" "v = virtualFiles h3 ! i" using n(4) md(8) by (auto simp: in_set_conv_nth)
    have "currentName v = fileName (fs ! i)" using f(1) i by (simp add: files_like_def file_like_def)
    then show "fileName (g v) = currentName v" using g [OF i(1)] i(2) by (simp add: rewound_def)
    have "v \<in> set (virtualFiles h3)" using v n(4) by simp
    from delivered_whole [OF md(1) this] md(9) [OF i(1)] i(2)
    show "fileBytes (g v) = delivered (content (device h3)) eof v" using g [OF i(1)] by (simp add: rewound_def)
  qed
  let ?fs = "map g vs" and ?h = "library.more_update (fold finish (map snd (filesByName h5))) h5"
  have names: "map fileName ?fs = map currentName vs" using at(1) by simp
  have "streamRead K app h4 = Some (NoStatus, ?h)" using n(2) end_of_files_law [OF app(3)] by (simp add: streamRead_def)
  moreover have "om_find name (filesByName ?h) = Some r \<longleftrightarrow> r < length ?fs \<and> fileName (?fs ! r) = name" for name r
    using found_names [OF td(7) td(8) [folded names]] by simp
  moreover have "seen (library.more h5) r = (if r < length ?fs then fileBytes (?fs ! r) else [])" for r
    using n(5) at(2) by (simp add: noted_def)
  ultimately show ?thesis
    using n(1) mg td(7) by (intro exI [of _ h4] exI [of _ ?h] exI [of _ ?fs] exI [of _ "library.more h5"]) simp
qed

end

end
