(* ===== verification/Media_Containers.thy ===== *)
theory Media_Containers
  imports Memory_Container File_Container Library
begin

text \<open>
  The public classes of the two media, \<open>FileContainer\<close> (\<open>container_file_container.cpp\<close>) and
  \<open>MemoryContainer\<close> (\<open>container_memory_container.cpp\<close>): how they open and close the medium and
  the container on it, and what they tell about the medium. Their overrides of \<open>size\<close>, \<open>setPosition\<close>, \<open>read\<close>,
  \<open>write\<close> and so on are the tables \<open>file_ops\<close> and \<open>memory_ops\<close>.
\<close>

definition on_device :: "('d \<Rightarrow> (status \<times> 'd) option) \<Rightarrow> ('d, 'z) world_scheme \<Rightarrow> (status \<times> ('d, 'z) world_scheme) option" where
  "on_device f w = do {
     (status, d) \<leftarrow> f (device w);
     Some (status, w\<lparr>device := d\<rparr>)
   }"

subsection \<open>Containers in files\<close>

text \<open>The constructor: a closed file container with the given identifier. \<open>unset\<close> is what the unset size field holds.\<close>

definition file_container_new ::
  "nat \<Rightarrow> stdio \<Rightarrow> 32 word \<Rightarrow> (nat \<Rightarrow> byte) \<Rightarrow> string \<Rightarrow> bool \<Rightarrow> file_container library" where
  "file_container_new unset s seed uninit fileIdentifier ignoreIdentifier =
     library_of (ContainerImpl (FileContainer unset s) seed uninit fileIdentifier ignoreIdentifier)"

definition file_container_open ::
  "string \<Rightarrow> open_mode \<Rightarrow> (file_container, 'z) library_scheme \<Rightarrow>
   (status \<times> (file_container, 'z) library_scheme) option" where
  "file_container_open filename openMode h = do {
     (status, h) \<leftarrow> on_device (fc_open filename openMode) h;
     if \<not> has_info status then container_open file_ops h else Some (status, h)
   }"

definition file_container_close ::
  "(file_container, 'z) library_scheme \<Rightarrow> (status \<times> (file_container, 'z) library_scheme) option" where
  "file_container_close h = do {
     (status, h) \<leftarrow> container_close file_ops h;
     if \<not> has_info status then on_device fc_close h else Some (status, h)
   }"

definition file_container_filename :: "(file_container, 'z) library_scheme \<Rightarrow> string" where
  "file_container_filename h = fc_filename (device h)"

definition file_container_openMode :: "(file_container, 'z) library_scheme \<Rightarrow> open_mode" where
  "file_container_openMode h = fc_openMode (device h)"

subsection \<open>Containers in memory\<close>

definition memory_container_new ::
  "32 word \<Rightarrow> (nat \<Rightarrow> byte) \<Rightarrow> string \<Rightarrow> bool \<Rightarrow> memory_container library" where
  "memory_container_new seed uninit fileIdentifier ignoreIdentifier =
     library_of (ContainerImpl MemoryContainer seed uninit fileIdentifier ignoreIdentifier)"

definition memory_container_open ::
  "byte list \<Rightarrow> (memory_container, 'z) library_scheme \<Rightarrow>
   (status \<times> (memory_container, 'z) library_scheme) option" where
  "memory_container_open newBuffer h = container_open memory_ops (h\<lparr>device := mc_setBuffer newBuffer (device h)\<rparr>)"

definition memory_container_close ::
  "(memory_container, 'z) library_scheme \<Rightarrow> (status \<times> (memory_container, 'z) library_scheme) option" where
  "memory_container_close h = container_close memory_ops h"

definition memory_container_buffer :: "(memory_container, 'z) library_scheme \<Rightarrow> byte list option" where
  "memory_container_buffer h = mc_buffer (device h)"

end
