(* ===== verification/Ic_Tool.thy ===== *)
theory Ic_Tool
  imports Media_Containers
begin

text \<open>
  The command line tool \<open>ic\<close> (\<open>src/ic/ic.cpp\<close>), which lists, imports, exports and removes
  the files of a container. Its calls of the C library act on the same file system as the file
  container it opened. Closing a null stream and making a string of the null pointer behind the last argument
  are \<open>None\<close>. What \<open>strerror\<close> says is a parameter.
\<close>

record tool =
  lib :: "file_container library"
  cout :: string
  cerr :: string
  errorText :: "int \<Rightarrow> string"

definition endl :: string where
  "endl = [CHR 0x0A]"

definition say :: "string \<Rightarrow> tool \<Rightarrow> tool" where
  "say text t = t\<lparr>cout := cout t @ text\<rparr>"

definition complain :: "string \<Rightarrow> tool \<Rightarrow> tool" where
  "complain text t = t\<lparr>cerr := cerr t @ ''*** '' @ text @ endl\<rparr>"

text \<open>A call of the container library, and one of the C library.\<close>

definition on_lib :: "(file_container library \<Rightarrow> ('a \<times> file_container library) option) \<Rightarrow> tool \<Rightarrow> ('a \<times> tool) option" where
  "on_lib f t = do {
     (x, h) \<leftarrow> f (lib t);
     Some (x, t\<lparr>lib := h\<rparr>)
   }"

definition on_host :: "(stdio \<Rightarrow> 'a \<times> stdio) \<Rightarrow> tool \<Rightarrow> 'a \<times> tool" where
  "on_host f t =
     (let (x, s) = f (io (device (lib t)))
      in (x, t\<lparr>lib := (lib t)\<lparr>device := (device (lib t))\<lparr>io := s\<rparr>\<rparr>\<rparr>))"

text \<open>\<open>access(filename, R_OK)\<close>.\<close>

definition fileReadable :: "string \<Rightarrow> stdio \<Rightarrow> bool \<times> stdio" where
  "fileReadable filename s = (case libc_call s of (f, s) \<Rightarrow> (f = None \<and> disk s filename \<noteq> None, s))"

definition fileIdentifier :: string where
  "fileIdentifier = ''Inesonic, LLC.'' @ [CHR 0x0A] @ ''Aleph''"

abbreviation bufferSize :: nat where
  "bufferSize \<equiv> 65536"

text \<open>\<open>VirtualFile::name\<close>.\<close>

definition file_name :: "nat \<Rightarrow> ('d, 'z) library_scheme \<Rightarrow> string option" where
  "file_name r h = map_option currentName (file_at r h)"

subsection \<open>Extracting a file\<close>

partial_function (option) extract_loop ::
  "nat \<Rightarrow> string \<Rightarrow> stdio_handle \<Rightarrow> byte list \<Rightarrow> nat \<Rightarrow> tool \<Rightarrow> (nat \<times> stdio_handle \<times> tool) option" where
  "extract_loop r filename file bytes bytesRemaining t =
     (if 0 < bytesRemaining then do {
        let bytesToMove = (if bytesRemaining < bufferSize then bytesRemaining else bufferSize);
        ((status, bytes), t) \<leftarrow> on_lib (file_read file_ops r bytesToMove bytes) t;
        complete \<leftarrow>
          (if success status then do {
             n \<leftarrow> ReadSuccessful_bytesRead status;
             Some (n = bytesToMove)
           } else Some False);
        if \<not> complete
        then Some (1, file, complain (''Could not read '' @ filename @ '' from container'') t)
        else do {
          (bytesWritten, file, s) \<leftarrow> fwrite (take bytesToMove bytes) file (io (device (lib t)));
          let (_, t) = on_host (\<lambda>_. ((), s)) t;
          if bytesWritten \<noteq> bytesToMove
          then Some (1, file, complain (''Could not write to file '' @ filename) t)
          else extract_loop r filename file bytes (bytesRemaining - bytesToMove) t
        }
      } else Some (0, file, t))"

declare extract_loop.simps [code]

definition extractVirtualFile :: "nat \<Rightarrow> tool \<Rightarrow> (nat \<times> tool) option" where
  "extractVirtualFile r t = do {
     filename \<leftarrow> file_name r (lib t);
     (n, t) \<leftarrow> on_lib (file_size file_ops r) t;
     let size = unsigned_64 n;
     let bytes = new_array (junk (lib t)) bufferSize;
     let (f, t) = on_host (fopen filename OVERWRITE) t;
     (exitStatus, f, t) \<leftarrow>
       (case f of
          None \<Rightarrow> Some (1, None, complain (''Could not open file '' @ filename @ '' for writing.'') t)
        | Some file \<Rightarrow> do {
            (exitStatus, file, t) \<leftarrow> extract_loop r filename file bytes size t;
            Some (exitStatus, Some file, t)
          });
     let t =
       (if exitStatus = 0 then say (''Extracted '' @ filename @ '' ('' @ dec_string size @ '' bytes)'' @ endl) t else t);
     file \<leftarrow> f;
     let (_, t) = on_host (fclose file) t;
     Some (exitStatus, t)
   }"

subsection \<open>The switches\<close>

fun list_widths :: "(string, nat) omap \<Rightarrow> nat \<Rightarrow> nat \<Rightarrow> tool \<Rightarrow> (nat \<times> nat \<times> tool) option" where
  "list_widths [] maximumFilenameWidth totalContentSize t = Some (maximumFilenameWidth, totalContentSize, t)"
| "list_widths ((filename, r) # m) maximumFilenameWidth totalContentSize t = do {
     (n, t) \<leftarrow> on_lib (file_size file_ops r) t;
     let fileSize = unsigned_64 n;
     let filenameSize = u32 (length filename);
     list_widths m (if filenameSize > maximumFilenameWidth then filenameSize else maximumFilenameWidth)
       (u64 (totalContentSize + fileSize)) t
   }"

abbreviation spaces :: "nat \<Rightarrow> string" where
  "spaces n \<equiv> replicate n (CHR 0x20)"

text \<open>A number after \<open>std::setw(10)\<close>.\<close>

definition setw10 :: "nat \<Rightarrow> string" where
  "setw10 n = (let s = dec_string n in spaces (10 - length s) @ s)"

fun list_files :: "(string, nat) omap \<Rightarrow> nat \<Rightarrow> tool \<Rightarrow> tool option" where
  "list_files [] maximumFilenameWidth t = Some t"
| "list_files ((filename, r) # m) maximumFilenameWidth t = do {
     (n, t) \<leftarrow> on_lib (file_size file_ops r) t;
     let fileSize = unsigned_64 n;
     let filenameSize = u32 (length filename);
     list_files m maximumFilenameWidth
       (say (filename @ spaces (maximumFilenameWidth - filenameSize) @ ''  '' @ setw10 fileSize @ endl) t)
   }"

definition doList :: "(string, nat) omap \<Rightarrow> tool \<Rightarrow> (nat \<times> tool) option" where
  "doList files t = do {
     (maximumFilenameWidth, totalContentSize, t) \<leftarrow> list_widths files 8 0 t;
     let t = say (''Filename'' @ spaces (maximumFilenameWidth - 8) @ ''        Size'' @ endl) t;
     let t = say (replicate maximumFilenameWidth (CHR 0x2D) @ ''  ----------'' @ endl) t;
     t \<leftarrow> list_files files maximumFilenameWidth t;
     let t = say (spaces maximumFilenameWidth @ ''  ----------'' @ endl) t;
     let t = say (spaces maximumFilenameWidth @ ''  '' @ setw10 totalContentSize @ endl) t;
     Some (0, t)
   }"

text \<open>The iterator \<open>it\<close> of this loop is never advanced.\<close>

partial_function (option) initialize_loop ::
  "(string, nat) omap \<Rightarrow> status \<Rightarrow> tool \<Rightarrow> (status \<times> tool) option" where
  "initialize_loop files status t =
     (if \<not> has_info status \<and> files \<noteq> [] then do {
        (status, t) \<leftarrow> on_lib (file_erase file_ops (snd (hd files))) t;
        initialize_loop files status t
      } else Some (status, t))"

declare initialize_loop.simps [code]

definition doInitialize :: "(string, nat) omap \<Rightarrow> tool \<Rightarrow> (nat \<times> (string, nat) omap \<times> tool) option" where
  "doInitialize files t = do {
     (status, t) \<leftarrow> initialize_loop files NoStatus t;
     if has_info status then Some (1, files, complain (description (errorText t) status) t)
     else Some (0, [], t)
   }"

fun doExport :: "(string, nat) omap \<Rightarrow> nat \<Rightarrow> tool \<Rightarrow> (nat \<times> tool) option" where
  "doExport [] exitStatus t = Some (exitStatus, t)"
| "doExport ((_, r) # m) exitStatus t =
     (if exitStatus = 0 then do {
        (exitStatus, t) \<leftarrow> extractVirtualFile r t;
        doExport m exitStatus t
      } else Some (exitStatus, t))"

definition doRemove :: "(string, nat) omap \<Rightarrow> string \<Rightarrow> tool \<Rightarrow> (nat \<times> (string, nat) omap \<times> tool) option" where
  "doRemove files filename t =
     (case om_find filename files of
        Some r \<Rightarrow> do {
          (status, t) \<leftarrow> on_lib (file_erase file_ops r) t;
          if \<not> has_info status then Some (0, om_erase filename files, t)
          else Some (1, files, complain (''Could not erase '' @ filename @ '' from container.'') t)
        }
      | None \<Rightarrow> Some (0, files, t))"

definition doExtract :: "(string, nat) omap \<Rightarrow> string \<Rightarrow> tool \<Rightarrow> (nat \<times> tool) option" where
  "doExtract files filename t =
     (case om_find filename files of
        Some r \<Rightarrow> extractVirtualFile r t
      | None \<Rightarrow> Some (1, complain (''Could not locate '' @ filename @ '' in container.'') t))"

text \<open>\<open>fread\<close> never returns a negative count, so the test for one is left out.\<close>

partial_function (option) import_loop ::
  "nat \<Rightarrow> string \<Rightarrow> stdio_handle \<Rightarrow> tool \<Rightarrow> (nat \<times> stdio_handle \<times> tool) option" where
  "import_loop r filename file t =
     (if \<not> hEof file then do {
        (bytes, file, s) \<leftarrow> fread bufferSize file (io (device (lib t)));
        let (_, t) = on_host (\<lambda>_. ((), s)) t;
        (status, t) \<leftarrow> on_lib (file_write file_ops r bytes) t;
        if \<not> success status
        then Some (1, file, complain (''Could not write container '' @ filename) t)
        else import_loop r filename file t
      } else Some (0, file, t))"

declare import_loop.simps [code]

definition doImport :: "(string, nat) omap \<Rightarrow> string \<Rightarrow> tool \<Rightarrow> (nat \<times> (string, nat) omap \<times> tool) option" where
  "doImport files filename t = do {
     let (readable, t) = on_host (fileReadable filename) t;
     (exitStatus, files, t) \<leftarrow>
       (if \<not> readable
        then Some (1, files, complain (''File '' @ filename @ '' can not be read, aborting.'') t)
        else (case om_find filename files of
           Some r \<Rightarrow> do {
             (status, t) \<leftarrow> on_lib (file_erase file_ops r) t;
             if has_info status
             then Some (1, files, complain (''Could not delete existing '' @ filename @ '' from container: '' @
               description (errorText t) status) t)
             else Some (0, om_erase filename files, t)
           }
         | None \<Rightarrow> Some (0, files, t)));
     (exitStatus, t) \<leftarrow>
       (if exitStatus = 0 then do {
          (r, t) \<leftarrow> on_lib (create_file file_ops filename) t;
          let (f, t) = on_host (fopen filename READ_ONLY) t;
          (exitStatus, f, t) \<leftarrow>
            (case f of
               None \<Rightarrow> Some (1, None, complain (''Could not open physical file '' @ filename) t)
             | Some file \<Rightarrow> do {
                 (exitStatus, file, t) \<leftarrow> import_loop r filename file t;
                 Some (exitStatus, Some file, t)
               });
          file \<leftarrow> f;
          let (_, t) = on_host (fclose file) t;
          Some (exitStatus, t)
        } else Some (exitStatus, t));
     (files, t) \<leftarrow> on_lib (directory file_ops) t;
     Some (exitStatus, files, t)
   }"

subsection \<open>\<open>main\<close>\<close>

definition help_text :: "string list" where
  "help_text =
     [''Inesonic Container Tool, Version 1.0'',
      ''Copyright 2016 - 2022 Inesonic, LLC.'',
      '''',
      ''Usage:'',
      ''    ic [ -h | --help | -? |'',
      ''         <container>'',
      ''                     [ -l | --list ]'',
      ''                     [ -I | --initialize ]'',
      ''                     [ -X | --export ]'',
      ''                     [ -r <filename> | --remove <filename> ]'',
      ''                     [ -x <filename> | --export <filename> ]'',
      ''                     [ -i <filename> | --import <filename> ]'',
      ''                     . . .                                     ]'',
      '''',
      ''    -h | --help | -?'',
      ''      Displays this help screen, then exits.  All other switches and options'',
      ''      will be ignored.'',
      '''',
      ''    <container>'',
      ''      The container file to perform all operations on.  The container file'',
      ''      is required for all switches except '' @ [CHR 0x22] @ ''--help'' @ [CHR 0x22] @ '' and must precede all'',
      ''      switches.'',
      '''',
      ''    -l | --list'',
      ''      Lists the current contents of the container.'',
      '''',
      ''    -I | --initialize'',
      ''      Erases any content in the container and restores the container to an'',
      ''      empty state.'',
      '''',
      ''    -X | --export'',
      ''      Exports the entire contents of the container into the current directory.'',
      '''',
      ''    -r <filename> | --remove <filename>'',
      ''      Removes the specified file from the container.'',
      '''',
      ''    -x <filename> | --extract <filename>'',
      ''      Exports the specified file from the container.  The container is'',
      ''      unchanged.'',
      '''',
      ''    -i <filename> | --import <filename>'',
      ''      Imports the specified file into the container.'',
      '''',
      ''Notes:'',
      ''    With the exception of the '' @ [CHR 0x22] @ ''--help'' @ [CHR 0x22] @ '' switch, you can include multiple'',
      ''    switches on the command line and in arbitrary order.  This allows you to'',
      ''    perform complex operations on a container with a single command line.  The'',
      ''    tool will exit on the first error.'']"

text \<open>
  The argument a switch takes: the one behind it, stepping over the name of the container. The
  list has \<open>argumentValues\<close> up to \<open>argumentCount\<close>; the element behind it is the null pointer.
\<close>

definition next_argument :: "string list \<Rightarrow> nat \<Rightarrow> nat \<Rightarrow> nat" where
  "next_argument args containerFilePosition argumentNumber =
     (if argumentNumber + 1 < length args \<and> argumentNumber + 1 = containerFilePosition
      then argumentNumber + 2 else argumentNumber + 1)"

definition run_switch ::
  "string list \<Rightarrow> nat \<Rightarrow> nat \<Rightarrow> (string, nat) omap \<Rightarrow> tool \<Rightarrow>
   (nat \<times> nat \<times> (string, nat) omap \<times> tool) option" where
  "run_switch args containerFilePosition argumentNumber files t = (
     let switchArgument = args ! argumentNumber in
     if switchArgument = ''-l'' \<or> switchArgument = ''--list'' then do {
       (exitStatus, t) \<leftarrow> doList files t;
       Some (exitStatus, argumentNumber, files, t)
     }
     else if switchArgument = ''-I'' \<or> switchArgument = ''--initialize'' then do {
       (exitStatus, files, t) \<leftarrow> doInitialize files t;
       Some (exitStatus, argumentNumber, files, t)
     }
     else if switchArgument = ''-X'' \<or> switchArgument = ''--export'' then do {
       (exitStatus, t) \<leftarrow> doExport files 0 t;
       Some (exitStatus, argumentNumber, files, t)
     }
     else do {
       let nextArgument = next_argument args containerFilePosition argumentNumber;
       if nextArgument \<le> length args then do {
         parameterArgument \<leftarrow> (if nextArgument < length args then Some (args ! nextArgument) else None);
         if switchArgument = ''-r'' \<or> switchArgument = ''--remove'' then do {
           (exitStatus, files, t) \<leftarrow> doRemove files parameterArgument t;
           Some (exitStatus, argumentNumber + 1, files, t)
         }
         else if switchArgument = ''-e'' \<or> switchArgument = ''--export'' then do {
           (exitStatus, t) \<leftarrow> doExtract files parameterArgument t;
           Some (exitStatus, argumentNumber + 1, files, t)
         }
         else if switchArgument = ''-i'' \<or> switchArgument = ''--import'' then do {
           (exitStatus, files, t) \<leftarrow> doImport files parameterArgument t;
           Some (exitStatus, argumentNumber + 1, files, t)
         }
         else Some (1, argumentNumber, files, complain (''Unknown switch '' @ [CHR 0x22] @ switchArgument @ [CHR 0x22] @ ''.'') t)
       }
       else Some (1, argumentNumber, files, complain (''Switch '' @ switchArgument @ '' expects a parameter.'') t)
     })"

partial_function (option) run_switches ::
  "string list \<Rightarrow> nat \<Rightarrow> nat \<Rightarrow> nat \<Rightarrow> (string, nat) omap \<Rightarrow> tool \<Rightarrow> (nat \<times> tool) option" where
  "run_switches args containerFilePosition exitStatus argumentNumber files t =
     (if exitStatus = 0 \<and> argumentNumber < length args then do {
        (exitStatus, argumentNumber, files, t) \<leftarrow>
          (if argumentNumber \<noteq> containerFilePosition
           then run_switch args containerFilePosition argumentNumber files t
           else Some (exitStatus, argumentNumber, files, t));
        run_switches args containerFilePosition exitStatus (argumentNumber + 1) files t
      } else Some (exitStatus, t))"

declare run_switches.simps [code]

text \<open>The first argument from \<open>n\<close> on that is no switch.\<close>

fun first_name :: "string list \<Rightarrow> nat \<Rightarrow> nat" where
  "first_name [] n = n"
| "first_name (a # as) n = (if a \<noteq> [] \<and> hd a = CHR 0x2D then first_name as (n + 1) else n)"

definition run_container :: "string list \<Rightarrow> nat \<Rightarrow> tool \<Rightarrow> (nat \<times> tool) option" where
  "run_container args containerFilePosition t = do {
     (status, t) \<leftarrow> on_lib (file_container_open (args ! containerFilePosition) READ_WRITE) t;
     let (exitStatus, t) =
       (if has_info status then (1, complain (description (errorText t) status) t) else (0, t));
     (exitStatus, files, t) \<leftarrow>
       (if exitStatus = 0 then do {
          (files, t) \<leftarrow> on_lib (directory file_ops) t;
          let status = lastStatus (lib t);
          Some (if has_info status then (1, files, complain (description (errorText t) status) t) else (0, files, t))
        } else Some (exitStatus, [], t));
     (exitStatus, t) \<leftarrow> run_switches args containerFilePosition exitStatus 1 files t;
     if file_container_openMode (lib t) \<noteq> CLOSED then do {
       (status, t) \<leftarrow> on_lib file_container_close t;
       Some (if has_info status
             then (1, complain (''Could not close container: '' @ description (errorText t) status) t)
             else (exitStatus, t))
     } else Some (exitStatus, t)
   }"

definition ic_main :: "string list \<Rightarrow> tool \<Rightarrow> (nat \<times> tool) option" where
  "ic_main args t =
     (if list_ex (\<lambda>a. a = ''-h'' \<or> a = ''--help'' \<or> a = ''-?'') (tl args)
      then Some (0, say (concat (map (\<lambda>l. l @ endl) help_text)) t)
      else (let containerFilePosition = first_name (tl args) 1 in
        if containerFilePosition < length args then run_container args containerFilePosition t
        else Some (1, complain ''You must specify a container file.'' t)))"

text \<open>What the tool starts with; the container object is constructed in \<open>main\<close>.\<close>

definition tool_on :: "nat \<Rightarrow> stdio \<Rightarrow> 32 word \<Rightarrow> (nat \<Rightarrow> byte) \<Rightarrow> (int \<Rightarrow> string) \<Rightarrow> tool" where
  "tool_on unset s seed uninit strerror =
     \<lparr>lib = file_container_new unset s seed uninit fileIdentifier True, cout = [], cerr = [], errorText = strerror\<rparr>"

end
