(* ===== verification/File_On_Disk.thy ===== *)
theory File_On_Disk
  imports Media_Containers Container_Persistence
begin

text \<open>
  A file container among the other files of the disk: its operations change the file with its
  name only, so it is a storage (\<open>fc_on\<close>) also when the rest of the disk is held fixed. On top of that, opening
  and closing of a container in a file as a whole.
\<close>

subsection \<open>The frame of the file container\<close>

definition fc_same :: "file_container \<Rightarrow> file_container \<Rightarrow> bool" where
  "fc_same fc fc' \<longleftrightarrow> currentFilename fc' = currentFilename fc \<and> currentOpenMode fc' = currentOpenMode fc \<and>
     (\<forall>n. n \<noteq> currentFilename fc \<longrightarrow> disk (io fc') n = disk (io fc) n)"

lemma libc_call_disk: "libc_call s = (f, s') \<Longrightarrow> disk s' = disk s"
  by (auto simp: libc_call_def split: option.splits prod.splits)

lemma fc_frame:
  assumes "fc_ok fc"
  shows "fc_setPosition p fc = Some (s, fc') \<Longrightarrow> fc_same fc fc'"
    "fc_setPositionLast fc = Some (s, fc') \<Longrightarrow> fc_same fc fc'"
    "fc_read n fc = Some (s, bytes, fc') \<Longrightarrow> fc_same fc fc'"
    "fc_write bs fc = Some (s, fc') \<Longrightarrow> fc_same fc fc'"
    "fc_flush fc = Some (s, fc') \<Longrightarrow> fc_same fc fc'"
proof -
  from assms obtain h where h: "fileHandle fc = Some h" "faults (io fc) = (\<lambda>_. None)" "hOpen h" "hWritable h"
    "disk (io fc) (hName h) \<noteq> None" "hName h = currentFilename fc" "hPosition h \<le> length (file_of h (io fc))"
    "currentFileSize fc = length (file_of h (io fc))"
    "fc_content fc = file_of h (io fc)" "fc_cursor fc = hPosition h" by (rule fc_okE)
  show "fc_setPosition p fc = Some (s, fc') \<Longrightarrow> fc_same fc fc'"
    "fc_setPositionLast fc = Some (s, fc') \<Longrightarrow> fc_same fc fc'"
    "fc_read n fc = Some (s, bytes, fc') \<Longrightarrow> fc_same fc fc'"
    "fc_write bs fc = Some (s, fc') \<Longrightarrow> fc_same fc fc'"
    "fc_flush fc = Some (s, fc') \<Longrightarrow> fc_same fc fc'"
    using h by (auto simp: fc_setPosition_def fc_setPositionLast_def fc_read_def fc_write_def fc_flush_def fc_same_def libc_defs
        Let_def split: if_splits)
qed

definition fc_on :: "string \<Rightarrow> (string \<Rightarrow> byte list option) \<Rightarrow> file_container \<Rightarrow> bool" where
  "fc_on c D fc \<longleftrightarrow> fc_ok fc \<and> currentFilename fc = c \<and> currentOpenMode fc = READ_WRITE \<and>
     (\<forall>n. n \<noteq> c \<longrightarrow> disk (io fc) n = D n)"

lemma fc_on_same: "fc_on c D fc \<Longrightarrow> fc_same fc fc' \<Longrightarrow> fc_ok fc' \<Longrightarrow> fc_on c D fc'"
  by (auto simp: fc_on_def fc_same_def)

lemma fc_on_ok: "fc_on c D fc \<Longrightarrow> fc_ok fc"
  by (simp add: fc_on_def)

interpretation on_disk: storage file_ops "fc_on c D" fc_content fc_cursor for c D
proof unfold_locales
  fix d :: file_container and p
  assume d: "fc_on c D d"
  note ok = fc_on_ok [OF d]
  note same = fc_on_same [OF d]
  note frame = fc_frame [OF ok]
  show "fc_cursor d \<le> length (fc_content d)" using file_storage.cursor_law [OF ok] .
  show "op_size file_ops d = Some (int (length (fc_content d)))" if "length (fc_content d) \<le> storage_limit"
    using file_storage.size_law [OF ok that] .
  show "op_position file_ops d = fc_cursor d" using file_storage.position_law [OF ok] .
  show "\<exists>d'. op_setPosition file_ops p d = Some (NoStatus, d') \<and> fc_on c D d' \<and> fc_content d' = fc_content d \<and> fc_cursor d' = p"
    if "p \<le> length (fc_content d)" "length (fc_content d) \<le> storage_limit"
    using file_storage.setPosition_law [OF ok that] same frame(1) by (auto simp: file_ops_def)
  show "op_setPosition file_ops p d = Some (SeekError p (length (fc_content d)), d)"
    if "length (fc_content d) < p" "length (fc_content d) \<le> storage_limit"
    using file_storage.seek_law [OF ok that] .
  show "\<exists>d'. op_setPositionLast file_ops d = Some (NoStatus, d') \<and> fc_on c D d' \<and> fc_content d' = fc_content d \<and>
      fc_cursor d' = length (fc_content d)"
    using file_storage.setPositionLast_law [OF ok] same frame(2) by (auto simp: file_ops_def)
  show "\<exists>d'. op_flush file_ops d = Some (NoStatus, d') \<and> fc_on c D d' \<and> fc_content d' = fc_content d \<and> fc_cursor d' = fc_cursor d"
    using file_storage.flush_law [OF ok] same frame(5) by (auto simp: file_ops_def)
  show "\<exists>d'. op_read file_ops n d = Some (ReadSuccessful m, take m (drop (fc_cursor d) (fc_content d)), d') \<and>
      fc_on c D d' \<and> fc_content d' = fc_content d \<and> fc_cursor d' = fc_cursor d + m"
    if "length (fc_content d) \<le> storage_limit" "n < 4294967296" "m = min n (length (fc_content d) - fc_cursor d)"
    for n m
    using file_storage.read_law [OF ok that] same frame(3) by (auto simp: file_ops_def)
  show "\<exists>d'. op_write file_ops bs d = Some (WriteSuccessful (length bs), d') \<and> fc_on c D d' \<and>
      fc_content d' = overlay (fc_content d) (fc_cursor d) bs \<and> fc_cursor d' = fc_cursor d + length bs"
    if "fc_cursor d + length bs \<le> storage_limit" "length (fc_content d) \<le> storage_limit" "length bs < 4294967296"
    for bs
    using file_storage.write_law [OF ok that] same frame(4) by (auto simp: file_ops_def)
qed

subsection \<open>Containers on a file of the disk\<close>

lemma files_like_device:
  fixes h :: "'d library"
  assumes "files_like ok content used eof spent fs h" "ok' d" "content d = content (device h)"
  shows "files_like ok' content used eof spent fs (h\<lparr>device := d\<rparr>)"
proof -
  have "laid_out content used eof (h\<lparr>device := d\<rparr>) = laid_out content used eof h" using assms(3) by (simp add: laid_out_def)
  then show ?thesis using assms by (simp add: files_like_def in_space_def)
qed

lemma fc_opened:
  assumes "faults s = (\<lambda>_. None)" "disk s c = Some b"
  obtains fc where "fc_open c READ_WRITE (FileContainer unset s) = Some (NoStatus, fc)" "fc_on c (disk s) fc" "fc_content fc = b"
proof -
  have "faults (io (FileContainer unset s)) = (\<lambda>_. None)" "disk (io (FileContainer unset s)) = disk s"
    "case fileHandle (FileContainer unset s) of Some h \<Rightarrow> hOpen h | None \<Rightarrow> True"
    using assms(1) by (simp_all add: FileContainer_def)
  with fc_open_establishes [of "FileContainer unset s" READ_WRITE b c] assms(2) obtain fc where
    "fc_open c READ_WRITE (FileContainer unset s) = Some (NoStatus, fc)" "fc_ok fc" "fc_content fc = b"
    "disk (io fc) = (disk s)(c := Some b)" "currentFilename fc = c" "currentOpenMode fc = READ_WRITE" by auto
  with that show thesis by (simp add: fc_on_def)
qed

lemma file_container_new_fields:
  "device (file_container_new unset s seed uninit ident ignore) = FileContainer unset s"
  "currentFileIdentifier (file_container_new unset s seed uninit ident ignore) = ident"
  "virtualFiles (file_container_new unset s seed uninit ident ignore) = []"
  by (simp_all add: file_container_new_def library_of_def ContainerImpl_def container.extend_def)

lemma container_open_lastStatus: "container_open K w = Some (status, w') \<Longrightarrow> lastReportedStatus w' = status"
  by (auto simp: container_open_def Let_def split: bind_splits)

text \<open>An empty file becomes a container without files.\<close>

lemma file_container_open_empty:
  assumes "faults s = (\<lambda>_. None)" "disk s c = Some []" "length ident \<le> 4088"
  obtains h n where "file_container_open c READ_WRITE (file_container_new unset s seed uninit ident ignore) = Some (NoStatus, h)"
    "files_like (fc_on c (disk s)) fc_content {..< n} n 0 [] h" "lastStatus h = NoStatus" "currentFileIdentifier h = ident"
proof -
  let ?h = "file_container_new unset s seed uninit ident ignore"
  note f = file_container_new_fields [of unset s seed uninit ident ignore]
  from fc_opened [OF assms(1,2)] obtain fc where
    o: "fc_open c READ_WRITE (FileContainer unset s) = Some (NoStatus, fc)" "fc_on c (disk s) fc" "fc_content fc = []" .
  let ?g = "?h\<lparr>device := fc\<rparr>"
  have g: "fc_on c (disk s) (device ?g)" "fc_content (device ?g) = []" "length (currentFileIdentifier ?g) \<le> 4088"
    "virtualFiles ?g = []" using o f assms(3) by simp_all
  from on_disk.open_files_like [OF g] obtain h n where
    h: "container_open file_ops ?g = Some (NoStatus, h)" "files_like (fc_on c (disk s)) fc_content {..< n} n 0 [] h"
      "currentFileIdentifier h = currentFileIdentifier ?g" .
  have "file_container_open c READ_WRITE ?h = Some (NoStatus, h)"
    using o(1) h(1) f by (simp add: file_container_open_def on_device_def)
  with that h f container_open_lastStatus [OF h(1)] show thesis by (simp add: lastStatus_def)
qed

text \<open>
  What a file contains when a container with the files \<open>fs\<close> was closed in it.
\<close>

definition closed_container :: "string \<Rightarrow> nat \<Rightarrow> byte_file list \<Rightarrow> byte list \<Rightarrow> bool" where
  "closed_container ident spent fs bytes \<longleftrightarrow>
     (\<exists>h used eof. files_like (\<lambda>_. True) fc_content used eof spent fs h \<and> (\<forall>i < length fs. clean (virtualFiles h ! i)) \<and>
        currentFileIdentifier h = ident \<and> fc_content (device h) = bytes)"

text \<open>Closing: the bytes of all files are in the file of the container, and the rest of the disk is as it was.\<close>

lemma file_container_close_law:
  assumes h: "files_like (fc_on c D) fc_content used eof spent fs h" "spent + 4 * length fs \<le> 134217000"
  shows "\<exists>h' bytes. file_container_close h = Some (NoStatus, h') \<and> faults (io (device h')) = (\<lambda>_. None) \<and>
    disk (io (device h')) = D(c := Some bytes) \<and>
    closed_container (currentFileIdentifier h) (spent + 4 * length fs) fs bytes"
proof -
  from on_disk.container_close_law [OF h] obtain used' eof' h1 where
    c: "container_close file_ops h = Some (NoStatus, h1)"
      "files_like (fc_on c D) fc_content used' eof' (spent + 4 * length fs) fs h1"
      "\<forall>i < length fs. clean (virtualFiles h1 ! i)" "currentFileIdentifier h1 = currentFileIdentifier h" by blast
  then have on: "fc_on c D (device h1)" by (simp add: files_like_def)
  from fc_okE [OF fc_on_ok [OF on]] obtain f where
    f: "fileHandle (device h1) = Some f" "faults (io (device h1)) = (\<lambda>_. None)" "hOpen f" "disk (io (device h1)) (hName f) \<noteq> None"
      "hName f = currentFilename (device h1)" "fc_content (device h1) = file_of f (io (device h1))" by metis
  let ?d = "(device h1)\<lparr>fileHandle := None, currentFilename := [], currentOpenMode := CLOSED,
    io := (io (device h1))\<lparr>calls := calls (io (device h1)) + 1\<rparr>\<rparr>"
  have "fc_close (device h1) = Some (NoStatus, ?d)"
    using f by (simp add: fc_close_def fclose_def libc_no_fault)
  then have "file_container_close h = Some (NoStatus, h1\<lparr>device := ?d\<rparr>)"
    using c(1) by (simp add: file_container_close_def on_device_def)
  moreover have "disk (io (device h1)) c = Some (fc_content (device h1))"
    using f on by (auto simp: fc_on_def file_of_def)
  then have "disk (io (device h1)) = D(c := Some (fc_content (device h1)))"
    using on by (auto simp: fc_on_def)
  moreover have "files_like (\<lambda>_. True) fc_content used' eof' (spent + 4 * length fs) fs (h1\<lparr>device := device h1\<rparr>)"
    by (rule files_like_device [OF c(2)]) simp_all
  then have "closed_container (currentFileIdentifier h) (spent + 4 * length fs) fs (fc_content (device h1))"
    unfolding closed_container_def using c(3,4) by (intro exI [of _ "h1\<lparr>device := device h1\<rparr>"] exI conjI) simp_all
  ultimately show ?thesis
    using f(2) by (intro exI [of _ "h1\<lparr>device := ?d\<rparr>"] exI [of _ "fc_content (device h1)"]) simp
qed

text \<open>Opening it again, in any state of the rest of the disk.\<close>

lemma file_container_reopen_law:
  assumes d: "faults s = (\<lambda>_. None)" "disk s c = Some bytes" and b: "closed_container ident spent fs bytes" "spent \<le> 134217000"
  shows "\<exists>h files h' eof fs'. file_container_open c READ_WRITE (file_container_new unset s seed uninit ident ignore) = Some (NoStatus, h) \<and>
    directory file_ops h = Some (files, h') \<and> lastStatus h' = NoStatus \<and> mset fs' = mset (map rewound fs) \<and>
    (\<forall>name r. om_find name files = Some r \<longleftrightarrow> r < length fs' \<and> fileName (fs' ! r) = name) \<and> om_sorted files \<and>
    files_like (fc_on c (disk s)) fc_content {..< eof} eof spent fs' h' \<and> currentFileIdentifier h' = ident"
proof -
  let ?h = "file_container_new unset s seed uninit ident ignore"
  note f = file_container_new_fields [of unset s seed uninit ident ignore]
  from fc_opened [OF d] obtain fc where
    o: "fc_open c READ_WRITE (FileContainer unset s) = Some (NoStatus, fc)" "fc_on c (disk s) fc" "fc_content fc = bytes" .
  from b(1) obtain h3 used eof where
    h3: "files_like (\<lambda>_. True) fc_content used eof spent fs h3" "\<forall>i < length fs. clean (virtualFiles h3 ! i)"
      "currentFileIdentifier h3 = ident" "fc_content (device h3) = bytes" unfolding closed_container_def by blast
  let ?h3 = "h3\<lparr>device := fc\<rparr>" and ?g = "?h\<lparr>device := fc\<rparr>"
  have h3': "files_like (fc_on c (disk s)) fc_content used eof spent fs ?h3"
    by (rule files_like_device [OF h3(1)]) (use o h3(4) in simp_all)
  have "\<forall>i < length fs. clean (virtualFiles ?h3 ! i)" "device ?g = device ?h3" "currentFileIdentifier ?g = currentFileIdentifier ?h3"
    "virtualFiles ?g = []" using h3(2,3) f by simp_all
  from on_disk.reopened_directory_law [OF h3' this(1) b(2) this(2-4)] obtain h4 files h5 fs' where
    r: "container_open file_ops ?g = Some (NoStatus, h4)" "directory file_ops h4 = Some (files, h5)" "lastStatus h5 = NoStatus"
      "mset fs' = mset (map rewound fs)" "\<forall>name r. om_find name files = Some r \<longleftrightarrow> r < length fs' \<and> fileName (fs' ! r) = name"
      "om_sorted files" "files_like (fc_on c (disk s)) fc_content {..< eof} eof spent fs' h5"
      "currentFileIdentifier h5 = currentFileIdentifier ?h3" by blast
  have "file_container_open c READ_WRITE ?h = Some (NoStatus, h4)"
    using o(1) r(1) f by (simp add: file_container_open_def on_device_def)
  moreover have "currentFileIdentifier h5 = ident" using r(8) h3(3) by simp
  ultimately show ?thesis using r(2-7) by blast
qed

end
