(* ===== verification/Ic_Tool_Laws.thy ===== *)
theory Ic_Tool_Laws
  imports Ic_Tool File_On_Disk
begin

text \<open>
  What runs of the tool do: one that imports files into an empty container, and one that
  exports all files of a container another run has closed.
\<close>

abbreviation stdio_of :: "tool \<Rightarrow> stdio" where
  "stdio_of t \<equiv> io (device (lib t))"

text \<open>The tool has a container with the files \<open>fs\<close> open in the file \<open>c\<close>; the rest of the disk is \<open>D\<close>.\<close>

definition tool_files :: "string \<Rightarrow> (string \<Rightarrow> byte list option) \<Rightarrow> nat \<Rightarrow> byte_file list \<Rightarrow> tool \<Rightarrow> bool" where
  "tool_files c D spent fs t \<longleftrightarrow> (\<exists>used eof. files_like (fc_on c D) fc_content used eof spent fs (lib t)) \<and>
     currentFileIdentifier (lib t) = fileIdentifier"

lemma tool_filesD:
  assumes "tool_files c D spent fs t"
  shows "fc_on c D (device (lib t))" "faults (stdio_of t) = (\<lambda>_. None)" "n \<noteq> c \<Longrightarrow> disk (stdio_of t) n = D n"
    "fileMapsPopulated (lib t)" "om_keys (fileApisByName (lib t)) = fileName ` set fs"
    "length (virtualFiles (lib t)) = length fs" "file_container_openMode (lib t) = READ_WRITE"
    "r < length fs \<Longrightarrow> file_name r (lib t) = Some (fileName (fs ! r))" "r < length fs \<Longrightarrow> length (fileBytes (fs ! r)) \<le> spent"
proof -
  from assms obtain used eof where f: "files_like (fc_on c D) fc_content used eof spent fs (lib t)" by (auto simp: tool_files_def)
  then show on: "fc_on c D (device (lib t))" "fileMapsPopulated (lib t)" "om_keys (fileApisByName (lib t)) = fileName ` set fs"
    "length (virtualFiles (lib t)) = length fs" by (simp_all add: files_like_def in_space_def)
  show "n \<noteq> c \<Longrightarrow> disk (stdio_of t) n = D n" "file_container_openMode (lib t) = READ_WRITE" "faults (stdio_of t) = (\<lambda>_. None)"
    using on(1) by (simp_all add: fc_on_def file_container_openMode_def fc_openMode_def fc_ok_def)
  show "file_name r (lib t) = Some (fileName (fs ! r))" if "r < length fs"
  proof -
    have "file_like (fc_content (device (lib t))) used (virtualFiles (lib t) ! r) (fs ! r)"
      using f that by (simp add: files_like_def)
    then show ?thesis using on(4) that by (simp add: file_name_def file_at_def file_like_def)
  qed
  show "length (fileBytes (fs ! r)) \<le> spent" if "r < length fs" using f that by (simp add: files_like_def)
qed

subsection \<open>Calls of the two libraries\<close>

lemma on_host_law:
  assumes t: "tool_files c D spent fs t" and f: "f (stdio_of t) = (x, s)" "faults s = (\<lambda>_. None)" "disk s c = disk (stdio_of t) c"
  obtains t' where "on_host f t = (x, t')" "tool_files c (disk s) spent fs t'" "stdio_of t' = s"
    "cout t' = cout t" "cerr t' = cerr t" "errorText t' = errorText t" "junk (lib t') = junk (lib t)"
proof -
  let ?d = "(device (lib t))\<lparr>io := s\<rparr>"
  let ?t = "t\<lparr>lib := (lib t)\<lparr>device := ?d\<rparr>\<rparr>"
  from t obtain used eof where l: "files_like (fc_on c D) fc_content used eof spent fs (lib t)" by (auto simp: tool_files_def)
  note on = tool_filesD(1) [OF t]
  from fc_okE [OF fc_on_ok [OF on]] obtain h where
    h: "fileHandle (device (lib t)) = Some h" "hOpen h" "hWritable h" "disk (stdio_of t) (hName h) \<noteq> None"
      "hName h = currentFilename (device (lib t))" "hPosition h \<le> length (file_of h (stdio_of t))"
      "currentFileSize (device (lib t)) = length (file_of h (stdio_of t))" by metis
  have c: "file_of h s = file_of h (stdio_of t)" using h(5) on f(3) by (simp add: file_of_def fc_on_def)
  have "fc_on c (disk s) ?d" using on h c f(2,3) by (simp add: fc_on_def fc_ok_def)
  moreover have "fc_content ?d = fc_content (device (lib t))" using h(1) c by (simp add: fc_content_def)
  ultimately have "files_like (fc_on c (disk s)) fc_content used eof spent fs (lib ?t)"
    using files_like_device [OF l] by simp
  then have "tool_files c (disk s) spent fs ?t" using t by (auto simp: tool_files_def)
  moreover have "on_host f t = (x, ?t)" using f(1) by (simp add: on_host_def)
  ultimately show thesis using that [of ?t] by simp
qed

lemma tool_files_cong:
  "tool_files c D spent fs t \<Longrightarrow> (\<And>n. n \<noteq> c \<Longrightarrow> D' n = D n) \<Longrightarrow> tool_files c D' spent fs t"
proof -
  assume t: "tool_files c D spent fs t" and d: "\<And>n. n \<noteq> c \<Longrightarrow> D' n = D n"
  have "fc_on c D' = fc_on c D" using d by (auto simp: fc_on_def fun_eq_iff)
  with t show "tool_files c D' spent fs t" by (simp add: tool_files_def)
qed

text \<open>A call that leaves the contents of the disk alone.\<close>

lemma on_host_same:
  assumes t: "tool_files c D spent fs t" and f: "f (stdio_of t) = (x, (stdio_of t)\<lparr>calls := n\<rparr>)"
  obtains t' where "on_host f t = (x, t')" "tool_files c D spent fs t'" "stdio_of t' = (stdio_of t)\<lparr>calls := n\<rparr>"
    "cout t' = cout t" "cerr t' = cerr t" "errorText t' = errorText t" "junk (lib t') = junk (lib t)"
proof -
  have "faults ((stdio_of t)\<lparr>calls := n\<rparr>) = (\<lambda>_. None)" "disk ((stdio_of t)\<lparr>calls := n\<rparr>) c = disk (stdio_of t) c"
    using tool_filesD(2) [OF t] by simp_all
  from on_host_law [where f = f, OF t f this] obtain t' where
    t': "on_host f t = (x, t')" "tool_files c (disk (stdio_of t)) spent fs t'" "stdio_of t' = (stdio_of t)\<lparr>calls := n\<rparr>"
      "cout t' = cout t" "cerr t' = cerr t" "errorText t' = errorText t" "junk (lib t') = junk (lib t)" by auto
  have "tool_files c D spent fs t'" by (rule tool_files_cong [OF t'(2)]) (use tool_filesD(3) [OF t] in simp)
  with t' that show thesis by blast
qed

lemma on_lib_law:
  assumes t: "tool_files c D spent fs t" "spent + op_cells x \<le> 134217000" "callable x fs"
  obtains h where "run_op file_ops x (lib t) = Some (fst (abs_op x fs), h)"
    "tool_files c D (spent + op_cells x) (snd (abs_op x fs)) (t\<lparr>lib := h\<rparr>)"
proof -
  from t(1) obtain used eof where l: "files_like (fc_on c D) fc_content used eof spent fs (lib t)"
    and id: "currentFileIdentifier (lib t) = fileIdentifier" by (auto simp: tool_files_def)
  from on_disk.run_op_law [OF l t(2,3)] that id show thesis by (auto simp: tool_files_def)
qed

lemma directory_law:
  assumes "tool_files c D spent fs t"
  shows "on_lib (directory file_ops) t = Some (fileApisByName (lib t), t)"
  using tool_filesD(4) [OF assms] by (simp add: on_lib_def directory_def)

lemma tool_files_fields:
  "tool_files c D spent fs (t\<lparr>cout := a\<rparr>) = tool_files c D spent fs t" "tool_files c D spent fs (t\<lparr>cerr := a\<rparr>) = tool_files c D spent fs t"
  by (simp_all add: tool_files_def)

subsection \<open>Importing\<close>

lemma import_loop_law:
  assumes "tool_files c D spent fs t" "r < length fs" "fs ! r = \<lparr>fileName = f, fileBytes = take p data, filePosition = p\<rparr>"
    "D f = Some data" "f \<noteq> c" "hOpen fh" "\<not> hEof fh" "hName fh = f" "hPosition fh = p" "p \<le> length data"
    "spent + (length data - p) + 4 * ((length data - p) div bufferSize + 1) \<le> 134217000"
  shows "\<exists>fh' t'. import_loop r f fh t = Some (0, fh', t') \<and>
    tool_files c D (spent + (length data - p) + 4 * ((length data - p) div bufferSize + 1))
      (fs[r := \<lparr>fileName = f, fileBytes = data, filePosition = length data\<rparr>]) t' \<and>
    cout t' = cout t \<and> cerr t' = cerr t \<and> errorText t' = errorText t"
  using assms
proof (induction "length data - p" arbitrary: p spent fs fh t rule: less_induct)
  case less
  note p = less.prems
  let ?m = "length data - p" and ?s = "stdio_of t"
  let ?bs = "take bufferSize (drop p data)"
  let ?fh = "fh\<lparr>hPosition := p + length ?bs, hEof := length ?bs < bufferSize\<rparr>"
  have s: "faults ?s = (\<lambda>_. None)" "disk ?s f = Some data" using tool_filesD(2,3) [OF p(1)] p(4,5) by simp_all
  have rd: "fread bufferSize fh ?s = Some (?bs, ?fh, ?s\<lparr>calls := calls ?s + 1\<rparr>)"
    using s p(6,8,9) by (simp add: fread_def libc_no_fault file_of_def)
  from on_host_same [where f = "\<lambda>_. ((), ?s\<lparr>calls := calls ?s + 1\<rparr>)", OF p(1) refl] obtain t1 where
    t1: "on_host (\<lambda>_. ((), ?s\<lparr>calls := calls ?s + 1\<rparr>)) t = ((), t1)" "tool_files c D spent fs t1"
      "cout t1 = cout t" "cerr t1 = cerr t" "errorText t1 = errorText t" by auto
  have lb: "length ?bs = min bufferSize ?m" by simp
  have "length ?bs \<le> ?m" by simp
  moreover have "0 \<le> 4 * (?m div bufferSize)" by simp
  ultimately have room: "spent + op_cells (Write r ?bs) \<le> 134217000" using p(11) by simp
  have cw: "callable (Write r ?bs) fs" using p(2) by simp
  from on_lib_law [OF t1(2) room cw] obtain h where
    w: "run_op file_ops (Write r ?bs) (lib t1) = Some (fst (abs_op (Write r ?bs) fs), h)"
      "tool_files c D (spent + op_cells (Write r ?bs)) (snd (abs_op (Write r ?bs) fs)) (t1\<lparr>lib := h\<rparr>)" .
  have wr: "on_lib (file_write file_ops r ?bs) t1 = Some (WriteSuccessful (length ?bs), t1\<lparr>lib := h\<rparr>)"
    using w(1) by (auto simp: on_lib_def)
  let ?f = "\<lparr>fileName = f, fileBytes = take (p + length ?bs) data, filePosition = p + length ?bs\<rparr>"
  have "overlay (take p data) p ?bs = take (p + length ?bs) data"
    using p(10) by (simp add: overlay_def take_add min_def)
  then have w2: "tool_files c D (spent + (length ?bs + 4)) (fs[r := ?f]) (t1\<lparr>lib := h\<rparr>)"
    using w(2) p(3) by simp
  have step: "import_loop r f fh t = import_loop r f ?fh (t1\<lparr>lib := h\<rparr>)"
    using p(7) rd t1(1) wr by (subst import_loop.simps) simp
  show ?case
  proof (cases "?m < bufferSize")
    case True
    then have l: "length ?bs = ?m" "take (p + length ?bs) data = data" "p + length ?bs = length data" using p(10) by simp_all
    have "import_loop r f ?fh (t1\<lparr>lib := h\<rparr>) = Some (0, ?fh, t1\<lparr>lib := h\<rparr>)"
      using True lb by (subst import_loop.simps) simp
    moreover have "spent + (length ?bs + 4) = spent + ?m + 4 * (?m div bufferSize + 1)" using True lb by simp
    note w2 [unfolded this l(2,3)]
    ultimately show ?thesis
      using step t1(3-5) by (intro exI [of _ ?fh] exI [of _ "t1\<lparr>lib := h\<rparr>"] conjI) simp_all
  next
    case False
    then have l: "length ?bs = bufferSize" using lb by simp
    let ?q = "p + bufferSize"
    have m: "length data - ?q = ?m - bufferSize" "?m div bufferSize = (?m - bufferSize) div bufferSize + 1"
      using False by (simp_all add: le_div_geq)
    have cells: "spent + (length ?bs + 4) + (length data - ?q) + 4 * ((length data - ?q) div bufferSize + 1) =
        spent + ?m + 4 * (?m div bufferSize + 1)"
      unfolding m l using False by simp
    have q: "?q \<le> length data" using False p(10) by linarith
    have "length data - ?q < ?m" using False by simp
    from less.hyps [OF this w2, of ?fh] obtain fh' t' where
      i: "import_loop r f ?fh (t1\<lparr>lib := h\<rparr>) = Some (0, fh', t')"
        "tool_files c D (spent + (length ?bs + 4) + (length data - ?q) + 4 * ((length data - ?q) div bufferSize + 1))
          (fs[r := \<lparr>fileName = f, fileBytes = data, filePosition = length data\<rparr>]) t'"
        "cout t' = cout (t1\<lparr>lib := h\<rparr>)" "cerr t' = cerr (t1\<lparr>lib := h\<rparr>)" "errorText t' = errorText (t1\<lparr>lib := h\<rparr>)"
      using p(2,4-6,8,10,11) l q unfolding cells by auto
    then show ?thesis using step t1(3-5) unfolding cells by (intro exI [of _ fh'] exI [of _ t'] conjI) simp_all
  qed
qed

definition import_cells :: "byte list \<Rightarrow> nat" where
  "import_cells data = 8 + length data + 4 * (length data div bufferSize)"

lemma doImport_law:
  assumes t: "tool_files c D spent fs t" "spent + import_cells data \<le> 134217000"
    and f: "D f = Some data" "f \<noteq> c" "c_string f" "length f \<le> 118" "f \<notin> fileName ` set fs" "om_find f files = None"
  shows "\<exists>files' t'. doImport files f t = Some (0, files', t') \<and>
    tool_files c D (spent + import_cells data) (fs @ [\<lparr>fileName = f, fileBytes = data, filePosition = length data\<rparr>]) t' \<and>
    om_keys files' = insert f (fileName ` set fs) \<and> cout t' = cout t \<and> cerr t' = cerr t \<and> errorText t' = errorText t"
proof -
  let ?s = "stdio_of t"
  have s: "faults ?s = (\<lambda>_. None)" "disk ?s f = Some data" using tool_filesD(2,3) [OF t(1)] f(1,2) by simp_all
  have "fileReadable f ?s = (True, ?s\<lparr>calls := calls ?s + 1\<rparr>)" using s by (simp add: fileReadable_def libc_no_fault)
  from on_host_same [where f = "fileReadable f", OF t(1) this] obtain t1 where
    t1: "on_host (fileReadable f) t = (True, t1)" "tool_files c D spent fs t1"
      "cout t1 = cout t" "cerr t1 = cerr t" "errorText t1 = errorText t" by auto
  have cr: "callable (Create f) fs" "spent + op_cells (Create f) \<le> 134217000"
    using f t(2) by (simp_all add: import_cells_def)
  from on_lib_law [OF t1(2) cr(2,1)] obtain h where
    h: "run_op file_ops (Create f) (lib t1) = Some (fst (abs_op (Create f) fs), h)"
      "tool_files c D (spent + op_cells (Create f)) (snd (abs_op (Create f) fs)) (t1\<lparr>lib := h\<rparr>)" .
  let ?new = "\<lparr>fileName = f, fileBytes = take 0 data, filePosition = 0\<rparr>" and ?t2 = "t1\<lparr>lib := h\<rparr>"
  have c: "on_lib (create_file file_ops f) t1 = Some (length fs, ?t2)" "tool_files c D (spent + 4) (fs @ [?new]) ?t2"
    using h by (auto simp: on_lib_def)
  let ?s2 = "stdio_of ?t2" and ?fh = "\<lparr>hName = f, hPosition = 0, hEof = False, hWritable = False, hOpen = True\<rparr>"
  have s2: "faults ?s2 = (\<lambda>_. None)" "disk ?s2 f = Some data" using tool_filesD(2,3) [OF c(2)] f(1,2) by simp_all
  have op: "fopen f READ_ONLY ?s2 = (Some ?fh, ?s2\<lparr>calls := calls ?s2 + 1\<rparr>)" using s2 by (simp add: fopen_def libc_no_fault)
  from on_host_same [where f = "fopen f READ_ONLY", OF c(2) op] obtain t3 where
    t3: "on_host (fopen f READ_ONLY) ?t2 = (Some ?fh, t3)" "tool_files c D (spent + 4) (fs @ [?new]) t3"
      "cout t3 = cout ?t2" "cerr t3 = cerr ?t2" "errorText t3 = errorText ?t2" by auto
  have cells: "spent + 4 + (length data - 0) + 4 * ((length data - 0) div bufferSize + 1) = spent + import_cells data"
    by (simp add: import_cells_def)
  have "length fs < length (fs @ [?new])" "(fs @ [?new]) ! length fs = ?new" by simp_all
  from import_loop_law [OF t3(2) this f(1,2), of ?fh, unfolded cells] t(2) obtain fh' t4 where
    t4: "import_loop (length fs) f ?fh t3 = Some (0, fh', t4)"
      "tool_files c D (spent + import_cells data) (fs @ [\<lparr>fileName = f, fileBytes = data, filePosition = length data\<rparr>]) t4"
      "cout t4 = cout t3" "cerr t4 = cerr t3" "errorText t4 = errorText t3" by auto
  let ?s4 = "stdio_of t4"
  have s4: "faults ?s4 = (\<lambda>_. None)" using tool_filesD(2) [OF t4(2)] .
  have "fclose fh' ?s4 = (True, ?s4\<lparr>calls := calls ?s4 + 1\<rparr>)" using s4 by (simp add: fclose_def libc_no_fault)
  from on_host_same [where f = "fclose fh'", OF t4(2) this] obtain t5 where
    t5: "on_host (fclose fh') t4 = (True, t5)"
      "tool_files c D (spent + import_cells data) (fs @ [\<lparr>fileName = f, fileBytes = data, filePosition = length data\<rparr>]) t5"
      "cout t5 = cout t4" "cerr t5 = cerr t4" "errorText t5 = errorText t4" by auto
  have "doImport files f t = Some (0, fileApisByName (lib t5), t5)"
    using t1(1) c(1) t3(1) t4(1) t5(1) directory_law [OF t5(2)] by (simp add: doImport_def f(6))
  then show ?thesis
    using t5(2) tool_filesD(5) [OF t5(2)] t1(3-5) t3(3-5) t4(3-5) t5(3-5)
    by (intro exI [of _ "fileApisByName (lib t5)"] exI [of _ t5]) simp
qed

lemma run_imports_law:
  assumes "tool_files c D spent fs t" "om_keys files = fileName ` set fs"
    "drop n args = concat (map (\<lambda>f. [''-i'', f]) names)" "2 \<le> n" "distinct names" "set names \<inter> fileName ` set fs = {}"
    "\<forall>f \<in> set names. D f = Some (data f) \<and> f \<noteq> c \<and> c_string f \<and> length f \<le> 118"
    "spent + sum_list (map (\<lambda>f. import_cells (data f)) names) \<le> 134217000"
  shows "\<exists>t'. run_switches args 1 0 n files t = Some (0, t') \<and>
    tool_files c D (spent + sum_list (map (\<lambda>f. import_cells (data f)) names))
      (fs @ map (\<lambda>f. \<lparr>fileName = f, fileBytes = data f, filePosition = length (data f)\<rparr>) names) t' \<and>
    cout t' = cout t \<and> cerr t' = cerr t \<and> errorText t' = errorText t"
  using assms
proof (induction names arbitrary: n spent fs t files)
  case Nil
  then have "\<not> n < length args" by simp
  then have "run_switches args 1 0 n files t = Some (0, t)" by (subst run_switches.simps) simp
  with Nil show ?case by simp
next
  case (Cons f names)
  note p = Cons.prems
  have d: "drop n args = ''-i'' # f # concat (map (\<lambda>f. [''-i'', f]) names)" using p(3) by simp
  have d1: "drop (n + 1) args = f # concat (map (\<lambda>f. [''-i'', f]) names)"
    "drop (n + 2) args = concat (map (\<lambda>f. [''-i'', f]) names)"
    using arg_cong [OF d, of "drop 1"] arg_cong [OF d, of "drop 2"] by (simp_all add: add.commute)
  have a: "args ! n = ''-i''" "args ! (n + 1) = f" "n < length args" "n + 1 < length args"
    using nth_via_drop [OF d] nth_via_drop [OF d1(1)] d d1(1) by (metis drop_all list.distinct(1) not_le)+
  have f: "D f = Some (data f)" "f \<noteq> c" "c_string f" "length f \<le> 118" "f \<notin> fileName ` set fs" "om_find f files = None"
    using p(2,6,7) by simp_all
  have "spent + import_cells (data f) \<le> 134217000" using p(8) by simp
  from doImport_law [OF p(1) this f] obtain files' t' where
    i: "doImport files f t = Some (0, files', t')"
      "tool_files c D (spent + import_cells (data f)) (fs @ [\<lparr>fileName = f, fileBytes = data f, filePosition = length (data f)\<rparr>]) t'"
      "om_keys files' = insert f (fileName ` set fs)" "cout t' = cout t" "cerr t' = cerr t" "errorText t' = errorText t" by blast
  have n: "next_argument args 1 n = n + 1" using p(4) by (simp add: next_argument_def)
  have "run_switch args 1 n files t = Some (0, n + 1, files', t')"
    using a n i(1) by (simp add: run_switch_def Let_def)
  then have step: "run_switches args 1 0 n files t = run_switches args 1 0 (n + 2) files' t'"
    using a(3) p(4) by (subst run_switches.simps) simp
  have keys: "om_keys files' = fileName ` set (fs @ [\<lparr>fileName = f, fileBytes = data f, filePosition = length (data f)\<rparr>])"
    using i(3) by simp
  have "2 \<le> n + 2" "distinct names"
    "set names \<inter> fileName ` set (fs @ [\<lparr>fileName = f, fileBytes = data f, filePosition = length (data f)\<rparr>]) = {}"
    "\<forall>f \<in> set names. D f = Some (data f) \<and> f \<noteq> c \<and> c_string f \<and> length f \<le> 118"
    "spent + import_cells (data f) + sum_list (map (\<lambda>f. import_cells (data f)) names) \<le> 134217000"
    using p(5-8) by auto
  from Cons.IH [OF i(2) keys d1(2) this] obtain t'' where
    r: "run_switches args 1 0 (n + 2) files' t' = Some (0, t'')"
      "tool_files c D (spent + import_cells (data f) + sum_list (map (\<lambda>f. import_cells (data f)) names))
        ((fs @ [\<lparr>fileName = f, fileBytes = data f, filePosition = length (data f)\<rparr>]) @
         map (\<lambda>f. \<lparr>fileName = f, fileBytes = data f, filePosition = length (data f)\<rparr>) names) t''"
      "cout t'' = cout t'" "cerr t'' = cerr t'" "errorText t'' = errorText t'" by blast
  show ?case using step r i(4-6) by (intro exI [of _ t'']) (simp add: add.assoc)
qed

text \<open>The whole run.\<close>

lemma close_tool_law:
  assumes t: "tool_files c D spent fs t" "spent + 4 * length fs \<le> 134217000"
  shows "\<exists>h bytes. on_lib file_container_close t = Some (NoStatus, t\<lparr>lib := h\<rparr>) \<and> faults (io (device h)) = (\<lambda>_. None) \<and>
    disk (io (device h)) = D(c := Some bytes) \<and> closed_container fileIdentifier (spent + 4 * length fs) fs bytes"
proof -
  from t(1) obtain used eof where l: "files_like (fc_on c D) fc_content used eof spent fs (lib t)"
    and id: "currentFileIdentifier (lib t) = fileIdentifier" by (auto simp: tool_files_def)
  from file_container_close_law [OF l t(2)] id show ?thesis by (auto simp: on_lib_def)
qed

lemma tool_on_fields:
  "lib (tool_on unset s seed uninit strerror) = file_container_new unset s seed uninit fileIdentifier True"
  "cout (tool_on unset s seed uninit strerror) = []" "cerr (tool_on unset s seed uninit strerror) = []"
  "errorText (tool_on unset s seed uninit strerror) = strerror"
  by (simp_all add: tool_on_def)

lemma ic_main_container:
  assumes "\<not> (c \<noteq> [] \<and> hd c = CHR 0x2D)" "set args \<inter> {''-h'', ''--help'', ''-?''} = {}"
  shows "ic_main (p # c # args) t = run_container (p # c # args) 1 t"
proof -
  have "c \<noteq> ''-h''" "c \<noteq> ''--help''" "c \<noteq> ''-?''" using assms(1) by auto
  moreover have "\<not> list_ex (\<lambda>a. a = ''-h'' \<or> a = ''--help'' \<or> a = ''-?'') args" using assms(2) by (auto simp: list_ex_iff)
  ultimately show ?thesis using assms(1) by (auto simp: ic_main_def)
qed

lemma import_run_law:
  assumes s: "faults s = (\<lambda>_. None)" "disk s c = Some []" and c: "\<not> (c \<noteq> [] \<and> hd c = CHR 0x2D)"
    and names: "distinct names" "\<forall>f \<in> set names. disk s f = Some (data f) \<and> f \<noteq> c \<and> c_string f \<and> length f \<le> 118"
      "set names \<inter> {''-h'', ''--help'', ''-?''} = {}"
    and room: "sum_list (map (\<lambda>f. import_cells (data f)) names) + 4 * length names \<le> 134217000"
  shows "\<exists>t bytes. ic_main (p # c # concat (map (\<lambda>f. [''-i'', f]) names)) (tool_on unset s seed uninit strerror) = Some (0, t) \<and>
    cout t = [] \<and> cerr t = [] \<and> faults (stdio_of t) = (\<lambda>_. None) \<and> disk (stdio_of t) = (disk s)(c := Some bytes) \<and>
    closed_container fileIdentifier (sum_list (map (\<lambda>f. import_cells (data f)) names) + 4 * length names)
      (map (\<lambda>f. \<lparr>fileName = f, fileBytes = data f, filePosition = length (data f)\<rparr>) names) bytes"
proof -
  let ?args = "p # c # concat (map (\<lambda>f. [''-i'', f]) names)" and ?t = "tool_on unset s seed uninit strerror"
  let ?fs = "map (\<lambda>f. \<lparr>fileName = f, fileBytes = data f, filePosition = length (data f)\<rparr>) names"
  let ?n = "sum_list (map (\<lambda>f. import_cells (data f)) names)"
  have "length fileIdentifier \<le> 4088" by (simp add: fileIdentifier_def)
  from file_container_open_empty [OF s this] obtain h n where
    o: "file_container_open c READ_WRITE (file_container_new unset s seed uninit fileIdentifier True) = Some (NoStatus, h)"
      "files_like (fc_on c (disk s)) fc_content {..< n} n 0 [] h" "lastStatus h = NoStatus" "currentFileIdentifier h = fileIdentifier" .
  let ?t1 = "?t\<lparr>lib := h\<rparr>"
  have t1: "tool_files c (disk s) 0 [] ?t1" using o(2,4) by (auto simp: tool_files_def)
  have op: "on_lib (file_container_open c READ_WRITE) ?t = Some (NoStatus, ?t1)" using o(1) by (simp add: on_lib_def tool_on_fields)
  have pre: "om_keys (fileApisByName (lib ?t1)) = fileName ` set []" "drop 2 ?args = concat (map (\<lambda>f. [''-i'', f]) names)"
    "(2 :: nat) \<le> 2" "set names \<inter> fileName ` set [] = {}" "0 + ?n \<le> 134217000"
    using tool_filesD(5) [OF t1] room by simp_all
  from run_imports_law [OF t1 pre(1-3) names(1) pre(4) names(2) pre(5)] obtain t2 where
    i: "run_switches ?args 1 0 2 (fileApisByName (lib ?t1)) ?t1 = Some (0, t2)" "tool_files c (disk s) ?n ?fs t2"
      "cout t2 = []" "cerr t2 = []" by (auto simp: tool_on_fields)
  have first: "run_switches ?args 1 0 1 (fileApisByName (lib ?t1)) ?t1 = Some (0, t2)"
    using i(1) by (subst run_switches.simps) (simp add: numeral_2_eq_2)
  have "?n + 4 * length ?fs \<le> 134217000" using room by simp
  from close_tool_law [OF i(2) this] obtain h3 bytes where
    cl: "on_lib file_container_close t2 = Some (NoStatus, t2\<lparr>lib := h3\<rparr>)" "faults (io (device h3)) = (\<lambda>_. None)"
      "disk (io (device h3)) = (disk s)(c := Some bytes)" "closed_container fileIdentifier (?n + 4 * length ?fs) ?fs bytes" by blast
  have "run_container ?args 1 ?t = Some (0, t2\<lparr>lib := h3\<rparr>)"
    using op directory_law [OF t1] o(3) first cl(1) tool_filesD(7) [OF i(2)] by (simp add: run_container_def)
  moreover have "set (concat (map (\<lambda>f. [''-i'', f]) names)) \<inter> {''-h'', ''--help'', ''-?''} = {}" using names(3) by auto
  ultimately have "ic_main ?args ?t = Some (0, t2\<lparr>lib := h3\<rparr>)" using ic_main_container [OF c] by simp
  then show ?thesis using i(3,4) cl(2-4) by (intro exI [of _ "t2\<lparr>lib := h3\<rparr>"] exI [of _ bytes]) simp
qed

subsection \<open>Exporting\<close>

lemma extract_loop_law:
  assumes "tool_files c D spent fs t" "r < length fs" "fs ! r = \<lparr>fileName = n, fileBytes = data, filePosition = p\<rparr>"
    "D n = Some (take p data)" "n \<noteq> c" "hOpen fh" "hWritable fh" "hName fh = n" "hPosition fh = p" "p \<le> length data"
    "length buf = bufferSize" "spent \<le> 134217000"
  shows "\<exists>fh' t'. extract_loop r n fh buf (length data - p) t = Some (0, fh', t') \<and>
    tool_files c (D(n := Some data)) spent (fs[r := \<lparr>fileName = n, fileBytes = data, filePosition = length data\<rparr>]) t' \<and>
    cout t' = cout t \<and> cerr t' = cerr t \<and> errorText t' = errorText t"
  using assms
proof (induction "length data - p" arbitrary: p D fs fh buf t rule: less_induct)
  case less
  note p = less.prems
  show ?case
  proof (cases "p = length data")
    case True
    have "D(n := Some data) = D" "fs[r := \<lparr>fileName = n, fileBytes = data, filePosition = length data\<rparr>] = fs"
      using p(3,4) True by (auto simp: list_update_same_conv p(2))
    moreover have "extract_loop r n fh buf (length data - p) t = Some (0, fh, t)"
      using True by (subst extract_loop.simps) simp
    ultimately show ?thesis using p(1) by simp
  next
    case False
    let ?m = "min bufferSize (length data - p)"
    have m: "0 < length data - p" "(if length data - p < bufferSize then length data - p else bufferSize) = ?m"
      "0 < ?m" "?m \<le> length buf" "?m < 4294967295" using False p(10,11) by simp_all
    have rd: "spent + op_cells (Read r ?m buf) \<le> 134217000" "callable (Read r ?m buf) fs" using p(2,12) m by simp_all
    from on_lib_law [OF p(1) rd] obtain h where
      h: "run_op file_ops (Read r ?m buf) (lib t) = Some (fst (abs_op (Read r ?m buf) fs), h)"
        "tool_files c D (spent + op_cells (Read r ?m buf)) (snd (abs_op (Read r ?m buf) fs)) (t\<lparr>lib := h\<rparr>)" .
    let ?bytes = "take ?m (drop p data)" and ?f = "\<lparr>fileName = n, fileBytes = data, filePosition = p + ?m\<rparr>"
    let ?buf = "overlay buf 0 ?bytes" and ?t = "t\<lparr>lib := h\<rparr>"
    have mm: "min ?m (length data - p) = ?m" by simp
    have rd: "on_lib (file_read file_ops r ?m buf) t = Some ((ReadSuccessful ?m, ?buf), ?t)"
      "tool_files c D spent (fs[r := ?f]) ?t"
      using h p(3) mm by (auto simp: on_lib_def Let_def)
    have tk: "take ?m ?buf = ?bytes" "length ?bytes = ?m" "length ?buf = bufferSize"
      using m p(10,11) by (simp_all add: overlay_def)
    let ?s = "stdio_of ?t"
    have s: "faults ?s = (\<lambda>_. None)" "disk ?s n = Some (take p data)"
      using tool_filesD(2,3) [OF rd(2)] p(4,5) by simp_all
    let ?fh = "fh\<lparr>hPosition := p + ?m\<rparr>"
    let ?s' = "?s\<lparr>calls := calls ?s + 1, disk := (disk ?s)(n := Some (take (p + ?m) data))\<rparr>"
    have b: "overlay (take p data) p (take ?m ?bytes) = take (p + ?m) data" "length (take p data) = p"
      using p(10) by (simp_all add: overlay_def take_add)
    have wr: "fwrite ?bytes fh ?s = Some (?m, ?fh, ?s')"
      using s p(6-9) tk(2) b m(3) by (simp add: fwrite_def libc_no_fault file_of_def Let_def)
    have fs': "faults ?s' = (\<lambda>_. None)" "disk ?s' c = disk ?s c" using s(1) p(5) by simp_all
    from on_host_law [where f = "\<lambda>_. ((), ?s')", OF rd(2) refl fs'] obtain t1 where
      t1: "on_host (\<lambda>_. ((), ?s')) ?t = ((), t1)" "tool_files c (disk ?s') spent (fs[r := ?f]) t1"
        "cout t1 = cout t" "cerr t1 = cerr t" "errorText t1 = errorText t" by auto
    let ?D = "D(n := Some (take (p + ?m) data))"
    have t1': "tool_files c ?D spent (fs[r := ?f]) t1"
      by (rule tool_files_cong [OF t1(2)]) (use tool_filesD(3) [OF rd(2)] in simp)
    have rest: "length data - p - ?m = length data - (p + ?m)" "p + ?m \<le> length data" "length data - (p + ?m) < length data - p"
      using m(1,3) p(10) by simp_all
    have step: "extract_loop r n fh buf (length data - p) t = extract_loop r n ?fh ?buf (length data - (p + ?m)) t1"
      using m(1) rd(1) tk wr t1(1) by (subst extract_loop.simps) (simp add: m(2) rest(1) Let_def)
    have "r < length (fs[r := ?f])" "fs[r := ?f] ! r = ?f" "?D n = Some (take (p + ?m) data)" "hOpen ?fh" "hWritable ?fh"
      "hName ?fh = n" "hPosition ?fh = p + ?m" using p(2,6-8) by simp_all
    from less.hyps [OF rest(3) t1' this(1-3) p(5) this(4-7) rest(2) tk(3) p(12)] obtain fh' t' where
      i: "extract_loop r n ?fh ?buf (length data - (p + ?m)) t1 = Some (0, fh', t')"
        "tool_files c (?D(n := Some data)) spent (fs[r := ?f, r := \<lparr>fileName = n, fileBytes = data, filePosition = length data\<rparr>]) t'"
        "cout t' = cout t1" "cerr t' = cerr t1" "errorText t' = errorText t1" by blast
    then show ?thesis using step t1(3-5) by (intro exI [of _ fh'] exI [of _ t']) simp
  qed
qed

lemma extract_law:
  assumes t: "tool_files c D spent fs t" "spent \<le> 134217000"
    and r: "r < length fs" "fs ! r = \<lparr>fileName = n, fileBytes = data, filePosition = 0\<rparr>" "n \<noteq> c"
  shows "\<exists>t'. extractVirtualFile r t = Some (0, t') \<and>
    tool_files c (D(n := Some data)) spent (fs[r := \<lparr>fileName = n, fileBytes = data, filePosition = length data\<rparr>]) t' \<and>
    cout t' = cout t @ ''Extracted '' @ n @ '' ('' @ dec_string (length data) @ '' bytes)'' @ endl \<and>
    cerr t' = cerr t \<and> errorText t' = errorText t"
proof -
  have "spent + op_cells (Size r) \<le> 134217000" "callable (Size r) fs" using t(2) r(1) by simp_all
  from on_lib_law [OF t(1) this] obtain h where
    h: "run_op file_ops (Size r) (lib t) = Some (fst (abs_op (Size r) fs), h)"
      "tool_files c D (spent + op_cells (Size r)) (snd (abs_op (Size r) fs)) (t\<lparr>lib := h\<rparr>)" .
  let ?t = "t\<lparr>lib := h\<rparr>"
  have sz: "on_lib (file_size file_ops r) t = Some (int (length data), ?t)" "tool_files c D spent fs ?t"
    using h r(2) by (auto simp: on_lib_def)
  have "length data \<le> spent" using tool_filesD(9) [OF t(1) r(1)] r(2) by simp
  then have u: "unsigned_64 (int (length data)) = length data" using t(2) unsigned_long_long by simp
  have nm: "file_name r (lib t) = Some n" using tool_filesD(8) [OF t(1) r(1)] r(2) by simp
  let ?s = "stdio_of ?t" and ?fh = "\<lparr>hName = n, hPosition = 0, hEof = False, hWritable = True, hOpen = True\<rparr>"
  let ?s' = "?s\<lparr>calls := calls ?s + 1, disk := (disk ?s)(n := Some [])\<rparr>"
  have s: "faults ?s = (\<lambda>_. None)" using tool_filesD(2) [OF sz(2)] .
  have op: "fopen n OVERWRITE ?s = (Some ?fh, ?s')" using s by (simp add: fopen_def libc_no_fault)
  have s': "faults ?s' = (\<lambda>_. None)" "disk ?s' c = disk ?s c" using s r(3) by simp_all
  from on_host_law [where f = "fopen n OVERWRITE", OF sz(2) op s'] obtain t1 where
    t1: "on_host (fopen n OVERWRITE) ?t = (Some ?fh, t1)" "tool_files c (disk ?s') spent fs t1"
      "cout t1 = cout t" "cerr t1 = cerr t" "errorText t1 = errorText t" by auto
  have t1': "tool_files c (D(n := Some [])) spent fs t1"
    by (rule tool_files_cong [OF t1(2)]) (use tool_filesD(3) [OF sz(2)] in simp)
  let ?buf = "new_array (junk h) bufferSize"
  have pre: "(D(n := Some [])) n = Some (take 0 data)" "hOpen ?fh" "hWritable ?fh" "hName ?fh = n" "hPosition ?fh = 0"
    "0 \<le> length data" "length ?buf = bufferSize" by (simp_all add: new_array_def)
  from extract_loop_law [OF t1' r(1,2) pre(1) r(3) pre(2-7) t(2), unfolded fun_upd_upd diff_zero] obtain fh' t2 where
    t2: "extract_loop r n ?fh ?buf (length data) t1 = Some (0, fh', t2)"
      "tool_files c (D(n := Some data)) spent (fs[r := \<lparr>fileName = n, fileBytes = data, filePosition = length data\<rparr>]) t2"
      "cout t2 = cout t1" "cerr t2 = cerr t1" "errorText t2 = errorText t1" by blast
  let ?t3 = "say (''Extracted '' @ n @ '' ('' @ dec_string (length data) @ '' bytes)'' @ endl) t2"
  have t3: "tool_files c (D(n := Some data)) spent (fs[r := \<lparr>fileName = n, fileBytes = data, filePosition = length data\<rparr>]) ?t3"
    using t2(2) by (simp add: say_def tool_files_fields)
  have "fclose fh' (stdio_of ?t3) = (True, (stdio_of ?t3)\<lparr>calls := calls (stdio_of ?t3) + 1\<rparr>)"
    using tool_filesD(2) [OF t3] by (simp add: fclose_def libc_no_fault)
  from on_host_same [where f = "fclose fh'", OF t3 this] obtain t4 where
    t4: "on_host (fclose fh') ?t3 = (True, t4)"
      "tool_files c (D(n := Some data)) spent (fs[r := \<lparr>fileName = n, fileBytes = data, filePosition = length data\<rparr>]) t4"
      "cout t4 = cout ?t3" "cerr t4 = cerr ?t3" "errorText t4 = errorText ?t3" by auto
  have "extractVirtualFile r t = Some (0, t4)"
    using nm sz(1) u t1(1) t2(1) t4(1) by (simp add: extractVirtualFile_def Let_def)
  then show ?thesis using t4(2-5) t2(3-5) t1(3-5) by (intro exI [of _ t4]) (simp add: say_def)
qed

lemma export_law:
  assumes "tool_files c D spent fs t" "spent \<le> 134217000" "distinct (map fst m)" "distinct (map snd m)"
    "\<forall>(n, r) \<in> set m. r < length fs \<and> fileName (fs ! r) = n \<and> filePosition (fs ! r) = 0 \<and> n \<noteq> c"
  shows "\<exists>t' D' fs'. doExport m 0 t = Some (0, t') \<and> tool_files c D' spent fs' t' \<and> length fs' = length fs \<and>
    (\<forall>(n, r) \<in> set m. D' n = Some (fileBytes (fs ! r))) \<and> (\<forall>n. n \<notin> fst ` set m \<longrightarrow> D' n = D n) \<and> cerr t' = cerr t"
  using assms
proof (induction m arbitrary: D fs t)
  case Nil
  then show ?case by (intro exI [of _ t] exI [of _ D] exI [of _ fs]) simp
next
  case (Cons p m)
  obtain n r where p: "p = (n, r)" by fastforce
  note a = Cons.prems
  have r: "r < length fs" "fs ! r = \<lparr>fileName = n, fileBytes = fileBytes (fs ! r), filePosition = 0\<rparr>" "n \<noteq> c"
    using a(5) p by auto
  let ?f = "\<lparr>fileName = n, fileBytes = fileBytes (fs ! r), filePosition = length (fileBytes (fs ! r))\<rparr>"
  from extract_law [OF a(1,2) r] obtain t1 where
    e: "extractVirtualFile r t = Some (0, t1)" "tool_files c (D(n := Some (fileBytes (fs ! r)))) spent (fs[r := ?f]) t1"
      "cerr t1 = cerr t" by blast
  have nin: "n \<notin> fst ` set m" "r \<notin> snd ` set m" using a(3,4) p by simp_all
  then have other: "(fs[r := ?f]) ! q = fs ! q" if "(k, q) \<in> set m" for k q
    using that by (metis nth_list_update_neq image_eqI snd_conv)
  have "distinct (map fst m)" "distinct (map snd m)" using a(3,4) by simp_all
  moreover have "\<forall>(k, q) \<in> set m. q < length (fs[r := ?f]) \<and> fileName (fs[r := ?f] ! q) = k \<and> filePosition (fs[r := ?f] ! q) = 0 \<and> k \<noteq> c"
    using a(5) other by fastforce
  ultimately obtain t' D' fs' where
    i: "doExport m 0 t1 = Some (0, t')" "tool_files c D' spent fs' t'" "length fs' = length (fs[r := ?f])"
      "\<forall>(k, q) \<in> set m. D' k = Some (fileBytes (fs[r := ?f] ! q))"
      "\<forall>k. k \<notin> fst ` set m \<longrightarrow> D' k = (D(n := Some (fileBytes (fs ! r)))) k" "cerr t' = cerr t1"
    using Cons.IH [OF e(2) a(2)] by blast
  have "D' k = Some (fileBytes (fs ! q))" if "(k, q) \<in> set (p # m)" for k q
  proof (cases "(k, q) \<in> set m")
    case True
    with i(4) other [OF True] show ?thesis by fastforce
  next
    case False
    with that p have "k = n" "q = r" by simp_all
    with i(5) nin show ?thesis by simp
  qed
  then have "\<forall>(k, q) \<in> set (p # m). D' k = Some (fileBytes (fs ! q))" by blast
  moreover have "D' k = D k" if "k \<notin> fst ` set (p # m)" for k
  proof -
    have "k \<noteq> n" "k \<notin> fst ` set m" using that p by simp_all
    then show ?thesis using i(5) by simp
  qed
  moreover have "doExport (p # m) 0 t = Some (0, t')" using e(1) i(1) p by simp
  ultimately show ?case
    using i(2,3,6) e(3) by (intro exI [of _ t'] exI [of _ D'] exI [of _ fs'] conjI) (simp_all del: set_simps)
qed

lemma rewound_name: "fileName (rewound f) = fileName f"
  by (simp add: rewound_def)

lemma export_run_law:
  assumes s: "faults s = (\<lambda>_. None)" "disk s c = Some bytes" and c: "\<not> (c \<noteq> [] \<and> hd c = CHR 0x2D)"
    and b: "closed_container fileIdentifier spent fs bytes" "spent + 4 * length fs \<le> 134217000" "c \<notin> fileName ` set fs"
  shows "\<exists>t. ic_main [p, c, ''-X''] (tool_on unset s seed uninit strerror) = Some (0, t) \<and> cerr t = [] \<and>
    (\<forall>f \<in> set fs. disk (stdio_of t) (fileName f) = Some (fileBytes f)) \<and>
    (\<forall>n. n \<notin> fileName ` set fs \<and> n \<noteq> c \<longrightarrow> disk (stdio_of t) n = disk s n)"
proof -
  let ?args = "[p, c, ''-X'']" and ?t = "tool_on unset s seed uninit strerror"
  have sp: "spent \<le> 134217000" using b(2) by simp
  from file_container_reopen_law [OF s b(1) sp, of unset seed uninit True] obtain h files h' eof fs' where
    o: "file_container_open c READ_WRITE (file_container_new unset s seed uninit fileIdentifier True) = Some (NoStatus, h)"
      "directory file_ops h = Some (files, h')" "lastStatus h' = NoStatus" "mset fs' = mset (map rewound fs)"
      "\<forall>name r. om_find name files = Some r \<longleftrightarrow> r < length fs' \<and> fileName (fs' ! r) = name" "om_sorted files"
      "files_like (fc_on c (disk s)) fc_content {..< eof} eof spent fs' h'" "currentFileIdentifier h' = fileIdentifier" by blast
  let ?t1 = "?t\<lparr>lib := h'\<rparr>"
  have t1: "tool_files c (disk s) spent fs' ?t1" using o(7,8) by (auto simp: tool_files_def)
  have op: "on_lib (file_container_open c READ_WRITE) ?t = Some (NoStatus, ?t\<lparr>lib := h\<rparr>)"
    "on_lib (directory file_ops) (?t\<lparr>lib := h\<rparr>) = Some (files, ?t1)"
    using o(1,2) by (simp_all add: on_lib_def tool_on_fields)
  have sets: "set fs' = rewound ` set fs" "length fs' = length fs"
    using mset_eq_setD [OF o(4)] mset_eq_length [OF o(4)] by simp_all
  have entry: "(n, r) \<in> set files \<longleftrightarrow> r < length fs' \<and> fileName (fs' ! r) = n" for n r
    using om_find_Some_iff [OF o(6)] o(5) by blast
  have d: "distinct (map fst files)" "distinct (map snd files)"
  proof -
    show k: "distinct (map fst files)" using o(6) by (simp add: strict_sorted_iff)
    have "inj_on snd (set files)" using entry by (fastforce intro: inj_onI)
    then show "distinct (map snd files)" using k by (simp add: distinct_map)
  qed
  have each: "\<forall>(n, r) \<in> set files. r < length fs' \<and> fileName (fs' ! r) = n \<and> filePosition (fs' ! r) = 0 \<and> n \<noteq> c"
  proof (clarify, intro conjI)
    fix n r assume "(n, r) \<in> set files"
    then show r: "r < length fs'" "fileName (fs' ! r) = n" using entry by blast+
    from r(1) sets(1) obtain f where "f \<in> set fs" "fs' ! r = rewound f" using nth_mem by blast
    then show "filePosition (fs' ! r) = 0" "n \<noteq> c" using r(2) b(3) by (auto simp: rewound_def)
  qed
  from export_law [OF t1 sp d each] obtain t2 D' fs'' where
    e: "doExport files 0 ?t1 = Some (0, t2)" "tool_files c D' spent fs'' t2" "length fs'' = length fs'"
      "\<forall>(n, r) \<in> set files. D' n = Some (fileBytes (fs' ! r))" "\<forall>n. n \<notin> fst ` set files \<longrightarrow> D' n = disk s n"
      "cerr t2 = cerr ?t1" by blast
  have "run_switches ?args 1 0 3 files t2 = Some (0, t2)" by (subst run_switches.simps) simp
  moreover have "run_switch ?args 1 2 files ?t1 = Some (0, 2, files, t2)"
    using e(1) by (simp add: run_switch_def Let_def)
  ultimately have "run_switches ?args 1 0 2 files ?t1 = Some (0, t2)"
    by (subst run_switches.simps) (simp add: eval_nat_numeral)
  then have run: "run_switches ?args 1 0 1 files ?t1 = Some (0, t2)"
    by (subst run_switches.simps) (simp add: eval_nat_numeral)
  have "spent + 4 * length fs'' \<le> 134217000" using b(2) e(3) sets(2) by simp
  from close_tool_law [OF e(2) this] obtain h3 bytes' where
    cl: "on_lib file_container_close t2 = Some (NoStatus, t2\<lparr>lib := h3\<rparr>)" "disk (io (device h3)) = D'(c := Some bytes')" by blast
  have "run_container ?args 1 ?t = Some (0, t2\<lparr>lib := h3\<rparr>)"
    using op o(3) run cl(1) tool_filesD(7) [OF e(2)] by (simp add: run_container_def)
  then have "ic_main ?args ?t = Some (0, t2\<lparr>lib := h3\<rparr>)" using ic_main_container [OF c, of "[''-X'']"] by simp
  moreover have "D' (fileName f) = Some (fileBytes f)" if f: "f \<in> set fs" for f
  proof -
    from f sets(1) obtain r where r: "r < length fs'" "fs' ! r = rewound f" by (metis imageI in_set_conv_nth)
    then have "(fileName f, r) \<in> set files" using entry by (simp add: rewound_def)
    with e(4) have "D' (fileName f) = Some (fileBytes (fs' ! r))" by blast
    with r(2) show ?thesis by (simp add: rewound_def)
  qed
  moreover have "D' n = disk s n" if "n \<notin> fileName ` set fs" for n
  proof -
    have "n \<notin> fst ` set files"
    proof
      assume "n \<in> fst ` set files"
      then obtain r where "(n, r) \<in> set files" by force
      then have "r < length fs'" "fileName (fs' ! r) = n" using entry by blast+
      with sets(1) that show False by (metis (no_types, lifting) imageE imageI nth_mem rewound_name)
    qed
    with e(5) show ?thesis by blast
  qed
  moreover have "fileName f \<noteq> c" if "f \<in> set fs" for f using that b(3) by blast
  ultimately show ?thesis
    using e(6) cl(2) by (intro exI [of _ "t2\<lparr>lib := h3\<rparr>"]) (simp add: tool_on_fields)
qed

subsection \<open>Initializing\<close>

text \<open>
  The loop of \<open>doInitialize\<close> erases the first file again and again: the second time it has no
  container any more, which is an error, so a container with files is never reported as initialized.
\<close>

lemma erase_chunks_error: "has_info status \<Longrightarrow> erase_chunks K vf m status as w = Some (status, as, w)"
  by (cases m) (auto simp: erase_chunks.simps)

lemma vf_erase_result:
  "\<not> currentContainer vf \<Longrightarrow> vf_erase K scan vf w = Some (status, vf', w') \<Longrightarrow> has_info status"
  "vf_erase K scan vf w = Some (status, vf', w') \<Longrightarrow> \<not> has_info status \<Longrightarrow> \<not> currentContainer vf'"
  by (auto simp: vf_erase_def scanIfNeeded_def erase_chunks_error Let_def split: bind_splits if_splits prod.splits)

lemma doInitialize_fails:
  assumes "doInitialize files t = Some (exitStatus, files', t')" "files \<noteq> []"
  shows "exitStatus = 1"
proof -
  let ?r = "snd (hd files)"
  have first: "file_at ?r (lib t1) = Some vf \<Longrightarrow> \<not> currentContainer vf"
    if "on_lib (file_erase file_ops ?r) u = Some (status, t1)" "\<not> has_info status" for u status t1 vf
  proof -
    from that obtain vf0 vf1 h1 where
      e: "vf_erase file_ops (scan_from file_ops ?r) vf0 (lib u) = Some (status, vf1, h1)" "t1 = u\<lparr>lib := put_file ?r vf1 h1\<rparr>"
      by (auto simp: on_lib_def file_erase_def with_file_def split: bind_splits)
    have "\<not> currentContainer vf1" by (rule vf_erase_result(2) [OF e(1) that(2)])
    moreover assume "file_at ?r (lib t1) = Some vf"
    ultimately show ?thesis using e(2) by (simp add: file_at_def put_file_def split: if_splits)
  qed
  have second: "has_info status" if "on_lib (file_erase file_ops ?r) u = Some (status, t1)"
    "\<And>vf. file_at ?r (lib u) = Some vf \<Longrightarrow> \<not> currentContainer vf" for u status t1
  proof -
    from that(1) obtain vf0 vf1 h1 where
      e: "file_at ?r (lib u) = Some vf0" "vf_erase file_ops (scan_from file_ops ?r) vf0 (lib u) = Some (status, vf1, h1)"
      by (auto simp: on_lib_def file_erase_def with_file_def split: bind_splits)
    show ?thesis by (rule vf_erase_result(1) [OF that(2) [OF e(1)] e(2)])
  qed
  have loop: "initialize_loop files status t1 = Some (status, t1)" if "has_info status" for status t1
    using that by (subst initialize_loop.simps) simp
  have "has_info status" if "initialize_loop files NoStatus t = Some (status, t1)" for status t1
  proof -
    from that assms(2) obtain s1 u where
      u: "on_lib (file_erase file_ops ?r) t = Some (s1, u)" "initialize_loop files s1 u = Some (status, t1)"
      by (subst (asm) initialize_loop.simps) (auto split: bind_splits)
    show ?thesis
    proof (cases "has_info s1")
      case True
      then show ?thesis using u(2) loop by simp
    next
      case False
      with u(2) assms(2) obtain s2 v where
        v: "on_lib (file_erase file_ops ?r) u = Some (s2, v)" "initialize_loop files s2 v = Some (status, t1)"
        by (subst (asm) initialize_loop.simps) (auto split: bind_splits)
      have "has_info s2" using second [OF v(1)] first [OF u(1) False] by blast
      then show ?thesis using v(2) loop by simp
    qed
  qed
  with assms(1) show ?thesis by (auto simp: doInitialize_def split: bind_splits if_splits)
qed

end
