(* ===== verification/Spec2Isabelle.thy ===== *)
theory Spec2Isabelle
  imports Free_Space_Tracker Ring_Buffer Crc Status Chunk_Header Memory_Container File_Container Free_Space_Flush Container_Persistence Ic_Tool_Laws
begin

text \<open>
  A verification library of inecontainer, a C++ library that keeps several virtual files in one
  container: a file on disk, a block of memory or any other random access medium. A container is
  a sequence of chunks of 32, 64, ..., 4096 bytes, each with a 4 byte common header (type, size,
  valid bytes, CRC): a file header chunk, and then for every virtual file a stream start chunk
  with its name and data chunks with its bytes, between them fill chunks over free space. The
  address of a chunk is its file index, its position divided by 32.

  How the parts interact. \<open>Container::open\<close> writes or checks the file header. A virtual file
  buffers appended bytes in a ring buffer (the tail buffer) and one changed chunk in the chunk
  buffer; when they must reach the medium, it reserves an area from the free space tracker,
  builds a data chunk over a scatter gather list of buffer pieces, saves it through the
  container's medium, gives back what the chunk did not need and enters the chunk in its chunk
  map. A container that is opened again finds its files by traversing the chunks.

  Theories and sources (under \<open>src/inecontainer/\<close>; definitions have the names of the code, with
  a prefix where a name occurs in several classes: \<open>vf_\<close> for \<open>VirtualFileImpl\<close>, \<open>file_\<close> for
  \<open>VirtualFile\<close>, \<open>mc_\<close>, \<open>fc_\<close> for the two media, \<open>rb_\<close> for the ring buffer):
  \<^item> \<open>Prelude\<close>, \<open>Ordered_Map\<close>: 32 and 64 bit unsigned arithmetic on \<open>nat\<close> (\<open>u32\<close>, \<open>sub32\<close>, \<open>u64\<close>,
    \<open>sub64\<close>: every wrap-around is written out), \<open>assertion\<close> as an option computation, list lemmas;
    \<open>std::map\<close> as a sorted association list with iterators as keys.
  \<^item> \<open>Status\<close>: the status classes of \<open>container_status*\<close> as a datatype with their virtual methods; an object of a
    class that an application derives is an \<open>ApplicationStatus\<close> with whatever its methods return.
  \<^item> \<open>Chunk_Header\<close>, \<open>Crc\<close>: \<open>chunk_header.*\<close>, the fields of the header on a byte list, sizes, CRC.
  \<^item> \<open>Container_Area\<close>, \<open>Free_Space_Tracker\<close>: areas, free space regions, chunk map entries, and
    the tracker with all its operations. \<open>space_step\<close> is one allocation, report or flush on tracker, used cells
    and size of the container; \<open>flushArea_cells\<close> is what \<open>flushArea\<close> does to the size, cutting included. A flush that
    cuts leaves the region in the tracker, which makes allocations after it go wrong
    (\<open>cut_region_strands_cells\<close>, \<open>cut_region_handed_out_twice\<close>): \<open>admitted\<close> excludes just these.
  \<^item> \<open>Ring_Buffer\<close>, \<open>Scatter_Gather\<close>: \<open>ring_buffer.h\<close> and \<open>scatter_gather_list_segment.*\<close>; pointers
    are a block and an offset (\<open>Ptr\<close>), a memory is a map from blocks to bytes.
  \<^item> \<open>Storage\<close>, \<open>Memory_Container\<close>, \<open>File_Container\<close>: the virtual functions of a medium as a table
    \<open>container_ops\<close>; the locale \<open>storage\<close> states what the library relies on; the memory medium
    and the file medium, the latter over a model of stdio that plans faults, both interpret it.
  \<^item> \<open>Chunk\<close>, \<open>Stream_Chunk\<close>, \<open>Stream_Data_Chunk\<close>, \<open>Plain_Chunks\<close>: the chunk classes; load and save run on
    a \<open>world\<close> with the medium and the random numbers for padding.
  \<^item> \<open>Container_Impl\<close>, \<open>Virtual_File\<close>, \<open>Virtual_File_Write\<close>, \<open>Library\<close>: \<open>container_impl.*\<close>,
    \<open>virtual_file_impl.*\<close>, \<open>container_virtual_file.*\<close> and \<open>container_container.cpp\<close>. \<open>container\<close> is the
    state of \<open>ContainerImpl\<close>, \<open>virtual_file\<close> that of \<open>VirtualFileImpl\<close>; shared pointers between them
    are positions in the list \<open>virtualFiles\<close> of the state \<open>library\<close>. The file operations that may
    have to scan the container first take that scan as an argument, tied to \<open>scanContainer\<close> in
    \<open>Library\<close>.
  \<^item> \<open>Free_Space_Flush\<close>: \<open>flushArea\<close> and \<open>flushFreeSpace\<close> of a container on a medium that can be truncated are the
    step \<open>Flush\<close> of \<open>Free_Space_Tracker\<close> and touch no byte of a cell in use.
  \<^item> \<open>Stored_Stream\<close>, \<open>Byte_Stream\<close>, \<open>Stream_Operations\<close>, \<open>Stream_Append\<close>, \<open>Stream_Read\<close>, \<open>Stream_Write\<close>:
    the abstraction of a virtual file, \<open>holds bytes used vf data\<close> (the medium, the chunk buffer and
    the tail buffer together represent the byte list \<open>data\<close>, in cells that belong to this file),
    the frame relation \<open>advance\<close> (what one operation may change for the others), and one law per
    operation: \<open>vf_flush_law\<close>, \<open>vf_append_law\<close>, \<open>vf_read_law\<close>, \<open>vf_write_law\<close>.
  \<^item> \<open>Container_Opening\<close>, \<open>File_Operations\<close>: opening, creating files, and sequences of calls
    (\<open>operation\<close>, \<open>run_ops\<close>) against their specification on byte arrays (\<open>abs_ops\<close>).
    \<open>files_like\<close> is the simulation relation; its part \<open>laid_out\<close> says how the chunks of the files tile
    the container.
  \<^item> \<open>Container_Traversal\<close>, \<open>Container_Persistence\<close>: the traversal of a container, from \<open>pieces\<close> (the chunks a
    file consists of) over what it does at each to the whole (\<open>traverse_loop_law\<close>, with the invariant
    \<open>traversed\<close>); closing, opening again by a new container object, \<open>directory\<close> and \<open>streamRead\<close>.
  \<^item> \<open>Media_Containers\<close>, \<open>File_On_Disk\<close>: \<open>container_file_container.cpp\<close> and \<open>container_memory_container.cpp\<close>, the classes an
    application uses; a container in a file on a disk without faults as a further interpretation of \<open>storage\<close> that
    says what happens to the disk, with laws for opening an empty file, closing and opening again (\<open>closed_container\<close>).
  \<^item> \<open>Ic_Tool\<close>, \<open>Ic_Tool_Laws\<close>: \<open>src/ic/ic.cpp\<close>, from \<open>main\<close> (\<open>ic_main\<close>, a run from the arguments to the exit status) to
    the copying loops. The state \<open>tool\<close> has the container object, whose medium holds the disk, and the two output
    streams. Laws for the loops, for a run that imports (\<open>import_run_law\<close>) and one that exports (\<open>export_run_law\<close>).

  Groups of lemmas. Per component: functional behaviour of every operation on every branch, the
  invariant and its preservation (\<open>fm_ok\<close>, \<open>rb_ok\<close>, \<open>ledger\<close>, \<open>in_space\<close>), round trips of what is written.
  Across components: the laws above, from which the properties of this theory follow.

  Conventions and bounds. A failed assertion, an out of bounds access, a null dereference and a
  loop that does not end are \<open>None\<close>; so \<open>= Some ...\<close> states that the code returns, without any
  of these. Loops whose end is not structural are \<open>partial_function (option)\<close>, without fuel.
  Positions of chunks are 32 bit products, exact up to \<open>storage_limit\<close> (4 GiB, \<open>2 ^ 27\<close> cells of 32
  bytes); the hypotheses on \<open>eof\<close> and the budget \<open>134217000\<close> for the cells of a sequence of calls
  (\<open>op_cells\<close>: a byte takes at most one cell, a file at most 4 more) keep the container there.
  Bytes whose value C++ leaves open (uninitialised headers, random padding) are parameters of
  the state, and every law holds for all of their values.

  Not modelled: the copy operations of the public classes (a copy of a handle is the handle); the
  branches of the file medium and of the tool for other systems; the text of status descriptions
  beyond the ones in \<open>Status\<close>; what \<open>strerror\<close> says, a parameter of the tool; the unit tests and the
  generator of the CRC table. Destruction of objects and threads are outside the model: the
  library has no locks.
\<close>

section \<open>Files and their container\<close>

text \<open>A library on an empty in-memory medium and a new file, for the instances below.\<close>

definition sample_library :: "memory_container library" where
  "sample_library =
     library_of (ContainerImpl \<lparr>memoryBuffer = Some [], mcCurrentPosition = 0\<rparr> 0 (\<lambda>_. 0) ''demo'' False)"

definition sample_file :: virtual_file where
  "sample_file = VirtualFileImpl (\<lambda>_. 0) ''a'' 0"

lemma sample_library_fields:
  "mc_ok (device sample_library)" "mc_content (device sample_library) = []" "virtualFiles sample_library = []"
  "currentFileIdentifier sample_library = ''demo''" "\<not> ignoreIdentifierOnOpen sample_library"
  by (simp_all add: sample_library_def library_of_def ContainerImpl_def container.extend_def mc_ok_def mc_content_def)

lemma opened_sample:
  obtains h where "container_open memory_ops sample_library = Some (NoStatus, h)" "mc_ok (device h)"
    "in_space mc_content {..< 1} 1 h" "files_like mc_ok mc_content {..< 1} 1 0 [] h"
    "file_header_at (mc_content (device h)) ''demo''"
proof -
  have "fit_size (length ''demo'' + 8) div 32 = 1" by (simp add: fit_size_def)
  with memory.open_files_like [OF sample_library_fields(1,2) _ sample_library_fields(3)] sample_library_fields(4) obtain h where
    "container_open memory_ops sample_library = Some (NoStatus, h)" "files_like mc_ok mc_content {..< 1} 1 0 [] h"
    "file_header_at (mc_content (device h)) ''demo''" by auto
  moreover from this(2) have "mc_ok (device h)" "in_space mc_content {..< 1} 1 h" by (simp_all add: files_like_def)
  ultimately show thesis using that by blast
qed

lemma sample_file_fields:
  "holds bytes used sample_file []" "currentPosition sample_file = 0" "currentName sample_file = ''a''"
  "rb_count (tailBuffer sample_file) = 0" "file_cells sample_file = {}"
  by (simp_all add: sample_file_def new_file_holds)

text \<open>
  C1. Any sequence of \<open>newVirtualFile\<close>, \<open>append\<close>, \<open>write\<close>, \<open>read\<close>, \<open>setPosition\<close>, \<open>setPositionLast\<close>,
  \<open>flush\<close> and \<open>size\<close> calls, on any number of files in a container that was opened on an empty
  medium, returns, and returns what it would return on independent byte arrays with a position
  each: the files share the container's space, its write caches and its free space tracker
  without ever disturbing each other. The medium has no faults, file names are new, and the
  cells the calls may take up stay below the 4 GiB of the format.
\<close>
theorem files_refine_byte_arrays:
  fixes h :: "'d library"
  assumes S: "storage K ok content cursor"
    and h: "ok (device h)" "content (device h) = []" "length (currentFileIdentifier h) \<le> 4088" "virtualFiles h = []"
    and xs: "all_callable xs []" "sum_list (map op_cells xs) \<le> 134217000"
  shows "\<exists>h1 h2. container_open K h = Some (NoStatus, h1) \<and> run_ops K xs h1 = Some (fst (abs_ops xs []), h2)"
proof -
  from storage.open_files_like [OF S h] obtain h1 n where
    o1: "container_open K h = Some (NoStatus, h1)" "files_like ok content {..< n} n 0 [] h1" .
  have "0 + sum_list (map op_cells xs) \<le> 134217000" using xs(2) by simp
  from storage.run_ops_law [OF S o1(2) this xs(1)] o1(1) show ?thesis by blast
qed

theorem files_refine_byte_arrays_witness:
  "\<exists>h1 h2. container_open memory_ops sample_library = Some (NoStatus, h1) \<and>
    run_ops memory_ops [Create ''a'', Create ''b'', Append 0 [1, 2, 3], Append 1 [7], Flush 0, SetPosition 0 1,
      Write 0 [9, 8, 6], SetPosition 0 0, Read 0 9 [0, 0, 0, 0, 0, 0, 0, 0, 0], Size 1, SetPosition 1 2] h1 =
    Some ([Handle 0, Handle 1, Result (WriteSuccessful 3), Result (WriteSuccessful 1), Result NoStatus, Result NoStatus,
      Result (WriteSuccessful 3), Result NoStatus, Bytes (ReadSuccessful 4) [1, 9, 8, 6, 0, 0, 0, 0, 0], Count 1,
      Result (SeekError 2 1)], h2)"
proof -
  let ?xs = "[Create ''a'', Create ''b'', Append 0 [1, 2, 3], Append 1 [7], Flush 0, SetPosition 0 1,
      Write 0 [9, 8, 6], SetPosition 0 0, Read 0 9 [0, 0, 0, 0, 0, 0, 0, 0, 0], Size 1, SetPosition 1 2]"
  have c: "length (currentFileIdentifier sample_library) \<le> 4088" by (simp add: sample_library_fields)
  have x: "all_callable ?xs []" "sum_list (map op_cells ?xs) \<le> 134217000"
    by (simp_all add: c_string_def overlay_def)
  have "fst (abs_ops ?xs []) = [Handle 0, Handle 1, Result (WriteSuccessful 3), Result (WriteSuccessful 1), Result NoStatus,
      Result NoStatus, Result (WriteSuccessful 3), Result NoStatus, Bytes (ReadSuccessful 4) [1, 9, 8, 6, 0, 0, 0, 0, 0],
      Count 1, Result (SeekError 2 1)]"
    by (simp add: overlay_def eval_nat_numeral)
  with files_refine_byte_arrays [OF memory.storage_axioms sample_library_fields(1,2) c sample_library_fields(3) x]
  show ?thesis by simp
qed

text \<open>
  C2. What a sequence of calls left in the files outlives the container object. After \<open>close\<close>, a
  new container object on the medium that was written opens the container, its \<open>directory\<close> names exactly
  the files that were created, the handles lead to them, and any further sequence of calls
  returns what it would on byte arrays that start with the bytes each file had, positions at the
  front: nothing is lost in a cache, and the traversal enters every chunk where it belongs. The
  medium has no faults, and the cells of both sequences stay below the 4 GiB of the format.
\<close>
theorem container_persistence:
  fixes h :: "'d library"
  assumes S: "storage K ok content cursor"
    and h: "ok (device h)" "content (device h) = []" "length (currentFileIdentifier h) \<le> 4088" "virtualFiles h = []"
    and xs: "all_callable xs []" "sum_list (map op_cells xs) + 4 * length (snd (abs_ops xs [])) \<le> 134217000"
  shows "\<exists>h1 h2 h3. container_open K h = Some (NoStatus, h1) \<and> run_ops K xs h1 = Some (fst (abs_ops xs []), h2) \<and>
    container_close K h2 = Some (NoStatus, h3) \<and>
    (\<forall>new :: 'd library. device new = device h3 \<and> virtualFiles new = [] \<and>
       currentFileIdentifier new = currentFileIdentifier h \<longrightarrow>
       (\<exists>h4 dir h5 fs. container_open K new = Some (NoStatus, h4) \<and> directory K h4 = Some (dir, h5) \<and>
          lastStatus h5 = NoStatus \<and> mset fs = mset (map rewound (snd (abs_ops xs []))) \<and>
          (\<forall>name r. om_find name dir = Some r \<longleftrightarrow> r < length fs \<and> fileName (fs ! r) = name) \<and>
          (\<forall>ys. all_callable ys fs \<and>
             sum_list (map op_cells (xs @ ys)) + 4 * length (snd (abs_ops xs [])) \<le> 134217000 \<longrightarrow>
             (\<exists>h6. run_ops K ys h5 = Some (fst (abs_ops ys fs), h6)))))"
proof -
  let ?fs = "snd (abs_ops xs [])" and ?n = "sum_list (map op_cells xs) + 4 * length (snd (abs_ops xs []))"
  from storage.session_law [OF S h xs] obtain h1 h2 h3 used eof where
    s: "container_open K h = Some (NoStatus, h1)" "run_ops K xs h1 = Some (fst (abs_ops xs []), h2)"
      "container_close K h2 = Some (NoStatus, h3)" "files_like ok content used eof ?n ?fs h3"
      "\<forall>i < length ?fs. clean (virtualFiles h3 ! i)" "currentFileIdentifier h3 = currentFileIdentifier h" by blast
  have "\<exists>h4 dir h5 fs. container_open K new = Some (NoStatus, h4) \<and> directory K h4 = Some (dir, h5) \<and>
      lastStatus h5 = NoStatus \<and> mset fs = mset (map rewound ?fs) \<and>
      (\<forall>name r. om_find name dir = Some r \<longleftrightarrow> r < length fs \<and> fileName (fs ! r) = name) \<and>
      (\<forall>ys. all_callable ys fs \<and> sum_list (map op_cells (xs @ ys)) + 4 * length ?fs \<le> 134217000 \<longrightarrow>
         (\<exists>h6. run_ops K ys h5 = Some (fst (abs_ops ys fs), h6)))"
    if new: "device new = device h3 \<and> virtualFiles new = [] \<and>
       currentFileIdentifier new = currentFileIdentifier h" for new :: "'d library"
  proof -
    have n: "device new = device h3" "currentFileIdentifier new = currentFileIdentifier h3"
      "virtualFiles new = []" using new s(6) by simp_all
    from storage.reopened_directory_law [OF S s(4,5) xs(2) n] obtain h4 dir h5 fs where
      r: "container_open K new = Some (NoStatus, h4)" "directory K h4 = Some (dir, h5)" "lastStatus h5 = NoStatus"
        "mset fs = mset (map rewound ?fs)"
        "\<forall>name r. om_find name dir = Some r \<longleftrightarrow> r < length fs \<and> fileName (fs ! r) = name"
        "files_like ok content {..< eof} eof ?n fs h5" by blast
    have "\<exists>h6. run_ops K ys h5 = Some (fst (abs_ops ys fs), h6)"
      if "all_callable ys fs" "sum_list (map op_cells (xs @ ys)) + 4 * length ?fs \<le> 134217000" for ys
      using storage.run_ops_law [OF S r(6) _ that(1)] that(2) by (auto simp: algebra_simps)
    with r(1-5) show ?thesis by blast
  qed
  with s(1-3) show ?thesis by blast
qed

text \<open>A container object for the medium of another one, with an application's state of its own.\<close>

definition object_on :: "'d \<Rightarrow> 'z \<Rightarrow> ('d, 'z) library_scheme" where
  "object_on medium z = library.extend (library_of (ContainerImpl medium 7 (\<lambda>_. 255) ''demo'' False)) z"

lemma object_on_fields:
  "device (object_on d z) = d" "virtualFiles (object_on d z) = []" "\<not> ignoreIdentifierOnOpen (object_on d z)"
  "currentFileIdentifier (object_on d z) = ''demo''" "library.more (object_on d z) = z"
  by (simp_all add: object_on_def library_of_def ContainerImpl_def container.extend_def library.extend_def)

theorem container_persistence_witness:
  "\<exists>h1 h2 h3 h4 dir h5 h6. container_open memory_ops sample_library = Some (NoStatus, h1) \<and>
    run_ops memory_ops [Create ''a'', Append 0 [1, 2, 3]] h1 = Some ([Handle 0, Result (WriteSuccessful 3)], h2) \<and>
    container_close memory_ops h2 = Some (NoStatus, h3) \<and>
    container_open memory_ops (object_on (device h3) ()) = Some (NoStatus, h4) \<and>
    directory memory_ops h4 = Some (dir, h5) \<and> om_find ''a'' dir = Some 0 \<and>
    run_ops memory_ops [Size 0, Read 0 3 [0, 0, 0], Append 0 [4]] h5 =
      Some ([Count 3, Bytes (ReadSuccessful 3) [1, 2, 3], Result (WriteSuccessful 1)], h6)"
proof -
  let ?xs = "[Create ''a'', Append 0 [1, 2, 3]]" and ?ys = "[Size 0, Read 0 3 [0, 0, 0], Append 0 [4]]"
  have c: "length (currentFileIdentifier sample_library) \<le> 4088" by (simp add: sample_library_fields)
  have x: "all_callable ?xs []" "sum_list (map op_cells ?xs) + 4 * length (snd (abs_ops ?xs [])) \<le> 134217000"
    by (simp_all add: c_string_def)
  let ?f = "\<lparr>fileName = ''a'', fileBytes = [1, 2, 3], filePosition = 0\<rparr>"
  have a: "map rewound (snd (abs_ops ?xs [])) = [?f]" "fst (abs_ops ?xs []) = [Handle 0, Result (WriteSuccessful 3)]"
    by (simp_all add: rewound_def)
  have y: "all_callable ?ys [?f]" "sum_list (map op_cells (?xs @ ?ys)) + 4 * length (snd (abs_ops ?xs [])) \<le> 134217000"
    by (simp_all add: overlay_def)
  have run: "fst (abs_ops ?ys [?f]) = [Count 3, Bytes (ReadSuccessful 3) [1, 2, 3], Result (WriteSuccessful 1)]"
    by (simp add: overlay_def eval_nat_numeral)
  from container_persistence [OF memory.storage_axioms sample_library_fields(1,2) c sample_library_fields(3) x] obtain h1 h2 h3 where
    s: "container_open memory_ops sample_library = Some (NoStatus, h1)" "run_ops memory_ops ?xs h1 = Some (fst (abs_ops ?xs []), h2)"
      "container_close memory_ops h2 = Some (NoStatus, h3)" and
    n: "\<forall>new :: memory_container library. device new = device h3 \<and> virtualFiles new = [] \<and>
      currentFileIdentifier new = currentFileIdentifier sample_library \<longrightarrow>
      (\<exists>h4 dir h5 fs. container_open memory_ops new = Some (NoStatus, h4) \<and> directory memory_ops h4 = Some (dir, h5) \<and>
        lastStatus h5 = NoStatus \<and> mset fs = mset (map rewound (snd (abs_ops ?xs []))) \<and>
        (\<forall>name r. om_find name dir = Some r \<longleftrightarrow> r < length fs \<and> fileName (fs ! r) = name) \<and>
        (\<forall>ys. all_callable ys fs \<and>
          sum_list (map op_cells (?xs @ ys)) + 4 * length (snd (abs_ops ?xs [])) \<le> 134217000 \<longrightarrow>
          (\<exists>h6. run_ops memory_ops ys h5 = Some (fst (abs_ops ys fs), h6))))" by (elim exE conjE)
  let ?new = "object_on (device h3) () :: memory_container library"
  have "device ?new = device h3 \<and> virtualFiles ?new = [] \<and>
      currentFileIdentifier ?new = currentFileIdentifier sample_library"
    by (simp add: object_on_fields sample_library_fields)
  from n [rule_format, OF this] obtain h4 dir h5 fs where
    r: "container_open memory_ops ?new = Some (NoStatus, h4)" "directory memory_ops h4 = Some (dir, h5)"
      "mset fs = mset [?f]" "\<forall>name r. om_find name dir = Some r \<longleftrightarrow> r < length fs \<and> fileName (fs ! r) = name" and
    q: "\<forall>ys. all_callable ys fs \<and> sum_list (map op_cells (?xs @ ys)) + 4 * length (snd (abs_ops ?xs [])) \<le> 134217000 \<longrightarrow>
      (\<exists>h6. run_ops memory_ops ys h5 = Some (fst (abs_ops ys fs), h6))" unfolding a(1) by (elim exE conjE)
  have fs: "fs = [?f]" using r(3) by simp
  have d: "om_find ''a'' dir = Some 0" using r(4) fs by simp
  from q [rule_format, of ?ys, unfolded fs, OF conjI, OF y(1,2)] obtain h6 where "run_ops memory_ops ?ys h5 = Some (fst (abs_ops ?ys [?f]), h6)" ..
  with s r(1,2) d show ?thesis unfolding a(2) run by (intro exI conjI)
qed

text \<open>
  C3. \<open>streamRead\<close> on a new container object gives an application that accepts what it gets the bytes of every
  file that was written in earlier calls, each file's in their order and nothing else, and only
  then tells it the end of each file once, in the order of the names. \<open>note\<close> and \<open>finish\<close>
  are what the two callbacks of the application do to its state, \<open>seen\<close> the bytes it has
  of a file.
\<close>
theorem stream_read_delivers_files:
  fixes h :: "'d library" and app :: "('d, 'z) library_scheme callbacks"
  assumes S: "storage K ok content cursor"
    and h: "ok (device h)" "content (device h) = []" "length (currentFileIdentifier h) \<le> 4088" "virtualFiles h = []"
    and xs: "all_callable xs []" "sum_list (map op_cells xs) + 4 * length (snd (abs_ops xs [])) \<le> 134217000"
    and app: "\<forall>r bytes w. receivedData app r bytes w = Some (NoStatus, library.more_update (note r bytes) w)"
      "\<forall>r bytes z q. seen (note r bytes z) q = (if q = r then seen z q @ bytes else seen z q)"
      "\<forall>r w. endOfFile app r w = Some (NoStatus, library.more_update (finish r) w)"
  shows "\<exists>h1 h2 h3. container_open K h = Some (NoStatus, h1) \<and> run_ops K xs h1 = Some (fst (abs_ops xs []), h2) \<and>
    container_close K h2 = Some (NoStatus, h3) \<and>
    (\<forall>new :: ('d, 'z) library_scheme. device new = device h3 \<and> virtualFiles new = [] \<and>
       currentFileIdentifier new = currentFileIdentifier h \<and> (\<forall>r. seen (library.more new) r = []) \<longrightarrow>
       (\<exists>h4 h5 fs z. container_open K new = Some (NoStatus, h4) \<and> streamRead K app h4 = Some (NoStatus, h5) \<and>
          mset fs = mset (map rewound (snd (abs_ops xs []))) \<and>
          om_sorted (filesByName h5) \<and>
          (\<forall>name r. om_find name (filesByName h5) = Some r \<longleftrightarrow> r < length fs \<and> fileName (fs ! r) = name) \<and>
          (\<forall>r. seen z r = (if r < length fs then fileBytes (fs ! r) else [])) \<and>
          library.more h5 = fold finish (map snd (filesByName h5)) z))"
proof -
  let ?fs = "snd (abs_ops xs [])" and ?n = "sum_list (map op_cells xs) + 4 * length (snd (abs_ops xs []))"
  from storage.session_law [OF S h xs] obtain h1 h2 h3 used eof where
    s: "container_open K h = Some (NoStatus, h1)" "run_ops K xs h1 = Some (fst (abs_ops xs []), h2)"
      "container_close K h2 = Some (NoStatus, h3)" "files_like ok content used eof ?n ?fs h3"
      "\<forall>i < length ?fs. clean (virtualFiles h3 ! i)" "currentFileIdentifier h3 = currentFileIdentifier h" by blast
  have "hands_over False app note seen" using app(1,2) by (simp add: hands_over_def)
  note law = storage.streamRead_law [OF S s(4,5) xs(2) _ _ _ this _ app(3)]
  show ?thesis
    using s(1-3) law s(6) by (intro exI [of _ h1] exI [of _ h2] exI [of _ h3] conjI allI impI) simp_all
qed

theorem stream_read_delivers_files_witness:
  "\<exists>app h1 h2 h3 h4 h5. container_open memory_ops sample_library = Some (NoStatus, h1) \<and>
    run_ops memory_ops [Create ''a'', Append 0 [1, 2, 3]] h1 = Some ([Handle 0, Result (WriteSuccessful 3)], h2) \<and>
    container_close memory_ops h2 = Some (NoStatus, h3) \<and>
    container_open memory_ops (object_on (device h3) ((\<lambda>_. []), [] :: nat list)) = Some (NoStatus, h4) \<and>
    streamRead memory_ops app h4 = Some (NoStatus, h5) \<and> fst (library.more h5) (0 :: nat) = [1, 2, 3 :: byte]"
proof -
  let ?xs = "[Create ''a'', Append 0 [1, 2, 3]]"
  let ?note = "\<lambda>r bytes z. ((fst z)(r := fst z r @ bytes), snd z) :: (nat \<Rightarrow> byte list) \<times> nat list"
  let ?finish = "\<lambda>r z. (fst z, snd z @ [r]) :: (nat \<Rightarrow> byte list) \<times> nat list"
  let ?app = "\<lparr>receivedData = \<lambda>r bytes w. Some (NoStatus, library.more_update (?note r bytes) w),
      endOfFile = \<lambda>r w. Some (NoStatus, library.more_update (?finish r) w)\<rparr> ::
      (memory_container, (nat \<Rightarrow> byte list) \<times> nat list) library_scheme callbacks"
  have c: "length (currentFileIdentifier sample_library) \<le> 4088" by (simp add: sample_library_fields)
  have x: "all_callable ?xs []" "sum_list (map op_cells ?xs) + 4 * length (snd (abs_ops ?xs [])) \<le> 134217000"
    by (simp_all add: c_string_def)
  have app: "\<forall>r bytes w. receivedData ?app r bytes w = Some (NoStatus, library.more_update (?note r bytes) w)"
    "\<forall>r bytes z q. fst (?note r bytes z) q = (if q = r then fst z q @ bytes else fst z q)"
    "\<forall>r w. endOfFile ?app r w = Some (NoStatus, library.more_update (?finish r) w)" by simp_all
  let ?f = "\<lparr>fileName = ''a'', fileBytes = [1, 2, 3], filePosition = 0\<rparr>"
  have a: "map rewound (snd (abs_ops ?xs [])) = [?f]" "fst (abs_ops ?xs []) = [Handle 0, Result (WriteSuccessful 3)]"
    by (simp_all add: rewound_def)
  from stream_read_delivers_files [OF memory.storage_axioms sample_library_fields(1,2) c sample_library_fields(3) x app]
  obtain h1 h2 h3 where
    s: "container_open memory_ops sample_library = Some (NoStatus, h1)" "run_ops memory_ops ?xs h1 = Some (fst (abs_ops ?xs []), h2)"
      "container_close memory_ops h2 = Some (NoStatus, h3)" and
    n: "\<forall>new. device new = device h3 \<and> virtualFiles new = [] \<and>
      currentFileIdentifier new = currentFileIdentifier sample_library \<and> (\<forall>r. fst (library.more new) r = []) \<longrightarrow>
      (\<exists>h4 h5 fs z. container_open memory_ops new = Some (NoStatus, h4) \<and> streamRead memory_ops ?app h4 = Some (NoStatus, h5) \<and>
        mset fs = mset (map rewound (snd (abs_ops ?xs []))) \<and>
        om_sorted (filesByName h5) \<and>
        (\<forall>name r. om_find name (filesByName h5) = Some r \<longleftrightarrow> r < length fs \<and> fileName (fs ! r) = name) \<and>
        (\<forall>r. fst z r = (if r < length fs then fileBytes (fs ! r) else [])) \<and>
        library.more h5 = fold ?finish (map snd (filesByName h5)) z)" by (elim exE conjE)
  let ?new = "object_on (device h3) ((\<lambda>_. []), [])"
  have "device ?new = device h3 \<and> virtualFiles ?new = [] \<and>
      currentFileIdentifier ?new = currentFileIdentifier sample_library \<and> (\<forall>r. fst (library.more ?new) r = [])"
    by (simp add: object_on_fields sample_library_fields)
  from n [rule_format, OF this] obtain h4 h5 fs z where
    r: "container_open memory_ops ?new = Some (NoStatus, h4)" "streamRead memory_ops ?app h4 = Some (NoStatus, h5)"
      "mset fs = mset [?f]" "\<forall>r. fst z r = (if r < length fs then fileBytes (fs ! r) else [])"
      "library.more h5 = fold ?finish (map snd (filesByName h5)) z" unfolding a(1) by blast
  have z: "fst (fold ?finish m z) = fst z" for m by (induction m arbitrary: z) simp_all
  have "fst (library.more h5) 0 = [1, 2, 3]" using r(3,4) unfolding r(5) z by simp
  with s r(1,2) show ?thesis unfolding a(2) by (intro exI conjI)
qed

text \<open>
  C4. The command line tool, end to end: a run that imports files into a container, on a file that is
  empty, succeeds without a message and leaves the rest of the disk alone, and a later run that
  exports all files, on any disk with that container, succeeds and restores exactly the imported
  files with the bytes they had, and no others. The disk has no faults, the
  names fit the format and differ from that of the container and from the help switches.
\<close>
theorem ic_import_export:
  assumes s: "faults s = (\<lambda>_. None)" "disk s c = Some []" and c: "\<not> (c \<noteq> [] \<and> hd c = CHR 0x2D)"
    and names: "distinct names" "\<forall>f \<in> set names. disk s f = Some (data f) \<and> f \<noteq> c \<and> c_string f \<and> length f \<le> 118"
      "set names \<inter> {''-h'', ''--help'', ''-?''} = {}"
    and room: "sum_list (map (\<lambda>f. import_cells (data f)) names) + 8 * length names \<le> 134217000"
  shows "\<exists>t. ic_main (p # c # concat (map (\<lambda>f. [''-i'', f]) names)) (tool_on unset s seed uninit strerror) = Some (0, t) \<and>
    cerr t = [] \<and> (\<forall>n. n \<noteq> c \<longrightarrow> disk (io (device (lib t))) n = disk s n) \<and>
    (\<forall>s' p' unset' seed' uninit'. faults s' = (\<lambda>_. None) \<and> disk s' c = disk (io (device (lib t))) c \<longrightarrow>
      (\<exists>t'. ic_main [p', c, ''-X''] (tool_on unset' s' seed' uninit' strerror) = Some (0, t') \<and> cerr t' = [] \<and>
         (\<forall>f \<in> set names. disk (io (device (lib t'))) f = Some (data f)) \<and>
         (\<forall>n. n \<notin> set names \<and> n \<noteq> c \<longrightarrow> disk (io (device (lib t'))) n = disk s' n)))"
proof -
  let ?fs = "map (\<lambda>f. \<lparr>fileName = f, fileBytes = data f, filePosition = length (data f)\<rparr>) names"
  let ?n = "sum_list (map (\<lambda>f. import_cells (data f)) names) + 4 * length names"
  have "?n \<le> 134217000" using room by simp
  from import_run_law [OF s c names this] obtain t bytes where
    t: "ic_main (p # c # concat (map (\<lambda>f. [''-i'', f]) names)) (tool_on unset s seed uninit strerror) = Some (0, t)"
      "cerr t = []" "disk (io (device (lib t))) = (disk s)(c := Some bytes)" "closed_container fileIdentifier ?n ?fs bytes" by blast
  have fs: "?n + 4 * length ?fs \<le> 134217000" "c \<notin> fileName ` set ?fs" "fileName ` set ?fs = set names"
    using room names(2) by (auto simp: image_image)
  have "\<exists>t'. ic_main [p', c, ''-X''] (tool_on unset' s' seed' uninit' strerror) = Some (0, t') \<and> cerr t' = [] \<and>
      (\<forall>f \<in> set names. disk (io (device (lib t'))) f = Some (data f)) \<and>
      (\<forall>n. n \<notin> set names \<and> n \<noteq> c \<longrightarrow> disk (io (device (lib t'))) n = disk s' n)"
    if "faults s' = (\<lambda>_. None)" "disk s' c = disk (io (device (lib t))) c" for s' p' unset' seed' uninit'
  proof -
    have "disk s' c = Some bytes" using that(2) t(3) by simp
    from export_run_law [OF that(1) this c t(4) fs(1,2), of p' unset' seed' uninit' strerror] show ?thesis
      unfolding fs(3) by auto
  qed
  with t(1-3) show ?thesis by (intro exI [of _ t]) simp
qed

definition sample_disk :: stdio where
  "sample_disk = \<lparr>disk = [''c'' \<mapsto> [], ''a'' \<mapsto> [1, 2, 3], ''b'' \<mapsto> []], faults = (\<lambda>_. None), calls = 0, errno = 0\<rparr>"

theorem ic_import_export_witness:
  "\<exists>t t'. ic_main [''ic'', ''c'', ''-i'', ''a'', ''-i'', ''b''] (tool_on 0 sample_disk 0 (\<lambda>_. 0) (\<lambda>_. [])) = Some (0, t) \<and>
    ic_main [''ic'', ''c'', ''-X''] (tool_on 5 (sample_disk\<lparr>disk := (disk (io (device (lib t))))(''a'' := None)\<rparr>)
      3 (\<lambda>_. 255) (\<lambda>_. [])) = Some (0, t') \<and>
    disk (io (device (lib t'))) ''a'' = Some [1, 2, 3]"
proof -
  let ?data = "\<lambda>f. if f = ''a'' then [1, 2, 3] else ([] :: byte list)"
  have s: "faults sample_disk = (\<lambda>_. None)" "disk sample_disk ''c'' = Some []" "\<not> (''c'' \<noteq> [] \<and> hd ''c'' = CHR 0x2D)"
    "distinct [''a'', ''b'']"
    "\<forall>f \<in> set [''a'', ''b'']. disk sample_disk f = Some (?data f) \<and> f \<noteq> ''c'' \<and> c_string f \<and> length f \<le> 118"
    "set [''a'', ''b''] \<inter> {''-h'', ''--help'', ''-?''} = {}"
    "sum_list (map (\<lambda>f. import_cells (?data f)) [''a'', ''b'']) + 8 * length [''a'', ''b''] \<le> 134217000"
    by (simp_all add: sample_disk_def c_string_def import_cells_def)
  from ic_import_export [OF s, of "''ic''" 0 0 "\<lambda>_. 0" "\<lambda>_. []"] obtain t where
    t: "ic_main (''ic'' # ''c'' # concat (map (\<lambda>f. [''-i'', f]) [''a'', ''b''])) (tool_on 0 sample_disk 0 (\<lambda>_. 0) (\<lambda>_. [])) = Some (0, t)" and
    x: "\<forall>s' p' unset' seed' uninit'. faults s' = (\<lambda>_. None) \<and> disk s' ''c'' = disk (io (device (lib t))) ''c'' \<longrightarrow>
      (\<exists>t'. ic_main [p', ''c'', ''-X''] (tool_on unset' s' seed' uninit' (\<lambda>_. [])) = Some (0, t') \<and> cerr t' = [] \<and>
         (\<forall>f \<in> set [''a'', ''b'']. disk (io (device (lib t'))) f = Some (?data f)) \<and>
         (\<forall>n. n \<notin> set [''a'', ''b''] \<and> n \<noteq> ''c'' \<longrightarrow> disk (io (device (lib t'))) n = disk s' n))"
    by (elim exE conjE)
  let ?s = "sample_disk\<lparr>disk := (disk (io (device (lib t))))(''a'' := None)\<rparr>"
  have "faults ?s = (\<lambda>_. None) \<and> disk ?s ''c'' = disk (io (device (lib t))) ''c''" by (simp add: sample_disk_def)
  from x [rule_format, OF this, of "''ic''" 5 3 "\<lambda>_. 255"] obtain t' where
    "ic_main [''ic'', ''c'', ''-X''] (tool_on 5 ?s 3 (\<lambda>_. 255) (\<lambda>_. [])) = Some (0, t')"
    "\<forall>f \<in> set [''a'', ''b'']. disk (io (device (lib t'))) f = Some (?data f)" by (elim exE conjE)
  with t show ?thesis by (intro exI [of _ t] exI [of _ t']) simp
qed

text \<open>
  C5. \<open>write\<close> puts the caller's bytes over those from the position on, across chunks, chunk
  buffer and tail buffer, appends what reaches past the end, moves the position behind them
  and reports the full count; every other file of the container keeps its bytes, and the
  container grows by no more than the bytes in the tail buffer, those written and 4 cells.
\<close>
theorem virtual_file_write:
  fixes w :: "('d, 'z) container_scheme"
  assumes S: "storage K ok content cursor" and w: "ok (device w)" "in_space content used eof w"
    and room: "eof + rb_count (tailBuffer vf) + desiredCount + 132 < 134217728"
    and h: "holds (content (device w)) used vf data" "length data + desiredCount < 281474976710656"
    and name: "c_string (currentName vf)" "length (currentName vf) \<le> 118"
    and pos: "currentPosition vf \<le> length data" "desiredCount \<le> length caller" "desiredCount < 4294963200"
  shows "\<exists>used' eof' vf' w'. vf_write K scan caller desiredCount vf w = Some (WriteSuccessful desiredCount, vf', w') \<and>
    holds (content (device w')) used' vf' (overlay data (currentPosition vf) (take desiredCount caller)) \<and>
    currentPosition vf' = currentPosition vf + desiredCount \<and>
    in_space content used' eof' w' \<and> eof' + rb_count (tailBuffer vf') \<le> eof + rb_count (tailBuffer vf) + desiredCount + 4 \<and>
    (\<forall>other bytes. holds (content (device w)) used other bytes \<and> file_cells other \<inter> file_cells vf = {} \<longrightarrow>
      holds (content (device w')) used' other bytes \<and> file_cells other \<inter> file_cells vf' = {}) \<and>
    lastReportedStatus w' = WriteSuccessful desiredCount"
proof -
  from storage.vf_write_law [OF S w room h name pos, of scan] obtain used' eof' vf' w' where
    l: "vf_write K scan caller desiredCount vf w = Some (WriteSuccessful desiredCount, vf', w')"
      "holds (content (device w')) used' vf' (overlay data (currentPosition vf) (take desiredCount caller))"
      "currentPosition vf' = currentPosition vf + desiredCount"
      "advance ok content (rb_count (tailBuffer vf) + desiredCount + 4) (used, eof, vf, w) (used', eof', vf', w')"
      "eof' + rb_count (tailBuffer vf') \<le> eof + rb_count (tailBuffer vf) + desiredCount + 4"
      "lastReportedStatus w' = WriteSuccessful desiredCount" by (elim exE conjE)
  then have "in_space content used' eof' w'" by (simp add: advance_def)
  moreover have "\<forall>other bytes. holds (content (device w)) used other bytes \<and> file_cells other \<inter> file_cells vf = {} \<longrightarrow>
      holds (content (device w')) used' other bytes \<and> file_cells other \<inter> file_cells vf' = {}"
    using advance_other [OF l(4)] by blast
  ultimately show ?thesis using l by blast
qed

theorem virtual_file_write_witness:
  "\<exists>h h' vf' used'. container_open memory_ops sample_library = Some (NoStatus, h) \<and>
    vf_write memory_ops (\<lambda>_ _. None) [5, 6, 7] 3 sample_file h = Some (WriteSuccessful 3, vf', h') \<and>
    holds (mc_content (device h')) used' vf' [5, 6, 7]"
proof -
  obtain h where h: "container_open memory_ops sample_library = Some (NoStatus, h)" "mc_ok (device h)"
    "in_space mc_content {..< 1} 1 h" by (rule opened_sample)
  have "1 + rb_count (tailBuffer sample_file) + 3 + 132 < 134217728"
    "holds (mc_content (device h)) {..< 1} sample_file []" "length [] + 3 < (281474976710656 :: nat)"
    "c_string (currentName sample_file)" "length (currentName sample_file) \<le> 118"
    "currentPosition sample_file \<le> length []" "3 \<le> length [5, 6, 7 :: byte]" "3 < (4294963200 :: nat)"
    by (simp_all add: sample_file_fields c_string_def)
  from virtual_file_write [OF memory.storage_axioms h(2,3) this, of "\<lambda>_ _. None"] h(1) show ?thesis
    by (auto simp: sample_file_fields overlay_def numeral_3_eq_3)
qed

text \<open>
  C6. \<open>append\<close> puts the caller's bytes behind the others wherever the position was, moves the
  position to the new end, has written the stream start chunk, and leaves other files alone.
\<close>
theorem virtual_file_append:
  fixes w :: "('d, 'z) container_scheme"
  assumes S: "storage K ok content cursor" and w: "ok (device w)" "in_space content used eof w"
    and room: "eof + rb_count (tailBuffer vf) + desiredCount + 132 < 134217728"
    and h: "holds (content (device w)) used vf data" "length data + desiredCount < 281474976710656"
    and name: "c_string (currentName vf)" "length (currentName vf) \<le> 118"
    and x: "off + desiredCount \<le> length caller" "desiredCount < 4294963200"
  shows "\<exists>used' eof' vf' w'. vf_append K scan caller off desiredCount vf w = Some (WriteSuccessful desiredCount, vf', w') \<and>
    holds (content (device w')) used' vf' (data @ take desiredCount (drop off caller)) \<and>
    startChunkIndex vf' \<noteq> invalidFileIndex \<and> currentPosition vf' = length data + desiredCount \<and>
    in_space content used' eof' w' \<and> eof' + rb_count (tailBuffer vf') \<le> eof + rb_count (tailBuffer vf) + desiredCount + 4 \<and>
    (\<forall>other bytes. holds (content (device w)) used other bytes \<and> file_cells other \<inter> file_cells vf = {} \<longrightarrow>
      holds (content (device w')) used' other bytes \<and> file_cells other \<inter> file_cells vf' = {})"
proof -
  from storage.vf_append_law [OF S w room h name x, of scan] obtain used' eof' vf' w' where
    l: "vf_append K scan caller off desiredCount vf w = Some (WriteSuccessful desiredCount, vf', w')"
      "holds (content (device w')) used' vf' (data @ take desiredCount (drop off caller))"
      "startChunkIndex vf' \<noteq> invalidFileIndex" "currentPosition vf' = length data + desiredCount"
      "advance ok content (rb_count (tailBuffer vf) + desiredCount + 4) (used, eof, vf, w) (used', eof', vf', w')"
      "eof' + rb_count (tailBuffer vf') \<le> eof + rb_count (tailBuffer vf) + desiredCount + 4" by (elim exE conjE)
  then have "in_space content used' eof' w'" by (simp add: advance_def)
  moreover have "\<forall>other bytes. holds (content (device w)) used other bytes \<and> file_cells other \<inter> file_cells vf = {} \<longrightarrow>
      holds (content (device w')) used' other bytes \<and> file_cells other \<inter> file_cells vf' = {}"
    using advance_other [OF l(5)] by blast
  ultimately show ?thesis using l by blast
qed

theorem virtual_file_append_witness:
  "\<exists>h h' vf' used'. container_open memory_ops sample_library = Some (NoStatus, h) \<and>
    vf_append memory_ops (\<lambda>_ _. None) [5, 6, 7] 1 2 sample_file h = Some (WriteSuccessful 2, vf', h') \<and>
    holds (mc_content (device h')) used' vf' [6, 7] \<and> startChunkIndex vf' \<noteq> invalidFileIndex"
proof -
  obtain h where h: "container_open memory_ops sample_library = Some (NoStatus, h)" "mc_ok (device h)"
    "in_space mc_content {..< 1} 1 h" by (rule opened_sample)
  have "1 + rb_count (tailBuffer sample_file) + 2 + 132 < 134217728"
    "holds (mc_content (device h)) {..< 1} sample_file []" "length [] + 2 < (281474976710656 :: nat)"
    "c_string (currentName sample_file)" "length (currentName sample_file) \<le> 118"
    "1 + 2 \<le> length [5, 6, 7 :: byte]" "2 < (4294963200 :: nat)"
    by (simp_all add: sample_file_fields c_string_def)
  note append = virtual_file_append [OF memory.storage_axioms h(2,3) this, of "\<lambda>_ _. None"]
  have "[] @ take 2 (drop 1 [5, 6, 7 :: byte]) = [6, 7]" by (simp add: numeral_2_eq_2)
  with append h(1) show ?thesis by metis
qed

text \<open>
  C7. \<open>read\<close> fills the front of the caller's array with the bytes from the position on, as many
  as were asked for or are there, reports that number, advances the position by it, and leaves
  the rest of the array, the file's bytes and the other files as they were, whatever mixture
  of chunks, a changed chunk buffer and the tail buffer the bytes come from.
\<close>
theorem virtual_file_read:
  fixes w :: "('d, 'z) container_scheme"
  assumes S: "storage K ok content cursor" and w: "ok (device w)" "in_space content used eof w" "eof < 134217728"
    and h: "holds (content (device w)) used vf data"
    and pos: "currentPosition vf \<le> length data" "desiredCount < 4294967295"
    and m: "m = min desiredCount (length data - currentPosition vf)" "m \<le> length caller"
  shows "\<exists>vf' w'. vf_read K scan desiredCount caller vf w =
      Some (ReadSuccessful m, take m (drop (currentPosition vf) data) @ drop m caller, vf', w') \<and>
    holds (content (device w')) used vf' data \<and> currentPosition vf' = currentPosition vf + m \<and>
    in_space content used eof w' \<and>
    (\<forall>other bytes. holds (content (device w)) used other bytes \<and> file_cells other \<inter> file_cells vf = {} \<longrightarrow>
      holds (content (device w')) used other bytes \<and> file_cells other \<inter> file_cells vf' = {})"
proof -
  from storage.vf_read_law [OF S w h pos m, of scan] obtain vf' w' where
    l: "vf_read K scan desiredCount caller vf w =
        Some (ReadSuccessful m, overlay caller 0 (take m (drop (currentPosition vf) data)), vf', w')"
      "holds (content (device w')) used vf' data" "currentPosition vf' = currentPosition vf + m"
      "advance ok content 0 (used, eof, vf, w) (used, eof, vf', w')" by (elim exE conjE)
  have "length (take m (drop (currentPosition vf) data)) = m" using m(1) by simp
  then have "overlay caller 0 (take m (drop (currentPosition vf) data)) = take m (drop (currentPosition vf) data) @ drop m caller"
    by (simp only: overlay_def) simp
  moreover have "in_space content used eof w'" using l(4) by (simp add: advance_def)
  moreover have "\<forall>other bytes. holds (content (device w)) used other bytes \<and> file_cells other \<inter> file_cells vf = {} \<longrightarrow>
      holds (content (device w')) used other bytes \<and> file_cells other \<inter> file_cells vf' = {}"
    using advance_other [OF l(4)] by blast
  ultimately show ?thesis using l(1-3) by auto
qed

text \<open>For the instance: a file whose bytes are in a chunk and in the tail buffer.\<close>

lemma sample_file_appended:
  obtains h h' vf used eof where "container_open memory_ops sample_library = Some (NoStatus, h)"
    "vf_append memory_ops (\<lambda>_ _. None) (replicate 5000 7) 0 5000 sample_file h = Some (WriteSuccessful 5000, vf, h')"
    "mc_ok (device h')" "in_space mc_content used eof h'" "eof < 6000"
    "holds (mc_content (device h')) used vf (replicate 5000 7)" "currentName vf = ''a''" "rb_count (tailBuffer vf) \<le> 4096"
proof -
  obtain h where h: "container_open memory_ops sample_library = Some (NoStatus, h)" "mc_ok (device h)"
    "in_space mc_content {..< 1} 1 h" by (rule opened_sample)
  have pre: "1 + rb_count (tailBuffer sample_file) + 5000 + 132 < 134217728"
    "holds (mc_content (device h)) {..< 1} sample_file []" "length [] + 5000 < (281474976710656 :: nat)"
    "c_string (currentName sample_file)" "length (currentName sample_file) \<le> 118"
    "0 + 5000 \<le> length (replicate 5000 (7 :: byte))" "5000 < (4294963200 :: nat)"
    by (simp_all add: sample_file_fields c_string_def)
  from memory.vf_append_law [OF h(2,3) pre, of "\<lambda>_ _. None"] obtain used eof vf h' where
    a: "vf_append memory_ops (\<lambda>_ _. None) (replicate 5000 7) 0 5000 sample_file h = Some (WriteSuccessful 5000, vf, h')"
      "holds (mc_content (device h')) used vf ([] @ take 5000 (drop 0 (replicate 5000 7)))"
      "advance mc_ok mc_content (rb_count (tailBuffer sample_file) + 5000 + 4) ({..< 1}, 1, sample_file, h) (used, eof, vf, h')"
    by (elim exE conjE)
  from a(2) obtain D where "holds_stored (mc_content (device h')) used vf D" by (rule holds_cases)
  then have "rb_count (tailBuffer vf) \<le> 4096" using tail_count by (simp add: holds_stored_def)
  with a(2,3) show thesis
    by (intro that [OF h(1) a(1), of used eof]) (simp_all add: advance_def sample_file_fields)
qed

theorem virtual_file_read_witness:
  "\<exists>h h' vf vf' h''. container_open memory_ops sample_library = Some (NoStatus, h) \<and>
    vf_append memory_ops (\<lambda>_ _. None) (replicate 5000 7) 0 5000 sample_file h = Some (WriteSuccessful 5000, vf, h') \<and>
    vf_read memory_ops (\<lambda>_ _. None) 3 [1, 1, 1, 1] (vf\<lparr>currentPosition := 4998\<rparr>) h' =
      Some (ReadSuccessful 2, [7, 7, 1, 1], vf', h'')"
proof -
  obtain h h' vf used eof where a: "container_open memory_ops sample_library = Some (NoStatus, h)"
    "vf_append memory_ops (\<lambda>_ _. None) (replicate 5000 7) 0 5000 sample_file h = Some (WriteSuccessful 5000, vf, h')"
    "mc_ok (device h')" "in_space mc_content used eof h'" "eof < 6000"
    "holds (mc_content (device h')) used vf (replicate 5000 7)" by (rule sample_file_appended)
  let ?vf = "vf\<lparr>currentPosition := 4998\<rparr>"
  have pre: "eof < 134217728" "holds (mc_content (device h')) used ?vf (replicate 5000 7)"
    "currentPosition ?vf \<le> length (replicate 5000 (7 :: byte))" "3 < (4294967295 :: nat)"
    "2 = min 3 (length (replicate 5000 (7 :: byte)) - currentPosition ?vf)" "2 \<le> length [1, 1, 1, 1 :: byte]"
    using a(5,6) by simp_all
  have "take 2 (drop (currentPosition ?vf) (replicate 5000 (7 :: byte))) @ drop 2 [1, 1, 1, 1] = [7, 7, 1, 1]"
    by (simp add: numeral_2_eq_2)
  with virtual_file_read [OF memory.storage_axioms a(3,4) pre, of "\<lambda>_ _. None"] a(1,2) show ?thesis by metis
qed

text \<open>
  C8. \<open>flush\<close> returns, whatever is in the caches, without an error; then the tail buffer is
  empty, no change is left in the chunk buffer, and the file's bytes are in its data chunks on
  the medium one after the other (\<open>stored\<close>), its name and stream identifier in its stream
  start chunk. The bytes, the position and the other files are unchanged.
\<close>
theorem virtual_file_flush:
  fixes w :: "('d, 'z) container_scheme"
  assumes S: "storage K ok content cursor" and w: "ok (device w)" "in_space content used eof w"
    and room: "eof + rb_count (tailBuffer vf) + 132 < 134217728"
    and h: "holds (content (device w)) used vf data"
    and name: "c_string (currentName vf)" "length (currentName vf) \<le> 118"
  shows "\<exists>used' eof' vf' w'. vf_flush K vf w = Some (NoStatus, vf', w') \<and>
    rb_empty (tailBuffer vf') \<and> \<not> chunkBufferFlushNeeded vf' \<and>
    stored (content (device w')) (currentStreamIdentifier vf) 0 (chunkMap vf') data \<and>
    start_chunk_at (content (device w')) (startChunkIndex vf') (currentStreamIdentifier vf) (currentName vf) \<and>
    currentPosition vf' = currentPosition vf \<and> in_space content used' eof' w' \<and>
    (\<forall>other bytes. holds (content (device w)) used other bytes \<and> file_cells other \<inter> file_cells vf = {} \<longrightarrow>
      holds (content (device w')) used' other bytes \<and> file_cells other \<inter> file_cells vf' = {})"
proof -
  from storage.vf_flush_law [OF S w room h name] obtain used' eof' vf' w' where
    l: "vf_flush K vf w = Some (NoStatus, vf', w')" "holds_stored (content (device w')) used' vf' data"
      "rb_count (tailBuffer vf') = 0" "\<not> chunkBufferFlushNeeded vf'" "startChunkIndex vf' \<noteq> invalidFileIndex"
      "currentPosition vf' = currentPosition vf"
      "advance ok content (rb_count (tailBuffer vf) + 4) (used, eof, vf, w) (used', eof', vf', w')" by (elim exE conjE)
  have f: "in_space content used' eof' w'" "currentName vf' = currentName vf"
    "currentStreamIdentifier vf' = currentStreamIdentifier vf" using l(7) by (simp_all add: advance_def)
  have "stored (content (device w')) (currentStreamIdentifier vf) 0 (chunkMap vf') data"
    "start_chunk_at (content (device w')) (startChunkIndex vf') (currentStreamIdentifier vf) (currentName vf)"
    using l(2,5) f by (simp_all add: holds_stored_def)
  moreover have "rb_empty (tailBuffer vf')" using l(3) by (simp add: rb_empty_def rb_count_def)
  moreover have "\<forall>other bytes. holds (content (device w)) used other bytes \<and> file_cells other \<inter> file_cells vf = {} \<longrightarrow>
      holds (content (device w')) used' other bytes \<and> file_cells other \<inter> file_cells vf' = {}"
    using advance_other [OF l(7)] by blast
  ultimately show ?thesis using l(1,4,6) f(1) by blast
qed

theorem virtual_file_flush_witness:
  "\<exists>h h' vf vf' h''. container_open memory_ops sample_library = Some (NoStatus, h) \<and>
    vf_append memory_ops (\<lambda>_ _. None) (replicate 5000 7) 0 5000 sample_file h = Some (WriteSuccessful 5000, vf, h') \<and>
    vf_flush memory_ops vf h' = Some (NoStatus, vf', h'') \<and> rb_empty (tailBuffer vf') \<and>
    stored (mc_content (device h'')) (currentStreamIdentifier vf) 0 (chunkMap vf') (replicate 5000 7)"
proof -
  obtain h h' vf used eof where a: "container_open memory_ops sample_library = Some (NoStatus, h)"
    "vf_append memory_ops (\<lambda>_ _. None) (replicate 5000 7) 0 5000 sample_file h = Some (WriteSuccessful 5000, vf, h')"
    "mc_ok (device h')" "in_space mc_content used eof h'" "eof < 6000"
    "holds (mc_content (device h')) used vf (replicate 5000 7)" "currentName vf = ''a''" "rb_count (tailBuffer vf) \<le> 4096"
    by (rule sample_file_appended)
  have pre: "eof + rb_count (tailBuffer vf) + 132 < 134217728" "c_string (currentName vf)" "length (currentName vf) \<le> 118"
    using a(5,7,8) by (simp_all add: c_string_def)
  from virtual_file_flush [OF memory.storage_axioms a(3,4) pre(1) a(6) pre(2,3)] a(1,2) show ?thesis by blast
qed

text \<open>
  C9. Opening a container on an empty medium makes it a container of the given identifier: no
  files, all its space in use by the header, ready for writers. Any later container object
  that opens the medium and checks identifiers is let in exactly when it asks for that
  identifier, with format version 1.0 and the traversal starting behind the header; otherwise
  it gets \<open>HeaderIdentifierInvalid\<close> and stays closed. Neither changes the medium.
\<close>
theorem container_open_roundtrip:
  fixes w :: "('d, 'z) container_scheme" and w2 :: "('d, 'y) container_scheme"
  assumes S: "storage K ok content cursor"
    and w: "ok (device w)" "content (device w) = []" "length (currentFileIdentifier w) \<le> 4088"
  defines "n \<equiv> fit_size (length (currentFileIdentifier w) + 8) div 32"
  shows "\<exists>w'. container_open K w = Some (NoStatus, w') \<and> in_space content {..< n} n w' \<and> filesByName w' = [] \<and>
    (device w2 = device w' \<and> \<not> ignoreIdentifierOnOpen w2 \<longrightarrow>
      (if currentFileIdentifier w2 = currentFileIdentifier w
       then \<exists>w3. container_open K w2 = Some (NoStatus, w3) \<and> content (device w3) = content (device w') \<and>
         startingFileIndex w3 = n \<and> currentMinorVersion w3 = 0 \<and> \<not> fileMapsPopulated w3
       else \<exists>w3. container_open K w2 = Some (HeaderIdentifierInvalid, w3) \<and> content (device w3) = content (device w') \<and>
         startingFileIndex w3 = invalidFileIndex \<and> currentMinorVersion w3 = 255))"
proof -
  from storage.container_open_new_law [OF S w] obtain w' where
    o1: "container_open K w = Some (NoStatus, w')" "ok (device w')" "length (content (device w')) = 32 * n"
      "file_header_at (content (device w')) (currentFileIdentifier w)" "in_space content {..< n} n w'" "filesByName w' = []"
    unfolding n_def by metis
  have n: "n \<le> 128" "0 < n" using fit_size_cells_bounds [of "length (currentFileIdentifier w) + 8"] by (simp_all add: n_def)
  have "if currentFileIdentifier w2 = currentFileIdentifier w
       then \<exists>w3. container_open K w2 = Some (NoStatus, w3) \<and> content (device w3) = content (device w') \<and>
         startingFileIndex w3 = n \<and> currentMinorVersion w3 = 0 \<and> \<not> fileMapsPopulated w3
       else \<exists>w3. container_open K w2 = Some (HeaderIdentifierInvalid, w3) \<and> content (device w3) = content (device w') \<and>
         startingFileIndex w3 = invalidFileIndex \<and> currentMinorVersion w3 = 255"
    if w2: "device w2 = device w'" "\<not> ignoreIdentifierOnOpen w2"
  proof -
    have pre: "ok (device w2)" "length (content (device w2)) \<le> storage_limit"
      "file_header_at (content (device w2)) (currentFileIdentifier w)"
      using o1(2-4) n(1) w2(1) by (simp_all add: storage_limit_def)
    have "ignoreIdentifierOnOpen w2 \<longrightarrow> currentFileIdentifier w = currentFileIdentifier w2" using w2(2) by simp
    from storage.container_open_existing_law [OF S pre(1,2) this pre(3)] obtain w3 where
      e: "container_open K w2 =
          Some (if currentFileIdentifier w = currentFileIdentifier w2 then NoStatus else HeaderIdentifierInvalid, w3)"
        "content (device w3) = content (device w2)"
        "currentFileIdentifier w = currentFileIdentifier w2 \<longrightarrow> startingFileIndex w3 = n \<and>
          currentMinorVersion w3 = containerMinorVersion \<and> fileMapsPopulated w3 = (length (content (device w2)) = n)"
        "currentFileIdentifier w \<noteq> currentFileIdentifier w2 \<longrightarrow> startingFileIndex w3 = invalidFileIndex \<and>
          currentMinorVersion w3 = 255 \<and> \<not> fileMapsPopulated w3" unfolding n_def by metis
    have "length (content (device w2)) \<noteq> n" using o1(3) n(2) w2(1) by simp
    with e w2(1) show ?thesis by auto
  qed
  with o1 show ?thesis by blast
qed

theorem container_open_roundtrip_witness:
  "\<exists>w' w3. container_open memory_ops sample_library = Some (NoStatus, w') \<and>
    container_open memory_ops (ContainerImpl (device w') 0 (\<lambda>_. 0) ''demo'' False) = Some (NoStatus, w3) \<and>
    startingFileIndex w3 = 1"
proof -
  have n: "fit_size (length (currentFileIdentifier sample_library) + 8) div 32 = 1"
    by (simp add: sample_library_fields fit_size_def)
  have c: "length (currentFileIdentifier sample_library) \<le> 4088" by (simp add: sample_library_fields)
  obtain w' where w': "container_open memory_ops sample_library = Some (NoStatus, w')" by (rule opened_sample)
  let ?w2 = "ContainerImpl (device w') 0 (\<lambda>_. 0) ''demo'' False"
  have "device ?w2 = device w'" "\<not> ignoreIdentifierOnOpen ?w2" "currentFileIdentifier ?w2 = currentFileIdentifier sample_library"
    by (simp_all add: ContainerImpl_def sample_library_fields)
  with container_open_roundtrip [OF memory.storage_axioms sample_library_fields(1,2) c, of ?w2] w' n
  show ?thesis by (auto split: if_splits)
qed

text \<open>
  C10. The search for a stream identifier ends, for any map of fewer than \<open>2 ^ 31\<close> files, with the
  lowest identifier that is not in use, which fits the 31 bits a chunk header has for it.
\<close>
theorem stream_identifier_search:
  assumes "length m < 2147483648"
  shows "\<exists>k. search_identifier 0 m = Some k \<and> k \<notin> om_keys m \<and> (\<forall>j < k. j \<in> om_keys m) \<and> k < 2147483648"
proof -
  obtain k where k: "k \<notin> om_keys m" "\<forall>j < k. j \<in> om_keys m" "k \<le> length m" by (rule unused_identifier)
  with assms search_identifier_least [of k m 0] show ?thesis by auto
qed

theorem stream_identifier_search_witness: "\<exists>k. search_identifier 0 [(0, 5), (1, 6), (3, 7)] = Some k \<and> k = 2"
proof -
  from stream_identifier_search [of "[(0, 5), (1, 6), (3, 7 :: nat)]"] obtain k where
    "search_identifier 0 [(0, 5), (1, 6), (3, 7)] = Some k" "k \<notin> {0, 1, 3}" "\<forall>j < k. j \<in> {0, 1, 3}" by auto
  moreover from this(3) have "\<not> 2 < k" by force
  moreover have "k \<noteq> 0" "k \<noteq> 1" using calculation(2) by simp_all
  ultimately have "search_identifier 0 [(0, 5), (1, 6), (3, 7)] = Some k \<and> k = 2" by simp
  then show ?thesis by blast
qed

text \<open>Chunks that follow each other without gaps, each with a payload that fits a chunk.\<close>

fun contiguous :: "nat \<Rightarrow> (nat, chunk_map_data) omap \<Rightarrow> bool" where
  "contiguous off [] \<longleftrightarrow> True"
| "contiguous off ((k, d) # m) \<longleftrightarrow>
     k = off \<and> 0 < chunkPayloadSize d \<and> chunkPayloadSize d \<le> 4082 \<and> contiguous (off + chunkPayloadSize d) m"

definition well_formed_file :: "virtual_file \<Rightarrow> bool" where
  "well_formed_file vf \<longleftrightarrow>
     rb_ok (tailBuffer vf) \<and> bufferLength (tailBuffer vf) = tailBufferSize \<and>
     (case chunkBuffer vf of None \<Rightarrow> True | Some cb \<Rightarrow> length cb = chunkBufferSize) \<and>
     (case currentChunk vf of None \<Rightarrow> \<not> chunkBufferFlushNeeded vf
      | Some k \<Rightarrow> k \<in> om_keys (chunkMap vf) \<and> chunkBuffer vf \<noteq> None) \<and>
     contiguous 0 (chunkMap vf) \<and> currentPosition vf \<le> payload_total (chunkMap vf) + rb_count (tailBuffer vf)"

lemma stored_contiguous: "stored bytes sid off m data \<Longrightarrow> contiguous off m"
proof (induction bytes sid off m data rule: stored.induct)
  case (2 bytes sid off k d m data)
  from "2.prems" have "chunkPayloadSize d \<le> 4082"
    using stored_mid(4) [of bytes sid off "[]" k d m data] by (simp only: append_Nil)
  with 2 show ?case by simp
qed simp

lemma file_like_well_formed:
  assumes "file_like bytes used vf f"
  shows "well_formed_file vf"
proof -
  from assms obtain D where D: "holds_stored bytes used vf D"
    "length D + rb_count (tailBuffer vf) = length (fileBytes f)" "currentPosition vf \<le> length (fileBytes f)"
    by (auto simp: file_like_def elim: holds_cases)
  have s: "stored bytes (currentStreamIdentifier vf) 0 (chunkMap vf) D" "buffer_ok vf D" "tail_ok (tailBuffer vf)"
    using D(1) by (simp_all add: holds_stored_def)
  have "om_find k (chunkMap vf) = Some d \<Longrightarrow> k \<in> om_keys (chunkMap vf)" for k d
    by (metis om_find_None_iff option.distinct(1))
  with s(2) have "(case chunkBuffer vf of None \<Rightarrow> True | Some cb \<Rightarrow> length cb = chunkBufferSize) \<and>
     (case currentChunk vf of None \<Rightarrow> \<not> chunkBufferFlushNeeded vf
      | Some k \<Rightarrow> k \<in> om_keys (chunkMap vf) \<and> chunkBuffer vf \<noteq> None)"
    unfolding buffer_ok_def by (auto split: option.splits)
  then show ?thesis
    using s(3) stored_contiguous [OF s(1)] stored_length [OF s(1)] D(2,3)
    by (simp add: well_formed_file_def tail_ok_def)
qed

text \<open>
  C11. In every state that such calls reach, every file object is well formed: its ring buffer
  has 4096 entries and consistent indexes, the chunk buffer 4096 bytes, the current chunk is
  one of the map, the map's chunks follow each other from offset 0 with 1 to 4082 bytes each,
  and the position is inside the file; and no two files share a cell of the medium.
\<close>
theorem reachable_files_well_formed:
  fixes h :: "'d library"
  assumes S: "storage K ok content cursor"
    and h: "ok (device h)" "content (device h) = []" "length (currentFileIdentifier h) \<le> 4088" "virtualFiles h = []"
    and xs: "all_callable xs []" "sum_list (map op_cells xs) \<le> 134217000"
    and run: "container_open K h = Some (NoStatus, h1)" "run_ops K xs h1 = Some (rs, h2)"
  shows "(\<forall>vf \<in> set (virtualFiles h2). well_formed_file vf) \<and>
    (\<forall>i < length (virtualFiles h2). \<forall>j < i. file_cells (virtualFiles h2 ! i) \<inter> file_cells (virtualFiles h2 ! j) = {})"
proof -
  from storage.open_files_like [OF S h] run(1) obtain n where o1: "files_like ok content {..< n} n 0 [] h1" by auto
  have "0 + sum_list (map op_cells xs) \<le> 134217000" using xs(2) by simp
  from storage.run_ops_law [OF S o1 this xs(1)] run(2) obtain used eof fs where
    f: "files_like ok content used eof (0 + sum_list (map op_cells xs)) fs h2" by auto
  then have "file_like (content (device h2)) used (virtualFiles h2 ! i) (fs ! i)" if "i < length (virtualFiles h2)" for i
    using that by (simp add: files_like_def)
  then have "\<forall>vf \<in> set (virtualFiles h2). well_formed_file vf"
    using file_like_well_formed by (metis in_set_conv_nth)
  moreover have "\<forall>i < length (virtualFiles h2). \<forall>j < i. file_cells (virtualFiles h2 ! i) \<inter> file_cells (virtualFiles h2 ! j) = {}"
    using f by (auto simp: files_like_def)
  ultimately show ?thesis ..
qed

theorem reachable_files_well_formed_witness:
  "\<exists>h1 h2. container_open memory_ops sample_library = Some (NoStatus, h1) \<and>
    run_ops memory_ops [Create ''a'', Append 0 [1, 2, 3], Flush 0] h1 =
      Some ([Handle 0, Result (WriteSuccessful 3), Result NoStatus], h2) \<and>
    (\<forall>vf \<in> set (virtualFiles h2). well_formed_file vf)"
proof -
  let ?xs = "[Create ''a'', Append 0 [1, 2, 3], Flush 0]"
  have c: "length (currentFileIdentifier sample_library) \<le> 4088" by (simp add: sample_library_fields)
  have x: "all_callable ?xs []" "0 + sum_list (map op_cells ?xs) \<le> 134217000" "sum_list (map op_cells ?xs) \<le> 134217000"
    by (simp_all add: c_string_def)
  obtain h1 where h1: "container_open memory_ops sample_library = Some (NoStatus, h1)"
    "files_like mc_ok mc_content {..< 1} 1 0 [] h1" by (rule opened_sample)
  from memory.run_ops_law [OF h1(2) x(2,1)] obtain h2 where
    r: "run_ops memory_ops ?xs h1 = Some ([Handle 0, Result (WriteSuccessful 3), Result NoStatus], h2)" by auto
  from reachable_files_well_formed [OF memory.storage_axioms sample_library_fields(1,2) c sample_library_fields(3) x(1,3) h1(1) r]
  show ?thesis using h1(1) r by blast
qed

text \<open>
  C12. The medium grows no further than the calls account for: 32 bytes for every cell, at most
  128 of them for the header, one for every byte written and 4 for every stream start chunk;
  with the budget of the format the size of the container stays below 4 GiB, where positions
  and file indexes are exact.
\<close>
theorem container_growth_bound:
  fixes h :: "'d library"
  assumes S: "storage K ok content cursor"
    and h: "ok (device h)" "content (device h) = []" "length (currentFileIdentifier h) \<le> 4088" "virtualFiles h = []"
    and xs: "all_callable xs []" "sum_list (map op_cells xs) \<le> 134217000"
    and run: "container_open K h = Some (NoStatus, h1)" "run_ops K xs h1 = Some (rs, h2)"
  shows "length (content (device h2)) \<le> 32 * (128 + sum_list (map op_cells xs)) \<and>
    container_size K h2 = Some (int (length (content (device h2)))) \<and> length (content (device h2)) < 4294967296"
proof -
  from storage.open_files_like [OF S h] run(1) obtain n where o1: "files_like ok content {..< n} n 0 [] h1" by auto
  have "0 + sum_list (map op_cells xs) \<le> 134217000" using xs(2) by simp
  from storage.run_ops_law [OF S o1 this xs(1)] run(2) obtain used eof fs where
    f: "ok (device h2)" "length (content (device h2)) = 32 * eof" "eof \<le> 128 + sum_list (map op_cells xs)"
    by (auto simp: files_like_def in_space_def)
  then have "length (content (device h2)) < storage_limit" using xs(2) by (simp add: storage_limit_def)
  with storage.size_law [OF S f(1)] f show ?thesis by (simp add: container_size_def storage_limit_def)
qed

theorem container_growth_bound_witness:
  "\<exists>h1 h2. container_open memory_ops sample_library = Some (NoStatus, h1) \<and>
    run_ops memory_ops [Create ''b'', Append 0 [1, 2]] h1 = Some ([Handle 0, Result (WriteSuccessful 2)], h2) \<and>
    length (mc_content (device h2)) \<le> 4416"
proof -
  let ?xs = "[Create ''b'', Append 0 [1, 2]]"
  have c: "length (currentFileIdentifier sample_library) \<le> 4088" by (simp add: sample_library_fields)
  have x: "all_callable ?xs []" "0 + sum_list (map op_cells ?xs) \<le> 134217000" "sum_list (map op_cells ?xs) \<le> 134217000"
    "32 * (128 + sum_list (map op_cells ?xs)) = 4416"
    by (simp_all add: c_string_def)
  obtain h1 where h1: "container_open memory_ops sample_library = Some (NoStatus, h1)"
    "files_like mc_ok mc_content {..< 1} 1 0 [] h1" by (rule opened_sample)
  from memory.run_ops_law [OF h1(2) x(2,1)] obtain h2 where
    r: "run_ops memory_ops ?xs h1 = Some ([Handle 0, Result (WriteSuccessful 2)], h2)" by auto
  from container_growth_bound [OF memory.storage_axioms sample_library_fields(1,2) c sample_library_fields(3) x(1,3) h1(1) r]
  show ?thesis using h1(1) r unfolding x(4) by blast
qed

end
